(* ===== verification/Prelude.thy ===== *)
theory Prelude
  imports Complex_Main "HOL-Library.Signed_Division" "HOL-Library.Product_Lexorder"
    "HOL-Library.Option_ord" "HOL-Library.Monad_Syntax" "HOL-Library.Word"
begin

text \<open>
  Shared vocabulary of the development: the machine integers the service computes with, the
  decimal numbers of its amounts, the collections of facts the component proofs use, and
  generic lemmas on lists and options.

  \<^item> Rust's \<open>i64\<close> is \<^typ>\<open>int\<close> together with the range \<open>i64_ok\<close>; saturating, checked and
    clamping operations write the range out.  \<open>i128\<close> products of two \<open>i64\<close> values are exact.
    Rust's integer division truncates towards zero: \<open>sdiv\<close> of \<open>HOL-Library.Signed_Division\<close>.
  \<^item> \<open>rust_decimal::Decimal\<close> is a third-party crate.  Its values are rationals \<open>m / 10^e\<close>, so a
    decimal is a \<^typ>\<open>rat\<close>; comparison, \<open>min\<close> and negation are exact, and addition and
    subtraction are modelled as exact (the crate rounds a sum whose exact digits exceed its
    96-bit mantissa, which amounts and prices of up to 20 digits never reach).  The sign of a
    zero is not represented.  Multiplication and division can round and
    can overflow, and rounding to an integer has a mode: those three operations are the
    parameter record \<open>dec_ops\<close> of every definition that uses them.  The result \<^const>\<open>None\<close> of
    \<open>dmul\<close> is the overflow on which \<open>checked_mul\<close> returns \<open>None\<close> and \<open>*\<close> panics; the result
    \<^const>\<open>None\<close> of \<open>ddiv\<close> is the panic of \<open>/\<close>.
\<close>

section \<open>Collections of facts\<close>

named_theorems i64_simps \<open>range arithmetic on 64-bit integers\<close>
named_theorems dec_simps \<open>laws of decimal arithmetic\<close>
named_theorems eval_simps \<open>definitions unfolded to evaluate a closed run of the model\<close>

section \<open>64-bit signed integers\<close>

definition i64_min :: int where "i64_min = - 9223372036854775808"
definition i64_max :: int where "i64_max = 9223372036854775807"

definition i64_ok :: "int \<Rightarrow> bool" where
  "i64_ok x \<longleftrightarrow> i64_min \<le> x \<and> x \<le> i64_max"

text \<open>\<open>saturating_add\<close> and \<open>saturating_sub\<close> clamp the exact result.\<close>

definition i64_clamp :: "int \<Rightarrow> int" where
  "i64_clamp x = max i64_min (min i64_max x)"

definition i64_saturating_add :: "int \<Rightarrow> int \<Rightarrow> int" where
  "i64_saturating_add a b = i64_clamp (a + b)"

definition i64_saturating_sub :: "int \<Rightarrow> int \<Rightarrow> int" where
  "i64_saturating_sub a b = i64_clamp (a - b)"

text \<open>\<open>checked_add\<close>, \<open>checked_sub\<close> and \<open>i64::try_from\<close> refuse a result out of range.\<close>

definition i64_try_from :: "int \<Rightarrow> int option" where
  "i64_try_from x = (if i64_ok x then Some x else None)"

definition i64_checked_add :: "int \<Rightarrow> int \<Rightarrow> int option" where
  "i64_checked_add a b = i64_try_from (a + b)"

definition i64_checked_sub :: "int \<Rightarrow> int \<Rightarrow> int option" where
  "i64_checked_sub a b = i64_try_from (a - b)"

text \<open>\<open>as i64\<close>: two's complement truncation.\<close>

definition i64_wrap :: "int \<Rightarrow> int" where
  "i64_wrap x = (x - i64_min) mod 2 ^ 64 + i64_min"

text \<open>\<open>unwrap_or\<close> on an option.\<close>

definition unwrap_or :: "'a option \<Rightarrow> 'a \<Rightarrow> 'a" where
  "unwrap_or x d = (case x of None \<Rightarrow> d | Some v \<Rightarrow> v)"

lemma unwrap_or_simps [simp]: "unwrap_or None d = d" "unwrap_or (Some v) d = v"
  by (simp_all add: unwrap_or_def)

lemma i64_ok_clamp [simp]: "i64_ok (i64_clamp x)"
  by (simp add: i64_ok_def i64_clamp_def i64_min_def i64_max_def)

lemma i64_clamp_id [i64_simps]: "i64_ok x \<Longrightarrow> i64_clamp x = x"
  by (simp add: i64_ok_def i64_clamp_def)

lemma i64_clamp_mono: "x \<le> y \<Longrightarrow> i64_clamp x \<le> i64_clamp y"
  by (simp add: i64_clamp_def)

lemma i64_clamp_ge: "i64_ok a \<Longrightarrow> a \<le> x \<Longrightarrow> a \<le> i64_clamp x"
  using i64_clamp_mono[of a x] by (simp add: i64_simps)

lemma i64_wrap_id [i64_simps]: "i64_ok x \<Longrightarrow> i64_wrap x = x"
  by (simp add: i64_wrap_def i64_ok_def i64_min_def i64_max_def)

lemma i64_ok_wrap [simp]: "i64_ok (i64_wrap x)"
proof -
  have "0 \<le> (x - i64_min) mod 2 ^ 64" "(x - i64_min) mod 2 ^ 64 < (2 ^ 64 :: int)"
    by simp_all
  then show ?thesis by (simp add: i64_wrap_def i64_ok_def i64_min_def i64_max_def)
qed

lemma i64_try_from_Some [simp]: "i64_try_from x = Some y \<longleftrightarrow> i64_ok x \<and> y = x"
  by (auto simp: i64_try_from_def)

lemma i64_try_from_None [simp]: "i64_try_from x = None \<longleftrightarrow> \<not> i64_ok x"
  by (simp add: i64_try_from_def)

lemma i64_ok_try_from_or_max [simp]: "i64_ok (unwrap_or (i64_try_from x) i64_max)"
  by (simp add: i64_try_from_def i64_ok_def i64_min_def i64_max_def)

text \<open>Truncating division by a positive divisor.\<close>

lemma sdiv_nonneg: "0 \<le> (a::int) \<Longrightarrow> 0 < b \<Longrightarrow> a sdiv b = a div b"
  by (cases "a = 0") (simp_all add: signed_divide_int_def sgn_1_pos)

lemma sdiv_nonneg_ge0: "0 \<le> (a::int) \<Longrightarrow> 0 < b \<Longrightarrow> 0 \<le> a sdiv b"
  by (simp add: sdiv_nonneg pos_imp_zdiv_nonneg_iff)

lemma sdiv_mono_nonneg: "0 \<le> (a::int) \<Longrightarrow> a \<le> c \<Longrightarrow> 0 < b \<Longrightarrow> a sdiv b \<le> c sdiv b"
  by (simp add: sdiv_nonneg zdiv_mono1)

section \<open>Decimals\<close>

type_synonym decimal = rat

record dec_ops =
  dmul :: "decimal \<Rightarrow> decimal \<Rightarrow> decimal option"
  ddiv :: "decimal \<Rightarrow> decimal \<Rightarrow> decimal option"
  dround :: "decimal \<Rightarrow> int" \<comment> \<open>\<open>round_dp(0)\<close>, as the integer it denotes\<close>

text \<open>
  \<open>dec_repr\<close>: the finite set of values a \<open>Decimal\<close> can hold, as the crate documents it: a
  96-bit mantissa and a scale of at most 28 digits.  \<open>dec_laws\<close> is what the service relies on:
  a product or quotient that is such a value is returned exactly; a product whose magnitude is
  at most the largest such value does not overflow; any other product or quotient is rounded
  to at least 28 significant or fractional digits; dividing by zero panics; \<open>round_dp(0)\<close>
  returns a nearest integer and leaves an integer alone.
\<close>

definition dec_repr :: "decimal \<Rightarrow> bool" where
  "dec_repr v \<longleftrightarrow> (\<exists>m e. \<bar>m\<bar> < 2 ^ 96 \<and> e \<le> 28 \<and> v = of_int m / 10 ^ e)"

definition dec_max :: decimal where "dec_max = 79228162514264337593543950335"

definition dec_laws :: "dec_ops \<Rightarrow> bool" where
  "dec_laws D \<longleftrightarrow>
     (\<forall>x y. dec_repr (x * y) \<longrightarrow> dmul D x y = Some (x * y)) \<and>
     (\<forall>x y. \<bar>x * y\<bar> \<le> dec_max \<longrightarrow> dmul D x y \<noteq> None) \<and>
     (\<forall>x y. y \<noteq> 0 \<longrightarrow> dec_repr (x / y) \<longrightarrow> ddiv D x y = Some (x / y)) \<and>
     (\<forall>x. ddiv D x 0 = None) \<and>
     (\<forall>x y. y \<noteq> 0 \<longrightarrow> \<bar>x / y\<bar> \<le> dec_max \<longrightarrow> ddiv D x y \<noteq> None) \<and>
     (\<forall>x y z. dmul D x y = Some z \<longrightarrow> \<bar>z - x * y\<bar> \<le> (\<bar>x * y\<bar> + 1) / 10 ^ 27) \<and>
     (\<forall>x y z. ddiv D x y = Some z \<longrightarrow> \<bar>z - x / y\<bar> \<le> (\<bar>x / y\<bar> + 1) / 10 ^ 27) \<and>
     (\<forall>x. \<bar>of_int (dround D x) - x\<bar> \<le> 1 / 2)"

text \<open>The reference instance of the parameter: exact operations, used by the witnesses.\<close>

definition exact_dec :: dec_ops where
  "exact_dec = \<lparr>dmul = (\<lambda>x y. Some (x * y)),
                ddiv = (\<lambda>x y. if y = 0 then None else Some (x / y)),
                dround = (\<lambda>x. \<lfloor>x + 1 / 2\<rfloor>)\<rparr>"

lemma exact_dec_simps [simp]:
  "dmul exact_dec x y = Some (x * y)"
  "ddiv exact_dec x y = (if y = 0 then None else Some (x / y))"
  "dround exact_dec x = \<lfloor>x + 1 / 2\<rfloor>"
  by (simp_all add: exact_dec_def)

lemma floor_half_near: "\<bar>of_int \<lfloor>x + 1 / 2\<rfloor> - (x::rat)\<bar> \<le> 1 / 2"
  by linarith

lemma dec_laws_exact [simp]: "dec_laws exact_dec"
  using floor_half_near by (simp add: dec_laws_def)

lemma dec_reprI: "\<bar>m\<bar> < 2 ^ 96 \<Longrightarrow> e \<le> 28 \<Longrightarrow> v = of_int m / 10 ^ e \<Longrightarrow> dec_repr v"
  by (auto simp: dec_repr_def)

lemma dec_repr_of_int: "\<bar>m\<bar> < 2 ^ 96 \<Longrightarrow> dec_repr (of_int m)"
  by (rule dec_reprI[of m 0]) simp_all

lemma dmul_exact [dec_simps]: "dec_laws D \<Longrightarrow> dec_repr (x * y) \<Longrightarrow> dmul D x y = Some (x * y)"
  by (simp add: dec_laws_def)

lemma dmul_total [dec_simps]: "dec_laws D \<Longrightarrow> \<bar>x * y\<bar> \<le> dec_max \<Longrightarrow> \<exists>z. dmul D x y = Some z"
  by (auto simp: dec_laws_def)

lemma ddiv_exact [dec_simps]:
  "dec_laws D \<Longrightarrow> y \<noteq> 0 \<Longrightarrow> dec_repr (x / y) \<Longrightarrow> ddiv D x y = Some (x / y)"
  by (simp add: dec_laws_def)

lemma dmul_near: "dec_laws D \<Longrightarrow> dmul D x y = Some z \<Longrightarrow> \<bar>z - x * y\<bar> \<le> (\<bar>x * y\<bar> + 1) / 10 ^ 27"
  unfolding dec_laws_def by blast

lemma ddiv_near: "dec_laws D \<Longrightarrow> ddiv D x y = Some z \<Longrightarrow> \<bar>z - x / y\<bar> \<le> (\<bar>x / y\<bar> + 1) / 10 ^ 27"
  unfolding dec_laws_def by blast

lemma ddiv_total: "dec_laws D \<Longrightarrow> y \<noteq> 0 \<Longrightarrow> \<bar>x / y\<bar> \<le> dec_max \<Longrightarrow> \<exists>z. ddiv D x y = Some z"
  unfolding dec_laws_def by blast

lemma dround_near: "dec_laws D \<Longrightarrow> \<bar>of_int (dround D x) - x\<bar> \<le> 1 / 2"
  by (simp add: dec_laws_def)

lemma dround_of_int [dec_simps]:
  assumes "dec_laws D" shows "dround D (of_int m) = m"
proof -
  have "\<bar>of_int (dround D (of_int m)) - (of_int m :: rat)\<bar> \<le> 1 / 2"
    using assms by (rule dround_near)
  then have "\<bar>of_int (dround D (of_int m) - m) :: rat\<bar> < 1" by simp
  then have "\<bar>dround D (of_int m) - m\<bar> < 1" by linarith
  then show ?thesis by simp
qed

lemma dec_repr_i64_scale9: "i64_ok m \<Longrightarrow> dec_repr (of_int m / 1000000000)"
  by (rule dec_reprI[of m 9]) (auto simp: i64_ok_def i64_min_def i64_max_def)

text \<open>Evaluation of rounding on numerals.\<close>

lemma floor_rat_numeral [simp]: "\<lfloor>numeral a / numeral b :: rat\<rfloor> = numeral a div numeral b"
  using floor_divide_of_int_eq[of "numeral a" "numeral b", where ?'a = rat] by simp

lemma floor_rat_neg_numeral [simp]: "\<lfloor>- (numeral a / numeral b) :: rat\<rfloor> = - numeral a div numeral b"
  using floor_divide_of_int_eq[of "- numeral a" "numeral b", where ?'a = rat] by simp

lemma ceiling_rat_numeral [simp]: "\<lceil>numeral a / numeral b :: rat\<rceil> = - (- numeral a div numeral b)"
  by (simp add: ceiling_def)

text \<open>\<open>to_u64\<close> of an integral decimal: \<^const>\<open>None\<close> when negative or too large.\<close>

definition u64_max :: int where "u64_max = 18446744073709551615"

definition to_u64 :: "int \<Rightarrow> int option" where
  "to_u64 x = (if 0 \<le> x \<and> x \<le> u64_max then Some x else None)"

text \<open>\<open>trunc\<close>, \<open>ceil\<close> and \<open>fract\<close> of a decimal.\<close>

definition dec_trunc :: "decimal \<Rightarrow> int" where
  "dec_trunc x = (if 0 \<le> x then \<lfloor>x\<rfloor> else \<lceil>x\<rceil>)"

definition dec_fract :: "decimal \<Rightarrow> decimal" where
  "dec_fract x = x - of_int (dec_trunc x)"

section \<open>Identifiers\<close>

text \<open>
  A \<open>Uuid\<close> is 128 bits, ordered by its big-endian bytes: the unsigned order of a
  128-bit word.  \<open>Uuid::max()\<close> has every bit set.
\<close>

type_synonym uuid = "128 word"

definition uuid_max :: uuid where "uuid_max = - 1"

lemma uuid_le_max [simp]: "(u::uuid) \<le> uuid_max"
  by (simp add: uuid_max_def)

section \<open>Lists and options\<close>

text \<open>A loop over a list whose body may stop the whole computation with a panic.\<close>

fun fold_opt :: "('a \<Rightarrow> 's \<Rightarrow> 's option) \<Rightarrow> 'a list \<Rightarrow> 's \<Rightarrow> 's option" where
  "fold_opt f [] s = Some s"
| "fold_opt f (x # xs) s = Option.bind (f x s) (fold_opt f xs)"

lemma list_all2_origin: "list_all2 P xs ys \<Longrightarrow> y \<in> set ys \<Longrightarrow> \<exists>x\<in>set xs. P x y"
  by (induction rule: list_all2_induct) auto

lemma list_all2_image: "list_all2 P xs ys \<Longrightarrow> x \<in> set xs \<Longrightarrow> \<exists>y\<in>set ys. P x y"
  by (induction rule: list_all2_induct) auto

lemma fold_opt_invariant:
  assumes "fold_opt f xs s = Some t" and "P s"
    and "\<And>x s s'. x \<in> set xs \<Longrightarrow> P s \<Longrightarrow> f x s = Some s' \<Longrightarrow> P s'"
  shows "P t"
  using assms
proof (induction xs arbitrary: s)
  case Nil
  then show ?case by simp
next
  case (Cons x xs)
  from Cons.prems(1) obtain s' where s': "f x s = Some s'" "fold_opt f xs s' = Some t"
    by (auto simp: bind_eq_Some_conv)
  have "P s'" using Cons.prems(2,3) s'(1) by auto
  then show ?case using Cons.IH[OF s'(2)] Cons.prems(3) by auto
qed

lemma fold_opt_total:
  assumes "P s" and "\<And>x s. x \<in> set xs \<Longrightarrow> P s \<Longrightarrow> \<exists>s'. f x s = Some s' \<and> P s'"
  shows "\<exists>t. fold_opt f xs s = Some t \<and> P t"
  using assms
proof (induction xs arbitrary: s)
  case Nil
  then show ?case by simp
next
  case (Cons x xs)
  obtain s' where "f x s = Some s'" "P s'" using Cons.prems by force
  then show ?case using Cons.IH[of s'] Cons.prems(2) by auto
qed

lemma fold_opt_append:
  "fold_opt f (xs @ ys) s = Option.bind (fold_opt f xs s) (fold_opt f ys)"
proof (induction xs arbitrary: s)
  case Nil
  show ?case by simp
next
  case (Cons x xs)
  then show ?case by (cases "f x s") simp_all
qed

lemma fold_opt_cong [fundef_cong]:
  "xs = ys \<Longrightarrow> s = t \<Longrightarrow> (\<And>x s. x \<in> set ys \<Longrightarrow> f x s = g x s) \<Longrightarrow> fold_opt f xs s = fold_opt g ys t"
proof (induction xs arbitrary: ys s t)
  case Nil
  then show ?case by auto
next
  case (Cons x xs)
  then show ?case by (cases ys) (auto intro!: Option.bind_cong)
qed

lemma sum_list_update_eq:
  fixes xs :: "'a::ab_group_add list"
  shows "i < length xs \<Longrightarrow> sum_list (xs[i := x]) = sum_list xs - xs ! i + x"
proof (induction xs arbitrary: i)
  case Nil
  then show ?case by simp
next
  case (Cons a xs)
  then show ?case by (cases i) (simp_all add: algebra_simps)
qed

lemma sum_list_filter_nonneg_le:
  fixes f :: "'a \<Rightarrow> rat"
  assumes "\<And>x. x \<in> set xs \<Longrightarrow> 0 \<le> f x"
  shows "sum_list (map f (filter P xs)) \<le> sum_list (map f xs)"
  using assms by (induction xs) (auto intro: add_increasing)

lemma distinct_map_nth_eq:
  "distinct (map f xs) \<Longrightarrow> i < length xs \<Longrightarrow> j < length xs \<Longrightarrow> f (xs ! i) = f (xs ! j) \<Longrightarrow> i = j"
  using nth_eq_iff_index_eq[of "map f xs" i j] by simp

end
