(* ===== verification/Domain_Types.thy ===== *)
theory Domain_Types imports Prelude begin

text \<open>
  \<open>trading-core/src/types.rs\<close>, \<open>models.rs\<close>, \<open>events.rs\<close> and \<open>error.rs\<close>: the enums, domain
  records, domain events and errors the components exchange.  Constructors and fields keep the
  source's names behind a prefix for their type.  A \<open>DateTime<Utc>\<close> is an integer number of
  nanoseconds since the epoch; an \<open>i32\<close> zone or counter is an \<^typ>\<open>int\<close>.
\<close>

type_synonym datetime = int
type_synonym zone = "int option"

section \<open>Enums\<close>

datatype order_type = Limit | Market

fun order_type_str :: "order_type \<Rightarrow> string" where
  "order_type_str Limit = ''limit''"
| "order_type_str Market = ''market''"

datatype market_segment = Realtime | Interval

fun market_segment_str :: "market_segment \<Rightarrow> string" where
  "market_segment_str Realtime = ''realtime''"
| "market_segment_str Interval = ''interval''"

datatype order_side = Buy | Sell

fun order_side_str :: "order_side \<Rightarrow> string" where
  "order_side_str Buy = ''buy''"
| "order_side_str Sell = ''sell''"

datatype order_status =
    Order_Pending | Order_Active | Order_PartiallyFilled | Order_Filled
  | Order_Settled | Order_Cancelled | Order_Expired

fun order_status_str :: "order_status \<Rightarrow> string" where
  "order_status_str Order_Pending = ''pending''"
| "order_status_str Order_Active = ''active''"
| "order_status_str Order_PartiallyFilled = ''partially_filled''"
| "order_status_str Order_Filled = ''filled''"
| "order_status_str Order_Settled = ''settled''"
| "order_status_str Order_Cancelled = ''cancelled''"
| "order_status_str Order_Expired = ''expired''"

datatype time_in_force = Gtc | Fok | Ioc

definition is_immediate :: "time_in_force \<Rightarrow> bool" where
  "is_immediate t \<longleftrightarrow> t = Ioc \<or> t = Fok"

datatype trigger_type = StopLoss | TakeProfit | TrailingStop

datatype trigger_status = Trigger_Pending | Trigger_Triggered | Trigger_Cancelled | Trigger_Expired

datatype interval_type = Hourly | Daily | Weekly | Monthly

datatype recurring_status =
  Recurring_Active | Recurring_Paused | Recurring_Completed | Recurring_Cancelled

datatype alert_condition = Above | Below | Crosses

datatype alert_status = Alert_Active | Alert_Triggered | Alert_Cancelled

fun alert_condition_str :: "alert_condition \<Rightarrow> string" where
  "alert_condition_str Above = ''above''"
| "alert_condition_str Below = ''below''"
| "alert_condition_str Crosses = ''crosses''"

datatype epoch_status = Epoch_Pending | Epoch_Active | Epoch_Cleared | Epoch_Settled

datatype settlement_status =
    Settle_Pending | Settle_Processing | Settle_Completed
  | Settle_Failed | Settle_PermanentlyFailed

fun settlement_status_str :: "settlement_status \<Rightarrow> string" where
  "settlement_status_str Settle_Pending = ''pending''"
| "settlement_status_str Settle_Processing = ''processing''"
| "settlement_status_str Settle_Completed = ''completed''"
| "settlement_status_str Settle_Failed = ''failed''"
| "settlement_status_str Settle_PermanentlyFailed = ''permanently_failed''"

datatype outbox_status = Outbox_Pending | Outbox_Processed | Outbox_Failed

section \<open>Orders\<close>

record trading_order =
  ord_id :: uuid
  ord_user_id :: uuid
  ord_order_type :: order_type
  ord_side :: order_side
  ord_energy_amount :: decimal
  ord_price_per_kwh :: decimal
  ord_filled_amount :: decimal
  ord_status :: order_status
  ord_expires_at :: "datetime option"
  ord_created_at :: "datetime option"
  ord_filled_at :: "datetime option"
  ord_epoch_id :: "uuid option"
  ord_zone_id :: zone
  ord_meter_id :: "uuid option"
  ord_refund_tx_signature :: "string option"
  ord_order_pda :: "string option"
  ord_order_index :: "int option"
  ord_session_token :: "string option"
  ord_blockchain_status :: "string option"
  ord_blockchain_tx_hash :: "string option"
  ord_blockchain_error :: "string option"
  ord_retry_count :: int
  ord_time_in_force :: time_in_force
  ord_market_segment :: market_segment

definition order_is_expired :: "trading_order \<Rightarrow> datetime \<Rightarrow> bool" where
  "order_is_expired o' now = (case ord_expires_at o' of None \<Rightarrow> False | Some expiry \<Rightarrow> expiry \<le> now)"

definition order_is_live :: "trading_order \<Rightarrow> datetime \<Rightarrow> bool" where
  "order_is_live o' now \<longleftrightarrow> \<not> order_is_expired o' now"

record order_book_entry =
  obe_order_id :: uuid
  obe_user_id :: uuid
  obe_side :: order_side
  obe_energy_amount :: decimal
  obe_original_amount :: decimal
  obe_price_per_kwh :: decimal
  obe_created_at :: datetime
  obe_zone_id :: zone
  obe_session_token :: "string option"
  obe_signature :: "string option"
  obe_payload_bytes :: "8 word list option"
  obe_time_in_force :: time_in_force

section \<open>Clearing and settlement\<close>

record market_epoch =
  ep_id :: uuid
  ep_epoch_number :: int
  ep_start_time :: datetime
  ep_end_time :: datetime
  ep_status :: epoch_status
  ep_clearing_price :: "decimal option"
  ep_total_volume :: "decimal option"
  ep_total_orders :: "int option"
  ep_matched_orders :: "int option"

record order_match =
  om_id :: uuid
  om_epoch_id :: uuid
  om_buy_order_id :: uuid
  om_sell_order_id :: uuid
  om_matched_amount :: decimal
  om_match_price :: decimal
  om_match_time :: datetime
  om_status :: string

record settlement =
  st_id :: uuid
  st_trade_id :: "uuid option"
  st_epoch_id :: uuid
  st_buyer_id :: uuid
  st_seller_id :: uuid
  st_buy_order_id :: uuid
  st_sell_order_id :: uuid
  st_energy_amount :: decimal
  st_price :: decimal
  st_total_amount :: decimal
  st_fee_amount :: decimal
  st_net_amount :: decimal
  st_status :: settlement_status
  st_blockchain_tx :: "string option"
  st_created_at :: datetime
  st_confirmed_at :: "datetime option"
  st_wheeling_charge :: "decimal option"
  st_loss_factor :: "decimal option"
  st_loss_cost :: "decimal option"
  st_effective_energy :: "decimal option"
  st_buyer_zone_id :: zone
  st_seller_zone_id :: zone
  st_buyer_session_token :: "string option"
  st_seller_session_token :: "string option"
  st_erc_certificate_id :: "string option"
  st_erc_transfer_tx :: "string option"
  st_retry_count :: int
  st_error_message :: "string option"

record settlement_transaction =
  tx_settlement_id :: uuid
  tx_signature :: string
  tx_slot :: int
  tx_confirmation_status :: string

text \<open>One side of a matched trade, as the atomic persist takes it.\<close>

record trade_fill =
  tf_order_id :: uuid
  tf_user_id :: "uuid option"
  tf_delta :: decimal
  tf_zone_id :: zone

text \<open>A meter as the sell-side gate sees it.\<close>

record meter_identity =
  mi_meter_id :: uuid
  mi_user_id :: uuid
  mi_is_verified :: bool

section \<open>Recurring orders and price alerts\<close>

record recurring_order =
  rec_id :: uuid
  rec_user_id :: uuid
  rec_side :: order_side
  rec_energy_amount :: decimal
  rec_max_price_per_kwh :: "decimal option"
  rec_min_price_per_kwh :: "decimal option"
  rec_interval_type :: interval_type
  rec_interval_value :: int
  rec_next_execution_at :: datetime
  rec_last_executed_at :: "datetime option"
  rec_status :: recurring_status
  rec_total_executions :: int
  rec_max_executions :: "int option"
  rec_name :: "string option"
  rec_description :: "string option"
  rec_created_at :: datetime
  rec_updated_at :: datetime

record new_recurring_order =
  nro_user_id :: uuid
  nro_side :: order_side
  nro_energy_amount :: decimal
  nro_max_price_per_kwh :: "decimal option"
  nro_min_price_per_kwh :: "decimal option"
  nro_interval_type :: interval_type
  nro_interval_value :: int
  nro_next_execution_at :: datetime
  nro_max_executions :: "int option"
  nro_name :: "string option"
  nro_description :: "string option"

record price_alert =
  al_id :: uuid
  al_user_id :: uuid
  al_target_price :: decimal
  al_condition :: alert_condition
  al_status :: alert_status
  al_triggered_at :: "datetime option"
  al_triggered_price :: "decimal option"
  al_repeat :: bool
  al_note :: "string option"
  al_created_at :: datetime
  al_updated_at :: "datetime option"

record new_price_alert =
  npa_user_id :: uuid
  npa_target_price :: decimal
  npa_condition :: alert_condition
  npa_note :: "string option"

section \<open>Events\<close>

record order_matched_payload =
  omp_match_id :: uuid
  omp_epoch_id :: uuid
  omp_buy_order_id :: uuid
  omp_sell_order_id :: uuid
  omp_amount :: decimal
  omp_price :: decimal
  omp_buyer_id :: uuid
  omp_seller_id :: uuid
  omp_timestamp :: datetime
  omp_zone_id :: zone

record order_created_payload =
  ocp_id :: uuid
  ocp_user_id :: uuid
  ocp_order_type :: string
  ocp_side :: string
  ocp_energy_amount :: decimal
  ocp_price_per_kwh :: decimal
  ocp_status :: string
  ocp_zone_id :: zone
  ocp_created_at :: "datetime option"

record settlement_processed_payload =
  spp_settlement_id :: uuid
  spp_tx_signature :: string
  spp_status :: string
  spp_timestamp :: datetime

record price_alert_triggered_payload =
  pap_alert_id :: uuid
  pap_user_id :: uuid
  pap_target_price :: decimal
  pap_triggered_price :: decimal
  pap_condition :: string
  pap_triggered_at :: datetime

record vpp_dispatched_payload =
  vdp_cluster_id :: string
  vdp_target_kw :: rat \<comment> \<open>an \<open>f64\<close>, carried unchanged: the rational it denotes\<close>
  vdp_members_commanded :: nat
  vdp_timestamp :: datetime

record user_onboarded_payload =
  uop_user_id :: uuid
  uop_wallet_address :: string
  uop_user_account_pda :: string
  uop_transaction_signature :: string
  uop_user_type :: string
  uop_shard_id :: "8 word"

record user_wallet_linked_payload =
  uwl_user_id :: uuid
  uwl_wallet_address :: string
  uwl_user_account_pda :: string
  uwl_transaction_signature :: string
  uwl_shard_id :: "8 word"

record user_registered_payload =
  urp_user_id :: uuid
  urp_username :: string
  urp_email :: string

record erc_issued_payload =
  eip_certificate_id :: string
  eip_user_id :: uuid
  eip_energy_amount :: decimal
  eip_renewable_source :: string
  eip_timestamp :: datetime

record oracle_reading_payload =
  orp_reading_id :: uuid
  orp_meter_id :: string
  orp_serial_number :: string
  orp_user_id :: "uuid option"
  orp_wallet_address :: "string option"
  orp_zone_id :: zone
  orp_timestamp :: datetime
  orp_kwh :: decimal
  orp_energy_generated :: "decimal option"
  orp_energy_consumed :: "decimal option"
  orp_meter_signature :: "string option"

datatype event =
    OrderMatched order_matched_payload
  | SettlementRequested settlement
  | OrderUpdate (upd_id: uuid) (upd_user_id: "uuid option") (upd_filled_amount: decimal)
      (upd_status: string) (upd_zone_id: zone)
  | PeakPriceUpdate (peak_id: uuid) (peak_price: decimal) (peak_zone_id: zone)
  | TriggerExecution (trg_id: uuid) (trg_triggered_at: datetime)
  | PriceAlertTriggered price_alert_triggered_payload
  | OrderCreated order_created_payload
  | ErcIssued erc_issued_payload
  | SettlementProcessed settlement_processed_payload
  | UserRegistered user_registered_payload
  | UserOnboarded user_onboarded_payload
  | UserWalletLinked user_wallet_linked_payload
  | OracleReading oracle_reading_payload
  | VppDispatched vpp_dispatched_payload

fun outbox_event_type :: "event \<Rightarrow> string" where
  "outbox_event_type (OrderMatched _) = ''OrderMatched''"
| "outbox_event_type (SettlementRequested _) = ''SettlementRequested''"
| "outbox_event_type (OrderUpdate _ _ _ _ _) = ''OrderUpdate''"
| "outbox_event_type (PeakPriceUpdate _ _ _) = ''PeakPriceUpdate''"
| "outbox_event_type (TriggerExecution _ _) = ''TriggerExecution''"
| "outbox_event_type (PriceAlertTriggered _) = ''PriceAlertTriggered''"
| "outbox_event_type (OrderCreated _) = ''OrderCreated''"
| "outbox_event_type (ErcIssued _) = ''ErcIssued''"
| "outbox_event_type (SettlementProcessed _) = ''SettlementProcessed''"
| "outbox_event_type (UserRegistered _) = ''UserRegistered''"
| "outbox_event_type (UserOnboarded _) = ''UserOnboarded''"
| "outbox_event_type (UserWalletLinked _) = ''UserWalletLinked''"
| "outbox_event_type (OracleReading _) = ''OracleReading''"
| "outbox_event_type (VppDispatched _) = ''VppDispatched''"

section \<open>Errors\<close>

datatype api_error =
    Authentication string | Authorization string | BadRequest string | Unauthorized string
  | Forbidden string | Validation string | Database string | Blockchain string
  | ExternalService string | Configuration string | NotFound string | Conflict string
  | Internal string | RateLimitExceeded string

text \<open>The text \<open>Display\<close> renders (\<open>to_string\<close>).\<close>

fun api_error_str :: "api_error \<Rightarrow> string" where
  "api_error_str (Authentication m) = ''Authentication failed: '' @ m"
| "api_error_str (Authorization m) = ''Authorization failed: '' @ m"
| "api_error_str (BadRequest m) = ''Bad request: '' @ m"
| "api_error_str (Unauthorized m) = ''Unauthorized: '' @ m"
| "api_error_str (Forbidden m) = ''Forbidden: '' @ m"
| "api_error_str (Validation m) = ''Validation error: '' @ m"
| "api_error_str (Database m) = ''Database error: '' @ m"
| "api_error_str (Blockchain m) = ''Blockchain error: '' @ m"
| "api_error_str (ExternalService m) = ''External service error: '' @ m"
| "api_error_str (Configuration m) = ''Configuration error: '' @ m"
| "api_error_str (NotFound m) = ''Not found: '' @ m"
| "api_error_str (Conflict m) = ''Conflict: '' @ m"
| "api_error_str (Internal m) = ''Internal server error: '' @ m"
| "api_error_str (RateLimitExceeded m) = ''Rate limit exceeded: '' @ m"

fun str_contains :: "string \<Rightarrow> string \<Rightarrow> bool" where
  "str_contains needle [] \<longleftrightarrow> needle = []"
| "str_contains needle (c # s) \<longleftrightarrow> take (length needle) (c # s) = needle \<or> str_contains needle s"

definition is_deterministic_chain_rejection :: "string \<Rightarrow> bool" where
  "is_deterministic_chain_rejection message = str_contains ''InstructionError'' message"

lemma str_contains_iff: "str_contains n s \<longleftrightarrow> (\<exists>a b. s = a @ n @ b)"
proof (induction s)
  case Nil
  show ?case by auto
next
  case (Cons c s)
  have "take (length n) (c # s) = n \<longleftrightarrow> (\<exists>b. c # s = n @ b)"
    by (metis append_eq_conv_conj append_take_drop_id)
  then show ?case
    using Cons.IH by (auto simp: Cons_eq_append_conv)
qed

lemma str_contains_append: "str_contains n s \<Longrightarrow> str_contains n (a @ s)"
  unfolding str_contains_iff by (metis append.assoc)

section \<open>Round trips of the text forms\<close>

text \<open>\<open>EnumString\<close> for the order status: the inverse of its text form.\<close>

definition order_status_parse :: "string \<Rightarrow> order_status option" where
  "order_status_parse s =
     (if s = ''pending'' then Some Order_Pending
      else if s = ''active'' then Some Order_Active
      else if s = ''partially_filled'' then Some Order_PartiallyFilled
      else if s = ''filled'' then Some Order_Filled
      else if s = ''settled'' then Some Order_Settled
      else if s = ''cancelled'' then Some Order_Cancelled
      else if s = ''expired'' then Some Order_Expired
      else None)"

lemma order_status_parse_str: "order_status_parse (order_status_str s) = Some s"
  by (cases s) (simp_all add: order_status_parse_def)

end
