(* ===== verification/Order_Policy.thy ===== *)
theory Order_Policy imports Domain_Types begin

text \<open>
  \<open>trading-core/src/order_policy.rs\<close>: the admission policy both submit edges share.  A price is
  resolved from order type, side and time in force; an expiry from its absolute, relative or
  signed form; a sell must be backed by a verified meter and ask a price that can settle; a buy
  must be funded.  Every \<open>Result\<close> is a sum whose \<^const>\<open>Inl\<close> is the error.

  The range of a \<open>chrono\<close> instant and of a \<open>Duration\<close> in seconds is a property of that crate:
  the record \<open>clock_range\<close> is a parameter.
\<close>

section \<open>Price\<close>

datatype order_price_error =
    MarketSellUnsupported | FokSellUnsupported | MarketGtc | MarketCapNonPositive
  | LimitMissingPrice | LimitNonPositive

fun order_price_error_message :: "order_price_error \<Rightarrow> string" where
  "order_price_error_message MarketSellUnsupported =
     ''market sell orders are not supported (the matcher prices at the resting ask); submit a limit sell''"
| "order_price_error_message FokSellUnsupported =
     ''fill-or-kill sell orders are not supported (the matcher fills a resting sell incrementally); use gtc or ioc''"
| "order_price_error_message MarketGtc =
     ''market orders are immediate -- use ioc or fok (gtc would rest a max-price bid)''"
| "order_price_error_message MarketCapNonPositive =
     ''price_per_kwh (market buy slippage cap) must be positive''"
| "order_price_error_message LimitMissingPrice = ''price_per_kwh is required for limit orders''"
| "order_price_error_message LimitNonPositive = ''price_per_kwh must be positive''"

definition market_buy_ceiling_bid :: decimal where
  "market_buy_ceiling_bid = 1000000"

definition resolve_order_price ::
  "order_type \<Rightarrow> order_side \<Rightarrow> time_in_force \<Rightarrow> decimal option \<Rightarrow> order_price_error + decimal" where
  "resolve_order_price ty side tif price_input =
     (if side = Sell \<and> tif = Fok then Inl FokSellUnsupported
      else (case ty of
          Market \<Rightarrow>
            if side = Sell then Inl MarketSellUnsupported
            else if tif = Gtc then Inl MarketGtc
            else (case price_input of
                Some cap \<Rightarrow> if cap \<le> 0 then Inl MarketCapNonPositive else Inr cap
              | None \<Rightarrow> Inr market_buy_ceiling_bid)
        | Limit \<Rightarrow>
            (case price_input of
                None \<Rightarrow> Inl LimitMissingPrice
              | Some p \<Rightarrow> if p \<le> 0 then Inl LimitNonPositive else Inr p)))"

section \<open>Expiry\<close>

datatype order_expiry_error = BothForms | SignedConflict | NotInFuture | BeyondMaxTtl

fun order_expiry_error_message :: "order_expiry_error \<Rightarrow> string" where
  "order_expiry_error_message BothForms = ''send either expires_at or expires_in_secs, not both''"
| "order_expiry_error_message SignedConflict =
     ''expires_at/expires_in_secs must not be sent with signed_expires_at -- the signed expiry is authoritative''"
| "order_expiry_error_message NotInFuture = ''expiry must be in the future''"
| "order_expiry_error_message BeyondMaxTtl =
     ''expiry exceeds the maximum order lifetime (ORDER_MAX_TTL_SECS)''"

record clock_range =
  instant_min :: int   \<comment> \<open>\<open>DateTime::MIN_UTC\<close>, nanoseconds\<close>
  instant_max :: int   \<comment> \<open>\<open>DateTime::MAX_UTC\<close>, nanoseconds\<close>
  duration_max :: int  \<comment> \<open>the largest \<open>Duration\<close> in whole seconds\<close>

definition nanos :: int where "nanos = 1000000000"

definition in_clock :: "clock_range \<Rightarrow> int \<Rightarrow> bool" where
  "in_clock C t \<longleftrightarrow> instant_min C \<le> t \<and> t \<le> instant_max C"

text \<open>\<open>Duration::try_seconds\<close>, in nanoseconds.\<close>

definition try_seconds :: "clock_range \<Rightarrow> int \<Rightarrow> int option" where
  "try_seconds C s = (if \<bar>s\<bar> \<le> duration_max C then Some (s * nanos) else None)"

definition checked_add_signed :: "clock_range \<Rightarrow> datetime \<Rightarrow> int \<Rightarrow> datetime option" where
  "checked_add_signed C t d = (if in_clock C (t + d) then Some (t + d) else None)"

definition from_timestamp :: "clock_range \<Rightarrow> int \<Rightarrow> datetime option" where
  "from_timestamp C s = (if in_clock C (s * nanos) then Some (s * nanos) else None)"

definition after_secs :: "clock_range \<Rightarrow> datetime \<Rightarrow> int \<Rightarrow> datetime option" where
  "after_secs C now s = Option.bind (try_seconds C s) (checked_add_signed C now)"

definition u64_secs :: "int \<Rightarrow> int" where
  "u64_secs s = unwrap_or (i64_try_from s) i64_max"

definition check_window ::
  "clock_range \<Rightarrow> datetime \<Rightarrow> datetime \<Rightarrow> int \<Rightarrow> order_expiry_error + datetime" where
  "check_window C now inst max_ttl_secs =
     (if inst \<le> now then Inl NotInFuture
      else (case after_secs C now (u64_secs max_ttl_secs) of
          None \<Rightarrow> Inl BeyondMaxTtl
        | Some horizon \<Rightarrow> if inst > horizon then Inl BeyondMaxTtl else Inr inst))"

definition resolve_expires_at ::
  "clock_range \<Rightarrow> datetime \<Rightarrow> datetime option \<Rightarrow> int option \<Rightarrow> int option \<Rightarrow> int \<Rightarrow> int
     \<Rightarrow> order_expiry_error + datetime" where
  "resolve_expires_at C now requested_at requested_ttl_secs signed_expires_at default_ttl_secs max_ttl_secs =
     (let client_supplied = (requested_at \<noteq> None \<or> requested_ttl_secs \<noteq> None) in
      case signed_expires_at of
        Some signed_secs \<Rightarrow>
          if client_supplied then Inl SignedConflict
          else (case from_timestamp C signed_secs of
              None \<Rightarrow> Inl NotInFuture
            | Some signed_at \<Rightarrow> check_window C now signed_at max_ttl_secs)
      | None \<Rightarrow>
          if requested_at \<noteq> None \<and> requested_ttl_secs \<noteq> None then Inl BothForms
          else (case requested_at of
              Some inst \<Rightarrow> check_window C now inst max_ttl_secs
            | None \<Rightarrow>
                (case requested_ttl_secs of
                    Some ttl \<Rightarrow>
                      if ttl \<le> 0 then Inl NotInFuture
                      else (case after_secs C now ttl of
                          None \<Rightarrow> Inl BeyondMaxTtl
                        | Some inst \<Rightarrow> check_window C now inst max_ttl_secs)
                  | None \<Rightarrow>
                      (case after_secs C now (u64_secs default_ttl_secs) of
                          None \<Rightarrow> Inl BeyondMaxTtl
                        | Some inst \<Rightarrow> Inr inst))))"

section \<open>Sell eligibility\<close>

datatype sell_eligibility_error = MeterNotOwned | MeterUnverified | NoVerifiedMeter

fun sell_eligibility_error_message :: "sell_eligibility_error \<Rightarrow> string" where
  "sell_eligibility_error_message MeterNotOwned =
     ''the meter named on this order is not registered to you''"
| "sell_eligibility_error_message MeterUnverified =
     ''this meter is not verified -- verify it (POST /api/v1/me/meters/{serial}/verify) before opening a sell order''"
| "sell_eligibility_error_message NoVerifiedMeter =
     ''you have no verified meter -- register a meter and verify it (POST /api/v1/me/meters/{serial}/verify) before selling energy''"

definition needs_any_verified_meter_lookup :: "order_side \<Rightarrow> meter_identity option \<Rightarrow> bool" where
  "needs_any_verified_meter_lookup side meter \<longleftrightarrow> side = Sell \<and> meter = None"

definition check_sell_eligibility ::
  "uuid \<Rightarrow> order_side \<Rightarrow> meter_identity option \<Rightarrow> bool \<Rightarrow> sell_eligibility_error + unit" where
  "check_sell_eligibility seller side meter seller_has_verified_meter =
     (if side \<noteq> Sell then Inr ()
      else (case meter of
          None \<Rightarrow> if seller_has_verified_meter then Inr () else Inl NoVerifiedMeter
        | Some m \<Rightarrow>
            if mi_user_id m \<noteq> seller then Inl MeterNotOwned
            else if \<not> mi_is_verified m then Inl MeterUnverified
            else Inr ()))"

section \<open>Sell price floor\<close>

datatype sell_price_floor_error =
    BelowSettleableFloor decimal decimal  \<comment> \<open>price, floor\<close>
  | TariffAdmitsNoPrice
  | BelowMarketMinimum decimal decimal    \<comment> \<open>price, minimum\<close>

definition check_sell_price_floor ::
  "order_side \<Rightarrow> decimal \<Rightarrow> decimal \<Rightarrow> decimal option \<Rightarrow> sell_price_floor_error + unit" where
  "check_sell_price_floor side price market_minimum settleable_floor =
     (if side \<noteq> Sell then Inr ()
      else (case settleable_floor of
          None \<Rightarrow> Inl TariffAdmitsNoPrice
        | Some floor' \<Rightarrow>
            if price < floor' then Inl (BelowSettleableFloor price floor')
            else if price < market_minimum then Inl (BelowMarketMinimum price market_minimum)
            else Inr ()))"

section \<open>Buy funding\<close>

definition currency_atomic_per_unit :: int where
  "currency_atomic_per_unit = 1000000"

datatype buy_funding_requirement = Fund_None | Fund_NonZero | Fund_Atomic int

datatype buy_funding_error =
    NoWallet
  | InsufficientFunds int int  \<comment> \<open>required, available\<close>

definition required_buy_funding ::
  "dec_ops \<Rightarrow> order_side \<Rightarrow> order_type \<Rightarrow> decimal option \<Rightarrow> decimal \<Rightarrow> decimal \<Rightarrow> buy_funding_requirement" where
  "required_buy_funding D side ty explicit_price matching_price amount =
     (if side \<noteq> Buy then Fund_None
      else if ty = Market \<and> explicit_price = None then Fund_NonZero
      else Fund_Atomic
        (case Option.bind (dmul D matching_price amount)
                (\<lambda>c. dmul D c (of_int currency_atomic_per_unit)) of
            None \<Rightarrow> u64_max
          | Some c \<Rightarrow> unwrap_or (to_u64 \<lceil>c\<rceil>) u64_max))"

definition check_buy_funding :: "buy_funding_requirement \<Rightarrow> int \<Rightarrow> buy_funding_error + unit" where
  "check_buy_funding requirement available =
     (case requirement of
        Fund_None \<Rightarrow> Inr ()
      | Fund_NonZero \<Rightarrow> if available > 0 then Inr () else Inl (InsufficientFunds 1 available)
      | Fund_Atomic required \<Rightarrow>
          if available \<ge> required then Inr () else Inl (InsufficientFunds required available))"

section \<open>Properties\<close>

text \<open>A price is admitted exactly for a limit order with a positive price, or a market buy that
  is immediate and whose slippage cap, if any, is positive; no fill-or-kill sell gets through.
  The price of a capped order is the client's own; an uncapped market buy gets the ceiling.\<close>

theorem resolve_order_price_admits:
  "resolve_order_price ty side tif inp = Inr p \<longleftrightarrow>
     0 < p \<and> \<not> (side = Sell \<and> tif = Fok) \<and>
     (ty = Limit \<and> inp = Some p \<or>
      ty = Market \<and> side = Buy \<and> is_immediate tif \<and>
        (inp = Some p \<or> inp = None \<and> p = market_buy_ceiling_bid))"
  by (cases ty; cases side; cases tif; cases inp)
    (auto simp: resolve_order_price_def is_immediate_def market_buy_ceiling_bid_def)

lemma after_secs_Some [simp]:
  "after_secs C now s = Some inst \<longleftrightarrow>
     \<bar>s\<bar> \<le> duration_max C \<and> inst = now + s * nanos \<and> in_clock C inst"
  by (auto simp: after_secs_def try_seconds_def checked_add_signed_def)

lemma after_secs_None [simp]:
  "after_secs C now s = None \<longleftrightarrow> \<not> (\<bar>s\<bar> \<le> duration_max C \<and> in_clock C (now + s * nanos))"
  by (auto simp: after_secs_def try_seconds_def checked_add_signed_def)

lemma u64_secs_bound: "u64_secs s \<le> i64_max" "s \<le> i64_max \<Longrightarrow> 0 \<le> s \<Longrightarrow> u64_secs s = s"
  by (simp_all add: u64_secs_def i64_try_from_def i64_ok_def i64_min_def)

lemma check_window_Inr [simp]:
  "check_window C now inst ttl = Inr e \<longleftrightarrow>
     e = inst \<and> now < inst \<and> (\<exists>h. after_secs C now (u64_secs ttl) = Some h \<and> inst \<le> h)"
  by (auto simp: check_window_def split: option.splits)

text \<open>An expiry the client chose is admitted only when it is in the future and within
  the maximum lifetime, and it is stored exactly as requested: the signed instant, the absolute
  instant, or now plus the relative lifetime, and never two of them at once.\<close>

theorem resolve_expires_at_client:
  assumes "requested_at \<noteq> None \<or> ttl \<noteq> None \<or> sgd \<noteq> None"
    and "resolve_expires_at C now requested_at ttl sgd default_ttl max_ttl = Inr e"
  shows "now < e \<and> e \<le> now + u64_secs max_ttl * nanos \<and>
         (case (sgd, requested_at, ttl) of
            (Some s, None, None) \<Rightarrow> e = s * nanos
          | (None, Some inst, None) \<Rightarrow> e = inst
          | (None, None, Some t) \<Rightarrow> 0 < t \<and> e = now + t * nanos
          | _ \<Rightarrow> False)"
  using assms
  by (auto simp: resolve_expires_at_def Let_def from_timestamp_def split: option.splits if_splits)

definition chrono_utc :: clock_range where
  "chrono_utc = \<lparr>instant_min = - 8334601228800 * 1000000000,
                 instant_max = 8210266876799 * 1000000000 + 999999999,
                 duration_max = 9223372036854775\<rparr>"

theorem resolve_expires_at_client_witness:
  "0 < (60 * nanos :: int) \<and> 60 * nanos \<le> 0 + u64_secs 3600 * nanos \<and>
   (case (None :: int option, None :: datetime option, Some (60::int)) of
      (Some s, None, None) \<Rightarrow> 60 * nanos = s * nanos
    | (None, Some inst, None) \<Rightarrow> 60 * nanos = inst
    | (None, None, Some t) \<Rightarrow> 0 < t \<and> 60 * nanos = 0 + t * nanos
    | _ \<Rightarrow> False)"
proof (rule resolve_expires_at_client)
  show "resolve_expires_at chrono_utc 0 None (Some 60) None 900 3600 = Inr (60 * nanos)"
    by (simp add: resolve_expires_at_def check_window_def after_secs_def try_seconds_def
        checked_add_signed_def in_clock_def chrono_utc_def nanos_def u64_secs_def i64_try_from_def
        i64_ok_def i64_min_def i64_max_def)
qed simp

text \<open>With no expiry from the client the configured default lifetime is stored, whatever the
  maximum is, as long as the clock can represent it: such an order is never refused.\<close>

theorem resolve_expires_at_default:
  assumes "0 \<le> default_ttl" and "default_ttl \<le> duration_max C"
    and "duration_max C \<le> i64_max" and "in_clock C (now + default_ttl * nanos)"
  shows "resolve_expires_at C now None None None default_ttl max_ttl =
           Inr (now + default_ttl * nanos)"
  using assms
  by (auto simp: resolve_expires_at_def u64_secs_bound after_secs_def try_seconds_def
      checked_add_signed_def)

theorem resolve_expires_at_default_witness:
  "resolve_expires_at chrono_utc 0 None None None 900 1 = Inr (0 + 900 * nanos)"
  by (rule resolve_expires_at_default)
    (simp_all add: chrono_utc_def nanos_def in_clock_def i64_max_def)

text \<open>A sell is eligible exactly when it is backed by a verified meter of the seller: the meter
  it names, or, naming none, any verified meter the seller owns.  A meter of somebody else is
  always reported as not owned, so the answer never tells whether it is verified.\<close>

theorem check_sell_eligibility_iff:
  "(check_sell_eligibility seller Sell meter any = Inr () \<longleftrightarrow>
      (case meter of None \<Rightarrow> any
       | Some m \<Rightarrow> mi_user_id m = seller \<and> mi_is_verified m)) \<and>
   check_sell_eligibility seller Buy meter any = Inr () \<and>
   (mi_user_id m' = seller \<or>
      check_sell_eligibility seller Sell (Some m') any = Inl MeterNotOwned)"
  by (auto simp: check_sell_eligibility_def split: option.splits)

text \<open>The verified-meter lookup is consulted exactly where the edge performs it.\<close>

lemma eligibility_lookup_independent:
  "\<not> needs_any_verified_meter_lookup side meter \<Longrightarrow>
     check_sell_eligibility seller side meter a = check_sell_eligibility seller side meter b"
  by (auto simp: needs_any_verified_meter_lookup_def check_sell_eligibility_def split: option.splits)

lemma check_sell_price_floor_Inr:
  "check_sell_price_floor side price minimum fl = Inr () \<longleftrightarrow>
     (side = Sell \<longrightarrow> (\<exists>f. fl = Some f \<and> f \<le> price \<and> minimum \<le> price))"
  by (auto simp: check_sell_price_floor_def split: option.splits)

text \<open>A buy admitted by the funding gate can pay for it: with exact arithmetic the balance
  covers price times amount in atomic units, rounded up; a cost no wallet could hold is refused
  to every balance below the largest one.\<close>

theorem buy_funding_covers_cost:
  assumes "dec_laws D" and "dec_repr (price * amount)" and "dec_repr (price * amount * 1000000)"
    and "0 \<le> price * amount" and "available < u64_max"
    and "check_buy_funding (required_buy_funding D Buy Limit explicit price amount) available = Inr ()"
  shows "price * amount * 1000000 \<le> of_int available"
proof -
  let ?c = "price * amount * 1000000"
  have "dmul D price amount = Some (price * amount)"
    and "dmul D (price * amount) (of_int currency_atomic_per_unit) = Some ?c"
    using assms(1-3) by (simp_all add: dmul_exact currency_atomic_per_unit_def)
  then have "unwrap_or (to_u64 \<lceil>?c\<rceil>) u64_max \<le> available"
    using assms(6) by (simp add: required_buy_funding_def check_buy_funding_def split: if_splits)
  moreover have "0 \<le> \<lceil>?c\<rceil>" using assms(4) by linarith
  ultimately have "\<lceil>?c\<rceil> \<le> available"
    using assms(5) by (auto simp: to_u64_def split: if_splits)
  then show ?thesis by (simp add: ceiling_le_iff)
qed

theorem buy_funding_covers_cost_witness:
  "(2::rat) * 3 * 1000000 \<le> of_int 6000000"
proof (rule buy_funding_covers_cost[of exact_dec _ _ _ None])
  show "dec_repr (2 * 3)" "dec_repr (2 * 3 * 1000000)"
    by (rule dec_reprI[of 6 0]; simp) (rule dec_reprI[of 6000000 0]; simp)
  show "check_buy_funding (required_buy_funding exact_dec Buy Limit None 2 3) 6000000 = Inr ()"
    by (simp add: check_buy_funding_def required_buy_funding_def currency_atomic_per_unit_def
        to_u64_def u64_max_def)
qed (simp_all add: u64_max_def)

text \<open>A negative amount is not free: its cost does not convert to an unsigned number and the gate
  demands the largest balance, unlike the zero cost the function's documentation promises.\<close>

theorem negative_amount_requires_max:
  "required_buy_funding exact_dec Buy Limit (Some 2) 2 (- 3) = Fund_Atomic u64_max"
  by (simp add: required_buy_funding_def currency_atomic_per_unit_def to_u64_def)

end
