(* ===== verification/Charges.thy ===== *)
theory Charges imports Domain_Types begin

text \<open>
  \<open>trading-core/src/charges.rs\<close>: the on-chain tariff as the ledger, the matcher's landed cost and
  the sell-price floor read it.  A call reads each rate once through the \<open>ChargeRates\<close> trait; the
  record \<open>static_charge_rates\<close> holds the three values it read (of one snapshot, or of several when a
  refresh lands between two reads).  The trait's contract is the locale
  \<open>charge_rates\<close>, interpreted by the boot-time rates and by the refreshing ones.
\<close>

section \<open>Rates\<close>

record static_charge_rates =
  scr_fee_bps :: "16 word"
  scr_wheeling_rate_per_kwh :: "64 word"
  scr_loss_bps :: "16 word"

definition scr_ZERO :: static_charge_rates where
  "scr_ZERO = \<lparr>scr_fee_bps = 0, scr_wheeling_rate_per_kwh = 0, scr_loss_bps = 0\<rparr>"

text \<open>An \<open>RwLock\<close>: its value and whether a writer panicked while holding it.\<close>

record 'a rw_lock =
  lk_value :: 'a
  lk_poisoned :: bool

text \<open>\<open>lock.read()\<close>: an \<^const>\<open>Inl\<close> is the poison error, which carries the guarded value.\<close>

definition lk_read :: "'a rw_lock \<Rightarrow> 'a + 'a" where
  "lk_read l = (if lk_poisoned l then Inl (lk_value l) else Inr (lk_value l))"

definition unwrap_into_inner :: "'a + 'a \<Rightarrow> 'a" where
  "unwrap_into_inner r = (case r of Inl e \<Rightarrow> e | Inr v \<Rightarrow> v)"

record refreshing_charge_rates =
  rcr_current :: "static_charge_rates rw_lock"

definition rcr_new :: "static_charge_rates \<Rightarrow> refreshing_charge_rates" where
  "rcr_new initial = \<lparr>rcr_current = \<lparr>lk_value = initial, lk_poisoned = False\<rparr>\<rparr>"

definition rcr_store ::
  "refreshing_charge_rates \<Rightarrow> static_charge_rates \<Rightarrow> refreshing_charge_rates \<times> static_charge_rates" where
  "rcr_store r next_rates =
     (let old = unwrap_into_inner (lk_read (rcr_current r)) in
      (r\<lparr>rcr_current := (rcr_current r)\<lparr>lk_value := next_rates\<rparr>\<rparr>, old))"

definition rcr_snapshot :: "refreshing_charge_rates \<Rightarrow> static_charge_rates" where
  "rcr_snapshot r = unwrap_into_inner (lk_read (rcr_current r))"

definition rcr_fee_bps :: "refreshing_charge_rates \<Rightarrow> 16 word" where
  "rcr_fee_bps r = scr_fee_bps (rcr_snapshot r)"

definition rcr_wheeling_rate_per_kwh :: "refreshing_charge_rates \<Rightarrow> 64 word" where
  "rcr_wheeling_rate_per_kwh r = scr_wheeling_rate_per_kwh (rcr_snapshot r)"

definition rcr_loss_bps :: "refreshing_charge_rates \<Rightarrow> 16 word" where
  "rcr_loss_bps r = scr_loss_bps (rcr_snapshot r)"

section \<open>Prices and charges\<close>

definition bps :: int where "bps = 10000"
definition currency_scale :: int where "currency_scale = 1000000"
definition max_network_charge_bps :: int where "max_network_charge_bps = 2000"

text \<open>\<open>Decimal::from\<close> of an unsigned machine integer.\<close>

definition dec_of_word :: "'a::len word \<Rightarrow> decimal" where
  "dec_of_word w = of_int (uint w)"

definition wheeling_per_kwh :: "dec_ops \<Rightarrow> static_charge_rates \<Rightarrow> decimal option" where
  "wheeling_per_kwh D rates =
     ddiv D (dec_of_word (scr_wheeling_rate_per_kwh rates)) (of_int currency_scale)"

definition loss_factor :: "dec_ops \<Rightarrow> static_charge_rates \<Rightarrow> decimal option" where
  "loss_factor D rates = do {
     l \<leftarrow> ddiv D (dec_of_word (scr_loss_bps rates)) (of_int bps);
     Some (1 + l) }"

text \<open>\<open>round_dp_with_strategy(dp, ToPositiveInfinity)\<close>.\<close>

definition round_up_dp :: "nat \<Rightarrow> decimal \<Rightarrow> decimal" where
  "round_up_dp dp x = of_int \<lceil>x * 10 ^ dp\<rceil> / 10 ^ dp"

text \<open>The outer \<^const>\<open>None\<close> is a panic, the inner one the tariff that admits no price.\<close>

definition min_settleable_price_per_kwh ::
  "dec_ops \<Rightarrow> static_charge_rates \<Rightarrow> decimal option option" where
  "min_settleable_price_per_kwh D rates = do {
     wheeling \<leftarrow> wheeling_per_kwh D rates;
     if wheeling = 0 then Some (Some 0)
     else let headroom_bps = max_network_charge_bps - uint (scr_loss_bps rates) in
       if headroom_bps \<le> 0 then Some None
       else do {
         scaled \<leftarrow> dmul D wheeling (of_int bps);
         q \<leftarrow> ddiv D scaled (of_int headroom_bps);
         Some (Some (round_up_dp 6 q)) } }"

record settlement_charges =
  ch_fee :: decimal
  ch_wheeling :: decimal
  ch_loss :: decimal
  ch_net :: decimal

definition compute_charges ::
  "dec_ops \<Rightarrow> decimal \<Rightarrow> decimal \<Rightarrow> static_charge_rates \<Rightarrow> settlement_charges option" where
  "compute_charges D gross kwh rates = do {
     fee_scaled \<leftarrow> dmul D gross (dec_of_word (scr_fee_bps rates));
     fee \<leftarrow> ddiv D fee_scaled (of_int bps);
     w \<leftarrow> wheeling_per_kwh D rates;
     wheeling \<leftarrow> dmul D kwh w;
     loss_scaled \<leftarrow> dmul D gross (dec_of_word (scr_loss_bps rates));
     loss \<leftarrow> ddiv D loss_scaled (of_int bps);
     Some \<lparr>ch_fee = fee, ch_wheeling = wheeling, ch_loss = loss,
           ch_net = gross - fee - wheeling - loss\<rparr> }"

section \<open>Reconciliation of a ledger row\<close>

datatype ledger_discrepancy =
    DoesNotSumToGross decimal decimal          \<comment> \<open>accounted, gross\<close>
  | ChargeOffTariff string decimal decimal     \<comment> \<open>field, booked, expected\<close>

definition reconcile_charges ::
  "dec_ops \<Rightarrow> decimal \<Rightarrow> decimal \<Rightarrow> decimal \<Rightarrow> decimal \<Rightarrow> decimal \<Rightarrow> decimal
     \<Rightarrow> static_charge_rates \<Rightarrow> ledger_discrepancy list option" where
  "reconcile_charges D gross kwh fee wheeling loss net rates =
     (let accounted = fee + wheeling + loss + net;
          found = (if accounted \<noteq> gross then [DoesNotSumToGross accounted gross] else [])
      in do {
        expected \<leftarrow> compute_charges D gross kwh rates;
        Some (found @
          concat (map (\<lambda>(field, booked, want).
              if booked \<noteq> want then [ChargeOffTariff field booked want] else [])
            [(''fee_amount'', fee, ch_fee expected),
             (''wheeling_charge'', wheeling, ch_wheeling expected),
             (''loss_cost'', loss, ch_loss expected),
             (''net_amount'', net, ch_net expected)])) })"

section \<open>Collector totals\<close>

record charge_totals =
  ct_fee :: decimal
  ct_wheeling :: decimal
  ct_loss :: decimal

definition ct_default :: charge_totals where
  "ct_default = \<lparr>ct_fee = 0, ct_wheeling = 0, ct_loss = 0\<rparr>"

definition ct_minus :: "charge_totals \<Rightarrow> charge_totals \<Rightarrow> charge_totals" where
  "ct_minus a b = \<lparr>ct_fee = ct_fee a - ct_fee b, ct_wheeling = ct_wheeling a - ct_wheeling b,
                   ct_loss = ct_loss a - ct_loss b\<rparr>"

definition ct_labelled :: "charge_totals \<Rightarrow> (string \<times> decimal) list" where
  "ct_labelled t = [(''fee'', ct_fee t), (''wheeling'', ct_wheeling t), (''loss'', ct_loss t)]"

section \<open>The trait\<close>

text \<open>
  An implementation answers the three getters from one value of the rates, its snapshot, and a
  replacement of that value is what the next read sees.
\<close>

locale charge_rates =
  fixes fee_bps :: "'r \<Rightarrow> 16 word"
    and wheeling_rate :: "'r \<Rightarrow> 64 word"
    and loss_bps :: "'r \<Rightarrow> 16 word"
    and snapshot :: "'r \<Rightarrow> static_charge_rates"
    and replace :: "'r \<Rightarrow> static_charge_rates \<Rightarrow> 'r"
  assumes fee_snapshot: "fee_bps r = scr_fee_bps (snapshot r)"
    and wheeling_snapshot: "wheeling_rate r = scr_wheeling_rate_per_kwh (snapshot r)"
    and loss_snapshot: "loss_bps r = scr_loss_bps (snapshot r)"
    and snapshot_replace: "snapshot (replace r s) = s"
begin

text \<open>What a caller reads with the three getters.\<close>

lemma getters_snapshot:
  "\<lparr>scr_fee_bps = fee_bps r, scr_wheeling_rate_per_kwh = wheeling_rate r, scr_loss_bps = loss_bps r\<rparr>
     = snapshot r"
  by (simp add: fee_snapshot wheeling_snapshot loss_snapshot)

text \<open>Three reads with a replacement before the last: the mix the caller sees.\<close>

lemma torn_read:
  "\<lparr>scr_fee_bps = fee_bps r, scr_wheeling_rate_per_kwh = wheeling_rate r,
    scr_loss_bps = loss_bps (replace r s)\<rparr> = (snapshot r)\<lparr>scr_loss_bps := scr_loss_bps s\<rparr>"
  by (simp add: fee_snapshot wheeling_snapshot loss_snapshot snapshot_replace)

lemma replace_last: "snapshot (replace (replace r s) t) = snapshot (replace r t)"
  by (simp add: snapshot_replace)

end

interpretation static_rates: charge_rates scr_fee_bps scr_wheeling_rate_per_kwh scr_loss_bps
  "\<lambda>r. r" "\<lambda>_ s. s"
  by unfold_locales simp_all

lemma rcr_snapshot_value: "rcr_snapshot r = lk_value (rcr_current r)"
  by (simp add: rcr_snapshot_def lk_read_def unwrap_into_inner_def)

interpretation refreshing_rates: charge_rates rcr_fee_bps rcr_wheeling_rate_per_kwh rcr_loss_bps
  rcr_snapshot "\<lambda>r s. fst (rcr_store r s)"
  by unfold_locales
    (simp_all add: rcr_fee_bps_def rcr_wheeling_rate_per_kwh_def rcr_loss_bps_def
      rcr_snapshot_value rcr_store_def Let_def)

section \<open>Facts\<close>

lemma dec_of_word_ge0 [simp]: "0 \<le> dec_of_word w"
  unfolding dec_of_word_def using uint_ge_0[of w] by (simp only: of_int_0_le_iff)

lemma dec_of_word_0 [simp]: "dec_of_word w = 0 \<longleftrightarrow> w = 0"
  unfolding dec_of_word_def by (simp only: of_int_eq_0_iff uint_0_iff)

lemma dec_of_word_lt: "dec_of_word (w::'a::len word) < 2 ^ LENGTH('a)"
  using uint_lt2p[of w] of_int_less_iff[where ?'a = rat, of "uint w" "2 ^ LENGTH('a)"]
  by (simp add: dec_of_word_def)

lemma wheeling_per_kwh_exact:
  assumes "dec_laws D"
  shows "wheeling_per_kwh D rates = Some (dec_of_word (scr_wheeling_rate_per_kwh rates) / 1000000)"
proof -
  have "\<bar>uint (scr_wheeling_rate_per_kwh rates)\<bar> < 2 ^ 96"
    using uint_lt2p[of "scr_wheeling_rate_per_kwh rates"] by simp
  then have "dec_repr (dec_of_word (scr_wheeling_rate_per_kwh rates) / 1000000)"
    by (intro dec_reprI[of "uint (scr_wheeling_rate_per_kwh rates)" 6]) (simp_all add: dec_of_word_def)
  then show ?thesis
    using assms by (simp add: wheeling_per_kwh_def currency_scale_def ddiv_exact)
qed

lemma loss_factor_exact:
  assumes "dec_laws D"
  shows "loss_factor D rates = Some (1 + dec_of_word (scr_loss_bps rates) / 10000)"
proof -
  have "\<bar>uint (scr_loss_bps rates)\<bar> < 2 ^ 96"
    using uint_lt2p[of "scr_loss_bps rates"] by simp
  then have "dec_repr (dec_of_word (scr_loss_bps rates) / 10000)"
    by (intro dec_reprI[of "uint (scr_loss_bps rates)" 4]) (simp_all add: dec_of_word_def)
  then show ?thesis using assms by (simp add: loss_factor_def bps_def ddiv_exact)
qed

text \<open>The charges with exact arithmetic.\<close>

lemma compute_charges_exact:
  "compute_charges exact_dec gross kwh rates = Some
     \<lparr>ch_fee = gross * dec_of_word (scr_fee_bps rates) / 10000,
      ch_wheeling = kwh * (dec_of_word (scr_wheeling_rate_per_kwh rates) / 1000000),
      ch_loss = gross * dec_of_word (scr_loss_bps rates) / 10000,
      ch_net = gross - gross * dec_of_word (scr_fee_bps rates) / 10000
        - kwh * (dec_of_word (scr_wheeling_rate_per_kwh rates) / 1000000)
        - gross * dec_of_word (scr_loss_bps rates) / 10000\<rparr>"
  by (simp add: compute_charges_def bps_def wheeling_per_kwh_exact)

lemma compute_charges_sum:
  "compute_charges D gross kwh rates = Some c \<Longrightarrow> ch_fee c + ch_wheeling c + ch_loss c + ch_net c = gross"
  by (auto simp: compute_charges_def bind_eq_Some_conv)

section \<open>Properties\<close>

text \<open>The accounting identity: whatever the rates are, even rates read on both sides of a
  refresh, and however the crate rounds, the charges and the payout add up to the gross.\<close>

theorem charges_add_up:
  "case compute_charges D gross kwh
      \<lparr>scr_fee_bps = rcr_fee_bps r, scr_wheeling_rate_per_kwh = rcr_wheeling_rate_per_kwh r,
       scr_loss_bps = rcr_loss_bps (fst (rcr_store r s))\<rparr> of
     None \<Rightarrow> True
   | Some c \<Rightarrow> ch_fee c + ch_wheeling c + ch_loss c + ch_net c = gross"
  using compute_charges_sum by (auto split: option.splits)

text \<open>The refresh protocol: a stored rate is what every later read returns, the store hands
  back the rates it replaced, a read of all three getters is one snapshot, and a poisoned lock
  changes none of this.\<close>

theorem refresh_takes_effect:
  "rcr_snapshot (fst (rcr_store r s)) = s \<and> snd (rcr_store r s) = rcr_snapshot r \<and>
   \<lparr>scr_fee_bps = rcr_fee_bps r, scr_wheeling_rate_per_kwh = rcr_wheeling_rate_per_kwh r,
    scr_loss_bps = rcr_loss_bps r\<rparr> = rcr_snapshot r \<and>
   rcr_snapshot (r\<lparr>rcr_current := (rcr_current r)\<lparr>lk_poisoned := b\<rparr>\<rparr>) = rcr_snapshot r"
  by (simp add: refreshing_rates.snapshot_replace refreshing_rates.getters_snapshot)
    (simp add: rcr_store_def rcr_snapshot_value rcr_snapshot_def[symmetric])

lemma power_numeral_10_6: "(10::rat) ^ 6 = 1000000"
  by simp

lemma ceiling_scaled_ge:
  assumes near: "\<bar>q' - of_int a / (of_int h * 1000000)\<bar> < 1 / (of_int h * 1000000 :: rat)"
    and "0 < h"
  shows "of_int a / (of_int h * 1000000) \<le> (of_int \<lceil>q' * 1000000\<rceil> / 1000000 :: rat)"
proof (rule ccontr)
  let ?k = "\<lceil>q' * 1000000\<rceil>"
  assume "\<not> ?thesis"
  then have "of_int (?k * h) < (of_int a :: rat)"
    using assms(2) by (simp add: field_simps)
  then have "?k * h + 1 \<le> a" unfolding of_int_less_iff by simp
  then have "(of_int (?k * h + 1) :: rat) \<le> of_int a" unfolding of_int_le_iff .
  then have "of_int ?k * of_int h + 1 \<le> (of_int a :: rat)" by simp
  moreover have "q' * 1000000 * of_int h \<le> of_int ?k * of_int h"
    using assms(2) by (intro mult_right_mono) simp_all
  ultimately have "q' * 1000000 * of_int h + 1 \<le> of_int a" by linarith
  moreover have "of_int a - q' * (of_int h * 1000000) < 1"
    using near assms(2) by (auto simp: abs_less_iff field_simps)
  ultimately show False by (simp add: algebra_simps)
qed

text \<open>The quotient the floor rounds up, and how close the crate's division comes to it.\<close>

lemma min_settleable_floor:
  assumes D: "dec_laws D" and p: "min_settleable_price_per_kwh D rates = Some (Some p0)"
  defines "W \<equiv> dec_of_word (scr_wheeling_rate_per_kwh rates)"
    and "h \<equiv> 2000 - uint (scr_loss_bps rates)"
  shows "W = 0 \<and> p0 = 0 \<or> 0 < h \<and> W / (100 * of_int h) \<le> p0 \<and> p0 < W / (100 * of_int h) + 2 / 1000000"
proof (cases "W = 0")
  case True
  then show ?thesis using p D by (simp add: min_settleable_price_per_kwh_def wheeling_per_kwh_exact W_def)
next
  case False
  let ?w = "uint (scr_wheeling_rate_per_kwh rates)"
  have W: "W = of_int ?w" by (simp add: W_def dec_of_word_def)
  have w64: "?w < 2 ^ 64" using uint_lt2p[of "scr_wheeling_rate_per_kwh rates"] by simp
  have mul: "dmul D (W / 1000000) 10000 = Some (W / 100)"
  proof -
    have "dec_repr (W / 100)"
      by (rule dec_reprI[of ?w 2]) (use w64 in \<open>simp_all add: W\<close>)
    then show ?thesis using D dmul_exact[of D "W / 1000000" 10000] by simp
  qed
  have hpos: "0 < h"
    using p False D
    by (auto simp: min_settleable_price_per_kwh_def wheeling_per_kwh_exact W_def h_def Let_def
        max_network_charge_bps_def split: if_splits)
  obtain q' where q': "ddiv D (W / 100) (of_int h) = Some q'" "p0 = round_up_dp 6 q'"
    using p False D hpos mul
    by (auto simp: min_settleable_price_per_kwh_def wheeling_per_kwh_exact W_def h_def Let_def
        max_network_charge_bps_def bps_def bind_eq_Some_conv split: if_splits)
  have h2000: "h \<le> 2000" using uint_ge_0[of "scr_loss_bps rates"] by (simp add: h_def)
  have hr: "(1::rat) \<le> of_int h" "(of_int h :: rat) \<le> 2000"
    using hpos h2000 of_int_le_iff[where ?'a = rat, of 1 h] of_int_le_iff[where ?'a = rat, of h 2000]
    by simp_all
  have Wlt: "0 \<le> W" "W < 2 ^ 64"
    using dec_of_word_lt[of "scr_wheeling_rate_per_kwh rates"] by (simp_all add: W_def)
  have qle: "0 \<le> W / 100 / of_int h" "W / 100 / of_int h \<le> 2 ^ 64 / 100"
  proof -
    show "0 \<le> W / 100 / of_int h" using Wlt hr by simp
    have "W / 100 / of_int h \<le> W / 100"
      using hr Wlt mult_left_mono[OF hr(1), of W] by (simp add: divide_le_eq)
    then show "W / 100 / of_int h \<le> 2 ^ 64 / 100" using Wlt by simp
  qed
  have near: "\<bar>q' - W / 100 / of_int h\<bar> \<le> 2 / 10 ^ 10"
    using ddiv_near[OF D q'(1)] qle by (simp add: abs_le_iff)
  have small: "(2 / 10 ^ 10 :: rat) < 1 / (of_int h * 1000000)"
    using hr by (simp add: field_simps)
  have eq: "W / 100 / of_int h = of_int (?w * 10000) / (of_int h * 1000000)"
    by (simp add: W)
  have "\<bar>q' - of_int (?w * 10000) / (of_int h * 1000000)\<bar> < 1 / (of_int h * 1000000)"
    using near small unfolding eq by linarith
  from ceiling_scaled_ge[OF this hpos]
  moreover have "W / (100 * of_int h) = of_int (?w * 10000) / (of_int h * 1000000)"
    unfolding eq[symmetric] by simp
  ultimately have lower: "W / (100 * of_int h) \<le> p0"
    unfolding q'(2) round_up_dp_def power_numeral_10_6 by (simp only:)
  have "p0 < (q' * 1000000 + 1) / 1000000"
    unfolding q'(2) round_up_dp_def power_numeral_10_6
    by (intro divide_strict_right_mono) (use ceiling_correct[of "q' * 1000000"] in simp_all)
  then have "p0 < W / (100 * of_int h) + 2 / 1000000"
  proof -
    have "p0 < q' + 1 / 1000000" using \<open>p0 < _\<close> by (simp add: add_divide_distrib)
    moreover have "q' \<le> W / (100 * of_int h) + 2 / 10 ^ 10"
      using near abs_le_D1[OF near] by (simp add: mult.commute)
    ultimately show ?thesis by simp
  qed
  then show ?thesis using lower hpos by simp
qed

lemma charges_within_cap:
  assumes "dec_laws D" and "min_settleable_price_per_kwh D rates = Some (Some p0)"
    and "0 < kwh" and "0 \<le> p" and "uint (scr_loss_bps rates) \<le> max_network_charge_bps"
  shows "(p0 \<le> p \<longrightarrow>
            kwh * (dec_of_word (scr_wheeling_rate_per_kwh rates) / 1000000)
              + kwh * p * dec_of_word (scr_loss_bps rates) / 10000
            \<le> kwh * p * of_int max_network_charge_bps / 10000) \<and>
         (p + 2 / 1000000 \<le> p0 \<longrightarrow>
            kwh * p * of_int max_network_charge_bps / 10000
            < kwh * (dec_of_word (scr_wheeling_rate_per_kwh rates) / 1000000)
              + kwh * p * dec_of_word (scr_loss_bps rates) / 10000)"
proof -
  let ?W = "dec_of_word (scr_wheeling_rate_per_kwh rates)"
  let ?L = "dec_of_word (scr_loss_bps rates)"
  let ?h = "of_int (2000 - uint (scr_loss_bps rates)) :: rat"
  have h: "?h = 2000 - ?L" by (simp add: dec_of_word_def)
  have split: "kwh * (?W / 1000000) + kwh * p * ?L / 10000 = kwh * (?W / 1000000 + p * ?L / 10000)"
    and cap: "kwh * p * of_int max_network_charge_bps / 10000 = kwh * (p * 2000 / 10000)"
    by (simp_all add: max_network_charge_bps_def algebra_simps)
  have "0 \<le> ?h" using assms(5) unfolding max_network_charge_bps_def of_int_0_le_iff by simp
  then have L: "p * ?L \<le> p * 2000" using assms(4) h by (intro mult_left_mono) simp_all
  consider (zero) "?W = 0" "p0 = 0"
    | (pos) "0 < 2000 - uint (scr_loss_bps rates)" "?W / (100 * ?h) \<le> p0" "p0 < ?W / (100 * ?h) + 2 / 1000000"
    using min_settleable_floor[OF assms(1,2)] by blast
  then show ?thesis
  proof cases
    case zero
    then have "?W / 1000000 + p * ?L / 10000 \<le> p * 2000 / 10000" using L by linarith
    then have "kwh * (?W / 1000000 + p * ?L / 10000) \<le> kwh * (p * 2000 / 10000)"
      using assms(3) by (intro mult_left_mono) simp_all
    then show ?thesis using zero(2) assms(4) unfolding split cap by linarith
  next
    case pos
    then have hpos: "0 < ?h" unfolding of_int_0_less_iff by simp
    have "?W / 1000000 + p * ?L / 10000 \<le> p * 2000 / 10000" if "p0 \<le> p"
    proof -
      have "?W / (100 * ?h) \<le> p" using pos(2) that by simp
      then have "?W \<le> p * (100 * ?h)" using hpos by (simp add: divide_le_eq)
      then show ?thesis unfolding h by (simp add: algebra_simps)
    qed
    moreover have "p * 2000 / 10000 < ?W / 1000000 + p * ?L / 10000" if "p + 2 / 1000000 \<le> p0"
    proof -
      have "p < ?W / (100 * ?h)" using pos(3) that by simp
      then have "p * (100 * ?h) < ?W" using hpos by (simp add: less_divide_eq)
      then show ?thesis unfolding h by (simp add: algebra_simps)
    qed
    ultimately show ?thesis
      using assms(3) unfolding split cap by (simp add: mult_left_mono mult_strict_left_mono)
  qed
qed


definition deployed_rates :: static_charge_rates where
  "deployed_rates = \<lparr>scr_fee_bps = 25, scr_wheeling_rate_per_kwh = 100000, scr_loss_bps = 5\<rparr>"

lemma deployed_floor:
  "min_settleable_price_per_kwh exact_dec deployed_rates = Some (Some (501254 / 1000000))"
  by (simp add: min_settleable_price_per_kwh_def wheeling_per_kwh_exact deployed_rates_def
      dec_of_word_def max_network_charge_bps_def bps_def round_up_dp_def)


text \<open>A tariff without wheeling hides a prohibitive loss rate: the floor is zero although the
  loss alone exceeds the network-charge cap, so every sell is admitted and none can settle.  The
  function's documentation promises \<^const>\<open>None\<close> for such a loss rate.\<close>

theorem zero_wheeling_hides_loss_cap:
  "let rates = \<lparr>scr_fee_bps = 25, scr_wheeling_rate_per_kwh = 0, scr_loss_bps = 3000\<rparr> in
     min_settleable_price_per_kwh exact_dec rates = Some (Some 0) \<and>
     uint (scr_loss_bps rates) \<ge> max_network_charge_bps \<and>
     min_settleable_price_per_kwh exact_dec (rates\<lparr>scr_wheeling_rate_per_kwh := 1\<rparr>) = Some None"
  by (simp add: min_settleable_price_per_kwh_def wheeling_per_kwh_exact dec_of_word_def
      max_network_charge_bps_def)

text \<open>A ledger row passes reconciliation exactly when its four columns are the charges the
  tariff gives for it; a row that does not add up to its gross is always reported first.\<close>

theorem reconcile_charges_complete:
  assumes "compute_charges D gross kwh rates = Some c"
    and "reconcile_charges D gross kwh fee wheeling loss net rates = Some found"
  shows "(found = [] \<longleftrightarrow> c = \<lparr>ch_fee = fee, ch_wheeling = wheeling, ch_loss = loss, ch_net = net\<rparr>) \<and>
         (fee + wheeling + loss + net \<noteq> gross \<longrightarrow>
            (\<exists>rest. found = DoesNotSumToGross (fee + wheeling + loss + net) gross # rest)) \<and>
         length found \<le> 5"
  using assms compute_charges_sum[OF assms(1)]
  by (cases c) (auto simp: reconcile_charges_def Let_def split: if_splits)

theorem reconcile_charges_complete_witness:
  "(\<exists>found rest. reconcile_charges exact_dec 2 1 0 0 0 1 scr_ZERO = Some found \<and> found \<noteq> [] \<and>
      found = DoesNotSumToGross 1 2 # rest \<and> length found \<le> 5)"
proof -
  have c: "compute_charges exact_dec 2 1 scr_ZERO
             = Some \<lparr>ch_fee = 0, ch_wheeling = 0, ch_loss = 0, ch_net = 2\<rparr>"
    by (simp add: compute_charges_exact scr_ZERO_def dec_of_word_def)
  have f: "reconcile_charges exact_dec 2 1 0 0 0 1 scr_ZERO
             = Some [DoesNotSumToGross 1 2, ChargeOffTariff ''net_amount'' 1 2]"
    by (simp add: reconcile_charges_def compute_charges_exact scr_ZERO_def dec_of_word_def)
  from reconcile_charges_complete[OF c f] f show ?thesis by simp
qed

lemma ct_minus_zero: "ct_minus a b = ct_default \<longleftrightarrow> a = b"
  by (cases a; cases b) (simp add: ct_minus_def ct_default_def)

end
