(* ===== verification/Numeric.thy ===== *)
theory Numeric imports Prelude begin

text \<open>
  \<open>trading-core/src/numeric.rs\<close>: conversion of decimals to unsigned atomic units, guarded
  division and casts.  The \<open>anyhow\<close> errors are the constructors of \<open>numeric_error\<close>, with the
  label the caller gave.  \<^const>\<open>None\<close> is a panic.
\<close>

datatype numeric_error =
    NegativeValue string | PrecisionLoss string | TooLarge string | DivisionByZero string
  | CastFailed string

text \<open>\<open>10u64.pow(n)\<close>: an overflow panics in a build with overflow checks and wraps otherwise.\<close>

definition pow10_u64 :: "bool \<Rightarrow> nat \<Rightarrow> int option" where
  "pow10_u64 checks n =
     (if 10 ^ n \<le> u64_max then Some (10 ^ n)
      else if checks then None else Some (10 ^ n mod 2 ^ 64))"

definition to_u64_atomic ::
  "dec_ops \<Rightarrow> bool \<Rightarrow> decimal \<Rightarrow> nat \<Rightarrow> string \<Rightarrow> (numeric_error + int) option" where
  "to_u64_atomic D checks val decimals label =
     (if val < 0 then Some (Inl (NegativeValue label))
      else do {
        multiplier \<leftarrow> pow10_u64 checks decimals;
        atomic_val \<leftarrow> dmul D val (of_int multiplier);
        if dec_fract atomic_val \<noteq> 0 then Some (Inl (PrecisionLoss label))
        else (case to_u64 (dec_trunc atomic_val) of
            None \<Rightarrow> Some (Inl (TooLarge label))
          | Some a \<Rightarrow> Some (Inr a)) })"

definition safe_div :: "dec_ops \<Rightarrow> decimal \<Rightarrow> decimal \<Rightarrow> string \<Rightarrow> (numeric_error + decimal) option" where
  "safe_div D numerator denominator label =
     (if denominator = 0 then Some (Inl (DivisionByZero label))
      else do { q \<leftarrow> ddiv D numerator denominator; Some (Inr q) })"

definition to_u32_safe :: "32 word \<Rightarrow> string \<Rightarrow> numeric_error + 32 word" where
  "to_u32_safe val label = (if sint val < 0 then Inl (NegativeValue label) else Inr val)"

definition to_i64_safe :: "32 word \<Rightarrow> 64 word" where
  "to_i64_safe val = ucast val"

section \<open>Properties\<close>

lemma dec_trunc_integral: "dec_fract x = 0 \<Longrightarrow> of_int (dec_trunc x) = x"
  by (simp add: dec_fract_def)

text \<open>The conversion to atomic units loses nothing: when it succeeds the result is exactly the
  value scaled by the power of ten, an unsigned 64-bit integer, and it succeeds on every
  non-negative value that scales to such an integer.\<close>

theorem to_u64_atomic_exact:
  assumes "dec_laws D" and "decimals \<le> 18" and "dec_repr (val * 10 ^ decimals)"
  shows "to_u64_atomic D checks val decimals label = Some (Inr a) \<longleftrightarrow>
           0 \<le> val \<and> val * 10 ^ decimals = of_int a \<and> 0 \<le> a \<and> a \<le> u64_max"
proof -
  have "(10::int) ^ decimals \<le> 10 ^ 18" using assms(2) by (intro power_increasing) simp_all
  then have "pow10_u64 checks decimals = Some (10 ^ decimals)"
    by (simp add: pow10_u64_def u64_max_def)
  moreover have "dmul D val (10 ^ decimals) = Some (val * 10 ^ decimals)"
    using assms by (simp add: dmul_exact)
  ultimately have step: "to_u64_atomic D checks val decimals label =
      (if val < 0 then Some (Inl (NegativeValue label))
       else if dec_fract (val * 10 ^ decimals) \<noteq> 0 then Some (Inl (PrecisionLoss label))
       else (case to_u64 (dec_trunc (val * 10 ^ decimals)) of
            None \<Rightarrow> Some (Inl (TooLarge label)) | Some a \<Rightarrow> Some (Inr a)))"
    by (simp add: to_u64_atomic_def)
  have trunc: "dec_trunc (of_int a) = a" "dec_fract (of_int a) = 0" for a
    by (simp_all add: dec_trunc_def dec_fract_def)
  show ?thesis
    unfolding step
    by (auto simp: to_u64_def trunc dest!: dec_trunc_integral split: if_splits option.splits)
qed

theorem to_u64_atomic_exact_witness:
  "to_u64_atomic exact_dec True (3 / 2) 6 ''energy'' = Some (Inr 1500000) \<longleftrightarrow>
     0 \<le> (3 / 2 :: decimal) \<and> 3 / 2 * 10 ^ 6 = (of_int 1500000 :: decimal)
       \<and> 0 \<le> (1500000 :: int) \<and> 1500000 \<le> u64_max"
  by (rule to_u64_atomic_exact) (simp_all add: dec_reprI[of 1500000 0])

lemma safe_div_total:
  "dec_laws D \<Longrightarrow> \<bar>x / y\<bar> \<le> dec_max \<Longrightarrow> safe_div D x y label \<noteq> None"
  using ddiv_total[of D y x] by (auto simp: safe_div_def)

lemma to_i64_safe_value: "sint (to_i64_safe v) = uint v"
proof -
  have "- (2 ^ 63) \<le> uint v" "uint v < 2 ^ 63"
    using uint_lt2p[of v] order_trans[OF _ uint_ge_0[of v]] by simp_all
  then have "signed_take_bit 63 (uint v) = uint v" by (rule signed_take_bit_int_eq_self)
  then show ?thesis
    by (simp add: to_i64_safe_def sint_uint uint_up_ucast is_up_def source_size_def
        target_size_def word_size)
qed

end
