(* ===== verification/Offchain_Payload.thy ===== *)
theory Offchain_Payload imports Prelude begin

unbundle bit_operations_syntax

text \<open>
  \<open>trading-core/src/offchain_payload.rs\<close>: the 77 bytes a wallet signs for an off-chain order and
  the conversions of its amounts to base units.
\<close>

type_synonym byte = "8 word"

definition offchain_message_len :: nat where
  "offchain_message_len = 16 + 32 + 8 + 8 + 1 + 4 + 8"

definition side_buy :: byte where "side_buy = 0"
definition side_sell :: byte where "side_sell = 1"
definition energy_scale :: int where "energy_scale = 1000000000"
definition payload_currency_scale :: int where "payload_currency_scale = 1000000"

definition to_base_units :: "dec_ops \<Rightarrow> decimal \<Rightarrow> int \<Rightarrow> int option" where
  "to_base_units D value scale =
     (if value < 0 then None
      else do { scaled \<leftarrow> dmul D value (of_int scale); to_u64 (dec_trunc scaled) })"

definition energy_to_base_units :: "dec_ops \<Rightarrow> decimal \<Rightarrow> int option" where
  "energy_to_base_units D kwh = to_base_units D kwh energy_scale"

definition currency_to_base_units :: "dec_ops \<Rightarrow> decimal \<Rightarrow> int option" where
  "currency_to_base_units D amount = to_base_units D amount payload_currency_scale"

text \<open>\<open>to_le_bytes\<close> of an integer of \<open>n\<close> bytes.\<close>

definition to_le_bytes :: "'a::len word \<Rightarrow> byte list" where
  "to_le_bytes w = map (\<lambda>i. ucast (drop_bit (8 * i) w)) [0..<LENGTH('a) div 8]"

definition message_for ::
  "byte list \<Rightarrow> byte list \<Rightarrow> 64 word \<Rightarrow> 64 word \<Rightarrow> byte \<Rightarrow> 32 word \<Rightarrow> 64 word \<Rightarrow> byte list" where
  "message_for order_id user energy_amount price_per_kwh side zone_id expires_at =
     order_id @ user @ to_le_bytes energy_amount @ to_le_bytes price_per_kwh
       @ [side] @ to_le_bytes zone_id @ to_le_bytes expires_at"

section \<open>Little-endian bytes\<close>

lemma length_to_le_bytes [simp]: "length (to_le_bytes (w::'a::len word)) = LENGTH('a) div 8"
  by (simp add: to_le_bytes_def)

lemma to_le_bytes_nth:
  "i < LENGTH('a) div 8 \<Longrightarrow> to_le_bytes (w::'a::len word) ! i = ucast (drop_bit (8 * i) w)"
  by (simp add: to_le_bytes_def)

text \<open>Every bit of the word is a bit of its bytes.\<close>

lemma bit_to_le_bytes:
  assumes "n < LENGTH('a)" and "8 dvd LENGTH('a)"
  shows "bit (w::'a::len word) n = bit (to_le_bytes w ! (n div 8)) (n mod 8)"
proof -
  have "n div 8 < LENGTH('a) div 8" using assms by auto
  then have "bit (to_le_bytes w ! (n div 8)) (n mod 8) = bit (drop_bit (8 * (n div 8)) w) (n mod 8)"
    by (simp add: to_le_bytes_nth bit_ucast_iff)
  also have "\<dots> = bit w (8 * (n div 8) + n mod 8)" by (simp add: bit_drop_bit_eq)
  finally show ?thesis by simp
qed

lemma to_le_bytes_inj:
  assumes "to_le_bytes v = to_le_bytes (w::'a::len word)" and "8 dvd LENGTH('a)"
  shows "v = w"
proof (rule bit_word_eqI)
  fix n assume "n < LENGTH('a)"
  then show "bit v n = bit w n" using assms bit_to_le_bytes by metis
qed

section \<open>Properties\<close>

lemma to_base_units_Some:
  assumes "to_base_units D v s = Some n"
  shows "0 \<le> n \<and> n \<le> u64_max \<and> 0 \<le> v"
  using assms by (auto simp: to_base_units_def to_u64_def bind_eq_Some_conv split: if_splits)

text \<open>Base units are truncated, never rounded up, so nobody signs for more energy than the
  order carries, and less than one unit is lost; a negative amount has no base units.\<close>

theorem energy_to_base_units_truncates:
  assumes "dec_laws D" and "dec_repr (kwh * 1000000000)"
  shows "case energy_to_base_units D kwh of
           Some n \<Rightarrow> of_int n / 1000000000 \<le> kwh \<and> kwh < (of_int n + 1) / 1000000000 \<and> n \<le> u64_max
         | None \<Rightarrow> kwh < 0 \<or> of_int u64_max < kwh * 1000000000"
proof (cases "kwh < 0")
  case True
  then show ?thesis by (simp add: energy_to_base_units_def to_base_units_def)
next
  case False
  have "energy_to_base_units D kwh = to_u64 \<lfloor>kwh * 1000000000\<rfloor>"
    using assms False
    by (simp add: energy_to_base_units_def to_base_units_def energy_scale_def dmul_exact dec_trunc_def)
  moreover have "0 \<le> \<lfloor>kwh * 1000000000\<rfloor>" using False by simp
  moreover have "of_int \<lfloor>kwh * 1000000000\<rfloor> \<le> kwh * 1000000000"
    "kwh * 1000000000 < of_int \<lfloor>kwh * 1000000000\<rfloor> + 1"
    by linarith+
  moreover have "of_int u64_max < kwh * 1000000000" if "u64_max < \<lfloor>kwh * 1000000000\<rfloor>"
    using that by (simp add: less_floor_iff)
  ultimately show ?thesis by (auto simp: to_u64_def field_simps)
qed

theorem energy_to_base_units_truncates_witness:
  "case energy_to_base_units exact_dec (3 / 2) of
     Some n \<Rightarrow> of_int n / 1000000000 \<le> (3 / 2 :: decimal)
                 \<and> 3 / 2 < (of_int n + 1) / (1000000000 :: decimal) \<and> n \<le> u64_max
   | None \<Rightarrow> (3 / 2 :: decimal) < 0 \<or> of_int u64_max < (3 / 2 :: decimal) * 1000000000"
  by (rule energy_to_base_units_truncates) (simp_all add: dec_reprI[of 1500000000 0])

text \<open>The signed message has 77 bytes and determines every term of the order: two orders
  with the same message have the same identifier, signer, energy, price, side, zone and expiry,
  so a signature for one set of terms cannot stand for another.\<close>

theorem message_for_injective:
  assumes "length oid = 16" and "length oid' = 16" and "length usr = 32" and "length usr' = 32"
  shows "length (message_for oid usr e p s z x) = offchain_message_len \<and>
         (message_for oid usr e p s z x = message_for oid' usr' e' p' s' z' x' \<longleftrightarrow>
            oid = oid' \<and> usr = usr' \<and> e = e' \<and> p = p' \<and> s = s' \<and> z = z' \<and> x = x')"
proof -
  have "to_le_bytes a = to_le_bytes b \<longleftrightarrow> a = b" for a b :: "64 word"
    using to_le_bytes_inj[of a b] by auto
  moreover have "to_le_bytes a = to_le_bytes b \<longleftrightarrow> a = b" for a b :: "32 word"
    using to_le_bytes_inj[of a b] by auto
  ultimately show ?thesis
    using assms by (simp add: message_for_def offchain_message_len_def)
qed

theorem message_for_injective_witness:
  "length (message_for (replicate 16 1) (replicate 32 2) 3 4 side_buy 5 6) = offchain_message_len \<and>
   (message_for (replicate 16 1) (replicate 32 2) 3 4 side_buy 5 6 =
      message_for (replicate 16 1) (replicate 32 2) 3 4 side_sell 5 6 \<longleftrightarrow>
      replicate 16 1 = replicate 16 (1::byte) \<and> replicate 32 2 = replicate 32 (2::byte) \<and>
      (3::64 word) = 3 \<and> (4::64 word) = 4 \<and> side_buy = side_sell \<and> (5::32 word) = 5 \<and> (6::64 word) = 6)"
  by (rule message_for_injective) simp_all

end
