(* ===== verification/Recurring_Schedule.thy ===== *)
theory Recurring_Schedule imports Order_Policy begin

text \<open>
  \<open>trading-core/src/recurring.rs\<close>: the next execution time of a recurring order.  Calendar
  arithmetic (\<open>checked_add_months\<close>) belongs to the \<open>chrono\<close> crate and is the parameter \<open>add_months\<close>;
  the only behaviour relied on is that a positive number of months moves forward.
\<close>

definition months_forward :: "(datetime \<Rightarrow> int \<Rightarrow> datetime option) \<Rightarrow> bool" where
  "months_forward add_months \<longleftrightarrow>
     (\<forall>t n t'. 1 \<le> n \<longrightarrow> add_months t n = Some t' \<longrightarrow> t < t')"

text \<open>\<open>date + Duration\<close> panics outside the clock's range.\<close>

definition next_execution_at ::
  "clock_range \<Rightarrow> (datetime \<Rightarrow> int \<Rightarrow> datetime option) \<Rightarrow> datetime \<Rightarrow> interval_type \<Rightarrow> int
     \<Rightarrow> datetime option" where
  "next_execution_at C add_months start interval interval_value =
     (let n = max interval_value 1 in
      case interval of
        Hourly \<Rightarrow> checked_add_signed C start (n * 3600 * nanos)
      | Daily \<Rightarrow> checked_add_signed C start (n * 86400 * nanos)
      | Weekly \<Rightarrow> checked_add_signed C start (n * 604800 * nanos)
      | Monthly \<Rightarrow>
          (case add_months start n of
             Some t \<Rightarrow> Some t
           | None \<Rightarrow> checked_add_signed C start (30 * n * 86400 * nanos)))"

text \<open>The schedule is total within the clock's range and always advances, by exactly the
  interval for the fixed cadences; a zero or negative cadence counts as one.\<close>

theorem next_execution_advances:
  assumes "months_forward add_months" and "in_clock C start"
    and "in_clock C (start + 30 * 604800 * max v 1 * nanos)"
  shows "\<exists>t. next_execution_at C add_months start i v = Some t \<and> start < t \<and>
           (case i of Hourly \<Rightarrow> t = start + max v 1 * 3600 * nanos
            | Daily \<Rightarrow> t = start + max v 1 * 86400 * nanos
            | Weekly \<Rightarrow> t = start + max v 1 * 604800 * nanos
            | Monthly \<Rightarrow> add_months start (max v 1) \<noteq> None \<or> t = start + 30 * max v 1 * 86400 * nanos)"
proof -
  have pos: "0 < max v 1 * nanos" by (simp add: nanos_def)
  show ?thesis
    using assms(2,3) assms(1)[unfolded months_forward_def, rule_format, of "max v 1" start] pos
    by (cases i) (auto simp: next_execution_at_def Let_def checked_add_signed_def in_clock_def nanos_def
        split: option.splits)
qed

theorem next_execution_advances_witness:
  "\<exists>t. next_execution_at chrono_utc (\<lambda>t n. Some (t + n * 31 * 86400 * nanos)) 0 Monthly 2 = Some t \<and> 0 < t"
  using next_execution_advances[of "\<lambda>t n. Some (t + n * 31 * 86400 * nanos)" chrono_utc 0 2 Monthly]
  by (auto simp: months_forward_def nanos_def in_clock_def chrono_utc_def)

end
