(* ===== verification/Fast_Price.thy ===== *)
theory Fast_Price imports Prelude begin

text \<open>
  \<open>trading-core/src/fast_price.rs\<close>: the engine's fixed-point price, an \<open>i64\<close> mantissa at nine
  decimal places, ordered by its mantissa, with conversions from and to decimals and checked
  arithmetic.  \<open>fp_ok\<close> is the type's range: every constructor function keeps it.
\<close>

section \<open>The type and its order\<close>

datatype fast_price = FastPrice (raw: int)

definition fp_ok :: "fast_price \<Rightarrow> bool" where
  "fp_ok p \<longleftrightarrow> i64_ok (raw p)"

instantiation fast_price :: linorder
begin

definition less_eq_fast_price :: "fast_price \<Rightarrow> fast_price \<Rightarrow> bool" where
  "less_eq_fast_price p q \<longleftrightarrow> raw p \<le> raw q"

definition less_fast_price :: "fast_price \<Rightarrow> fast_price \<Rightarrow> bool" where
  "less_fast_price p q \<longleftrightarrow> raw p < raw q"

instance
  by standard (auto simp: less_eq_fast_price_def less_fast_price_def intro: fast_price.expand)

end

lemmas fp_order_simps [simp] = less_eq_fast_price_def less_fast_price_def

definition fp_scale :: nat where "fp_scale = 9"
definition fp_factor :: int where "fp_factor = 1000000000"
definition fp_zero :: fast_price where "fp_zero = FastPrice 0"

definition fp_from_raw :: "int \<Rightarrow> fast_price" where
  "fp_from_raw m = FastPrice m"

section \<open>Conversions\<close>

text \<open>
  \<open>from_decimal\<close> and \<open>From<Decimal>\<close>: scale by \<open>10^9\<close> (panicking if the product overflows),
  round to an integer, clamp into \<open>i64\<close>.
\<close>

definition fp_of_decimal :: "dec_ops \<Rightarrow> decimal \<Rightarrow> fast_price option" where
  "fp_of_decimal D d = do {
     scaled \<leftarrow> dmul D d (of_int fp_factor);
     let mantissa = dround D scaled;
     Some (if mantissa > i64_max then FastPrice i64_max
           else if mantissa < i64_min then FastPrice i64_min
           else FastPrice mantissa) }"

definition fp_from_decimal :: "dec_ops \<Rightarrow> decimal \<Rightarrow> fast_price option" where
  "fp_from_decimal D d = do {
     scaled \<leftarrow> dmul D d (of_int fp_factor);
     let mantissa = dround D scaled;
     Some (if mantissa > i64_max then FastPrice i64_max
           else if mantissa < i64_min then FastPrice i64_min
           else FastPrice mantissa) }"

definition fp_to_decimal :: "fast_price \<Rightarrow> decimal" where
  "fp_to_decimal p = of_int (raw p) / 10 ^ fp_scale"

section \<open>Arithmetic\<close>

definition i128_ok :: "int \<Rightarrow> bool" where
  "i128_ok x \<longleftrightarrow> - (2 ^ 127) \<le> x \<and> x < 2 ^ 127"

definition fp_checked_mul :: "fast_price \<Rightarrow> fast_price \<Rightarrow> fast_price option" where
  "fp_checked_mul a b = do {
     product \<leftarrow> (if i128_ok (raw a * raw b) then Some (raw a * raw b) else None);
     let result = product sdiv fp_factor;
     if result > i64_max \<or> result < i64_min then None else Some (FastPrice result) }"

definition fp_unchecked_mul :: "fast_price \<Rightarrow> fast_price \<Rightarrow> fast_price" where
  "fp_unchecked_mul a b = FastPrice (i64_wrap ((raw a * raw b) sdiv fp_factor))"

definition fp_checked_add :: "fast_price \<Rightarrow> fast_price \<Rightarrow> fast_price option" where
  "fp_checked_add a b = map_option FastPrice (i64_checked_add (raw a) (raw b))"

definition fp_checked_sub :: "fast_price \<Rightarrow> fast_price \<Rightarrow> fast_price option" where
  "fp_checked_sub a b = map_option FastPrice (i64_checked_sub (raw a) (raw b))"

text \<open>
  The unchecked operators use \<open>+\<close> and \<open>-\<close> on \<open>i64\<close>: an overflow panics in a build with
  overflow checks and wraps otherwise.  The flag says which build it is.
\<close>

definition fp_unchecked_add :: "bool \<Rightarrow> fast_price \<Rightarrow> fast_price \<Rightarrow> fast_price option" where
  "fp_unchecked_add checks a b =
     (if checks then fp_checked_add a b else Some (FastPrice (i64_wrap (raw a + raw b))))"

definition fp_unchecked_sub :: "bool \<Rightarrow> fast_price \<Rightarrow> fast_price \<Rightarrow> fast_price option" where
  "fp_unchecked_sub checks a b =
     (if checks then fp_checked_sub a b else Some (FastPrice (i64_wrap (raw a - raw b))))"

section \<open>Facts\<close>

lemma fp_factor_pos [simp]: "0 < fp_factor"
  by (simp add: fp_factor_def)

lemma fp_to_decimal_alt: "fp_to_decimal p = of_int (raw p) / of_int fp_factor"
  by (simp add: fp_to_decimal_def fp_scale_def fp_factor_def)

lemma fp_to_decimal_le [simp]: "fp_to_decimal p \<le> fp_to_decimal q \<longleftrightarrow> p \<le> q"
  by (simp add: fp_to_decimal_alt fp_factor_def divide_le_cancel)

lemma fp_to_decimal_less [simp]: "fp_to_decimal p < fp_to_decimal q \<longleftrightarrow> p < q"
  by (simp add: fp_to_decimal_alt fp_factor_def divide_less_cancel)

lemma fp_to_decimal_inj [simp]: "fp_to_decimal p = fp_to_decimal q \<longleftrightarrow> p = q"
  by (cases p; cases q) (simp add: fp_to_decimal_alt fp_factor_def)

lemma dec_repr_fp_to_decimal: "fp_ok p \<Longrightarrow> dec_repr (fp_to_decimal p)"
  by (simp add: fp_to_decimal_def fp_scale_def fp_ok_def dec_repr_i64_scale9)

lemma fp_of_decimal_ok: "fp_of_decimal D d = Some p \<Longrightarrow> fp_ok p"
  by (auto simp: fp_of_decimal_def fp_ok_def i64_ok_def Let_def bind_eq_Some_conv
      i64_min_def i64_max_def split: if_splits)

lemma i64_mul_i128:
  assumes "i64_ok a" "i64_ok b" shows "i128_ok (a * b)"
proof -
  have "\<bar>a\<bar> \<le> 2 ^ 63" "\<bar>b\<bar> \<le> 2 ^ 63"
    using assms by (auto simp: i64_ok_def i64_min_def i64_max_def)
  then have "\<bar>a\<bar> * \<bar>b\<bar> \<le> 2 ^ 63 * 2 ^ 63" by (intro mult_mono) simp_all
  then have "\<bar>a * b\<bar> \<le> 2 ^ 126" by (simp add: abs_mult)
  then show ?thesis by (simp add: i128_ok_def abs_le_iff)
qed

lemma fp_checked_mul_eq:
  "fp_ok a \<Longrightarrow> fp_ok b \<Longrightarrow> fp_checked_mul a b =
     map_option FastPrice (i64_try_from ((raw a * raw b) sdiv fp_factor))"
  by (auto simp: fp_checked_mul_def fp_ok_def i64_mul_i128 Let_def i64_try_from_def i64_ok_def)

lemma fp_from_decimal_eq: "fp_from_decimal = fp_of_decimal"
  by (simp add: fun_eq_iff fp_from_decimal_def fp_of_decimal_def)

lemma fp_checked_mul_ok: "fp_checked_mul a b = Some p \<Longrightarrow> fp_ok p"
  by (auto simp: fp_checked_mul_def fp_ok_def i64_ok_def Let_def split: if_splits)

text \<open>Converting a fixed-point price to a decimal and back returns the same price: the
  conversions lose nothing on the price grid.\<close>

theorem fast_price_roundtrip:
  assumes "dec_laws D" and "fp_ok p"
  shows "fp_of_decimal D (fp_to_decimal p) = Some p"
proof -
  have eq: "fp_to_decimal p * of_int fp_factor = of_int (raw p)"
    by (simp add: fp_to_decimal_alt fp_factor_def)
  have "\<bar>raw p\<bar> < 2 ^ 96"
    using assms(2) by (auto simp: fp_ok_def i64_ok_def i64_min_def i64_max_def)
  then have "dmul D (fp_to_decimal p) (of_int fp_factor) = Some (of_int (raw p))"
    using assms(1) dec_repr_of_int[of "raw p"] by (simp add: dmul_exact eq)
  then show ?thesis
    using assms by (auto simp: fp_of_decimal_def dround_of_int fp_ok_def i64_ok_def)
qed

theorem fast_price_roundtrip_witness:
  "fp_of_decimal exact_dec (fp_to_decimal (FastPrice 1234567890)) = Some (FastPrice 1234567890)"
  by (rule fast_price_roundtrip) (simp_all add: fp_ok_def i64_ok_def i64_min_def i64_max_def)

text \<open>Rounding a decimal to a price is off by at most half a unit of the ninth decimal place
  when the scaled product is exact and in range, and it is always clamped into the \<open>i64\<close> range.\<close>

theorem fast_price_rounding_error:
  assumes "dec_laws D" and "dec_repr (d * of_int fp_factor)"
    and "\<bar>d\<bar> \<le> 9000000000" and "fp_of_decimal D d = Some p"
  shows "fp_ok p \<and> \<bar>fp_to_decimal p - d\<bar> \<le> 1 / (2 * of_int fp_factor)"
proof -
  let ?m = "dround D (d * of_int fp_factor)"
  have near: "\<bar>of_int ?m - d * of_int fp_factor\<bar> \<le> 1 / 2"
    using assms(1) by (rule dround_near)
  have "(of_int ?m :: rat) \<le> of_int 9000000000000000001"
    and "of_int (- 9000000000000000001) \<le> (of_int ?m :: rat)"
    using near assms(3) unfolding fp_factor_def abs_le_iff by simp_all
  then have range: "\<bar>?m\<bar> \<le> 9000000000000000001"
    unfolding of_int_le_iff by linarith
  then have p: "p = FastPrice ?m"
    using assms(4) dmul_exact[OF assms(1,2)]
    by (auto simp: fp_of_decimal_def i64_min_def i64_max_def abs_le_iff split: if_splits)
  have "\<bar>fp_to_decimal p - d\<bar> * of_int fp_factor = \<bar>of_int ?m - d * of_int fp_factor\<bar>"
    by (simp add: p fp_to_decimal_alt fp_factor_def abs_mult_pos field_simps)
  then have "\<bar>fp_to_decimal p - d\<bar> * of_int fp_factor \<le> 1 / 2" using near by simp
  then have "\<bar>fp_to_decimal p - d\<bar> \<le> 1 / (2 * of_int fp_factor)"
    by (simp add: fp_factor_def field_simps)
  then show ?thesis using fp_of_decimal_ok[OF assms(4)] by simp
qed

theorem fast_price_rounding_error_witness:
  "fp_ok (FastPrice 1500000000) \<and>
   \<bar>fp_to_decimal (FastPrice 1500000000) - 3 / 2\<bar> \<le> 1 / (2 * of_int fp_factor)"
proof (rule fast_price_rounding_error [of exact_dec])
  show "dec_repr (3 / 2 * of_int fp_factor)"
    by (rule dec_reprI [of 1500000000 0]) (simp_all add: fp_factor_def)
qed (simp_all add: fp_of_decimal_def fp_factor_def i64_min_def i64_max_def)

end
