(* ===== verification/Engine_Types.thy ===== *)
theory Engine_Types imports Fast_Price Domain_Types begin

text \<open>
  \<open>trading-engine/src/types.rs\<close> and the \<open>TopologySnapshot\<close> trait of \<open>engine.rs\<close>: the orders the
  matchers work on, the matches they produce, and the grid they ask.  A snapshot does not change
  during a cycle, so its three methods are functions; the trait's contract, as the engine relies
  on it, is the locale \<open>grid_topology\<close>.
\<close>

section \<open>Orders and matches\<close>

record fast_order =
  fo_id :: uuid
  fo_user_id :: uuid
  fo_price :: fast_price
  fo_energy_amount :: decimal
  fo_filled_amount :: decimal
  fo_zone_id :: zone
  fo_created_at_ns :: int
  fo_expires_at_ns :: "int option"
  fo_time_in_force :: time_in_force
  fo_metadata_index :: nat

record order_metadata =
  md_epoch_id :: uuid
  md_order_pda :: "string option"
  md_session_token :: "string option"

definition remaining_amount :: "fast_order \<Rightarrow> decimal" where
  "remaining_amount ord = fo_energy_amount ord - fo_filled_amount ord"

definition is_expired :: "fast_order \<Rightarrow> int \<Rightarrow> bool" where
  "is_expired ord now_ns =
     (case fo_expires_at_ns ord of Some expires_at \<Rightarrow> expires_at \<le> now_ns | None \<Rightarrow> False)"

record match_result =
  mr_buy_order_id :: uuid
  mr_sell_order_id :: uuid
  mr_buy_metadata_index :: nat
  mr_sell_metadata_index :: nat
  mr_match_amount :: decimal
  mr_match_price :: decimal
  mr_settle_price :: decimal
  mr_seller_price :: decimal
  mr_buyer_price :: decimal
  mr_total_energy_cost :: decimal
  mr_wheeling_charge :: decimal
  mr_loss_factor :: decimal
  mr_loss_cost :: decimal
  mr_buyer_zone_id :: zone
  mr_seller_zone_id :: zone
  mr_buyer_id :: uuid
  mr_seller_id :: uuid
  mr_epoch_id :: uuid

record cycle_stats =
  cs_matches_created :: nat
  cs_total_volume :: decimal
  cs_ioc_cancellations :: "uuid list"

text \<open>\<open>filled_amount += a\<close>.\<close>

definition add_fill :: "decimal \<Rightarrow> fast_order \<Rightarrow> fast_order" where
  "add_fill a ord = ord\<lparr>fo_filled_amount := fo_filled_amount ord + a\<rparr>"

lemma remaining_add_fill [simp]: "remaining_amount (add_fill a ord) = remaining_amount ord - a"
  by (simp add: remaining_amount_def add_fill_def)

lemma add_fill_fields [simp]:
  "fo_id (add_fill a ord) = fo_id ord"
  "fo_user_id (add_fill a ord) = fo_user_id ord"
  "fo_price (add_fill a ord) = fo_price ord"
  "fo_energy_amount (add_fill a ord) = fo_energy_amount ord"
  "fo_filled_amount (add_fill a ord) = fo_filled_amount ord + a"
  "fo_zone_id (add_fill a ord) = fo_zone_id ord"
  "fo_created_at_ns (add_fill a ord) = fo_created_at_ns ord"
  "fo_expires_at_ns (add_fill a ord) = fo_expires_at_ns ord"
  "fo_time_in_force (add_fill a ord) = fo_time_in_force ord"
  "fo_metadata_index (add_fill a ord) = fo_metadata_index ord"
  "is_expired (add_fill a ord) n = is_expired ord n"
  by (simp_all add: add_fill_def is_expired_def)

section \<open>Sums of fills, and what fills leave alone\<close>

definition amounts :: "match_result list \<Rightarrow> decimal" where
  "amounts rs = sum_list (map mr_match_amount rs)"

lemma amounts_simps [simp]:
  "amounts [] = 0" "amounts (r # rs) = mr_match_amount r + amounts rs"
  "amounts (rs @ rs') = amounts rs + amounts rs'"
  by (simp_all add: amounts_def)

lemma add_fill_0 [simp]: "add_fill 0 ord = ord"
  by (simp add: add_fill_def)

lemma add_fill_add [simp]: "add_fill a (add_fill b ord) = add_fill (b + a) ord"
  by (simp add: add_fill_def add.assoc)

text \<open>The static part of an order, which no fill changes.\<close>

definition static :: "fast_order \<Rightarrow> fast_order" where
  "static ord = ord\<lparr>fo_filled_amount := 0\<rparr>"

lemma static_add_fill [simp]: "static (add_fill a ord) = static ord"
  by (simp add: static_def add_fill_def)

lemma static_eqD:
  assumes "static a = static b"
  shows "fo_id a = fo_id b" "fo_user_id a = fo_user_id b" "fo_price a = fo_price b"
    "fo_energy_amount a = fo_energy_amount b" "fo_zone_id a = fo_zone_id b"
    "fo_created_at_ns a = fo_created_at_ns b" "fo_expires_at_ns a = fo_expires_at_ns b"
    "fo_time_in_force a = fo_time_in_force b" "fo_metadata_index a = fo_metadata_index b"
    "is_expired a n = is_expired b n"
proof -
  obtain a1 a2 a3 a4 a5 a6 a7 a8 a9 a10 where a: "a = \<lparr>fo_id = a1, fo_user_id = a2, fo_price = a3,
      fo_energy_amount = a4, fo_filled_amount = a5, fo_zone_id = a6, fo_created_at_ns = a7,
      fo_expires_at_ns = a8, fo_time_in_force = a9, fo_metadata_index = a10\<rparr>" by (cases a)
  obtain b1 b2 b3 b4 b5 b6 b7 b8 b9 b10 where b: "b = \<lparr>fo_id = b1, fo_user_id = b2, fo_price = b3,
      fo_energy_amount = b4, fo_filled_amount = b5, fo_zone_id = b6, fo_created_at_ns = b7,
      fo_expires_at_ns = b8, fo_time_in_force = b9, fo_metadata_index = b10\<rparr>" by (cases b)
  show "fo_id a = fo_id b" "fo_user_id a = fo_user_id b" "fo_price a = fo_price b"
    "fo_energy_amount a = fo_energy_amount b" "fo_zone_id a = fo_zone_id b"
    "fo_created_at_ns a = fo_created_at_ns b" "fo_expires_at_ns a = fo_expires_at_ns b"
    "fo_time_in_force a = fo_time_in_force b" "fo_metadata_index a = fo_metadata_index b"
    "is_expired a n = is_expired b n"
    using assms by (simp_all add: a b static_def is_expired_def)
qed

lemma static_map_id: "map static xs = map static ys \<Longrightarrow> map fo_id xs = map fo_id ys"
proof -
  assume "map static xs = map static ys"
  then have "map fo_id (map static xs) = map fo_id (map static ys)" by simp
  then show ?thesis by (simp add: static_def comp_def)
qed

section \<open>The grid\<close>

record topology =
  can_accommodate_flow :: "zone \<Rightarrow> zone \<Rightarrow> decimal \<Rightarrow> bool"
  calculate_wheeling_charge :: "zone \<Rightarrow> zone \<Rightarrow> fast_price"
  calculate_loss_factor :: "zone \<Rightarrow> zone \<Rightarrow> fast_price"

text \<open>
  The contract of a snapshot: charges never subsidise, losses never gain, and a link that carries
  a flow carries every smaller one.
\<close>

locale grid_topology =
  fixes topo :: topology
  assumes wheeling_nonneg: "0 \<le> raw (calculate_wheeling_charge topo a b)"
    and wheeling_range: "fp_ok (calculate_wheeling_charge topo a b)"
    and loss_at_least_one: "fp_factor \<le> raw (calculate_loss_factor topo a b)"
    and loss_range: "fp_ok (calculate_loss_factor topo a b)"
    and flow_antimono:
      "can_accommodate_flow topo a b x \<Longrightarrow> 0 \<le> y \<Longrightarrow> y \<le> x \<Longrightarrow> can_accommodate_flow topo a b y"
begin

text \<open>A link that refuses a flow refuses every larger one.\<close>

lemma refusal_mono:
  "\<not> can_accommodate_flow topo a b y \<Longrightarrow> 0 \<le> y \<Longrightarrow> y \<le> x \<Longrightarrow> \<not> can_accommodate_flow topo a b x"
  using flow_antimono by blast

text \<open>Each of several flows fits when their sum does.\<close>

lemma parts_fit:
  assumes "can_accommodate_flow topo a b (sum_list xs)" and "\<And>x. x \<in> set xs \<Longrightarrow> 0 \<le> x"
    and "x \<in> set xs"
  shows "can_accommodate_flow topo a b x"
proof (rule flow_antimono[OF assms(1)])
  show "0 \<le> x" using assms by simp
  show "x \<le> sum_list xs" using assms(2,3) by (induction xs) (auto intro: add_increasing add_increasing2 sum_list_nonneg)
qed

end

section \<open>Keys of the sorted books\<close>

type_synonym book_key = "fast_price \<times> int \<times> uuid"

definition sell_key :: "fast_order \<Rightarrow> book_key" where
  "sell_key s = (fo_price s, fo_created_at_ns s, fo_id s)"

lemma sell_key_add_fill [simp]: "sell_key (add_fill a s) = sell_key s"
  by (simp add: sell_key_def)

text \<open>\<open>MIN_TRADE_AMOUNT\<close> of both matchers.\<close>

definition min_trade_amount :: decimal where "min_trade_amount = 1 / 1000"

lemma min_trade_pos [simp]: "0 < min_trade_amount"
  by (simp add: min_trade_amount_def)

end
