(* ===== verification/Engine_Pricing.thy ===== *)
theory Engine_Pricing imports Engine_Types begin

text \<open>
  The pricing step of \<open>trading-engine/src/engine.rs\<close>: what a sell costs a buyer once the grid's
  charges are added, and whether the pair crosses.  The arithmetic is on raw \<open>i64\<close> mantissas,
  saturating or clamped.
\<close>

record candidate =
  cd_sell_idx :: nat
  cd_landed :: fast_price
  cd_wheeling :: fast_price
  cd_loss :: fast_price
  cd_loss_cost :: fast_price
  cd_sort_price :: fast_price
  cd_sort_time :: int
  cd_sort_id :: uuid

record zone_fees =
  zf_wheeling :: fast_price
  zf_loss :: fast_price

type_synonym cand_key = "fast_price \<times> fast_price \<times> int \<times> uuid"

definition cand_key :: "candidate \<Rightarrow> cand_key" where
  "cand_key c = (cd_landed c, cd_sort_price c, cd_sort_time c, cd_sort_id c)"

definition fill_take :: "decimal \<Rightarrow> decimal \<Rightarrow> decimal option" where
  "fill_take need avail = (if avail < min_trade_amount then None else Some (min need avail))"

text \<open>The wheeling charge floored at zero, the loss a price bears, and the landed cost.\<close>

definition floored_wheeling :: "zone_fees \<Rightarrow> fast_price" where
  "floored_wheeling fees = fp_from_raw (max (raw (zf_wheeling fees)) 0)"

definition loss_cost_extra :: "fast_price \<Rightarrow> zone_fees \<Rightarrow> int" where
  "loss_cost_extra price fees =
     (let extra_loss_raw = max (i64_saturating_sub (raw (zf_loss fees)) fp_factor) 0
      in unwrap_or (i64_try_from ((raw price * extra_loss_raw) sdiv fp_factor)) i64_max)"

definition landed_cost :: "fast_price \<Rightarrow> zone_fees \<Rightarrow> fast_price \<Rightarrow> fast_price" where
  "landed_cost price fees dynamic_multiplier =
     (let landed_raw = i64_saturating_add
            (i64_saturating_add (raw price) (raw (floored_wheeling fees)))
            (loss_cost_extra price fees);
          landed = fp_from_raw landed_raw
      in if dynamic_multiplier \<noteq> fp_from_raw fp_factor
         then unwrap_or (fp_checked_mul landed dynamic_multiplier) (fp_from_raw i64_max)
         else landed)"

definition priced_candidate ::
  "topology \<Rightarrow> fast_order \<Rightarrow> decimal \<Rightarrow> nat \<Rightarrow> fast_order \<Rightarrow> zone_fees \<Rightarrow> fast_price \<Rightarrow> candidate option" where
  "priced_candidate topo buy buy_remaining sell_idx sell fees dynamic_multiplier =
     (if fo_user_id buy = fo_user_id sell then None
      else if fo_price sell > fo_price buy then None
      else let potential_amount = min buy_remaining (remaining_amount sell) in
        if \<not> can_accommodate_flow topo (fo_zone_id sell) (fo_zone_id buy) potential_amount then None
        else let landed = landed_cost (fo_price sell) fees dynamic_multiplier in
          if landed \<le> fo_price buy then
            Some \<lparr>cd_sell_idx = sell_idx, cd_landed = landed, cd_wheeling = floored_wheeling fees,
                  cd_loss = zf_loss fees,
                  cd_loss_cost = fp_from_raw (loss_cost_extra (fo_price sell) fees),
                  cd_sort_price = fo_price sell, cd_sort_time = fo_created_at_ns sell,
                  cd_sort_id = fo_id sell\<rparr>
          else None)"

definition fees_of :: "topology \<Rightarrow> zone \<Rightarrow> zone \<Rightarrow> zone_fees" where
  "fees_of topo sell_zone buy_zone =
     \<lparr>zf_wheeling = calculate_wheeling_charge topo sell_zone buy_zone,
      zf_loss = calculate_loss_factor topo sell_zone buy_zone\<rparr>"

section \<open>Facts\<close>

lemma fill_take_Some:
  "fill_take need avail = Some a \<longleftrightarrow> min_trade_amount \<le> avail \<and> a = min need avail"
  by (auto simp: fill_take_def)

lemma fill_take_None [simp]: "fill_take need avail = None \<longleftrightarrow> avail < min_trade_amount"
  by (simp add: fill_take_def)

lemma priced_candidate_Some:
  "priced_candidate topo buy need i sell fees m = Some c \<longleftrightarrow>
     fo_user_id buy \<noteq> fo_user_id sell \<and> fo_price sell \<le> fo_price buy \<and>
     can_accommodate_flow topo (fo_zone_id sell) (fo_zone_id buy) (min need (remaining_amount sell)) \<and>
     landed_cost (fo_price sell) fees m \<le> fo_price buy \<and>
     c = \<lparr>cd_sell_idx = i, cd_landed = landed_cost (fo_price sell) fees m,
          cd_wheeling = floored_wheeling fees, cd_loss = zf_loss fees,
          cd_loss_cost = fp_from_raw (loss_cost_extra (fo_price sell) fees),
          cd_sort_price = fo_price sell, cd_sort_time = fo_created_at_ns sell,
          cd_sort_id = fo_id sell\<rparr>"
  by (auto simp: priced_candidate_def Let_def)

lemma floored_wheeling_nonneg [simp]: "0 \<le> raw (floored_wheeling fees)"
  by (simp add: floored_wheeling_def fp_from_raw_def)

lemma extra_loss_nonneg: "0 \<le> max (i64_saturating_sub a b) 0"
  by simp

lemma loss_cost_extra_nonneg: "0 \<le> raw p \<Longrightarrow> 0 \<le> loss_cost_extra p fees"
  by (simp add: loss_cost_extra_def Let_def i64_try_from_def sdiv_nonneg_ge0 i64_max_def)

lemma i64_max_or_mono: "0 \<le> a \<Longrightarrow> a \<le> b \<Longrightarrow> unwrap_or (i64_try_from a) i64_max \<le> unwrap_or (i64_try_from b) i64_max"
  by (auto simp: i64_try_from_def i64_ok_def i64_min_def)

lemma loss_cost_extra_mono:
  assumes "0 \<le> raw p" "raw p \<le> raw q" shows "loss_cost_extra p fees \<le> loss_cost_extra q fees"
  unfolding loss_cost_extra_def Let_def using assms
  by (intro i64_max_or_mono sdiv_mono_nonneg sdiv_nonneg_ge0 mult_right_mono mult_nonneg_nonneg) simp_all

text \<open>The multiplier step, for a non-negative cost and a positive multiplier.\<close>

definition apply_multiplier :: "int \<Rightarrow> fast_price \<Rightarrow> fast_price" where
  "apply_multiplier x m =
     (if m \<noteq> fp_from_raw fp_factor then unwrap_or (fp_checked_mul (fp_from_raw x) m) (fp_from_raw i64_max)
      else fp_from_raw x)"

lemma landed_cost_alt:
  "landed_cost p fees m = apply_multiplier
     (i64_saturating_add (i64_saturating_add (raw p) (raw (floored_wheeling fees))) (loss_cost_extra p fees)) m"
  by (simp add: landed_cost_def apply_multiplier_def Let_def)

lemma apply_multiplier_raw:
  assumes "i64_ok x" "0 \<le> x" "fp_ok m" "0 < raw m"
  shows "raw (apply_multiplier x m) = min i64_max ((x * raw m) sdiv fp_factor)"
proof (cases "m = fp_from_raw fp_factor")
  case True
  have "(x * fp_factor) sdiv fp_factor = x" using assms(2) by (simp add: sdiv_nonneg fp_factor_def)
  then show ?thesis
    using True assms(1) by (simp add: apply_multiplier_def fp_from_raw_def i64_ok_def)
next
  case False
  have "0 \<le> (x * raw m) sdiv fp_factor" using assms by (simp add: sdiv_nonneg_ge0)
  then show ?thesis
    using False assms
    by (auto simp: apply_multiplier_def fp_checked_mul_eq fp_ok_def fp_from_raw_def i64_try_from_def
        i64_ok_def i64_min_def min_def)
qed

lemma apply_multiplier_mono:
  assumes "i64_ok x" "i64_ok y" "0 \<le> x" "x \<le> y" "fp_ok m" "0 < raw m"
  shows "apply_multiplier x m \<le> apply_multiplier y m"
proof -
  have "(x * raw m) sdiv fp_factor \<le> (y * raw m) sdiv fp_factor"
    using assms by (intro sdiv_mono_nonneg mult_right_mono) simp_all
  then show ?thesis using assms by (simp add: apply_multiplier_raw)
qed

lemma apply_multiplier_ge:
  assumes "i64_ok x" "0 \<le> x" "fp_ok m" "fp_factor \<le> raw m"
  shows "x \<le> raw (apply_multiplier x m)"
proof -
  have "x * fp_factor \<le> x * raw m" using assms by (intro mult_left_mono) simp_all
  then have "x \<le> (x * raw m) sdiv fp_factor"
    using assms order_less_le_trans[OF fp_factor_pos assms(4)]
    by (simp add: sdiv_nonneg zdiv_mono1 pos_imp_zdiv_nonneg_iff)
      (metis fp_factor_pos less_irrefl nonzero_mult_div_cancel_right zdiv_mono1)
  then show ?thesis
    using assms order_less_le_trans[OF fp_factor_pos assms(4)]
    by (simp add: apply_multiplier_raw i64_ok_def)
qed

text \<open>The raw landed cost is at least the ask.\<close>

lemma landed_base_ge:
  assumes "fp_ok p" "0 \<le> raw p"
  shows "raw p \<le> i64_saturating_add (i64_saturating_add (raw p) (raw (floored_wheeling fees)))
                    (loss_cost_extra p fees)"
proof -
  have a: "raw p \<le> i64_saturating_add (raw p) (raw (floored_wheeling fees))"
    unfolding i64_saturating_add_def using assms by (intro i64_clamp_ge) (simp_all add: fp_ok_def)
  show ?thesis
    unfolding i64_saturating_add_def[of _ "loss_cost_extra p fees"]
    using assms a loss_cost_extra_nonneg[OF assms(2), of fees]
    by (intro i64_clamp_ge) (simp_all add: fp_ok_def)
qed

lemma i64_ok_saturating [simp]: "i64_ok (i64_saturating_add a b)"
  by (simp add: i64_saturating_add_def)

lemma landed_cost_ge_ask:
  assumes "fp_ok p" "0 \<le> raw p" "fp_ok m" "fp_factor \<le> raw m"
  shows "p \<le> landed_cost p fees m"
  using landed_base_ge[OF assms(1,2), of fees] assms apply_multiplier_ge
  unfolding landed_cost_alt less_eq_fast_price_def by (meson i64_ok_saturating order_trans)

lemma landed_cost_mono:
  assumes "fp_ok p" "fp_ok q" "0 \<le> raw p" "p \<le> q" "fp_ok m" "0 < raw m"
  shows "landed_cost p fees m \<le> landed_cost q fees m"
proof -
  have "i64_saturating_add (i64_saturating_add (raw p) (raw (floored_wheeling fees))) (loss_cost_extra p fees)
      \<le> i64_saturating_add (i64_saturating_add (raw q) (raw (floored_wheeling fees))) (loss_cost_extra q fees)"
    unfolding i64_saturating_add_def using assms loss_cost_extra_mono[of p q fees]
    by (intro i64_clamp_mono add_mono) simp_all
  then show ?thesis
    unfolding landed_cost_alt using assms landed_base_ge[OF assms(1,3), of fees]
    by (intro apply_multiplier_mono) simp_all
qed

lemma landed_cost_ok: "fp_ok (landed_cost p fees m)"
  by (auto simp: landed_cost_def Let_def fp_ok_def fp_from_raw_def unwrap_or_def i64_ok_def i64_max_def i64_min_def
      dest: fp_checked_mul_ok split: option.splits intro!: i64_ok_saturating[unfolded i64_ok_def i64_min_def i64_max_def])

end
