(* ===== verification/BTree_Map.thy ===== *)
theory BTree_Map imports Prelude begin

text \<open>
  Rust's \<open>BTreeMap\<close>: an association list in strictly ascending key order, which is the order
  its iterators visit.  The engine keeps its zone books, its grid-flow ledger and the REST
  order book in such maps, so the contract (\<open>ordered_map\<close>) is stated once as a locale and
  discharged for the list model by the interpretation \<open>bt\<close>.
\<close>

section \<open>The model\<close>

type_synonym ('k, 'v) btree_map = "('k \<times> 'v) list"

definition bt_ok :: "('k::linorder, 'v) btree_map \<Rightarrow> bool" where
  "bt_ok m \<longleftrightarrow> sorted_wrt (<) (map fst m)"

fun bt_insert :: "'k::linorder \<Rightarrow> 'v \<Rightarrow> ('k, 'v) btree_map \<Rightarrow> ('k, 'v) btree_map" where
  "bt_insert k v [] = [(k, v)]"
| "bt_insert k v ((k', v') # m) =
     (if k < k' then (k, v) # (k', v') # m
      else if k = k' then (k, v) # m
      else (k', v') # bt_insert k v m)"

definition bt_remove :: "'k \<Rightarrow> ('k, 'v) btree_map \<Rightarrow> ('k, 'v) btree_map" where
  "bt_remove k m = filter (\<lambda>e. fst e \<noteq> k) m"

definition bt_get :: "('k, 'v) btree_map \<Rightarrow> 'k \<Rightarrow> 'v option" where
  "bt_get m k = map_of m k"

text \<open>\<open>range(..=b)\<close>: the entries up to and including the bound.\<close>

definition bt_range_to :: "'k::linorder \<Rightarrow> ('k, 'v) btree_map \<Rightarrow> ('k, 'v) btree_map" where
  "bt_range_to b m = takeWhile (\<lambda>e. fst e \<le> b) m"

text \<open>\<open>entry(k).or_insert(d)\<close> followed by an update in place.\<close>

definition bt_update :: "'k::linorder \<Rightarrow> 'v \<Rightarrow> ('v \<Rightarrow> 'v) \<Rightarrow> ('k, 'v) btree_map \<Rightarrow> ('k, 'v) btree_map" where
  "bt_update k d f m = bt_insert k (f (unwrap_or (bt_get m k) d)) m"

lemma set_fst_bt_insert [simp]: "fst ` set (bt_insert k v m) = insert k (fst ` set m)"
  by (induction m rule: bt_insert.induct) auto

lemma bt_ok_insert [simp]: "bt_ok m \<Longrightarrow> bt_ok (bt_insert k v m)"
proof (induction k v m rule: bt_insert.induct)
  case (1 k v)
  then show ?case by (simp add: bt_ok_def)
next
  case (2 k v k' v' m)
  have "bt_ok m" using "2.prems" by (simp add: bt_ok_def)
  moreover have "\<forall>x\<in>fst ` set m. k' < x" using "2.prems" by (simp add: bt_ok_def)
  ultimately show ?case using 2 by (auto simp: bt_ok_def)
qed

lemma bt_ok_remove [simp]: "bt_ok m \<Longrightarrow> bt_ok (bt_remove k m)"
  by (induction m) (auto simp: bt_ok_def bt_remove_def)

lemma bt_ok_Nil [simp]: "bt_ok []"
  by (simp add: bt_ok_def)

lemma bt_get_insert [simp]: "bt_ok m \<Longrightarrow> bt_get (bt_insert k v m) = (bt_get m)(k := Some v)"
proof (induction k v m rule: bt_insert.induct)
  case (1 k v)
  then show ?case by (auto simp: bt_get_def)
next
  case (2 k v k' v' m)
  have "bt_ok m" using "2.prems" by (simp add: bt_ok_def)
  then show ?case using 2 by (auto simp: bt_get_def fun_eq_iff)
qed

lemma bt_get_remove [simp]: "bt_get (bt_remove k m) = (bt_get m)(k := None)"
  by (induction m) (auto simp: bt_get_def bt_remove_def fun_eq_iff)

lemma bt_range_to_filter: "bt_ok m \<Longrightarrow> bt_range_to b m = filter (\<lambda>e. fst e \<le> b) m"
proof (induction m)
  case Nil
  then show ?case by (simp add: bt_range_to_def)
next
  case (Cons e m)
  have ok: "bt_ok m" and above: "\<forall>x\<in>set m. fst e < fst x"
    using Cons.prems by (simp_all add: bt_ok_def)
  show ?case
  proof (cases "fst e \<le> b")
    case True
    then show ?thesis using Cons.IH[OF ok] by (simp add: bt_range_to_def)
  next
    case False
    then have "filter (\<lambda>e. fst e \<le> b) m = []" using above by (auto simp: filter_empty_conv)
    then show ?thesis using False by (simp add: bt_range_to_def)
  qed
qed

lemma bt_ok_distinct: "bt_ok m \<Longrightarrow> distinct (map fst m)"
  by (simp add: bt_ok_def strict_sorted_iff)

section \<open>The contract\<close>

locale ordered_map =
  fixes empty :: 'm
    and insert :: "'k::linorder \<Rightarrow> 'v \<Rightarrow> 'm \<Rightarrow> 'm"
    and remove :: "'k \<Rightarrow> 'm \<Rightarrow> 'm"
    and get :: "'m \<Rightarrow> 'k \<Rightarrow> 'v option"
    and iter :: "'m \<Rightarrow> ('k \<times> 'v) list"
    and range_to :: "'k \<Rightarrow> 'm \<Rightarrow> ('k \<times> 'v) list"
    and invar :: "'m \<Rightarrow> bool"
  assumes invar_empty: "invar empty"
    and invar_insert: "invar m \<Longrightarrow> invar (insert k v m)"
    and invar_remove: "invar m \<Longrightarrow> invar (remove k m)"
    and get_empty: "get empty k = None"
    and get_insert: "invar m \<Longrightarrow> get (insert k v m) = (get m)(k := Some v)"
    and get_remove: "invar m \<Longrightarrow> get (remove k m) = (get m)(k := None)"
    and iter_sorted: "invar m \<Longrightarrow> sorted_wrt (<) (map fst (iter m))"
    and get_iter: "invar m \<Longrightarrow> get m = map_of (iter m)"
    and range_iter: "invar m \<Longrightarrow> range_to b m = filter (\<lambda>e. fst e \<le> b) (iter m)"
begin

lemma keys_distinct: "invar m \<Longrightarrow> distinct (map fst (iter m))"
  using iter_sorted[of m] by (simp add: strict_sorted_iff)

lemma mem_iter: "invar m \<Longrightarrow> (k, v) \<in> set (iter m) \<longleftrightarrow> get m k = Some v"
  by (simp add: get_iter keys_distinct)

lemma mem_range_to: "invar m \<Longrightarrow> (k, v) \<in> set (range_to b m) \<longleftrightarrow> k \<le> b \<and> get m k = Some v"
  by (auto simp: range_iter mem_iter)

lemma range_to_sorted: "invar m \<Longrightarrow> sorted_wrt (<) (map fst (range_to b m))"
  using iter_sorted[of m] by (simp add: range_iter sorted_wrt_map sorted_wrt_filter)

lemma mem_insert:
  "invar m \<Longrightarrow> (k', v') \<in> set (iter (insert k v m)) \<longleftrightarrow>
     (k' = k \<and> v' = v) \<or> (k' \<noteq> k \<and> (k', v') \<in> set (iter m))"
  by (auto simp: mem_iter invar_insert get_insert)

lemma mem_remove:
  "invar m \<Longrightarrow> (k', v') \<in> set (iter (remove k m)) \<longleftrightarrow> k' \<noteq> k \<and> (k', v') \<in> set (iter m)"
  by (auto simp: mem_iter invar_remove get_remove)

end

interpretation bt: ordered_map "[]" bt_insert bt_remove bt_get "\<lambda>m. m" bt_range_to bt_ok
  by unfold_locales (simp_all add: bt_range_to_filter, simp_all add: bt_get_def bt_ok_def fun_eq_iff)

lemma bt_get_update [simp]:
  "bt_ok m \<Longrightarrow> bt_get (bt_update k d f m) = (bt_get m)(k := Some (f (unwrap_or (bt_get m k) d)))"
  by (simp add: bt_update_def)

lemma bt_ok_update [simp]: "bt_ok m \<Longrightarrow> bt_ok (bt_update k d f m)"
  by (simp add: bt_update_def)

end
