(* ===== verification/Engine_Gather.thy ===== *)
theory Engine_Gather imports Engine_Pricing BTree_Map "HOL-Library.Multiset" begin

text \<open>
  \<open>gather_candidates\<close> of \<open>trading-engine/src/engine.rs\<close>: the crossing sells of one buy in landed
  order.  One zone book is drained directly; several are merged through a heap of their heads.
  The binary heap is a list from which \<open>pop\<close> removes an entry of least key, which is what the
  reversed \<open>Ord\<close> of \<open>HeapHead\<close> makes of the max-heap.  Indices into the sell slice come from the
  books, whose invariant (\<open>books_ok\<close>) keeps them in range.
\<close>

section \<open>The model\<close>

type_synonym zone_book = "(book_key, nat) btree_map"
type_synonym zone_books = "(zone, zone_book) btree_map"

record zone_cursor =
  zc_fees :: zone_fees
  zc_range :: "(book_key \<times> nat) list"

record heap_head =
  hh_cand :: candidate
  hh_cursor :: nat

definition book_range :: "fast_order \<Rightarrow> zone_book \<Rightarrow> (book_key \<times> nat) list" where
  "book_range buy book = bt_range_to (fo_price buy, i64_max, uuid_max) book"

text \<open>What one scan of a buy fixes: the price of the sell at an index, given its zone's fees.\<close>

definition price_at ::
  "topology \<Rightarrow> fast_order list \<Rightarrow> fast_order \<Rightarrow> decimal \<Rightarrow> fast_price \<Rightarrow> zone_fees \<Rightarrow> nat \<Rightarrow> candidate option" where
  "price_at topo sells buy need m fees i = priced_candidate topo buy need i (sells ! i) fees m"

definition avail_at :: "fast_order list \<Rightarrow> candidate \<Rightarrow> decimal" where
  "avail_at sells c = remaining_amount (sells ! cd_sell_idx c)"

text \<open>The fast path's loop over the only book.\<close>

fun scan_book ::
  "(nat \<Rightarrow> candidate option) \<Rightarrow> (candidate \<Rightarrow> decimal) \<Rightarrow> bool \<Rightarrow> decimal
     \<Rightarrow> (book_key \<times> nat) list \<Rightarrow> decimal \<Rightarrow> candidate list \<Rightarrow> candidate list \<times> bool" where
  "scan_book price avail early_stop need [] gathered acc = (acc, False)"
| "scan_book price avail early_stop need ((k, sell_idx) # rng) gathered acc =
     (case price sell_idx of
        None \<Rightarrow> scan_book price avail early_stop need rng gathered acc
      | Some c \<Rightarrow>
          (let gathered' = gathered + avail c in
           if early_stop \<and> gathered' \<ge> need then (acc @ [c], True)
           else scan_book price avail early_stop need rng gathered' (acc @ [c])))"

text \<open>The closure \<open>next_priced\<close>: advance a range to its next priced candidate.\<close>

fun next_priced ::
  "(nat \<Rightarrow> candidate option) \<Rightarrow> (book_key \<times> nat) list \<Rightarrow> (candidate \<times> (book_key \<times> nat) list) option" where
  "next_priced price [] = None"
| "next_priced price ((k, sell_idx) # rng) =
     (case price sell_idx of
        Some c \<Rightarrow> Some (c, rng)
      | None \<Rightarrow> next_priced price rng)"

lemma next_priced_shorter: "next_priced price r = Some (c, r') \<Longrightarrow> length r' < length r"
  by (induction r rule: next_priced.induct) (auto split: option.splits)

text \<open>The loop over the only reachable cursor.\<close>

function drain_cursor ::
  "(nat \<Rightarrow> candidate option) \<Rightarrow> (candidate \<Rightarrow> decimal) \<Rightarrow> bool \<Rightarrow> decimal
     \<Rightarrow> (book_key \<times> nat) list \<Rightarrow> decimal \<Rightarrow> candidate list \<Rightarrow> candidate list \<times> bool" where
  "drain_cursor price avail early_stop need rng gathered acc =
     (case next_priced price rng of
        None \<Rightarrow> (acc, False)
      | Some (c, rng') \<Rightarrow>
          (let gathered' = gathered + avail c in
           if early_stop \<and> gathered' \<ge> need then (acc @ [c], True)
           else drain_cursor price avail early_stop need rng' gathered' (acc @ [c])))"
  by pat_completeness auto
termination
  by (relation "measure (\<lambda>(_, _, _, _, r, _, _). length r)") (auto dest: next_priced_shorter)

declare drain_cursor.simps [simp del]

definition pop_min :: "heap_head list \<Rightarrow> (heap_head \<times> heap_head list) option" where
  "pop_min heap =
     (if heap = [] then None
      else let h = arg_min_list (\<lambda>h. cand_key (hh_cand h)) heap in Some (h, remove1 h heap))"

text \<open>
  Advance cursor \<open>i\<close>; a priced candidate is pushed on the heap.  A cursor index of the heap is
  always in range (\<open>heap_ok\<close>); the other branch only makes the function total.
\<close>

definition advance ::
  "(zone_fees \<Rightarrow> nat \<Rightarrow> candidate option) \<Rightarrow> nat \<Rightarrow> heap_head list \<Rightarrow> zone_cursor list
     \<Rightarrow> heap_head list \<times> zone_cursor list" where
  "advance price i heap cursors =
     (if i < length cursors then
        (let cur = cursors ! i in
         case next_priced (price (zc_fees cur)) (zc_range cur) of
           None \<Rightarrow> (heap, cursors[i := cur\<lparr>zc_range := []\<rparr>])
         | Some (c, r) \<Rightarrow>
             (\<lparr>hh_cand = c, hh_cursor = i\<rparr> # heap, cursors[i := cur\<lparr>zc_range := r\<rparr>]))
      else (heap, cursors))"

definition heap_weight :: "heap_head list \<Rightarrow> zone_cursor list \<Rightarrow> nat" where
  "heap_weight heap cursors = length heap + sum_list (map (\<lambda>cur. length (zc_range cur)) cursors)"

text \<open>The merge loop.\<close>

function merge_heads ::
  "(zone_fees \<Rightarrow> nat \<Rightarrow> candidate option) \<Rightarrow> (candidate \<Rightarrow> decimal) \<Rightarrow> bool \<Rightarrow> decimal
     \<Rightarrow> heap_head list \<Rightarrow> zone_cursor list \<Rightarrow> decimal \<Rightarrow> candidate list \<Rightarrow> candidate list \<times> bool" where
  "merge_heads price avail early_stop need heap cursors gathered acc =
     (case pop_min heap of
        None \<Rightarrow> (acc, False)
      | Some (h, heap') \<Rightarrow>
          (let gathered' = gathered + avail (hh_cand h);
               acc' = acc @ [hh_cand h]
           in if early_stop \<and> gathered' \<ge> need then (acc', True)
              else case advance price (hh_cursor h) heap' cursors of
                (heap'', cursors'') \<Rightarrow>
                  merge_heads price avail early_stop need heap'' cursors'' gathered' acc'))"
  by pat_completeness auto

lemma pop_min_Some:
  assumes "pop_min heap = Some (h, heap')"
  shows "h \<in> set heap" and "heap' = remove1 h heap"
    and "\<And>g. g \<in> set heap \<Longrightarrow> cand_key (hh_cand h) \<le> cand_key (hh_cand g)"
proof -
  have ne: "heap \<noteq> []" and h: "h = arg_min_list (\<lambda>h. cand_key (hh_cand h)) heap"
    and h': "heap' = remove1 h heap"
    using assms by (auto simp: pop_min_def Let_def split: if_splits)
  show "h \<in> set heap" using ne h by (simp add: arg_min_list_in)
  show "heap' = remove1 h heap" by (rule h')
  show "cand_key (hh_cand h) \<le> cand_key (hh_cand g)" if "g \<in> set heap" for g
    using ne h that f_arg_min_list_f[of heap "\<lambda>h. cand_key (hh_cand h)"] by (simp add: Min_le)
qed

lemma sum_list_update_nat:
  "i < length xs \<Longrightarrow> sum_list (map f (xs[i := x])) + f (xs ! i) = sum_list (map f xs) + (f x :: nat)"
  by (induction xs arbitrary: i) (auto split: nat.splits)

lemma advance_weight:
  assumes "advance price i heap cursors = (heap'', cursors'')"
  shows "heap_weight heap'' cursors'' \<le> heap_weight heap cursors"
proof (cases "i < length cursors")
  case False
  then show ?thesis using assms by (auto simp: advance_def)
next
  case True
  note upd = sum_list_update_nat[OF True, of "\<lambda>cur. length (zc_range cur)"]
  show ?thesis
  proof (cases "next_priced (price (zc_fees (cursors ! i))) (zc_range (cursors ! i))")
    case None
    then show ?thesis
      using assms True upd[of "(cursors ! i)\<lparr>zc_range := []\<rparr>"]
      by (auto simp: advance_def heap_weight_def Let_def)
  next
    case (Some p)
    obtain c r where p: "p = (c, r)" by (cases p)
    show ?thesis
      using assms True Some p upd[of "(cursors ! i)\<lparr>zc_range := r\<rparr>"]
        next_priced_shorter[OF Some[unfolded p]]
      by (auto simp: advance_def heap_weight_def Let_def)
  qed
qed

lemma pop_min_length: "pop_min heap = Some (h, heap') \<Longrightarrow> Suc (length heap') = length heap"
  using pop_min_Some(1,2)[of heap h heap'] by (auto simp: length_remove1 dest: length_pos_if_in_set)

termination merge_heads
proof (relation "measure (\<lambda>(_, _, _, _, heap, cursors, _, _). heap_weight heap cursors)",
    goal_cases)
  case 1
  show ?case by simp
next
  case 2
  then show ?case
    by (auto simp: heap_weight_def dest!: pop_min_length advance_weight[OF sym])
qed

declare merge_heads.simps [simp del]

section \<open>Gathering\<close>

text \<open>The cursors of the zones the grid can reach the buyer's zone from.\<close>

definition make_cursors :: "topology \<Rightarrow> zone_books \<Rightarrow> fast_order \<Rightarrow> zone_cursor list" where
  "make_cursors topo zone_books buy =
     concat (map (\<lambda>(sell_zone, book).
         if can_accommodate_flow topo sell_zone (fo_zone_id buy) min_trade_amount
         then [\<lparr>zc_fees = fees_of topo sell_zone (fo_zone_id buy), zc_range = book_range buy book\<rparr>]
         else []) zone_books)"

text \<open>The first candidate of every cursor.\<close>

definition init_heap ::
  "(zone_fees \<Rightarrow> nat \<Rightarrow> candidate option) \<Rightarrow> zone_cursor list \<Rightarrow> heap_head list \<times> zone_cursor list" where
  "init_heap price cursors =
     fold (\<lambda>i (heap, curs). advance price i heap curs) [0..<length cursors] ([], cursors)"

definition gather_candidates ::
  "topology \<Rightarrow> zone_books \<Rightarrow> fast_order list \<Rightarrow> fast_order \<Rightarrow> decimal \<Rightarrow> fast_price \<Rightarrow> bool
     \<Rightarrow> candidate list \<times> bool" where
  "gather_candidates topo zone_books sells buy need m early_stop =
     (let price = price_at topo sells buy need m; avail = avail_at sells in
      if length zone_books \<le> 1 then
        (case zone_books of
           [] \<Rightarrow> ([], False)
         | (sell_zone, book) # _ \<Rightarrow>
             if \<not> can_accommodate_flow topo sell_zone (fo_zone_id buy) min_trade_amount then ([], False)
             else scan_book (price (fees_of topo sell_zone (fo_zone_id buy))) avail early_stop need
                    (book_range buy book) 0 [])
      else
        let cursors = make_cursors topo zone_books buy in
        if length cursors = 1 then
          drain_cursor (price (zc_fees (hd cursors))) avail early_stop need (zc_range (hd cursors)) 0 []
        else case init_heap price cursors of
          (heap, cursors') \<Rightarrow> merge_heads price avail early_stop need heap cursors' 0 [])"

end
