(* ===== verification/Engine_Cycle.thy ===== *)
theory Engine_Cycle imports Engine_Gather begin

text \<open>
  \<open>match_cycle\<close> of \<open>trading-engine/src/engine.rs\<close>, step by step: the books, the fill-or-kill
  simulation, the drain with its grid-flow ledger, the rebuild after a capacity skip, and the
  sweep of immediate orders.  \<open>cycle_state\<close> holds what the loop mutates besides the current buy.
  \<^const>\<open>None\<close> is a panic: a metadata index out of range or a decimal product that overflows.
\<close>

section \<open>State\<close>

type_synonym flow_ledger = "(zone \<times> zone, decimal) btree_map"

record cycle_state =
  cy_books :: zone_books
  cy_sells :: "fast_order list"
  cy_flow :: flow_ledger
  cy_results :: "match_result list"
  cy_created :: nat
  cy_volume :: decimal

text \<open>What does not change during a cycle.\<close>

record cycle_env =
  env_topo :: topology
  env_mult :: fast_price
  env_now :: int
  env_meta :: "order_metadata list"
  env_dec :: dec_ops

section \<open>Books\<close>

definition insert_sell :: "int \<Rightarrow> (nat \<times> fast_order) \<Rightarrow> zone_books \<Rightarrow> zone_books" where
  "insert_sell now_ns = (\<lambda>(idx, sell) books.
     if remaining_amount sell \<ge> min_trade_amount \<and> \<not> is_expired sell now_ns
     then bt_update (fo_zone_id sell) [] (bt_insert (sell_key sell) idx) books
     else books)"

definition build_books :: "int \<Rightarrow> fast_order list \<Rightarrow> zone_books" where
  "build_books now_ns sells = fold (insert_sell now_ns) (List.enumerate 0 sells) []"

text \<open>\<open>if let Some(book) = zone_books.get_mut(zone) { book.remove(key) }\<close>.\<close>

definition remove_from_books :: "fast_order \<Rightarrow> zone_books \<Rightarrow> zone_books" where
  "remove_from_books sell books =
     (case bt_get books (fo_zone_id sell) of
        None \<Rightarrow> books
      | Some book \<Rightarrow> bt_insert (fo_zone_id sell) (bt_remove (sell_key sell) book) books)"

section \<open>The grid-flow ledger\<close>

definition flow_at :: "flow_ledger \<Rightarrow> zone \<times> zone \<Rightarrow> decimal" where
  "flow_at flow key = unwrap_or (bt_get flow key) 0"

definition add_flow :: "zone \<times> zone \<Rightarrow> decimal \<Rightarrow> flow_ledger \<Rightarrow> flow_ledger" where
  "add_flow key x flow = bt_update key 0 (\<lambda>a. a + x) flow"

section \<open>Fill or kill\<close>

text \<open>The simulated need left after the candidates.\<close>

fun fok_need ::
  "topology \<Rightarrow> fast_order list \<Rightarrow> zone \<Rightarrow> candidate list \<Rightarrow> flow_ledger \<Rightarrow> decimal \<Rightarrow> decimal" where
  "fok_need topo sells buy_zone [] flow need = need"
| "fok_need topo sells buy_zone (c # cs) flow need =
     (let sim_sell = sells ! cd_sell_idx c in
      case fill_take need (remaining_amount sim_sell) of
        None \<Rightarrow> fok_need topo sells buy_zone cs flow need
      | Some take' \<Rightarrow>
          (let key = (fo_zone_id sim_sell, buy_zone) in
           if \<not> can_accommodate_flow topo (fo_zone_id sim_sell) buy_zone (flow_at flow key + take')
           then fok_need topo sells buy_zone cs flow need
           else let need' = need - take' in
             if need' < min_trade_amount then need'
             else fok_need topo sells buy_zone cs (add_flow key take' flow) need'))"

section \<open>The drain\<close>

definition make_match ::
  "dec_ops \<Rightarrow> order_metadata list \<Rightarrow> fast_order \<Rightarrow> fast_order \<Rightarrow> candidate \<Rightarrow> decimal \<Rightarrow> match_result option" where
  "make_match D buy_metadata buy sell c match_amount =
     (if fo_metadata_index buy < length buy_metadata then do {
        energy_cost \<leftarrow> dmul D match_amount (fp_to_decimal (cd_landed c));
        wheeling \<leftarrow> dmul D match_amount (fp_to_decimal (cd_wheeling c));
        loss_cost \<leftarrow> dmul D match_amount (fp_to_decimal (cd_loss_cost c));
        Some \<lparr>mr_buy_order_id = fo_id buy, mr_sell_order_id = fo_id sell,
              mr_buy_metadata_index = fo_metadata_index buy,
              mr_sell_metadata_index = fo_metadata_index sell,
              mr_match_amount = match_amount,
              mr_match_price = fp_to_decimal (cd_landed c),
              mr_settle_price = fp_to_decimal (cd_landed c),
              mr_seller_price = fp_to_decimal (fo_price sell),
              mr_buyer_price = fp_to_decimal (fo_price buy),
              mr_total_energy_cost = energy_cost,
              mr_wheeling_charge = wheeling,
              mr_loss_factor = fp_to_decimal (cd_loss c),
              mr_loss_cost = loss_cost,
              mr_buyer_zone_id = fo_zone_id buy,
              mr_seller_zone_id = fo_zone_id sell,
              mr_buyer_id = fo_user_id buy,
              mr_seller_id = fo_user_id sell,
              mr_epoch_id = md_epoch_id (buy_metadata ! fo_metadata_index buy)\<rparr> }
      else None)"

text \<open>One committed fill: the result, both orders, the ledger, the statistics, and the book of a
  depleted sell.\<close>

definition commit_fill :: "match_result \<Rightarrow> nat \<Rightarrow> fast_order \<Rightarrow> cycle_state \<Rightarrow> fast_order \<times> cycle_state" where
  "commit_fill r i buy s =
     (let match_amount = mr_match_amount r;
          sell' = add_fill match_amount (cy_sells s ! i)
      in (add_fill match_amount buy,
          \<lparr>cy_books = (if remaining_amount sell' < min_trade_amount
                       then remove_from_books sell' (cy_books s) else cy_books s),
           cy_sells = (cy_sells s)[i := sell'],
           cy_flow = add_flow (fo_zone_id sell', fo_zone_id buy) match_amount (cy_flow s),
           cy_results = cy_results s @ [r],
           cy_created = Suc (cy_created s),
           cy_volume = cy_volume s + match_amount\<rparr>))"

fun drain ::
  "cycle_env \<Rightarrow> candidate list \<Rightarrow> fast_order \<Rightarrow> cycle_state \<Rightarrow> (fast_order \<times> cycle_state) option" where
  "drain env [] buy s = Some (buy, s)"
| "drain env (c # cs) buy s =
     (let need = remaining_amount buy in
      if need < min_trade_amount then Some (buy, s)
      else let sell = cy_sells s ! cd_sell_idx c in
        case fill_take need (remaining_amount sell) of
          None \<Rightarrow> drain env cs buy s
        | Some match_amount \<Rightarrow>
            (let already = flow_at (cy_flow s) (fo_zone_id sell, fo_zone_id buy) in
             if \<not> can_accommodate_flow (env_topo env) (fo_zone_id sell) (fo_zone_id buy)
                   (already + match_amount)
             then drain env cs buy s
             else do {
               r \<leftarrow> make_match (env_dec env) (env_meta env) buy sell c match_amount;
               (case commit_fill r (cd_sell_idx c) buy s of (buy', s') \<Rightarrow> drain env cs buy' s') }))"

section \<open>One buy\<close>

text \<open>The candidates of one pass and the decision of the fill-or-kill simulation.\<close>

definition fok_killed :: "cycle_env \<Rightarrow> candidate list \<Rightarrow> fast_order \<Rightarrow> cycle_state \<Rightarrow> bool" where
  "fok_killed env cands buy s \<longleftrightarrow>
     fo_time_in_force buy = Fok \<and>
     fok_need (env_topo env) (cy_sells s) (fo_zone_id buy) cands (cy_flow s) (remaining_amount buy) > 0"

text \<open>The inner \<open>loop\<close>: it runs again, with a full scan, at most once.\<close>

function buy_loop ::
  "cycle_env \<Rightarrow> decimal \<Rightarrow> bool \<Rightarrow> fast_order \<Rightarrow> cycle_state \<Rightarrow> (fast_order \<times> cycle_state) option" where
  "buy_loop env need_at_start full_scan buy s =
     (case gather_candidates (env_topo env) (cy_books s) (cy_sells s) buy need_at_start (env_mult env)
             (\<not> full_scan) of
        (cands, truncated) \<Rightarrow>
          if fok_killed env cands buy s then Some (buy, s)
          else do {
            (buy', s') \<leftarrow> drain env cands buy s;
            if full_scan \<or> remaining_amount buy' < min_trade_amount \<or> \<not> truncated then Some (buy', s')
            else buy_loop env need_at_start True buy' s' })"
  by pat_completeness auto
termination
  by (relation "measure (\<lambda>(_, _, full_scan, _, _). if full_scan then 0 else 1)") auto

declare buy_loop.simps [simp del]

definition match_buy :: "cycle_env \<Rightarrow> fast_order \<Rightarrow> cycle_state \<Rightarrow> (fast_order \<times> cycle_state) option" where
  "match_buy env buy s =
     (if remaining_amount buy < min_trade_amount \<or> is_expired buy (env_now env) then Some (buy, s)
      else buy_loop env (remaining_amount buy) (fo_time_in_force buy = Fok) buy s)"

text \<open>The loop over the buys; the processed ones are collected in order.\<close>

fun match_buys ::
  "cycle_env \<Rightarrow> fast_order list \<Rightarrow> cycle_state \<Rightarrow> (fast_order list \<times> cycle_state) option" where
  "match_buys env [] s = Some ([], s)"
| "match_buys env (buy # buys) s = do {
     (buy', s') \<leftarrow> match_buy env buy s;
     (buys', s'') \<leftarrow> match_buys env buys s';
     Some (buy' # buys', s'') }"

section \<open>The cycle\<close>

text \<open>Highest bid first, then earliest arrival, then identifier.\<close>

definition buy_priority :: "fast_order \<Rightarrow> int \<times> int \<times> uuid" where
  "buy_priority b = (- raw (fo_price b), fo_created_at_ns b, fo_id b)"

definition effective_multiplier :: "fast_price \<Rightarrow> fast_price" where
  "effective_multiplier m = (if raw m \<le> 0 then fp_from_raw fp_factor else m)"

definition immediate_leftovers :: "int \<Rightarrow> fast_order list \<Rightarrow> uuid list" where
  "immediate_leftovers now_ns orders =
     map fo_id (filter (\<lambda>ord. is_immediate (fo_time_in_force ord) \<and> \<not> is_expired ord now_ns
                        \<and> remaining_amount ord > 0) orders)"

definition init_cycle :: "int \<Rightarrow> fast_order list \<Rightarrow> cycle_state" where
  "init_cycle now_ns sells =
     \<lparr>cy_books = build_books now_ns sells, cy_sells = sells, cy_flow = [], cy_results = [],
      cy_created = 0, cy_volume = 0\<rparr>"

record cycle_outcome =
  co_buys :: "fast_order list"
  co_sells :: "fast_order list"
  co_results :: "match_result list"
  co_stats :: cycle_stats

definition match_cycle ::
  "dec_ops \<Rightarrow> fast_order list \<Rightarrow> fast_order list \<Rightarrow> order_metadata list \<Rightarrow> topology \<Rightarrow> fast_price \<Rightarrow> int
     \<Rightarrow> cycle_outcome option" where
  "match_cycle D buy_orders sell_orders buy_metadata topo dynamic_multiplier now_ns =
     (let env = \<lparr>env_topo = topo, env_mult = effective_multiplier dynamic_multiplier, env_now = now_ns,
                 env_meta = buy_metadata, env_dec = D\<rparr>
      in do {
        (buys, s) \<leftarrow> match_buys env (sort_key buy_priority buy_orders) (init_cycle now_ns sell_orders);
        Some \<lparr>co_buys = buys, co_sells = cy_sells s, co_results = cy_results s,
              co_stats = \<lparr>cs_matches_created = cy_created s, cs_total_volume = cy_volume s,
                          cs_ioc_cancellations = immediate_leftovers now_ns (buys @ cy_sells s)\<rparr>\<rparr> })"

end
