(* ===== verification/Engine_Merge.thy ===== *)
theory Engine_Merge imports Engine_Gather begin

text \<open>
  Correctness of candidate gathering: a full scan returns every crossing sell of every reachable
  zone exactly once, in landed order; an early stop returns a prefix of that list that already
  holds enough energy.
\<close>

section \<open>Specification\<close>

text \<open>The priced candidates of a range, in its order.\<close>

definition priced_stream :: "(nat \<Rightarrow> candidate option) \<Rightarrow> (book_key \<times> nat) list \<Rightarrow> candidate list" where
  "priced_stream price rng = List.map_filter (\<lambda>e. price (snd e)) rng"

text \<open>Stop as soon as the gathered energy covers the need.\<close>

fun take_enough ::
  "(candidate \<Rightarrow> decimal) \<Rightarrow> bool \<Rightarrow> decimal \<Rightarrow> decimal \<Rightarrow> candidate list \<Rightarrow> candidate list \<times> bool" where
  "take_enough avail early_stop need gathered [] = ([], False)"
| "take_enough avail early_stop need gathered (c # cs) =
     (if early_stop \<and> gathered + avail c \<ge> need then ([c], True)
      else apfst (Cons c) (take_enough avail early_stop need (gathered + avail c) cs))"

text \<open>The crossing sells of every reachable zone, book after book.\<close>

definition crossing_sells ::
  "topology \<Rightarrow> zone_books \<Rightarrow> fast_order list \<Rightarrow> fast_order \<Rightarrow> decimal \<Rightarrow> fast_price \<Rightarrow> candidate list" where
  "crossing_sells topo zone_books sells buy need m =
     concat (map (\<lambda>cur. priced_stream (price_at topo sells buy need m (zc_fees cur)) (zc_range cur))
               (make_cursors topo zone_books buy))"

lemma priced_stream_simps [simp]:
  "priced_stream price [] = []"
  "priced_stream price ((k, i) # r) =
     (case price i of None \<Rightarrow> priced_stream price r | Some c \<Rightarrow> c # priced_stream price r)"
  by (simp_all add: priced_stream_def map_filter_simps split: option.split)

lemma set_priced_stream: "c \<in> set (priced_stream price r) \<longleftrightarrow> (\<exists>e\<in>set r. price (snd e) = Some c)"
  by (induction r) (auto split: option.splits)

lemma next_priced_stream:
  "next_priced price r = None \<Longrightarrow> priced_stream price r = []"
  "next_priced price r = Some (c, r') \<Longrightarrow> priced_stream price r = c # priced_stream price r'"
  by (induction r rule: next_priced.induct) (auto split: option.splits)

lemma take_enough_full [simp]: "take_enough avail False need g cs = (cs, False)"
  by (induction cs arbitrary: g) simp_all

text \<open>What a truncated scan leaves out, and that it holds enough.\<close>

lemma take_enough_prefix:
  "take_enough avail early need g cs = (ds, t) \<Longrightarrow> \<exists>rest. cs = ds @ rest \<and> (\<not> t \<longrightarrow> rest = [])"
  by (induction cs arbitrary: g ds t) (auto split: if_splits simp: apfst_def map_prod_def split: prod.splits)

lemma take_enough_covers:
  "take_enough avail early need g cs = (ds, True) \<Longrightarrow> need \<le> g + sum_list (map avail ds)"
proof (induction cs arbitrary: g ds)
  case Nil
  then show ?case by simp
next
  case (Cons c cs)
  show ?case
  proof (cases "early \<and> g + avail c \<ge> need")
    case True
    then show ?thesis using Cons.prems by auto
  next
    case False
    then obtain ds' where "ds = c # ds'" "take_enough avail early need (g + avail c) cs = (ds', True)"
      using Cons.prems by (auto simp: apfst_def map_prod_def split: prod.splits if_splits)
    then show ?thesis using Cons.IH[of "g + avail c" ds'] by (simp add: add.assoc)
  qed
qed

section \<open>The three scans\<close>

lemma scan_book_eq:
  "scan_book price avail early need r g acc =
     apfst (append acc) (take_enough avail early need g (priced_stream price r))"
proof (induction r arbitrary: g acc)
  case Nil
  then show ?case by simp
next
  case (Cons e r)
  obtain k i where e: "e = (k, i)" by (cases e)
  show ?case
    by (cases "price i") (simp_all add: e Cons.IH Let_def apfst_def map_prod_def split: prod.splits)
qed

lemma drain_cursor_eq:
  "drain_cursor price avail early need r g acc =
     apfst (append acc) (take_enough avail early need g (priced_stream price r))"
proof (induction r arbitrary: g acc rule: length_induct)
  case (1 r)
  show ?case
  proof (cases "next_priced price r")
    case None
    then show ?thesis by (simp add: drain_cursor.simps[of _ _ _ _ r] next_priced_stream)
  next
    case (Some p)
    obtain c r' where p: "p = (c, r')" by (cases p)
    show ?thesis
      using "1.IH"[rule_format, OF next_priced_shorter[OF Some[unfolded p]]]
        next_priced_stream(2)[OF Some[unfolded p]] Some p
      by (simp add: drain_cursor.simps[of _ _ _ _ r] Let_def apfst_def map_prod_def split: prod.splits)
  qed
qed

text \<open>The merge without the early stop.\<close>

function merge_all ::
  "(zone_fees \<Rightarrow> nat \<Rightarrow> candidate option) \<Rightarrow> heap_head list \<Rightarrow> zone_cursor list \<Rightarrow> candidate list" where
  "merge_all price heap cursors =
     (case pop_min heap of
        None \<Rightarrow> []
      | Some (h, heap') \<Rightarrow>
          hh_cand h # (case advance price (hh_cursor h) heap' cursors of
            (heap'', cursors'') \<Rightarrow> merge_all price heap'' cursors''))"
  by pat_completeness auto

termination merge_all
proof (relation "measure (\<lambda>(_, heap, cursors). heap_weight heap cursors)", goal_cases)
  case 1
  show ?case by simp
next
  case 2
  then show ?case
    by (auto simp: heap_weight_def dest!: pop_min_length dest: advance_weight split: prod.splits)
qed

declare merge_all.simps [simp del]

lemma merge_heads_eq:
  "merge_heads price avail early need heap cursors g acc =
     apfst (append acc) (take_enough avail early need g (merge_all price heap cursors))"
proof (induction "heap_weight heap cursors" arbitrary: heap cursors g acc rule: less_induct)
  case less
  show ?case
  proof (cases "pop_min heap")
    case None
    then show ?thesis by (simp add: merge_heads.simps[of _ _ _ _ heap] merge_all.simps[of _ heap])
  next
    case (Some p)
    obtain h heap' where p: "p = (h, heap')" by (cases p)
    obtain heap'' cursors'' where adv: "advance price (hh_cursor h) heap' cursors = (heap'', cursors'')"
      by fastforce
    have "heap_weight heap'' cursors'' < heap_weight heap cursors"
      using advance_weight[OF adv] pop_min_length[OF Some[unfolded p]] by (simp add: heap_weight_def)
    from less.hyps[OF this] show ?thesis
      using Some p adv
      by (auto simp: merge_heads.simps[of _ _ _ _ heap] merge_all.simps[of _ heap] Let_def
          apfst_def map_prod_def split: prod.splits)
  qed
qed

section \<open>The heap invariant\<close>

definition cursor_stream :: "(zone_fees \<Rightarrow> nat \<Rightarrow> candidate option) \<Rightarrow> zone_cursor \<Rightarrow> candidate list" where
  "cursor_stream price cur = priced_stream (price (zc_fees cur)) (zc_range cur)"

text \<open>Every cursor outside \<open>S\<close> that still has candidates is represented on the heap by its least.\<close>

definition heap_ok ::
  "(zone_fees \<Rightarrow> nat \<Rightarrow> candidate option) \<Rightarrow> nat set \<Rightarrow> heap_head list \<Rightarrow> zone_cursor list \<Rightarrow> bool" where
  "heap_ok price S heap cursors \<longleftrightarrow>
     distinct (map hh_cursor heap) \<and>
     (\<forall>h\<in>set heap. hh_cursor h < length cursors \<and> hh_cursor h \<notin> S \<and>
        (\<forall>d\<in>set (cursor_stream price (cursors ! hh_cursor h)). cand_key (hh_cand h) \<le> cand_key d)) \<and>
     (\<forall>i<length cursors. i \<notin> S \<longrightarrow> i \<notin> hh_cursor ` set heap \<longrightarrow> cursor_stream price (cursors ! i) = []) \<and>
     (\<forall>i<length cursors. sorted (map cand_key (cursor_stream price (cursors ! i))))"

definition pending ::
  "(zone_fees \<Rightarrow> nat \<Rightarrow> candidate option) \<Rightarrow> heap_head list \<Rightarrow> zone_cursor list \<Rightarrow> candidate multiset" where
  "pending price heap cursors =
     mset (map hh_cand heap) + mset (concat (map (cursor_stream price) cursors))"

lemma mset_concat_update:
  "i < length xs \<Longrightarrow>
     mset (concat (map f (xs[i := x]))) + mset (f (xs ! i)) = mset (concat (map f xs)) + mset (f x)"
  by (induction xs arbitrary: i) (auto split: nat.splits)

lemma advance_ok:
  assumes adv: "advance price i heap cursors = (heap'', cursors'')"
    and ok: "heap_ok price S heap cursors" and i: "i < length cursors" "i \<in> S"
  shows "heap_ok price (S - {i}) heap'' cursors''" and "length cursors'' = length cursors"
    and "pending price heap'' cursors'' = pending price heap cursors"
proof -
  let ?cur = "cursors ! i"
  note upd = mset_concat_update[OF i(1), of "cursor_stream price"]
  have fresh: "hh_cursor h \<noteq> i" if "h \<in> set heap" for h
    using ok that i(2) by (auto simp: heap_ok_def)
  have sorted: "sorted (map cand_key (cursor_stream price ?cur))"
    using ok i(1) by (auto simp: heap_ok_def)
  have "heap_ok price (S - {i}) heap'' cursors'' \<and> length cursors'' = length cursors \<and>
      pending price heap'' cursors'' = pending price heap cursors"
  proof (cases "next_priced (price (zc_fees ?cur)) (zc_range ?cur)")
    case None
    then have e: "heap'' = heap" "cursors'' = cursors[i := ?cur\<lparr>zc_range := []\<rparr>]"
      using adv i(1) by (simp_all add: advance_def Let_def)
    have empty: "cursor_stream price ?cur = []"
      "cursor_stream price (?cur\<lparr>zc_range := []\<rparr>) = []"
      using next_priced_stream(1)[OF None] by (simp_all add: cursor_stream_def)
    have "heap_ok price (S - {i}) heap cursors''"
      using ok fresh empty i(1) unfolding heap_ok_def e by (auto simp: nth_list_update)
    then show ?thesis using upd[of "?cur\<lparr>zc_range := []\<rparr>"] empty by (simp add: e pending_def)
  next
    case (Some p)
    obtain c r where p: "p = (c, r)" by (cases p)
    let ?cur' = "?cur\<lparr>zc_range := r\<rparr>" and ?h = "\<lparr>hh_cand = c, hh_cursor = i\<rparr>"
    have e: "heap'' = ?h # heap" "cursors'' = cursors[i := ?cur']"
      using adv i(1) Some p by (simp_all add: advance_def Let_def)
    have stream: "cursor_stream price ?cur = c # cursor_stream price ?cur'"
      using next_priced_stream(2)[OF Some[unfolded p]] by (simp add: cursor_stream_def)
    have "heap_ok price (S - {i}) heap'' cursors''"
      using ok fresh sorted i(1) unfolding heap_ok_def e stream by (auto simp: nth_list_update)
    then show ?thesis using upd[of ?cur'] stream by (simp add: e pending_def)
  qed
  then show "heap_ok price (S - {i}) heap'' cursors''" "length cursors'' = length cursors"
    "pending price heap'' cursors'' = pending price heap cursors"
    by simp_all
qed

lemma heap_ok_pop:
  assumes "heap_ok price {} heap cursors" and "pop_min heap = Some (h, heap')"
  shows "heap_ok price {hh_cursor h} heap' cursors" and "hh_cursor h < length cursors"
    and "pending price heap cursors = add_mset (hh_cand h) (pending price heap' cursors)"
    and "\<And>d. d \<in># pending price heap cursors \<Longrightarrow> cand_key (hh_cand h) \<le> cand_key d"
proof -
  have h: "h \<in> set heap" "heap' = remove1 h heap"
    and least: "\<And>g. g \<in> set heap \<Longrightarrow> cand_key (hh_cand h) \<le> cand_key (hh_cand g)"
    using pop_min_Some[OF assms(2)] by auto
  have d: "distinct (map hh_cursor heap)" using assms(1) by (simp add: heap_ok_def)
  then have set': "set heap' = set heap - {h}" and inj: "inj_on hh_cursor (set heap)"
    using h(2) by (auto simp: distinct_map set_remove1_eq)
  show "hh_cursor h < length cursors" using assms(1) h(1) by (simp add: heap_ok_def)
  have "distinct (map hh_cursor heap')"
    using d h(2) by (metis distinct_map distinct_remove1 inj_on_diff set_remove1_eq)
  moreover have "hh_cursor g \<noteq> hh_cursor h" if "g \<in> set heap'" for g
    using that inj h(1) by (auto simp: set' inj_on_def)
  ultimately show "heap_ok price {hh_cursor h} heap' cursors"
    using assms(1) unfolding heap_ok_def set' by auto
  show "pending price heap cursors = add_mset (hh_cand h) (pending price heap' cursors)"
  proof -
    have "mset heap = add_mset h (mset heap')" using h by simp
    then have "mset (map hh_cand heap) = add_mset (hh_cand h) (mset (map hh_cand heap'))"
      by (metis image_mset_add_mset mset_map)
    then show ?thesis by (simp add: pending_def)
  qed
  show "cand_key (hh_cand h) \<le> cand_key d" if "d \<in># pending price heap cursors" for d
  proof -
    consider g where "g \<in> set heap" "d = hh_cand g"
      | i where "i < length cursors" "d \<in> set (cursor_stream price (cursors ! i))"
    proof -
      have "d \<in> hh_cand ` set heap \<or> (\<exists>cur\<in>set cursors. d \<in> set (cursor_stream price cur))"
        using \<open>d \<in># _\<close> by (auto simp: pending_def)
      then show thesis using that by (metis imageE in_set_conv_nth)
    qed
    then show ?thesis
    proof cases
      case 1
      then show ?thesis using least by simp
    next
      case 2
      then have "i \<in> hh_cursor ` set heap" using assms(1) by (auto simp: heap_ok_def)
      then obtain g where g: "g \<in> set heap" "i = hh_cursor g" by auto
      then have "cand_key (hh_cand g) \<le> cand_key d" using assms(1) 2 by (auto simp: heap_ok_def)
      then show ?thesis using least[OF g(1)] by (rule order_trans[rotated])
    qed
  qed
qed

lemma merge_all_correct:
  "heap_ok price {} heap cursors \<Longrightarrow>
     mset (merge_all price heap cursors) = pending price heap cursors \<and>
     sorted (map cand_key (merge_all price heap cursors))"
proof (induction "heap_weight heap cursors" arbitrary: heap cursors rule: less_induct)
  case less
  show ?case
  proof (cases "pop_min heap")
    case None
    then have "heap = []" by (simp add: pop_min_def Let_def split: if_splits)
    then have "concat (map (cursor_stream price) cursors) = []"
      using less.prems by (auto simp: heap_ok_def in_set_conv_nth)
    then have "pending price heap cursors = {#}"
      unfolding pending_def \<open>heap = []\<close> by (simp del: concat_eq_Nil_conv)
    then show ?thesis using None by (simp add: merge_all.simps[of _ heap])
  next
    case (Some p)
    obtain h heap' where p: "p = (h, heap')" by (cases p)
    obtain heap'' cursors'' where adv: "advance price (hh_cursor h) heap' cursors = (heap'', cursors'')"
      by fastforce
    note pop = heap_ok_pop[OF less.prems Some[unfolded p]]
    note step = advance_ok[OF adv pop(1) pop(2), simplified]
    have "heap_weight heap'' cursors'' < heap_weight heap cursors"
      using advance_weight[OF adv] pop_min_length[OF Some[unfolded p]] by (simp add: heap_weight_def)
    from less.hyps[OF this step(1)]
    have IH: "mset (merge_all price heap'' cursors'') = pending price heap' cursors"
      "sorted (map cand_key (merge_all price heap'' cursors''))"
      using step(3) by simp_all
    have "cand_key (hh_cand h) \<le> cand_key d" if "d \<in> set (merge_all price heap'' cursors'')" for d
      using that pop(3,4) IH(1) set_mset_mset[of "merge_all price heap'' cursors''"] by simp
    moreover have "merge_all price heap cursors = hh_cand h # merge_all price heap'' cursors''"
      using Some p adv by (simp add: merge_all.simps[of _ heap])
    ultimately show ?thesis using IH pop(3) by simp
  qed
qed

lemma init_heap_correct:
  assumes "\<And>cur. cur \<in> set cursors \<Longrightarrow> sorted (map cand_key (cursor_stream price cur))"
    and "init_heap price cursors = (heap, cursors')"
  shows "heap_ok price {} heap cursors'"
    and "pending price heap cursors' = mset (concat (map (cursor_stream price) cursors))"
proof -
  have "heap_ok price {k..<length cursors} (fst s) (snd s) \<and> length (snd s) = length cursors \<and>
      pending price (fst s) (snd s) = mset (concat (map (cursor_stream price) cursors))"
    if "k \<le> length cursors"
      and "s = fold (\<lambda>i (heap, curs). advance price i heap curs) [0..<k] ([], cursors)" for k s
    using that
  proof (induction k arbitrary: s)
    case 0
    then show ?case using assms(1) by (auto simp: heap_ok_def pending_def)
  next
    case (Suc k)
    obtain hp cs where IH: "fold (\<lambda>i (heap, curs). advance price i heap curs) [0..<k] ([], cursors) = (hp, cs)"
      by fastforce
    from Suc.IH[OF _ IH[symmetric]] Suc.prems(1)
    have ok: "heap_ok price {k..<length cursors} hp cs" "length cs = length cursors"
      "pending price hp cs = mset (concat (map (cursor_stream price) cursors))"
      by simp_all
    obtain hp' cs' where adv: "advance price k hp cs = (hp', cs')" by fastforce
    have "{k..<length cursors} - {k} = {Suc k..<length cursors}" by auto
    then show ?case
      using advance_ok[OF adv ok(1)] ok Suc.prems IH adv by simp
  qed
  from this[OF order_refl refl] show "heap_ok price {} heap cursors'"
    "pending price heap cursors' = mset (concat (map (cursor_stream price) cursors))"
    using assms(2) by (simp_all add: init_heap_def)
qed

section \<open>Books\<close>

definition book_ok :: "fast_order list \<Rightarrow> zone \<Rightarrow> zone_book \<Rightarrow> bool" where
  "book_ok sells z book \<longleftrightarrow>
     bt_ok book \<and>
     (\<forall>(k, i)\<in>set book. i < length sells \<and> k = sell_key (sells ! i) \<and> fo_zone_id (sells ! i) = z)"

definition books_ok :: "fast_order list \<Rightarrow> zone_books \<Rightarrow> bool" where
  "books_ok sells books \<longleftrightarrow> bt_ok books \<and> (\<forall>(z, book)\<in>set books. book_ok sells z book)"

text \<open>Asks are non-negative prices and times are \<open>i64\<close> values.\<close>

definition asks_ok :: "fast_order list \<Rightarrow> bool" where
  "asks_ok sells \<longleftrightarrow>
     (\<forall>s\<in>set sells. fp_ok (fo_price s) \<and> 0 \<le> raw (fo_price s) \<and> i64_ok (fo_created_at_ns s))"

lemma sorted_priced_stream:
  assumes "sorted (map fst r)" and "\<And>k i. (k, i) \<in> set r \<Longrightarrow> i < length sells \<and> k = sell_key (sells ! i)"
    and "asks_ok sells" and "fp_ok m" and "0 < raw m"
  shows "sorted (map cand_key (priced_stream (price_at topo sells buy need m fees) r))"
  using assms(1,2)
proof (induction r)
  case Nil
  then show ?case by simp
next
  case (Cons e r)
  obtain k i where e: "e = (k, i)" by (cases e)
  have IH: "sorted (map cand_key (priced_stream (price_at topo sells buy need m fees) r))"
  proof (rule Cons.IH)
    show "sorted (map fst r)" using Cons.prems(1) by simp
    show "i < length sells \<and> k = sell_key (sells ! i)" if "(k, i) \<in> set r" for k i
      using Cons.prems(2)[of k i] that by simp
  qed
  have "cand_key c \<le> cand_key d"
    if c: "price_at topo sells buy need m fees i = Some c"
      and d: "d \<in> set (priced_stream (price_at topo sells buy need m fees) r)" for c d
  proof -
    obtain k' j where j: "(k', j) \<in> set r" "price_at topo sells buy need m fees j = Some d"
      using d by (auto simp: set_priced_stream)
    have key: "i < length sells \<and> k = sell_key (sells ! i)" "j < length sells \<and> k' = sell_key (sells ! j)"
      by (rule Cons.prems(2); use j(1) e in simp)+
    moreover have "k \<le> k'" using Cons.prems(1) j(1) e by force
    ultimately have ij: "i < length sells" "j < length sells" "sell_key (sells ! i) \<le> sell_key (sells ! j)"
      by simp_all
    then have "landed_cost (fo_price (sells ! i)) fees m \<le> landed_cost (fo_price (sells ! j)) fees m"
      using assms(3-5) by (intro landed_cost_mono) (auto simp: asks_ok_def sell_key_def less_eq_prod_def)
    then show ?thesis
      using c j(2) ij(3)
      by (auto simp: price_at_def priced_candidate_Some cand_key_def sell_key_def less_eq_prod_def
          simp del: fp_order_simps)
  qed
  then show ?case using IH e by (auto split: option.splits)
qed

lemma book_range_sub:
  assumes "bt_ok book"
  shows "set (book_range buy book) = {(k, i) \<in> set book. k \<le> (fo_price buy, i64_max, uuid_max)}"
    and "sorted (map fst (book_range buy book))"
  using assms bt.range_to_sorted[OF assms]
  by (auto simp: book_range_def bt_range_to_filter strict_sorted_iff)

lemma cursors_sorted:
  assumes "books_ok sells books" "asks_ok sells" "fp_ok m" "0 < raw m"
    and "cur \<in> set (make_cursors topo books buy)"
  shows "sorted (map cand_key (cursor_stream (price_at topo sells buy need m) cur))"
proof -
  obtain z book where zb: "(z, book) \<in> set books" "zc_range cur = book_range buy book"
    using assms(5) by (auto simp: make_cursors_def split: if_splits)
  then have "book_ok sells z book" using assms(1) by (auto simp: books_ok_def)
  then show ?thesis
    unfolding cursor_stream_def zb(2)
    using assms(2-4) by (intro sorted_priced_stream) (auto simp: book_ok_def book_range_sub)
qed

section \<open>Gathering is the landed-order list of the crossing sells\<close>

text \<open>What a full scan yields, whatever path computes it.\<close>

definition landed_list ::
  "topology \<Rightarrow> zone_books \<Rightarrow> fast_order list \<Rightarrow> fast_order \<Rightarrow> decimal \<Rightarrow> fast_price \<Rightarrow> candidate list" where
  "landed_list topo books sells buy need m =
     (let price = price_at topo sells buy need m; cursors = make_cursors topo books buy in
      if length cursors = 1 then cursor_stream price (hd cursors)
      else case init_heap price cursors of (heap, cursors') \<Rightarrow> merge_all price heap cursors')"

lemma merge_all_empty [simp]: "merge_all price [] cursors = []"
  by (simp add: merge_all.simps pop_min_def)

lemma apfst_append_Nil [simp]: "apfst (append []) p = p"
  by (cases p) simp

lemma gather_landed:
  "gather_candidates topo books sells buy need m early =
     take_enough (avail_at sells) early need 0 (landed_list topo books sells buy need m)"
proof (cases "length books \<le> 1")
  case True
  then show ?thesis
    by (cases books)
      (auto simp: gather_candidates_def Let_def make_cursors_def landed_list_def init_heap_def
        scan_book_eq cursor_stream_def)
next
  case False
  then show ?thesis
    by (auto simp: gather_candidates_def Let_def landed_list_def drain_cursor_eq merge_heads_eq
        cursor_stream_def split: prod.splits)
qed

lemma landed_list_correct:
  assumes "books_ok sells books" "asks_ok sells" "fp_ok m" "0 < raw m"
  shows "mset (landed_list topo books sells buy need m) = mset (crossing_sells topo books sells buy need m)"
    and "sorted (map cand_key (landed_list topo books sells buy need m))"
proof -
  let ?price = "price_at topo sells buy need m" and ?curs = "make_cursors topo books buy"
  have cs: "crossing_sells topo books sells buy need m = concat (map (cursor_stream ?price) ?curs)"
    by (simp add: crossing_sells_def cursor_stream_def[abs_def])
  note sorted = cursors_sorted[OF assms, of _ topo buy need]
  have "mset (landed_list topo books sells buy need m) = mset (crossing_sells topo books sells buy need m)
      \<and> sorted (map cand_key (landed_list topo books sells buy need m))"
  proof (cases "length ?curs = 1")
    case True
    then obtain cur where "?curs = [cur]" by (auto simp: length_Suc_conv)
    then show ?thesis using sorted[of cur] by (simp add: landed_list_def cs)
  next
    case False
    obtain heap cursors' where init: "init_heap ?price ?curs = (heap, cursors')" by fastforce
    note ok = init_heap_correct[OF sorted init]
    show ?thesis using merge_all_correct[OF ok(1)] ok(2) False init by (simp add: landed_list_def cs Let_def)
  qed
  then show "mset (landed_list topo books sells buy need m) = mset (crossing_sells topo books sells buy need m)"
    "sorted (map cand_key (landed_list topo books sells buy need m))"
    by simp_all
qed

lemma set_landed_list:
  assumes "books_ok sells books" "asks_ok sells" "fp_ok m" "0 < raw m"
  shows "set (landed_list topo books sells buy need m) = set (crossing_sells topo books sells buy need m)"
  using landed_list_correct(1)[OF assms] by (metis set_mset_mset)

lemma set_make_cursors:
  "cur \<in> set (make_cursors topo books buy) \<longleftrightarrow>
     (\<exists>z book. (z, book) \<in> set books \<and>
        can_accommodate_flow topo z (fo_zone_id buy) min_trade_amount \<and>
        cur = \<lparr>zc_fees = fees_of topo z (fo_zone_id buy), zc_range = book_range buy book\<rparr>)"
  by (auto simp: make_cursors_def split: if_splits)

lemma set_crossing_range:
  "c \<in> set (crossing_sells topo books sells buy need m) \<longleftrightarrow>
     (\<exists>z book k i. (z, book) \<in> set books \<and>
        can_accommodate_flow topo z (fo_zone_id buy) min_trade_amount \<and>
        (k, i) \<in> set (book_range buy book) \<and>
        priced_candidate topo buy need i (sells ! i) (fees_of topo z (fo_zone_id buy)) m = Some c)"
proof -
  have "c \<in> set (crossing_sells topo books sells buy need m) \<longleftrightarrow>
    (\<exists>cur\<in>set (make_cursors topo books buy). \<exists>e\<in>set (zc_range cur).
       price_at topo sells buy need m (zc_fees cur) (snd e) = Some c)"
    by (simp add: crossing_sells_def set_priced_stream)
  also have "\<dots> \<longleftrightarrow> (\<exists>z book. (z, book) \<in> set books \<and>
        can_accommodate_flow topo z (fo_zone_id buy) min_trade_amount \<and>
        (\<exists>e\<in>set (book_range buy book).
           priced_candidate topo buy need (snd e) (sells ! snd e) (fees_of topo z (fo_zone_id buy)) m = Some c))"
    unfolding Bex_def set_make_cursors price_at_def by fastforce
  finally show ?thesis by (metis prod.collapse snd_conv)
qed

text \<open>A crossing sell is one a reachable book holds and the pricing step accepts: the range bound
  on the bid drops nothing.\<close>

lemma set_crossing_sells:
  assumes "books_ok sells books" "asks_ok sells"
  shows "c \<in> set (crossing_sells topo books sells buy need m) \<longleftrightarrow>
     (\<exists>z book k i. (z, book) \<in> set books \<and> (k, i) \<in> set book \<and>
        can_accommodate_flow topo z (fo_zone_id buy) min_trade_amount \<and>
        priced_candidate topo buy need i (sells ! i) (fees_of topo z (fo_zone_id buy)) m = Some c)"
proof -
  have "(k, i) \<in> set (book_range buy book)"
    if "(z, book) \<in> set books" "(k, i) \<in> set book"
      and "priced_candidate topo buy need i (sells ! i) (fees_of topo z (fo_zone_id buy)) m = Some c"
    for z book k i
  proof -
    have ok: "book_ok sells z book" using assms(1) that(1) by (auto simp: books_ok_def)
    then have "k = sell_key (sells ! i)" "i < length sells" using that(2) by (auto simp: book_ok_def)
    moreover have "fo_price (sells ! i) \<le> fo_price buy" using that(3) by (simp add: priced_candidate_Some)
    moreover have "fo_created_at_ns (sells ! i) \<le> i64_max"
      using assms(2) \<open>i < length sells\<close> by (auto simp: asks_ok_def i64_ok_def)
    ultimately have "k \<le> (fo_price buy, i64_max, uuid_max)"
      by (auto simp: sell_key_def less_eq_prod_def simp del: fp_order_simps)
    then show ?thesis using ok that(2) by (auto simp: book_range_sub book_ok_def)
  qed
  moreover have "(k, i) \<in> set book" if "(z, book) \<in> set books" "(k, i) \<in> set (book_range buy book)" for z book k i
    using that assms(1) by (auto simp: book_range_sub books_ok_def book_ok_def)
  ultimately show ?thesis unfolding set_crossing_range by blast
qed

text \<open>No sell is offered twice.\<close>

lemma priced_stream_idx:
  "map cd_sell_idx (priced_stream (price_at topo sells buy need m fees) r)
     = filter (\<lambda>i. price_at topo sells buy need m fees i \<noteq> None) (map snd r)"
  by (induction r) (auto simp: price_at_def priced_candidate_Some split: option.splits)

lemma distinct_book_idx: "book_ok sells z book \<Longrightarrow> distinct (map snd book)"
proof -
  assume ok: "book_ok sells z book"
  then have "distinct (map fst book)" by (simp add: book_ok_def bt_ok_distinct)
  moreover have "map fst book = map (\<lambda>i. sell_key (sells ! i)) (map snd book)"
    using ok by (auto simp: book_ok_def)
  ultimately show ?thesis by (metis distinct_map)
qed

lemma distinct_crossing:
  assumes "books_ok sells books"
  shows "distinct (map cd_sell_idx (crossing_sells topo books sells buy need m))"
  using assms
proof (induction books)
  case Nil
  then show ?case by (simp add: crossing_sells_def make_cursors_def)
next
  case (Cons zb books)
  obtain z book where zb: "zb = (z, book)" by (cases zb)
  have ok: "book_ok sells z book" "books_ok sells books" and znot: "\<forall>(z', b)\<in>set books. z \<noteq> z'"
    using Cons.prems zb by (auto simp: books_ok_def bt_ok_def)
  let ?s = "priced_stream (price_at topo sells buy need m (fees_of topo z (fo_zone_id buy))) (book_range buy book)"
  have "distinct (map snd (book_range buy book))"
    using distinct_book_idx[OF ok(1)] ok(1)
    by (auto simp: book_range_def bt_range_to_filter book_ok_def distinct_map_filter)
  then have d: "distinct (map cd_sell_idx ?s)" by (simp add: priced_stream_idx)
  have zone_s: "fo_zone_id (sells ! cd_sell_idx c) = z" if "c \<in> set ?s" for c
    using that ok(1)
    by (auto simp: set_priced_stream price_at_def priced_candidate_Some book_ok_def book_range_sub)
  have zone_r: "\<exists>z' b. (z', b) \<in> set books \<and> fo_zone_id (sells ! cd_sell_idx c) = z'"
    if "c \<in> set (crossing_sells topo books sells buy need m)" for c
  proof -
    obtain z' b k i where i: "(z', b) \<in> set books" "(k, i) \<in> set (book_range buy b)"
      "priced_candidate topo buy need i (sells ! i) (fees_of topo z' (fo_zone_id buy)) m = Some c"
      using \<open>c \<in> set _\<close> unfolding set_crossing_range by blast
    have "book_ok sells z' b" using ok(2) i(1) by (auto simp: books_ok_def)
    then have "fo_zone_id (sells ! i) = z'" using i(2) by (auto simp: book_ok_def book_range_sub)
    then show ?thesis using i(1,3) by (auto simp: priced_candidate_Some)
  qed
  have "cd_sell_idx c \<noteq> cd_sell_idx d"
    if cs: "c \<in> set ?s" and ds: "d \<in> set (crossing_sells topo books sells buy need m)" for c d
  proof
    assume eq: "cd_sell_idx c = cd_sell_idx d"
    obtain z' b where z': "(z', b) \<in> set books" "fo_zone_id (sells ! cd_sell_idx d) = z'"
      using zone_r[OF ds] by blast
    then have "z = z'" using zone_s[OF cs] eq by simp
    then show False using znot z'(1) by auto
  qed
  moreover have "crossing_sells topo (zb # books) sells buy need m =
      (if can_accommodate_flow topo z (fo_zone_id buy) min_trade_amount then ?s else [])
        @ crossing_sells topo books sells buy need m"
    by (simp add: crossing_sells_def make_cursors_def zb)
  ultimately show ?case using d Cons.IH[OF ok(2)] by (auto dest: sym)
qed

lemma distinct_landed:
  assumes "books_ok sells books" "asks_ok sells" "fp_ok m" "0 < raw m"
  shows "distinct (map cd_sell_idx (landed_list topo books sells buy need m))"
  using distinct_crossing[OF assms(1)] landed_list_correct(1)[OF assms]
  by (metis mset_map mset_eq_imp_distinct_iff)

end
