(* ===== verification/Engine_Trace.thy ===== *)
theory Engine_Trace imports Engine_Cycle Engine_Merge begin

text \<open>
  The matching cycle as a sequence of committed fills.  \<open>fills\<close> is the step relation: each step
  commits one fill under the conditions the engine checked.  The drain, the rebuild and the buy
  loop only produce such sequences, so every invariant of the cycle is proved once, by rule
  induction over a step.
\<close>

section \<open>The books' invariant\<close>

text \<open>Books are well-formed and hold only live, tradeable sells.\<close>

definition cycle_ok :: "cycle_env \<Rightarrow> cycle_state \<Rightarrow> bool" where
  "cycle_ok env s \<longleftrightarrow>
     books_ok (cy_sells s) (cy_books s) \<and> asks_ok (cy_sells s) \<and>
     (\<forall>(z, book)\<in>set (cy_books s). \<forall>(k, i)\<in>set book.
        min_trade_amount \<le> remaining_amount (cy_sells s ! i) \<and>
        \<not> is_expired (cy_sells s ! i) (env_now env))"

definition env_ok :: "cycle_env \<Rightarrow> bool" where
  "env_ok env \<longleftrightarrow> fp_ok (env_mult env) \<and> 0 < raw (env_mult env)"

text \<open>Every live, tradeable sell rests in its zone's book.\<close>

definition resting :: "cycle_env \<Rightarrow> cycle_state \<Rightarrow> bool" where
  "resting env s \<longleftrightarrow>
     (\<forall>i<length (cy_sells s).
        min_trade_amount \<le> remaining_amount (cy_sells s ! i) \<longrightarrow>
        \<not> is_expired (cy_sells s ! i) (env_now env) \<longrightarrow>
        (\<exists>book. (fo_zone_id (cy_sells s ! i), book) \<in> set (cy_books s) \<and>
                (sell_key (cy_sells s ! i), i) \<in> set book))"

text \<open>A condition on the entries of all books, before and after an insertion or a removal.\<close>

lemma book_ok_mono:
  assumes "book_ok sells z book" and "length sells = length sells'"
    and "\<And>i. i < length sells \<Longrightarrow> sell_key (sells' ! i) = sell_key (sells ! i) \<and>
                                 fo_zone_id (sells' ! i) = fo_zone_id (sells ! i)"
  shows "book_ok sells' z book"
  using assms by (fastforce simp: book_ok_def)

lemma book_ok_insert:
  assumes "book_ok sells z book" "i < length sells" "fo_zone_id (sells ! i) = z"
  shows "book_ok sells z (bt_insert (sell_key (sells ! i)) i book)"
  using assms bt.mem_insert[of book _ _ "sell_key (sells ! i)" i] by (fastforce simp: book_ok_def)

lemma book_ok_remove: "book_ok sells z book \<Longrightarrow> book_ok sells z (bt_remove k book)"
  by (auto simp: book_ok_def bt_remove_def bt_ok_remove[unfolded bt_remove_def])

lemma book_ok_Nil [simp]: "book_ok sells z []"
  by (simp add: book_ok_def)

lemma insert_sell_entries:
  assumes "bt_ok books" and "z = fo_zone_id sell"
    and "insert_sell now (i, sell) books = books'"
    and "remaining_amount sell \<ge> min_trade_amount" "\<not> is_expired sell now"
  shows "bt_ok books'" and
    "(z', b) \<in> set books' \<longleftrightarrow>
       (if z' = z then b = bt_insert (sell_key sell) i (unwrap_or (bt_get books z) [])
        else (z', b) \<in> set books)"
proof -
  have b': "books' = bt_update z [] (bt_insert (sell_key sell) i) books"
    using assms(2-5) by (auto simp: insert_sell_def)
  show "bt_ok books'" using assms(1) by (simp add: b')
  show "(z', b) \<in> set books' \<longleftrightarrow>
       (if z' = z then b = bt_insert (sell_key sell) i (unwrap_or (bt_get books z) [])
        else (z', b) \<in> set books)"
    using assms(1) by (auto simp: b' bt_update_def bt.mem_insert)
qed

lemma insert_sell_skip:
  "\<not> (remaining_amount sell \<ge> min_trade_amount \<and> \<not> is_expired sell now) \<Longrightarrow>
     insert_sell now (i, sell) books = books"
  by (auto simp: insert_sell_def)

text \<open>The books built from the first \<open>k\<close> sells.\<close>

definition prefix_books_ok :: "int \<Rightarrow> fast_order list \<Rightarrow> nat \<Rightarrow> zone_books \<Rightarrow> bool" where
  "prefix_books_ok now sells k B \<longleftrightarrow> books_ok sells B \<and>
     (\<forall>(z, book)\<in>set B. \<forall>(key, i)\<in>set book. i < k \<and>
        min_trade_amount \<le> remaining_amount (sells ! i) \<and> \<not> is_expired (sells ! i) now) \<and>
     (distinct (map fo_id sells) \<longrightarrow>
      (\<forall>i<k. min_trade_amount \<le> remaining_amount (sells ! i) \<longrightarrow> \<not> is_expired (sells ! i) now \<longrightarrow>
        (\<exists>book. (fo_zone_id (sells ! i), book) \<in> set B \<and> (sell_key (sells ! i), i) \<in> set book)))"

lemma build_books_prefix:
  "k \<le> length sells \<Longrightarrow>
     prefix_books_ok now sells k (fold (insert_sell now) (take k (List.enumerate 0 sells)) [])"
proof (induction k)
  case 0
  then show ?case by (simp add: books_ok_def prefix_books_ok_def)
next
  case (Suc k)
  let ?s = "sells ! k"
  let ?B = "fold (insert_sell now) (take k (List.enumerate 0 sells)) []"
  let ?B' = "fold (insert_sell now) (take (Suc k) (List.enumerate 0 sells)) []"
  have B': "?B' = insert_sell now (k, ?s) ?B"
    using Suc.prems by (simp add: take_Suc_conv_app_nth nth_enumerate_eq)
  have IH: "books_ok sells ?B"
    "\<And>z book key i. (z, book) \<in> set ?B \<Longrightarrow> (key, i) \<in> set book \<Longrightarrow> i < k \<and>
        min_trade_amount \<le> remaining_amount (sells ! i) \<and> \<not> is_expired (sells ! i) now"
    "\<And>i. distinct (map fo_id sells) \<Longrightarrow> i < k \<Longrightarrow> min_trade_amount \<le> remaining_amount (sells ! i) \<Longrightarrow>
        \<not> is_expired (sells ! i) now \<Longrightarrow>
        \<exists>book. (fo_zone_id (sells ! i), book) \<in> set ?B \<and> (sell_key (sells ! i), i) \<in> set book"
    using Suc unfolding prefix_books_ok_def by fastforce+
  show ?case
  proof (cases "remaining_amount ?s \<ge> min_trade_amount \<and> \<not> is_expired ?s now")
    case False
    then have "?B' = ?B" unfolding B' by (rule insert_sell_skip)
    then show ?thesis using IH False unfolding prefix_books_ok_def by (fastforce simp: less_Suc_eq)
  next
    case True
    let ?old = "unwrap_or (bt_get ?B (fo_zone_id ?s)) []"
    have okB: "bt_ok ?B" using IH(1) by (simp add: books_ok_def)
    note ins = insert_sell_entries[OF okB refl B'[symmetric] conjunct1[OF True] conjunct2[OF True]]
    have old: "?old = [] \<or> (fo_zone_id ?s, ?old) \<in> set ?B"
      using okB by (cases "bt_get ?B (fo_zone_id ?s)") (simp_all add: bt.mem_iter)
    then have okold: "book_ok sells (fo_zone_id ?s) ?old" using IH(1) by (auto simp: books_ok_def)
    then have bto: "bt_ok ?old" by (simp add: book_ok_def)
    have "books_ok sells ?B'"
      using ins(1) IH(1) book_ok_insert[OF okold, of k] Suc.prems
      by (auto simp: books_ok_def ins(2) split: if_splits)
    moreover have "i < Suc k \<and> min_trade_amount \<le> remaining_amount (sells ! i) \<and> \<not> is_expired (sells ! i) now"
      if "(z, book) \<in> set ?B'" "(key, i) \<in> set book" for z book key i
    proof (cases "z = fo_zone_id ?s")
      case True
      then have "(key, i) = (sell_key ?s, k) \<or> (key, i) \<in> set ?old"
        using that bt.mem_insert[OF bto, of key i "sell_key ?s" k] by (auto simp: ins(2))
      then show ?thesis
        using IH(2)[of "fo_zone_id ?s" ?old key i] old \<open>_ \<and> \<not> is_expired ?s now\<close> by auto
    next
      case False
      then show ?thesis using that IH(2) by (auto simp: ins(2) less_Suc_eq)
    qed
    moreover have "\<exists>book. (fo_zone_id (sells ! i), book) \<in> set ?B' \<and> (sell_key (sells ! i), i) \<in> set book"
      if d: "distinct (map fo_id sells)" and i: "i < Suc k"
        "min_trade_amount \<le> remaining_amount (sells ! i)" "\<not> is_expired (sells ! i) now" for i
    proof (cases "i = k")
      case True
      then show ?thesis using bt.mem_insert[OF bto, of "sell_key ?s" k "sell_key ?s" k] by (auto simp: ins(2))
    next
      case False
      then obtain book where b: "(fo_zone_id (sells ! i), book) \<in> set ?B" "(sell_key (sells ! i), i) \<in> set book"
        using IH(3)[OF d, of i] i by (auto simp: less_Suc_eq)
      have "sell_key (sells ! i) \<noteq> sell_key ?s"
        using distinct_map_nth_eq[OF d, of i k] False i(1) Suc.prems by (auto simp: sell_key_def)
      moreover have "?old = book" if "fo_zone_id (sells ! i) = fo_zone_id ?s"
        using b(1) okB that by (simp add: bt.mem_iter)
      ultimately show ?thesis
        using b bt.mem_insert[OF bto, of "sell_key (sells ! i)" i "sell_key ?s" k] by (auto simp: ins(2))
    qed
    ultimately show ?thesis unfolding prefix_books_ok_def by blast
  qed
qed

lemma init_cycle_ok: "asks_ok sells \<Longrightarrow> cycle_ok env (init_cycle (env_now env) sells)"
  using build_books_prefix[of "length sells" sells "env_now env"]
  by (fastforce simp: cycle_ok_def init_cycle_def build_books_def prefix_books_ok_def)

lemma init_resting: "distinct (map fo_id sells) \<Longrightarrow> resting env (init_cycle (env_now env) sells)"
  using build_books_prefix[of "length sells" sells "env_now env"]
  by (auto simp: resting_def init_cycle_def build_books_def prefix_books_ok_def)

section \<open>Committed fills\<close>

text \<open>A candidate as the drain uses it, against the sells as they are now.\<close>

definition cand_ok :: "cycle_env \<Rightarrow> fast_order \<Rightarrow> fast_order list \<Rightarrow> candidate \<Rightarrow> bool" where
  "cand_ok env buy sells c \<longleftrightarrow>
     (let i = cd_sell_idx c; sell = sells ! i; fees = fees_of (env_topo env) (fo_zone_id sell) (fo_zone_id buy) in
      i < length sells \<and> \<not> is_expired sell (env_now env) \<and>
      fo_user_id buy \<noteq> fo_user_id sell \<and> fo_price sell \<le> fo_price buy \<and>
      cd_landed c = landed_cost (fo_price sell) fees (env_mult env) \<and> cd_landed c \<le> fo_price buy \<and>
      cd_wheeling c = floored_wheeling fees \<and> cd_loss c = zf_loss fees \<and>
      cd_loss_cost c = fp_from_raw (loss_cost_extra (fo_price sell) fees))"

definition fill_ok :: "cycle_env \<Rightarrow> fast_order \<Rightarrow> cycle_state \<Rightarrow> candidate \<Rightarrow> match_result \<Rightarrow> bool" where
  "fill_ok env buy s c r \<longleftrightarrow>
     (let sell = cy_sells s ! cd_sell_idx c; amount = min (remaining_amount buy) (remaining_amount sell) in
      cand_ok env buy (cy_sells s) c \<and>
      min_trade_amount \<le> remaining_amount buy \<and> min_trade_amount \<le> remaining_amount sell \<and>
      can_accommodate_flow (env_topo env) (fo_zone_id sell) (fo_zone_id buy)
        (flow_at (cy_flow s) (fo_zone_id sell, fo_zone_id buy) + amount) \<and>
      make_match (env_dec env) (env_meta env) buy sell c amount = Some r)"

inductive fills ::
  "cycle_env \<Rightarrow> fast_order \<Rightarrow> cycle_state \<Rightarrow> (candidate \<times> match_result) list \<Rightarrow> fast_order \<Rightarrow> cycle_state \<Rightarrow> bool"
  for env where
  fills_Nil: "fills env buy s [] buy s"
| fills_Cons: "fill_ok env buy s c r \<Longrightarrow> commit_fill r (cd_sell_idx c) buy s = (buy1, s1) \<Longrightarrow>
     fills env buy1 s1 tr buy2 s2 \<Longrightarrow> fills env buy s ((c, r) # tr) buy2 s2"

inductive_cases fills_NilE: "fills env buy s [] buy' s'"
inductive_cases fills_ConsE: "fills env buy s (x # tr) buy' s'"

lemma fills_append:
  "fills env buy s tr buy1 s1 \<Longrightarrow> fills env buy1 s1 tr' buy2 s2 \<Longrightarrow> fills env buy s (tr @ tr') buy2 s2"
  by (induction rule: fills.induct) (auto intro: fills.intros)

lemma make_match_fields:
  assumes "make_match D meta buy sell c a = Some r"
  shows "mr_buy_order_id r = fo_id buy" "mr_sell_order_id r = fo_id sell" "mr_match_amount r = a"
    "mr_settle_price r = fp_to_decimal (cd_landed c)" "mr_match_price r = fp_to_decimal (cd_landed c)"
    "mr_seller_price r = fp_to_decimal (fo_price sell)" "mr_buyer_price r = fp_to_decimal (fo_price buy)"
    "mr_buyer_zone_id r = fo_zone_id buy" "mr_seller_zone_id r = fo_zone_id sell"
    "mr_buyer_id r = fo_user_id buy" "mr_seller_id r = fo_user_id sell"
    "fo_metadata_index buy < length meta" "mr_epoch_id r = md_epoch_id (meta ! fo_metadata_index buy)"
    "mr_buy_metadata_index r = fo_metadata_index buy" "mr_sell_metadata_index r = fo_metadata_index sell"
    "Some (mr_total_energy_cost r) = dmul D a (fp_to_decimal (cd_landed c))"
    "Some (mr_wheeling_charge r) = dmul D a (fp_to_decimal (cd_wheeling c))"
    "Some (mr_loss_cost r) = dmul D a (fp_to_decimal (cd_loss_cost c))"
  using assms by (auto simp: make_match_def bind_eq_Some_conv split: if_splits)

text \<open>The amount of a fill.\<close>

lemma fill_ok_amount:
  assumes "fill_ok env buy s c r"
  shows "mr_match_amount r = min (remaining_amount buy) (remaining_amount (cy_sells s ! cd_sell_idx c))"
    and "min_trade_amount \<le> mr_match_amount r" and "cd_sell_idx c < length (cy_sells s)"
    and "mr_match_amount r \<le> remaining_amount buy"
    and "mr_match_amount r \<le> remaining_amount (cy_sells s ! cd_sell_idx c)"
  using assms make_match_fields(3)
  by (fastforce simp: fill_ok_def cand_ok_def Let_def)+

section \<open>A fill keeps the books\<close>

lemma sells_commit:
  assumes "commit_fill r i buy s = (buy1, s1)"
  shows "cy_sells s1 = (cy_sells s)[i := add_fill (mr_match_amount r) (cy_sells s ! i)]"
    and "buy1 = add_fill (mr_match_amount r) buy"
    and "cy_results s1 = cy_results s @ [r]" and "cy_created s1 = Suc (cy_created s)"
    and "cy_volume s1 = cy_volume s + mr_match_amount r"
    and "cy_flow s1 = add_flow (fo_zone_id (cy_sells s ! i), fo_zone_id buy) (mr_match_amount r) (cy_flow s)"
    and "cy_books s1 = (if remaining_amount (cy_sells s ! i) - mr_match_amount r < min_trade_amount
           then remove_from_books (cy_sells s ! i) (cy_books s) else cy_books s)"
  using assms by (auto simp: commit_fill_def Let_def remove_from_books_def split: option.splits)

lemma mem_remove_from_books:
  assumes "bt_ok books"
  shows "bt_ok (remove_from_books sell books)" and
    "(z, b) \<in> set (remove_from_books sell books) \<longleftrightarrow>
       (if z = fo_zone_id sell
        then (\<exists>book. (z, book) \<in> set books \<and> b = bt_remove (sell_key sell) book)
        else (z, b) \<in> set books)"
  using assms
  by (auto simp: remove_from_books_def bt.mem_insert bt.mem_iter split: option.splits)

lemma commit_sell_nth:
  assumes "commit_fill r i buy s = (buy1, s1)" "i < length (cy_sells s)"
  shows "length (cy_sells s1) = length (cy_sells s)"
    and "j < length (cy_sells s) \<Longrightarrow> cy_sells s1 ! j =
           (if j = i then add_fill (mr_match_amount r) (cy_sells s ! i) else cy_sells s ! j)"
  using assms(2) by (auto simp: sells_commit(1)[OF assms(1)] nth_list_update)

lemma asks_ok_commit:
  assumes "asks_ok (cy_sells s)" "commit_fill r i buy s = (buy1, s1)" "i < length (cy_sells s)"
  shows "asks_ok (cy_sells s1)"
  using assms(1,3) unfolding sells_commit(1)[OF assms(2)] asks_ok_def
  by (auto dest!: set_update_subset_insert[THEN subsetD])

lemma cycle_ok_commit:
  assumes ok: "cycle_ok env s" and f: "fill_ok env buy s c r"
    and co: "commit_fill r (cd_sell_idx c) buy s = (buy1, s1)"
  shows "cycle_ok env s1"
proof -
  let ?i = "cd_sell_idx c" and ?a = "mr_match_amount r"
  let ?sell = "cy_sells s ! ?i"
  have i: "?i < length (cy_sells s)" using fill_ok_amount(3)[OF f] .
  note nth = commit_sell_nth[OF co i]
  have bok: "bt_ok (cy_books s)" "\<And>z b. (z, b) \<in> set (cy_books s) \<Longrightarrow> book_ok (cy_sells s) z b"
    and live: "\<And>z b k j. (z, b) \<in> set (cy_books s) \<Longrightarrow> (k, j) \<in> set b \<Longrightarrow>
        min_trade_amount \<le> remaining_amount (cy_sells s ! j) \<and> \<not> is_expired (cy_sells s ! j) (env_now env)"
    using ok by (auto simp: cycle_ok_def books_ok_def)
  have sub: "\<exists>book. (z, book) \<in> set (cy_books s) \<and>
      (b = book \<or> b = bt_remove (sell_key ?sell) book) \<and>
      (remaining_amount ?sell - ?a < min_trade_amount \<longrightarrow> (\<forall>(k, j)\<in>set b. j \<noteq> ?i))"
    if "(z, b) \<in> set (cy_books s1)" for z b
  proof (cases "remaining_amount ?sell - ?a < min_trade_amount")
    case False
    then show ?thesis using that by (auto simp: sells_commit(7)[OF co])
  next
    case True
    then have mem: "(z, b) \<in> set (remove_from_books ?sell (cy_books s))"
      using that by (simp add: sells_commit(7)[OF co])
    show ?thesis
    proof (cases "z = fo_zone_id ?sell")
      case True
      then obtain book where b: "(z, book) \<in> set (cy_books s)" "b = bt_remove (sell_key ?sell) book"
        using mem bok(1) by (auto simp: mem_remove_from_books)
      moreover have "\<forall>(k, j)\<in>set b. j \<noteq> ?i"
        using bok(2)[OF b(1)] b(2) by (auto simp: book_ok_def bt_remove_def)
      ultimately show ?thesis by blast
    next
      case False
      then have "(z, b) \<in> set (cy_books s)" using mem bok(1) by (auto simp: mem_remove_from_books)
      moreover have "\<forall>(k, j)\<in>set b. j \<noteq> ?i"
        using bok(2)[OF calculation] False by (auto simp: book_ok_def)
      ultimately show ?thesis by blast
    qed
  qed
  have "bt_ok (cy_books s1)" using bok(1) by (simp add: sells_commit(7)[OF co] mem_remove_from_books)
  moreover have "book_ok (cy_sells s1) z b" if zb: "(z, b) \<in> set (cy_books s1)" for z b
  proof -
    obtain book where "(z, book) \<in> set (cy_books s)" "b = book \<or> b = bt_remove (sell_key ?sell) book"
      using sub[OF zb] by blast
    then have "book_ok (cy_sells s) z b" using bok(2) book_ok_remove by blast
    then show ?thesis by (rule book_ok_mono) (auto simp: nth)
  qed
  moreover have "min_trade_amount \<le> remaining_amount (cy_sells s1 ! j) \<and>
      \<not> is_expired (cy_sells s1 ! j) (env_now env)"
    if m: "(z, b) \<in> set (cy_books s1)" "(k, j) \<in> set b" for z b k j
  proof -
    obtain book where b: "(z, book) \<in> set (cy_books s)" "b = book \<or> b = bt_remove (sell_key ?sell) book"
      "remaining_amount ?sell - ?a < min_trade_amount \<longrightarrow> (\<forall>(k, j)\<in>set b. j \<noteq> ?i)"
      using sub[OF m(1)] by blast
    have kj: "(k, j) \<in> set book" using b(2) m(2) by (auto simp: bt_remove_def)
    have "j < length (cy_sells s)" using bok(2)[OF b(1)] kj by (auto simp: book_ok_def)
    then show ?thesis
      using live[OF b(1) kj] b(3) m(2) by (auto simp: nth)
  qed
  ultimately show ?thesis
    using asks_ok_commit[OF _ co i] ok by (auto simp: cycle_ok_def books_ok_def)
qed

lemma resting_commit:
  assumes ok: "cycle_ok env s" and rs: "resting env s" and d: "distinct (map fo_id (cy_sells s))"
    and f: "fill_ok env buy s c r" and co: "commit_fill r (cd_sell_idx c) buy s = (buy1, s1)"
  shows "resting env s1"
  unfolding resting_def
proof (intro allI impI)
  let ?i = "cd_sell_idx c" and ?a = "mr_match_amount r"
  let ?sell = "cy_sells s ! ?i"
  have i: "?i < length (cy_sells s)" using fill_ok_amount(3)[OF f] .
  note nth = commit_sell_nth[OF co i]
  have apos: "0 \<le> ?a" using fill_ok_amount(2)[OF f] min_trade_pos by (meson less_imp_le order_trans)
  fix j assume j: "j < length (cy_sells s1)" "min_trade_amount \<le> remaining_amount (cy_sells s1 ! j)"
    "\<not> is_expired (cy_sells s1 ! j) (env_now env)"
  have jl: "j < length (cy_sells s)" using j(1) nth(1) by simp
  have "min_trade_amount \<le> remaining_amount (cy_sells s ! j)" "\<not> is_expired (cy_sells s ! j) (env_now env)"
    using j apos by (auto simp: nth(2)[OF jl] split: if_splits)
  then obtain book where b: "(fo_zone_id (cy_sells s ! j), book) \<in> set (cy_books s)"
    "(sell_key (cy_sells s ! j), j) \<in> set book"
    using rs jl by (auto simp: resting_def)
  have same: "fo_zone_id (cy_sells s1 ! j) = fo_zone_id (cy_sells s ! j)"
    "sell_key (cy_sells s1 ! j) = sell_key (cy_sells s ! j)"
    by (simp_all add: nth(2)[OF jl])
  show "\<exists>book. (fo_zone_id (cy_sells s1 ! j), book) \<in> set (cy_books s1) \<and>
        (sell_key (cy_sells s1 ! j), j) \<in> set book"
  proof (cases "remaining_amount ?sell - ?a < min_trade_amount")
    case False
    then show ?thesis using b by (auto simp: same sells_commit(7)[OF co])
  next
    case True
    have "j \<noteq> ?i" using True j(2) by (auto simp: nth(2)[OF i])
    then have key: "sell_key (cy_sells s ! j) \<noteq> sell_key ?sell"
      using distinct_map_nth_eq[OF d jl i] by (auto simp: sell_key_def)
    have bok: "bt_ok (cy_books s)" using ok by (simp add: cycle_ok_def books_ok_def)
    show ?thesis
    proof (cases "fo_zone_id (cy_sells s ! j) = fo_zone_id ?sell")
      case True
      then show ?thesis
        using b key bok \<open>_ < min_trade_amount\<close>
        by (intro exI[of _ "bt_remove (sell_key ?sell) book"])
          (auto simp: same sells_commit(7)[OF co] mem_remove_from_books bt_remove_def)
    next
      case False
      then show ?thesis
        using b bok \<open>_ < min_trade_amount\<close>
        by (intro exI[of _ book]) (auto simp: same sells_commit(7)[OF co] mem_remove_from_books)
    qed
  qed
qed

section \<open>The drain commits fills\<close>

lemma cand_ok_commit:
  assumes "cand_ok env buy (cy_sells s) c" "commit_fill r i buy s = (buy1, s1)" "i < length (cy_sells s)"
  shows "cand_ok env buy1 (cy_sells s1) c"
proof -
  let ?j = "cd_sell_idx c"
  have j: "?j < length (cy_sells s)" using assms(1) by (simp add: cand_ok_def Let_def)
  note nth = commit_sell_nth(2)[OF assms(2,3) j]
  have "fo_zone_id (cy_sells s1 ! ?j) = fo_zone_id (cy_sells s ! ?j)"
    "fo_price (cy_sells s1 ! ?j) = fo_price (cy_sells s ! ?j)"
    "fo_user_id (cy_sells s1 ! ?j) = fo_user_id (cy_sells s ! ?j)"
    "is_expired (cy_sells s1 ! ?j) (env_now env) = is_expired (cy_sells s ! ?j) (env_now env)"
    by (simp_all add: nth)
  then show ?thesis
    using assms(1) commit_sell_nth(1)[OF assms(2,3)]
    by (auto simp: cand_ok_def Let_def sells_commit(2)[OF assms(2)])
qed

lemma drain_fills:
  assumes "drain env cs buy s = Some (buy', s')" and "\<And>c. c \<in> set cs \<Longrightarrow> cand_ok env buy (cy_sells s) c"
  shows "\<exists>tr. fills env buy s tr buy' s'"
  using assms
proof (induction cs arbitrary: buy s)
  case Nil
  then show ?case by (auto intro: fills_Nil)
next
  case (Cons c cs)
  let ?sell = "cy_sells s ! cd_sell_idx c"
  let ?a = "min (remaining_amount buy) (remaining_amount ?sell)"
  have cok: "cand_ok env buy (cy_sells s) c" using Cons.prems(2) by simp
  consider (finish) "Some (buy, s) = Some (buy', s')"
    | (skip) "drain env cs buy s = Some (buy', s')"
    | (fill) r where "min_trade_amount \<le> remaining_amount buy" "min_trade_amount \<le> remaining_amount ?sell"
        "can_accommodate_flow (env_topo env) (fo_zone_id ?sell) (fo_zone_id buy)
           (flow_at (cy_flow s) (fo_zone_id ?sell, fo_zone_id buy) + ?a)"
        "make_match (env_dec env) (env_meta env) buy ?sell c ?a = Some r"
        "(case commit_fill r (cd_sell_idx c) buy s of (buy1, s1) \<Rightarrow> drain env cs buy1 s1) = Some (buy', s')"
    using Cons.prems(1)
    by (auto simp: Let_def fill_take_def bind_eq_Some_conv split: if_splits)
  then show ?case
  proof cases
    case finish
    then show ?thesis by (auto intro: fills_Nil)
  next
    case skip
    then show ?thesis using Cons.IH Cons.prems(2) by simp
  next
    case (fill r)
    obtain buy1 s1 where co: "commit_fill r (cd_sell_idx c) buy s = (buy1, s1)" by fastforce
    have f: "fill_ok env buy s c r" using fill cok by (simp add: fill_ok_def Let_def)
    have "\<exists>tr. fills env buy1 s1 tr buy' s'"
    proof (rule Cons.IH)
      show "drain env cs buy1 s1 = Some (buy', s')" using fill(5) co by simp
      show "cand_ok env buy1 (cy_sells s1) d" if "d \<in> set cs" for d
        using cand_ok_commit[OF _ co fill_ok_amount(3)[OF f]] Cons.prems(2) that by simp
    qed
    then show ?thesis using fills_Cons[OF f co] by blast
  qed
qed

lemma landed_cand_ok:
  assumes ok: "cycle_ok env s" and env: "env_ok env"
    and c: "c \<in> set (landed_list (env_topo env) (cy_books s) (cy_sells s) buy need (env_mult env))"
  shows "cand_ok env buy (cy_sells s) c"
proof -
  have oks: "books_ok (cy_sells s) (cy_books s)" "asks_ok (cy_sells s)"
    using ok by (auto simp: cycle_ok_def)
  have "c \<in> set (crossing_sells (env_topo env) (cy_books s) (cy_sells s) buy need (env_mult env))"
    using c set_landed_list[OF oks] env by (simp add: env_ok_def)
  then obtain z book k i where m: "(z, book) \<in> set (cy_books s)" "(k, i) \<in> set book"
    "priced_candidate (env_topo env) buy need i (cy_sells s ! i) (fees_of (env_topo env) z (fo_zone_id buy))
       (env_mult env) = Some c"
    unfolding set_crossing_sells[OF oks] by blast
  have "i < length (cy_sells s)" "fo_zone_id (cy_sells s ! i) = z"
    using m(1,2) oks(1) by (auto simp: books_ok_def book_ok_def)
  moreover have "\<not> is_expired (cy_sells s ! i) (env_now env)"
    using m(1,2) ok by (auto simp: cycle_ok_def)
  ultimately show ?thesis using m(3) by (auto simp: priced_candidate_Some cand_ok_def Let_def)
qed

lemma gather_cand_ok:
  assumes "cycle_ok env s" "env_ok env"
    and "gather_candidates (env_topo env) (cy_books s) (cy_sells s) buy need (env_mult env) e = (cs, t)"
    and "c \<in> set cs"
  shows "cand_ok env buy (cy_sells s) c"
proof -
  have "take_enough (avail_at (cy_sells s)) e need 0
      (landed_list (env_topo env) (cy_books s) (cy_sells s) buy need (env_mult env)) = (cs, t)"
    using assms(3) by (simp add: gather_landed)
  from take_enough_prefix[OF this] obtain rest where
    "landed_list (env_topo env) (cy_books s) (cy_sells s) buy need (env_mult env) = cs @ rest" by blast
  then show ?thesis using landed_cand_ok[OF assms(1,2)] assms(4) by (metis UnCI set_append)
qed

lemma cycle_ok_fills: "fills env buy s tr buy' s' \<Longrightarrow> cycle_ok env s \<Longrightarrow> cycle_ok env s'"
  by (induction rule: fills.induct) (auto intro: cycle_ok_commit)

lemma buy_loop_fills:
  assumes "buy_loop env need full buy s = Some (buy', s')" "cycle_ok env s" "env_ok env"
  shows "\<exists>tr. fills env buy s tr buy' s'"
  using assms
proof (induction env need full buy s rule: buy_loop.induct)
  case (1 env need full buy s)
  obtain cs t where g: "gather_candidates (env_topo env) (cy_books s) (cy_sells s) buy need (env_mult env)
      (\<not> full) = (cs, t)" by fastforce
  show ?case
  proof (cases "fok_killed env cs buy s")
    case True
    then show ?thesis using "1.prems"(1) g by (auto simp: buy_loop.simps[of env need full] intro: fills_Nil)
  next
    case False
    then obtain b1 s1 where d: "drain env cs buy s = Some (b1, s1)"
      and rest: "(if full \<or> remaining_amount b1 < min_trade_amount \<or> \<not> t then Some (b1, s1)
                  else buy_loop env need True b1 s1) = Some (buy', s')"
      using "1.prems"(1) g by (auto simp: buy_loop.simps[of env need full] bind_eq_Some_conv)
    obtain tr where tr: "fills env buy s tr b1 s1"
      using drain_fills[OF d] gather_cand_ok[OF "1.prems"(2,3) g] by blast
    show ?thesis
    proof (cases "full \<or> remaining_amount b1 < min_trade_amount \<or> \<not> t")
      case True
      then show ?thesis using rest tr by auto
    next
      case F: False
      then have "buy_loop env need True b1 s1 = Some (buy', s')" using rest by simp
      from "1.IH"[OF g[symmetric] False d refl F this cycle_ok_fills[OF tr "1.prems"(2)] "1.prems"(3)]
      show ?thesis using fills_append[OF tr] by blast
    qed
  qed
qed

lemma match_buy_fills:
  assumes "match_buy env buy s = Some (buy', s')" "cycle_ok env s" "env_ok env"
  shows "\<exists>tr. fills env buy s tr buy' s' \<and> (is_expired buy (env_now env) \<longrightarrow> tr = [])"
proof (cases "remaining_amount buy < min_trade_amount \<or> is_expired buy (env_now env)")
  case True
  then show ?thesis using assms(1) by (auto simp: match_buy_def intro: fills_Nil)
next
  case False
  then show ?thesis using assms buy_loop_fills by (auto simp: match_buy_def)
qed

section \<open>What a sequence of fills does\<close>

lemma fills_effect:
  assumes "fills env buy s tr buy' s'"
  shows "cy_results s' = cy_results s @ map snd tr" and "buy' = add_fill (amounts (map snd tr)) buy"
    and "cy_created s' = cy_created s + length tr" and "cy_volume s' = cy_volume s + amounts (map snd tr)"
    and "length (cy_sells s') = length (cy_sells s)"
    and "0 \<le> remaining_amount buy \<Longrightarrow> 0 \<le> remaining_amount buy'"
  using assms
proof (induction rule: fills.induct)
  case (fills_Cons buy s c r buy1 s1 tr buy2 s2)
  case 1 show ?case using fills_Cons by (simp add: sells_commit(3)[OF fills_Cons(2)])
  case 2 show ?case using fills_Cons by (simp add: sells_commit(2)[OF fills_Cons(2)])
  case 3 show ?case using fills_Cons by (simp add: sells_commit(4)[OF fills_Cons(2)])
  case 4 show ?case using fills_Cons by (simp add: sells_commit(5)[OF fills_Cons(2)])
  case 5 show ?case using fills_Cons by (simp add: sells_commit(1)[OF fills_Cons(2)])
  case 6 show ?case
    using fills_Cons(9) fill_ok_amount(4)[OF fills_Cons(1)] by (simp add: sells_commit(2)[OF fills_Cons(2)])
qed simp_all

text \<open>Each sell is filled by the fills with its index, and never beyond its energy.\<close>

definition idx_fills :: "nat \<Rightarrow> (candidate \<times> match_result) list \<Rightarrow> match_result list" where
  "idx_fills j tr = map snd (filter (\<lambda>(c, r). cd_sell_idx c = j) tr)"

lemma idx_fills_simps [simp]:
  "idx_fills j [] = []"
  "idx_fills j ((c, r) # tr) = (if cd_sell_idx c = j then r # idx_fills j tr else idx_fills j tr)"
  by (simp_all add: idx_fills_def)

lemma fills_sell:
  assumes "fills env buy s tr buy' s'" and "j < length (cy_sells s)"
  shows "cy_sells s' ! j = add_fill (amounts (idx_fills j tr)) (cy_sells s ! j)"
    and "0 \<le> remaining_amount (cy_sells s ! j) \<Longrightarrow> 0 \<le> remaining_amount (cy_sells s' ! j)"
  using assms
proof (induction rule: fills.induct)
  case (fills_Cons buy s c r buy1 s1 tr buy2 s2)
  note i = fill_ok_amount(3)[OF fills_Cons(1)]
  note nth = commit_sell_nth[OF fills_Cons(2) i]
  case 1 show ?case using fills_Cons(4) 1 by (simp add: nth)
  case 2 show ?case
    using fills_Cons(5) 2 fill_ok_amount(5)[OF fills_Cons(1)] by (auto simp: nth)
qed simp_all

text \<open>A fill exhausts the buy or the sell, so no sell is filled twice for one buy.\<close>

lemma fill_exhausts:
  assumes "fill_ok env buy s c r" "commit_fill r (cd_sell_idx c) buy s = (buy1, s1)"
  shows "remaining_amount buy1 = 0 \<or> remaining_amount (cy_sells s1 ! cd_sell_idx c) = 0"
  using fill_ok_amount(1,3)[OF assms(1)] commit_sell_nth(2)[OF assms(2) fill_ok_amount(3)[OF assms(1)]]
    sells_commit(2)[OF assms(2)]
  by (auto simp: min_def)

lemma fills_skip_depleted:
  assumes "fills env buy s tr buy' s'" and "j < length (cy_sells s)"
    and "remaining_amount (cy_sells s ! j) < min_trade_amount"
  shows "j \<notin> set (map (\<lambda>(c, r). cd_sell_idx c) tr)"
  using assms
proof (induction rule: fills.induct)
  case (fills_Nil buy s)
  then show ?case by simp
next
  case (fills_Cons buy s c r buy1 s1 tr buy2 s2)
  note i = fill_ok_amount(3)[OF fills_Cons(1)]
  have "cd_sell_idx c \<noteq> j" using fills_Cons by (auto simp: fill_ok_def Let_def)
  then show ?case using fills_Cons commit_sell_nth[OF fills_Cons(2) i] by simp
qed

lemma fills_need_nonempty: "fills env buy s (x # tr) buy' s' \<Longrightarrow> min_trade_amount \<le> remaining_amount buy"
  by (erule fills_ConsE) (auto simp: fill_ok_def Let_def)

lemma fills_distinct: "fills env buy s tr buy' s' \<Longrightarrow> distinct (map (\<lambda>(c, r). cd_sell_idx c) tr)"
proof (induction rule: fills.induct)
  case (fills_Nil buy s)
  then show ?case by simp
next
  case (fills_Cons buy s c r buy1 s1 tr buy2 s2)
  note i = fill_ok_amount(3)[OF fills_Cons(1)]
  from fill_exhausts[OF fills_Cons(1,2)] have "cd_sell_idx c \<notin> set (map (\<lambda>(c, r). cd_sell_idx c) tr)"
  proof
    assume "remaining_amount buy1 = 0"
    then have "tr = []"
      using fills_need_nonempty[of env buy1 s1 _ _ buy2 s2] fills_Cons(3) min_trade_pos
      by (cases tr) (auto simp: not_less[symmetric] simp del: min_trade_pos)
    then show ?thesis by simp
  next
    assume "remaining_amount (cy_sells s1 ! cd_sell_idx c) = 0"
    then show ?thesis
      using fills_skip_depleted[OF fills_Cons(3)] i commit_sell_nth(1)[OF fills_Cons(2) i] by simp
  qed
  then show ?case using fills_Cons.IH by simp
qed

end
