(* ===== verification/Engine_Clearing.thy ===== *)
theory Engine_Clearing imports Engine_Trace begin

text \<open>
  How a drain ends: the fill-or-kill simulation predicts it, it panics only on malformed input,
  and on a grid that never refuses it leaves no crossing sell behind, so stopping the scan early
  changes nothing.
\<close>

section \<open>Fill or kill\<close>

lemma fok_need_cong:
  "(\<And>c. c \<in> set cs \<Longrightarrow> sells ! cd_sell_idx c = sells' ! cd_sell_idx c) \<Longrightarrow>
     fok_need topo sells z cs flow need = fok_need topo sells' z cs flow need"
proof (induction cs arbitrary: flow need)
  case Nil
  then show ?case by simp
next
  case (Cons c cs)
  have IH: "fok_need topo sells z cs flow need = fok_need topo sells' z cs flow need" for flow need
    using Cons by simp
  have "sells ! cd_sell_idx c = sells' ! cd_sell_idx c" using Cons.prems by simp
  then show ?case by (simp only: fok_need.simps IH)
qed

lemma drain_stop: "remaining_amount buy < min_trade_amount \<Longrightarrow> drain env cs buy s = Some (buy, s)"
  by (cases cs) simp_all

lemma drain_predicted:
  assumes "drain env cs buy s = Some (buy', s')" and "distinct (map cd_sell_idx cs)"
    and "\<And>c. c \<in> set cs \<Longrightarrow> cd_sell_idx c < length (cy_sells s)" and "min_trade_amount \<le> remaining_amount buy"
  shows "remaining_amount buy' =
    fok_need (env_topo env) (cy_sells s) (fo_zone_id buy) cs (cy_flow s) (remaining_amount buy)"
  using assms
proof (induction cs arbitrary: buy s)
  case Nil
  then show ?case by simp
next
  case (Cons c cs)
  let ?sell = "cy_sells s ! cd_sell_idx c"
  let ?a = "min (remaining_amount buy) (remaining_amount ?sell)"
  let ?l = "(fo_zone_id ?sell, fo_zone_id buy)"
  have i: "cd_sell_idx c < length (cy_sells s)" using Cons.prems(3) by simp
  show ?case
  proof (cases "remaining_amount ?sell < min_trade_amount \<or>
      \<not> can_accommodate_flow (env_topo env) (fo_zone_id ?sell) (fo_zone_id buy) (flow_at (cy_flow s) ?l + ?a)")
    case True
    then have "drain env cs buy s = Some (buy', s')"
      using Cons.prems(1,4) by (auto simp: fill_take_def Let_def split: if_splits)
    then show ?thesis using Cons.IH[of buy s] Cons.prems True by (auto simp: fill_take_def Let_def)
  next
    case False
    then obtain r where r: "make_match (env_dec env) (env_meta env) buy ?sell c ?a = Some r"
      and d: "(case commit_fill r (cd_sell_idx c) buy s of (b, t) \<Rightarrow> drain env cs b t) = Some (buy', s')"
      using Cons.prems(1,4) by (auto simp: fill_take_def Let_def bind_eq_Some_conv split: if_splits)
    obtain b1 s1 where co: "commit_fill r (cd_sell_idx c) buy s = (b1, s1)" by fastforce
    have a: "mr_match_amount r = ?a" by (rule make_match_fields(3)[OF r])
    have b1: "remaining_amount b1 = remaining_amount buy - ?a" "fo_zone_id b1 = fo_zone_id buy"
      by (simp_all add: sells_commit(2)[OF co] a)
    have d1: "drain env cs b1 s1 = Some (buy', s')" using d co by simp
    have same: "cy_sells s ! cd_sell_idx e = cy_sells s1 ! cd_sell_idx e" if "e \<in> set cs" for e
    proof -
      have "cd_sell_idx e \<noteq> cd_sell_idx c" using Cons.prems(2) imageI[OF that, of cd_sell_idx] by auto
      moreover have "cd_sell_idx e < length (cy_sells s)" using Cons.prems(3) that by simp
      ultimately show ?thesis by (simp add: commit_sell_nth(2)[OF co i])
    qed
    have flow: "cy_flow s1 = add_flow ?l ?a (cy_flow s)" by (simp add: sells_commit(6)[OF co] a)
    show ?thesis
    proof (cases "remaining_amount b1 < min_trade_amount")
      case True
      then have "buy' = b1" using d1 by (simp add: drain_stop)
      then show ?thesis using True False b1 by (simp add: fill_take_def Let_def)
    next
      case F: False
      have "remaining_amount buy' = fok_need (env_topo env) (cy_sells s1) (fo_zone_id b1) cs (cy_flow s1) (remaining_amount b1)"
        using Cons.IH[OF d1] Cons.prems(2,3) F commit_sell_nth(1)[OF co i] by simp
      also have "\<dots> = fok_need (env_topo env) (cy_sells s) (fo_zone_id buy) cs (add_flow ?l ?a (cy_flow s)) (remaining_amount buy - ?a)"
        using fok_need_cong[of cs "cy_sells s1" "cy_sells s"] same by (simp add: b1 flow)
      finally show ?thesis using F False b1 by (simp add: fill_take_def Let_def)
    qed
  qed
qed

lemma landed_idx:
  assumes "cycle_ok env s" "env_ok env"
  shows "distinct (map cd_sell_idx (landed_list (env_topo env) (cy_books s) (cy_sells s) buy need (env_mult env)))"
    and "c \<in> set (landed_list (env_topo env) (cy_books s) (cy_sells s) buy need (env_mult env)) \<Longrightarrow>
         cd_sell_idx c < length (cy_sells s)"
  using assms distinct_landed landed_cand_ok[OF assms]
  by (auto simp: cycle_ok_def env_ok_def cand_ok_def Let_def)

lemma full_gather:
  "gather_candidates topo books sells buy need m False = (landed_list topo books sells buy need m, False)"
  by (simp add: gather_landed)

lemma match_buy_fok:
  assumes "match_buy env buy s = Some (buy', s')" "cycle_ok env s" "env_ok env"
    and "fo_time_in_force buy = Fok" "0 \<le> remaining_amount buy"
  shows "buy' = buy \<and> s' = s \<or> remaining_amount buy' = 0"
proof (cases "remaining_amount buy < min_trade_amount \<or> is_expired buy (env_now env)")
  case True
  then show ?thesis using assms(1) by (simp add: match_buy_def)
next
  case False
  let ?L = "landed_list (env_topo env) (cy_books s) (cy_sells s) buy (remaining_amount buy) (env_mult env)"
  have b: "buy_loop env (remaining_amount buy) True buy s = Some (buy', s')"
    using assms(1,4) False by (simp add: match_buy_def)
  show ?thesis
  proof (cases "fok_killed env ?L buy s")
    case True
    then show ?thesis using b by (simp add: buy_loop.simps full_gather)
  next
    case F: False
    then have d: "drain env ?L buy s = Some (buy', s')"
      using b by (auto simp: buy_loop.simps full_gather bind_eq_Some_conv)
    have "remaining_amount buy' = fok_need (env_topo env) (cy_sells s) (fo_zone_id buy) ?L (cy_flow s) (remaining_amount buy)"
      using drain_predicted[OF d landed_idx(1)[OF assms(2,3)] landed_idx(2)[OF assms(2,3)]] False by simp
    then have "remaining_amount buy' \<le> 0" using F assms(4) by (simp add: fok_killed_def)
    moreover have "0 \<le> remaining_amount buy'"
      using match_buy_fills[OF assms(1-3)] fills_effect(6) assms(5) by blast
    ultimately show ?thesis by simp
  qed
qed

section \<open>Totality\<close>

text \<open>What keeps every multiplication of a match within range.\<close>

definition sized :: "cycle_env \<Rightarrow> fast_order \<Rightarrow> bool" where
  "sized env buy \<longleftrightarrow> fo_metadata_index buy < length (env_meta env) \<and> remaining_amount buy \<le> 10 ^ 18"

definition env_total :: "cycle_env \<Rightarrow> bool" where
  "env_total env \<longleftrightarrow> dec_laws (env_dec env) \<and> (\<forall>a b. fp_ok (calculate_wheeling_charge (env_topo env) a b))"

lemma fp_dmul_total:
  assumes "dec_laws D" "0 \<le> a" "a \<le> 10 ^ 18" "fp_ok p"
  shows "\<exists>z. dmul D a (fp_to_decimal p) = Some z"
proof -
  have "\<bar>raw p\<bar> \<le> 9223372036854775808" using assms(4) by (auto simp: fp_ok_def i64_ok_def i64_min_def i64_max_def)
  then have "(of_int \<bar>raw p\<bar> :: rat) \<le> of_int 9223372036854775808" unfolding of_int_le_iff .
  then have "\<bar>fp_to_decimal p\<bar> \<le> 9223372037" by (simp add: fp_to_decimal_def fp_scale_def)
  then have "\<bar>a\<bar> * \<bar>fp_to_decimal p\<bar> \<le> 10 ^ 18 * 9223372037"
    using assms(2,3) by (intro mult_mono) simp_all
  then have "\<bar>a * fp_to_decimal p\<bar> \<le> dec_max" by (simp add: abs_mult dec_max_def)
  then show ?thesis by (rule dmul_total[OF assms(1)])
qed

lemma make_match_total:
  assumes "cand_ok env buy sells c" "env_total env" "sized env buy" "0 \<le> a" "a \<le> remaining_amount buy"
  shows "\<exists>r. make_match (env_dec env) (env_meta env) buy (sells ! cd_sell_idx c) c a = Some r"
proof -
  let ?p = "fo_price (sells ! cd_sell_idx c)"
  let ?f = "fees_of (env_topo env) (fo_zone_id (sells ! cd_sell_idx c)) (fo_zone_id buy)"
  have a: "a \<le> 10 ^ 18" using assms(3,5) by (simp add: sized_def)
  have c: "cd_landed c = landed_cost ?p ?f (env_mult env)" "cd_wheeling c = floored_wheeling ?f"
    "cd_loss_cost c = fp_from_raw (loss_cost_extra ?p ?f)"
    using assms(1) by (simp_all add: cand_ok_def Let_def)
  have "fp_ok (cd_landed c)" "fp_ok (cd_wheeling c)" "fp_ok (cd_loss_cost c)"
    using assms(2) landed_cost_ok
    by (auto simp: c env_total_def fees_of_def floored_wheeling_def fp_from_raw_def fp_ok_def i64_ok_def
        i64_min_def i64_max_def loss_cost_extra_def Let_def
        intro: i64_ok_try_from_or_max[unfolded i64_ok_def i64_min_def i64_max_def, THEN conjunct1]
          i64_ok_try_from_or_max[unfolded i64_ok_def i64_max_def, THEN conjunct2])
  then obtain x y z where "dmul (env_dec env) a (fp_to_decimal (cd_landed c)) = Some x"
    "dmul (env_dec env) a (fp_to_decimal (cd_wheeling c)) = Some y"
    "dmul (env_dec env) a (fp_to_decimal (cd_loss_cost c)) = Some z"
    using fp_dmul_total[OF _ assms(4) a] assms(2) unfolding env_total_def by metis
  then show ?thesis using assms(3) by (simp add: make_match_def sized_def)
qed

lemma drain_total:
  assumes "env_total env" "sized env buy" "\<And>c. c \<in> set cs \<Longrightarrow> cand_ok env buy (cy_sells s) c"
  shows "drain env cs buy s \<noteq> None"
  using assms(2,3)
proof (induction cs arbitrary: buy s)
  case Nil
  then show ?case by simp
next
  case (Cons c cs)
  let ?sell = "cy_sells s ! cd_sell_idx c"
  let ?a = "min (remaining_amount buy) (remaining_amount ?sell)"
  have cok: "cand_ok env buy (cy_sells s) c" using Cons.prems(2) by simp
  have skip: "drain env cs buy s \<noteq> None" using Cons by simp
  show ?case
  proof (cases "remaining_amount buy < min_trade_amount \<or> remaining_amount ?sell < min_trade_amount \<or>
      \<not> can_accommodate_flow (env_topo env) (fo_zone_id ?sell) (fo_zone_id buy)
          (flow_at (cy_flow s) (fo_zone_id ?sell, fo_zone_id buy) + ?a)")
    case True
    then show ?thesis using skip by (auto simp: fill_take_def Let_def)
  next
    case False
    then have "min_trade_amount \<le> ?a" by auto
    then have pos: "0 \<le> ?a" using min_trade_pos by linarith
    obtain r where r: "make_match (env_dec env) (env_meta env) buy ?sell c ?a = Some r"
      using make_match_total[OF cok assms(1) Cons.prems(1) pos] by auto
    obtain b1 s1 where co: "commit_fill r (cd_sell_idx c) buy s = (b1, s1)" by fastforce
    have i: "cd_sell_idx c < length (cy_sells s)" using cok by (simp add: cand_ok_def Let_def)
    have "remaining_amount b1 = remaining_amount buy - ?a"
      by (simp add: sells_commit(2)[OF co] make_match_fields(3)[OF r])
    then have "remaining_amount b1 \<le> remaining_amount buy" using pos by linarith
    then have "sized env b1"
      using Cons.prems(1) by (auto simp: sized_def sells_commit(2)[OF co])
    then have "drain env cs b1 s1 \<noteq> None"
      using Cons.IH[of b1 s1] cand_ok_commit[OF _ co i] Cons.prems(2) by simp
    then show ?thesis using False r co by (simp add: fill_take_def Let_def)
  qed
qed

lemma sized_fills: "fills env buy s tr buy' s' \<Longrightarrow> sized env buy \<Longrightarrow> sized env buy'"
proof (induction rule: fills.induct)
  case (fills_Cons buy s c r buy1 s1 tr buy2 s2)
  have "0 \<le> mr_match_amount r"
    using fill_ok_amount(2)[OF fills_Cons(1)] min_trade_pos by (meson less_imp_le order_trans)
  then have "sized env buy1" using fills_Cons.prems by (simp add: sized_def sells_commit(2)[OF fills_Cons(2)])
  then show ?case by (rule fills_Cons.IH)
qed simp

lemma buy_loop_total:
  assumes "env_total env" "env_ok env" "cycle_ok env s" "sized env buy"
  shows "buy_loop env need full buy s \<noteq> None"
  using assms
proof (induction env need full buy s rule: buy_loop.induct)
  case (1 env need full buy s)
  obtain cs t where g: "gather_candidates (env_topo env) (cy_books s) (cy_sells s) buy need (env_mult env)
      (\<not> full) = (cs, t)" by fastforce
  note cok = gather_cand_ok[OF "1.prems"(3,2) g]
  obtain b1 s1 where d: "drain env cs buy s = Some (b1, s1)"
    using drain_total[OF "1.prems"(1,4), of cs s] cok by auto
  obtain tr where tr: "fills env buy s tr b1 s1" using drain_fills[OF d cok] by blast
  show ?case
  proof (cases "fok_killed env cs buy s \<or> full \<or> remaining_amount b1 < min_trade_amount \<or> \<not> t")
    case True
    then show ?thesis using g d by (auto simp: buy_loop.simps[of env need full])
  next
    case False
    then have "buy_loop env need True b1 s1 \<noteq> None"
      using "1.IH"[OF g[symmetric] _ d refl] "1.prems"(1,2) cycle_ok_fills[OF tr "1.prems"(3)]
        sized_fills[OF tr "1.prems"(4)] by simp
    then show ?thesis
      unfolding buy_loop.simps[of env need full buy s] using g d False by simp
  qed
qed

lemma match_buys_total:
  assumes "env_total env" "env_ok env" "cycle_ok env s" "\<forall>b\<in>set buys. sized env b"
  shows "match_buys env buys s \<noteq> None"
  using assms(3,4)
proof (induction buys arbitrary: s)
  case Nil
  then show ?case by simp
next
  case (Cons b bs)
  have "match_buy env b s \<noteq> None"
    using buy_loop_total[OF assms(1,2) Cons.prems(1)] Cons.prems(2) by (simp add: match_buy_def)
  then obtain b1 s1 where m: "match_buy env b s = Some (b1, s1)" by auto
  then have "match_buys env bs s1 \<noteq> None"
    using Cons.IH[of s1] Cons.prems match_buy_fills[OF m Cons.prems(1) assms(2)] cycle_ok_fills by auto
  then show ?case using m by auto
qed

section \<open>A grid that never refuses\<close>

definition free_grid :: "topology \<Rightarrow> bool" where
  "free_grid topo \<longleftrightarrow> (\<forall>a b x. can_accommodate_flow topo a b x)"

lemma drain_append:
  "drain env (cs @ ds) buy s = Option.bind (drain env cs buy s) (\<lambda>(b, t). drain env ds b t)"
proof (induction cs arbitrary: buy s)
  case Nil
  then show ?case by simp
next
  case (Cons c cs)
  show ?case
  proof (cases "remaining_amount buy < min_trade_amount")
    case True
    then show ?thesis by (simp add: drain_stop)
  next
    case False
    let ?sell = "cy_sells s ! cd_sell_idx c"
    show ?thesis
    proof (cases "fill_take (remaining_amount buy) (remaining_amount ?sell)")
      case None
      then show ?thesis using False Cons.IH by (simp add: Let_def del: fill_take_None)
    next
      case (Some a)
      show ?thesis
        using False Some Cons.IH
        by (cases "make_match (env_dec env) (env_meta env) buy ?sell c a")
          (auto simp: Let_def split: prod.splits)
    qed
  qed
qed

text \<open>With every flow accepted, a drain that leaves a tradeable need has emptied every candidate.\<close>

lemma drain_free:
  assumes "drain env cs buy s = Some (buy', s')" and "free_grid (env_topo env)"
    and "distinct (map cd_sell_idx cs)"
    and "\<And>c. c \<in> set cs \<Longrightarrow> cand_ok env buy (cy_sells s) c \<and> min_trade_amount \<le> avail_at (cy_sells s) c"
    and "min_trade_amount \<le> remaining_amount buy'"
  shows "remaining_amount buy' = remaining_amount buy - sum_list (map (avail_at (cy_sells s)) cs)"
    and "\<And>c. c \<in> set cs \<Longrightarrow> remaining_amount (cy_sells s' ! cd_sell_idx c) \<le> 0"
proof -
  have "remaining_amount buy' = remaining_amount buy - sum_list (map (avail_at (cy_sells s)) cs) \<and>
      (\<forall>c\<in>set cs. remaining_amount (cy_sells s' ! cd_sell_idx c) \<le> 0)"
    using assms(1,3,4)
  proof (induction cs arbitrary: buy s)
    case Nil
    then show ?case by simp
  next
    case (Cons c cs)
    let ?i = "cd_sell_idx c"
    let ?sell = "cy_sells s ! ?i"
    let ?a = "min (remaining_amount buy) (remaining_amount ?sell)"
    have cok: "cand_ok env buy (cy_sells s) c" "min_trade_amount \<le> remaining_amount ?sell"
      using Cons.prems(3)[of c] by (simp_all add: avail_at_def)
    then have i: "?i < length (cy_sells s)" by (simp add: cand_ok_def Let_def)
    have nd: "\<not> remaining_amount buy < min_trade_amount"
      using Cons.prems(1) assms(5) by (auto simp: drain_stop)
    then obtain r where r: "make_match (env_dec env) (env_meta env) buy ?sell c ?a = Some r"
      and d: "(case commit_fill r ?i buy s of (b, t) \<Rightarrow> drain env cs b t) = Some (buy', s')"
      using Cons.prems(1) cok(2) assms(2)
      by (auto simp: fill_take_def Let_def bind_eq_Some_conv free_grid_def split: if_splits)
    obtain b1 s1 where co: "commit_fill r ?i buy s = (b1, s1)" by fastforce
    have a: "mr_match_amount r = ?a" by (rule make_match_fields(3)[OF r])
    have d1: "drain env cs b1 s1 = Some (buy', s')" using d co by simp
    have b1: "remaining_amount b1 = remaining_amount buy - ?a" by (simp add: sells_commit(2)[OF co] a)
    have "\<not> remaining_amount b1 < min_trade_amount"
      using d1 assms(5) by (auto simp: drain_stop)
    then have whole: "?a = remaining_amount ?sell" using b1 min_trade_pos by (auto simp: min_def split: if_splits)
    have other: "cd_sell_idx e \<noteq> ?i" if "e \<in> set cs" for e
      using Cons.prems(2) imageI[OF that, of cd_sell_idx] by auto
    have avail: "avail_at (cy_sells s1) e = avail_at (cy_sells s) e" if "e \<in> set cs" for e
      using other[OF that] Cons.prems(3)[of e] that
      by (simp add: avail_at_def commit_sell_nth(2)[OF co i] cand_ok_def Let_def)
    have IH: "remaining_amount buy' = remaining_amount b1 - sum_list (map (avail_at (cy_sells s1)) cs)"
      "\<forall>e\<in>set cs. remaining_amount (cy_sells s' ! cd_sell_idx e) \<le> 0"
      using Cons.IH[OF d1] Cons.prems(2,3) cand_ok_commit[OF _ co i] avail by simp_all
    have "map (avail_at (cy_sells s1)) cs = map (avail_at (cy_sells s)) cs"
      using avail by (rule map_cong[OF refl])
    then have "remaining_amount buy' = remaining_amount b1 - sum_list (map (avail_at (cy_sells s)) cs)"
      using IH(1) by (simp only:)
    then have "remaining_amount buy' = remaining_amount buy - sum_list (map (avail_at (cy_sells s)) (c # cs))"
      using b1 whole by (simp add: avail_at_def[of _ c])
    moreover have "remaining_amount (cy_sells s' ! ?i) \<le> 0"
    proof -
      obtain tr where tr: "fills env b1 s1 tr buy' s'"
        using drain_fills[OF d1] cand_ok_commit[OF _ co i] Cons.prems(3) by auto
      have "remaining_amount (cy_sells s1 ! ?i) = 0"
        using whole by (simp add: commit_sell_nth(2)[OF co i i] a)
      moreover have "?i \<notin> set (map (\<lambda>(c, r). cd_sell_idx c) tr)"
        using fills_skip_depleted[OF tr, of ?i] i calculation commit_sell_nth(1)[OF co i] by simp
      then have "filter (\<lambda>(c, r). cd_sell_idx c = ?i) tr = []" by (force simp: filter_empty_conv)
      then have "idx_fills ?i tr = []" by (simp add: idx_fills_def)
      ultimately show ?thesis
        using fills_sell(1)[OF tr, of ?i] i commit_sell_nth(1)[OF co i] by simp
    qed
    ultimately show ?case using IH(2) by simp
  qed
  then show "remaining_amount buy' = remaining_amount buy - sum_list (map (avail_at (cy_sells s)) cs)"
    "\<And>c. c \<in> set cs \<Longrightarrow> remaining_amount (cy_sells s' ! cd_sell_idx c) \<le> 0"
    by auto
qed

lemma landed_avail:
  assumes "cycle_ok env s" "env_ok env"
    and "c \<in> set (landed_list (env_topo env) (cy_books s) (cy_sells s) buy need (env_mult env))"
  shows "min_trade_amount \<le> avail_at (cy_sells s) c"
proof -
  have oks: "books_ok (cy_sells s) (cy_books s)" "asks_ok (cy_sells s)" using assms(1) by (auto simp: cycle_ok_def)
  have "c \<in> set (crossing_sells (env_topo env) (cy_books s) (cy_sells s) buy need (env_mult env))"
    using assms(2,3) set_landed_list[OF oks] by (simp add: env_ok_def)
  then obtain z book k i where "(z, book) \<in> set (cy_books s)" "(k, i) \<in> set book" "cd_sell_idx c = i"
    unfolding set_crossing_sells[OF oks] by (auto simp: priced_candidate_Some)
  then show ?thesis using assms(1) by (auto simp: cycle_ok_def avail_at_def)
qed

text \<open>The early stop is an optimisation: on a free grid the result is that of the full scan.\<close>

lemma buy_loop_lazy:
  assumes "cycle_ok env s" "env_ok env" "free_grid (env_topo env)" "fo_time_in_force buy \<noteq> Fok"
  shows "buy_loop env (remaining_amount buy) False buy s = buy_loop env (remaining_amount buy) True buy s"
proof -
  let ?L = "landed_list (env_topo env) (cy_books s) (cy_sells s) buy (remaining_amount buy) (env_mult env)"
  obtain cs t where te: "take_enough (avail_at (cy_sells s)) True (remaining_amount buy) 0 ?L = (cs, t)" by fastforce
  then obtain rest where L: "?L = cs @ rest" "\<not> t \<longrightarrow> rest = []" using take_enough_prefix by blast
  have nk: "\<not> fok_killed env ds buy s" for ds using assms(4) by (simp add: fok_killed_def)
  have full: "buy_loop env (remaining_amount buy) True buy s = drain env ?L buy s"
    unfolding buy_loop.simps[of env _ True buy s] by (simp add: full_gather nk)
  have early: "buy_loop env (remaining_amount buy) False buy s =
      Option.bind (drain env cs buy s) (\<lambda>(b, u).
        if remaining_amount b < min_trade_amount \<or> \<not> t then Some (b, u)
        else buy_loop env (remaining_amount buy) True b u)"
    unfolding buy_loop.simps[of env _ False buy s] by (simp add: gather_landed te nk)
  show ?thesis
  proof (cases "drain env cs buy s")
    case None
    then show ?thesis unfolding full early L(1) by (simp add: drain_append)
  next
    case (Some p)
    obtain b u where p: "p = (b, u)" by (cases p)
    have "remaining_amount b < min_trade_amount" if t
    proof (rule ccontr)
      assume n: "\<not> remaining_amount b < min_trade_amount"
      have "remaining_amount b = remaining_amount buy - sum_list (map (avail_at (cy_sells s)) cs)"
      proof (rule drain_free(1)[OF Some[unfolded p] assms(3)])
        show "distinct (map cd_sell_idx cs)" using landed_idx(1)[OF assms(1,2), of buy "remaining_amount buy"] L(1) by simp
        show "cand_ok env buy (cy_sells s) c \<and> min_trade_amount \<le> avail_at (cy_sells s) c" if "c \<in> set cs" for c
          using that L(1) landed_cand_ok[OF assms(1,2)] landed_avail[OF assms(1,2)] by (metis UnCI set_append)
        show "min_trade_amount \<le> remaining_amount b" using n by simp
      qed
      moreover have "remaining_amount buy \<le> sum_list (map (avail_at (cy_sells s)) cs)"
        using take_enough_covers[of "avail_at (cy_sells s)" True "remaining_amount buy" 0 ?L cs] te that by simp
      ultimately show False using n min_trade_pos by simp
    qed
    then show ?thesis
      unfolding full early L(1) using Some p L(2) by (cases t) (auto simp: drain_append drain_stop)
  qed
qed

section \<open>Nothing crossing is left\<close>

text \<open>The pair would trade at a price both sides accept.\<close>

definition crosses :: "cycle_env \<Rightarrow> fast_order \<Rightarrow> fast_order \<Rightarrow> bool" where
  "crosses env buy sell \<longleftrightarrow>
     fo_user_id buy \<noteq> fo_user_id sell \<and> fo_price sell \<le> fo_price buy \<and>
     landed_cost (fo_price sell) (fees_of (env_topo env) (fo_zone_id sell) (fo_zone_id buy)) (env_mult env)
       \<le> fo_price buy"

definition cleared :: "cycle_env \<Rightarrow> fast_order \<Rightarrow> cycle_state \<Rightarrow> bool" where
  "cleared env buy s \<longleftrightarrow>
     (\<forall>sell\<in>set (cy_sells s). min_trade_amount \<le> remaining_amount sell \<longrightarrow>
        \<not> is_expired sell (env_now env) \<longrightarrow> \<not> crosses env buy sell)"

lemma crosses_add_fill [simp]:
  "crosses env (add_fill a buy) sell = crosses env buy sell"
  "crosses env buy (add_fill a sell) = crosses env buy sell"
  by (simp_all add: crosses_def)

lemma crossing_in_list:
  assumes "cycle_ok env s" "env_ok env" "resting env s" "free_grid (env_topo env)"
    and "i < length (cy_sells s)" "min_trade_amount \<le> remaining_amount (cy_sells s ! i)"
      "\<not> is_expired (cy_sells s ! i) (env_now env)" "crosses env buy (cy_sells s ! i)"
  shows "\<exists>c\<in>set (landed_list (env_topo env) (cy_books s) (cy_sells s) buy need (env_mult env)). cd_sell_idx c = i"
proof -
  let ?sell = "cy_sells s ! i"
  have oks: "books_ok (cy_sells s) (cy_books s)" "asks_ok (cy_sells s)" using assms(1) by (auto simp: cycle_ok_def)
  obtain book where b: "(fo_zone_id ?sell, book) \<in> set (cy_books s)" "(sell_key ?sell, i) \<in> set book"
    using assms(3,5-7) by (auto simp: resting_def)
  obtain c where c: "priced_candidate (env_topo env) buy need i ?sell
      (fees_of (env_topo env) (fo_zone_id ?sell) (fo_zone_id buy)) (env_mult env) = Some c"
    using assms(4,8) by (auto simp: priced_candidate_Some crosses_def free_grid_def)
  have "c \<in> set (crossing_sells (env_topo env) (cy_books s) (cy_sells s) buy need (env_mult env))"
    unfolding set_crossing_sells[OF oks] using b c assms(4) unfolding free_grid_def by blast
  then have "c \<in> set (landed_list (env_topo env) (cy_books s) (cy_sells s) buy need (env_mult env))"
    using assms(2) set_landed_list[OF oks] by (simp add: env_ok_def)
  moreover have "cd_sell_idx c = i" using c by (simp add: priced_candidate_Some)
  ultimately show ?thesis by blast
qed

lemma idx_fills_nonneg: "fills env b s tr b' s' \<Longrightarrow> 0 \<le> amounts (idx_fills j tr)"
proof (induction rule: fills.induct)
  case (fills_Cons buy s c r buy1 s1 tr buy2 s2)
  have "0 \<le> mr_match_amount r"
    using fill_ok_amount(2)[OF fills_Cons(1)] min_trade_pos by (meson less_imp_le order_trans)
  then show ?case using fills_Cons.IH by simp
qed simp

lemma cleared_fills:
  assumes "fills env b s tr b' s'" "cleared env buy s"
  shows "cleared env buy s'"
  unfolding cleared_def
proof (intro ballI impI)
  fix sell assume sell: "sell \<in> set (cy_sells s')" "min_trade_amount \<le> remaining_amount sell"
    "\<not> is_expired sell (env_now env)"
  then obtain j where j: "j < length (cy_sells s)" "sell = cy_sells s' ! j"
    using fills_effect(5)[OF assms(1)] by (auto simp: in_set_conv_nth)
  have "0 \<le> amounts (idx_fills j tr)" by (rule idx_fills_nonneg[OF assms(1)])
  then show "\<not> crosses env buy sell"
    using sell assms(2) nth_mem[OF j(1)] fills_sell(1)[OF assms(1) j(1)] j(2)
    by (fastforce simp: cleared_def)
qed

lemma match_buy_clears:
  assumes m: "match_buy env buy s = Some (buy', s')" and "cycle_ok env s" "env_ok env" "resting env s"
    and "free_grid (env_topo env)" "fo_time_in_force buy \<noteq> Fok" "\<not> is_expired buy (env_now env)"
    and "min_trade_amount \<le> remaining_amount buy'"
  shows "cleared env buy s'"
proof -
  let ?L = "landed_list (env_topo env) (cy_books s) (cy_sells s) buy (remaining_amount buy) (env_mult env)"
  have big: "\<not> remaining_amount buy < min_trade_amount"
    using m assms(8) by (auto simp: match_buy_def)
  have "buy_loop env (remaining_amount buy) False buy s = Some (buy', s')"
    using m assms(6,7) big by (simp add: match_buy_def)
  then have "buy_loop env (remaining_amount buy) True buy s = Some (buy', s')"
    using buy_loop_lazy[OF assms(2,3,5,6)] by simp
  then have d: "drain env ?L buy s = Some (buy', s')"
    using assms(6) by (simp add: buy_loop.simps[of env _ True buy s] full_gather fok_killed_def)
  obtain tr where tr: "fills env buy s tr buy' s'" using match_buy_fills[OF m assms(2,3)] by blast
  show ?thesis
    unfolding cleared_def
  proof (intro ballI impI notI)
    fix sell assume sell: "sell \<in> set (cy_sells s')" "min_trade_amount \<le> remaining_amount sell"
      "\<not> is_expired sell (env_now env)" "crosses env buy sell"
    obtain j where j: "j < length (cy_sells s)" "sell = cy_sells s' ! j"
      using sell(1) fills_effect(5)[OF tr] by (auto simp: in_set_conv_nth)
    have eq: "sell = add_fill (amounts (idx_fills j tr)) (cy_sells s ! j)"
      using fills_sell(1)[OF tr j(1)] j(2) by simp
    have "0 \<le> amounts (idx_fills j tr)" by (rule idx_fills_nonneg[OF tr])
    then obtain c where c: "c \<in> set ?L" "cd_sell_idx c = j"
      using crossing_in_list[OF assms(2-5) j(1), of buy "remaining_amount buy"] sell(2-4) unfolding eq by auto
    have "remaining_amount (cy_sells s' ! cd_sell_idx c) \<le> 0"
      using drain_free(2)[OF d assms(5) landed_idx(1)[OF assms(2,3)] _ assms(8) c(1)]
        landed_cand_ok[OF assms(2,3)] landed_avail[OF assms(2,3)] by blast
    then show False using sell(2) j(2) c(2) min_trade_pos by simp
  qed
qed

end
