(* ===== verification/Matching_Engine.thy ===== *)
theory Matching_Engine imports Engine_Runs begin

text \<open>
  The properties of \<open>MatchingEngine::match_cycle\<close>: what it promises the order book, the traders
  and the grid.  Orders enter with distinct identifiers per side, asks that are non-negative
  prices (the database refuses any other) and a multiplier of the price type.
\<close>

section \<open>Example markets\<close>

text \<open>An order that enters at time zero and never expires.\<close>

definition demo_order :: "uuid \<Rightarrow> uuid \<Rightarrow> int \<Rightarrow> decimal \<Rightarrow> zone \<Rightarrow> time_in_force \<Rightarrow> fast_order" where
  "demo_order i u p a z tif =
     \<lparr>fo_id = i, fo_user_id = u, fo_price = FastPrice p, fo_energy_amount = a, fo_filled_amount = 0,
      fo_zone_id = z, fo_created_at_ns = 0, fo_expires_at_ns = None, fo_time_in_force = tif,
      fo_metadata_index = 0\<rparr>"

definition demo_meta :: "order_metadata list" where
  "demo_meta = [\<lparr>md_epoch_id = 7, md_order_pda = None, md_session_token = None\<rparr>]"

definition demo_grid :: topology where
  "demo_grid = \<lparr>can_accommodate_flow = (\<lambda>_ _ _. True),
                calculate_wheeling_charge = (\<lambda>_ _. FastPrice 100000000),
                calculate_loss_factor = (\<lambda>_ _. FastPrice 1000500000)\<rparr>"

definition demo_buys :: "fast_order list" where
  "demo_buys = [demo_order 3 3 1500000000 100 (Some 1) Fok, demo_order 1 1 2000000000 5 (Some 1) Gtc]"

definition demo_sells :: "fast_order list" where
  "demo_sells = [demo_order 2 2 1000000000 3 (Some 1) Gtc, demo_order 4 2 3000000000 2 (Some 2) Gtc]"

definition demo_cycle :: "cycle_outcome option" where
  "demo_cycle = match_cycle exact_dec demo_buys demo_sells demo_meta demo_grid (FastPrice 1000000000) 0"

text \<open>A link of zone 1 that carries at most 8 kWh, and no charges.\<close>

definition capped_grid :: topology where
  "capped_grid = \<lparr>can_accommodate_flow = (\<lambda>a _ x. a = Some 1 \<longrightarrow> x \<le> 8),
                  calculate_wheeling_charge = (\<lambda>_ _. FastPrice 0),
                  calculate_loss_factor = (\<lambda>_ _. FastPrice 1000000000)\<rparr>"

definition capped_buys :: "fast_order list" where
  "capped_buys = [demo_order 1 1 9000000000 2 (Some 3) Gtc, demo_order 2 2 8000000000 10 (Some 3) Gtc]"

definition capped_sells :: "fast_order list" where
  "capped_sells = [demo_order 10 5 500000000 2 (Some 1) Gtc, demo_order 11 5 1000000000 8 (Some 1) Gtc,
                   demo_order 12 5 2000000000 4 (Some 2) Gtc, demo_order 13 5 3000000000 10 (Some 2) Gtc]"

section \<open>From the cycle to its run\<close>

definition env_of :: "dec_ops \<Rightarrow> order_metadata list \<Rightarrow> topology \<Rightarrow> fast_price \<Rightarrow> int \<Rightarrow> cycle_env" where
  "env_of D meta topo m now =
     \<lparr>env_topo = topo, env_mult = effective_multiplier m, env_now = now, env_meta = meta, env_dec = D\<rparr>"

lemma env_ok_env_of: "fp_ok m \<Longrightarrow> env_ok (env_of D meta topo m now)"
  by (auto simp: env_ok_def env_of_def effective_multiplier_def fp_from_raw_def fp_ok_def
      i64_ok_def i64_min_def i64_max_def fp_factor_def)

lemma match_cycle_runs:
  assumes "match_cycle D buys sells meta topo m now = Some out" "asks_ok sells" "fp_ok m"
  obtains trs s where
    "runs (env_of D meta topo m now) (sort_key buy_priority buys) (init_cycle now sells) trs (co_buys out) s"
    "co_sells out = cy_sells s" "co_results out = run_results trs" "cy_results s = run_results trs"
    "cs_matches_created (co_stats out) = length (run_results trs)"
    "cs_total_volume (co_stats out) = amounts (run_results trs)"
    "cs_ioc_cancellations (co_stats out) = immediate_leftovers now (co_buys out @ co_sells out)"
proof -
  let ?env = "env_of D meta topo m now"
  obtain s where s: "match_buys ?env (sort_key buy_priority buys) (init_cycle now sells) = Some (co_buys out, s)"
    "co_sells out = cy_sells s" "co_results out = cy_results s"
    "co_stats out = \<lparr>cs_matches_created = cy_created s, cs_total_volume = cy_volume s,
        cs_ioc_cancellations = immediate_leftovers now (co_buys out @ cy_sells s)\<rparr>"
    using assms(1) by (auto simp: match_cycle_def env_of_def Let_def bind_eq_Some_conv)
  have "cycle_ok ?env (init_cycle now sells)"
    using init_cycle_ok[OF assms(2), of ?env] by (simp add: env_of_def)
  then obtain trs where r: "runs ?env (sort_key buy_priority buys) (init_cycle now sells) trs (co_buys out) s"
    using match_buys_runs[OF s(1)] env_ok_env_of[OF assms(3)] by blast
  show thesis
    by (rule that[OF r]) (use runs_effect(1-3)[OF r] s in \<open>simp_all add: init_cycle_def\<close>)
qed

section \<open>The exhaustive cycle\<close>

text \<open>The reference: every buy scans all its candidates.\<close>

definition match_buy_full :: "cycle_env \<Rightarrow> fast_order \<Rightarrow> cycle_state \<Rightarrow> (fast_order \<times> cycle_state) option" where
  "match_buy_full env buy s =
     (if remaining_amount buy < min_trade_amount \<or> is_expired buy (env_now env) then Some (buy, s)
      else buy_loop env (remaining_amount buy) True buy s)"

fun match_buys_full ::
  "cycle_env \<Rightarrow> fast_order list \<Rightarrow> cycle_state \<Rightarrow> (fast_order list \<times> cycle_state) option" where
  "match_buys_full env [] s = Some ([], s)"
| "match_buys_full env (buy # buys) s = do {
     (buy', s') \<leftarrow> match_buy_full env buy s;
     (buys', s'') \<leftarrow> match_buys_full env buys s';
     Some (buy' # buys', s'') }"

definition match_cycle_exhaustive ::
  "dec_ops \<Rightarrow> fast_order list \<Rightarrow> fast_order list \<Rightarrow> order_metadata list \<Rightarrow> topology \<Rightarrow> fast_price \<Rightarrow> int
     \<Rightarrow> cycle_outcome option" where
  "match_cycle_exhaustive D buys sells meta topo m now = do {
     (buys', s) \<leftarrow> match_buys_full (env_of D meta topo m now) (sort_key buy_priority buys) (init_cycle now sells);
     Some \<lparr>co_buys = buys', co_sells = cy_sells s, co_results = cy_results s,
           co_stats = \<lparr>cs_matches_created = cy_created s, cs_total_volume = cy_volume s,
                       cs_ioc_cancellations = immediate_leftovers now (buys' @ cy_sells s)\<rparr>\<rparr> }"

section \<open>Results by order\<close>

lemma filter_concat_nth:
  "k < length xss \<Longrightarrow> (\<And>j x. j < length xss \<Longrightarrow> x \<in> set (xss ! j) \<Longrightarrow> P x \<longleftrightarrow> j = k) \<Longrightarrow>
     filter P (concat xss) = xss ! k"
proof (induction xss arbitrary: k)
  case Nil
  then show ?case by simp
next
  case (Cons xs xss)
  have hd: "P x \<longleftrightarrow> 0 = k" if "x \<in> set xs" for x using Cons.prems(2)[of 0] that by simp
  have tl: "P x \<longleftrightarrow> Suc j = k" if "j < length xss" "x \<in> set (xss ! j)" for j x
    using Cons.prems(2)[of "Suc j"] that by simp
  show ?case
  proof (cases k)
    case 0
    then have "filter P (concat xss) = []"
      using tl 0 by (simp add: filter_empty_conv) (metis in_set_conv_nth)
    moreover have "filter P xs = xs" using hd 0 by (simp add: filter_id_conv)
    ultimately show ?thesis using 0 by simp
  next
    case (Suc k')
    have "filter P xs = []" using hd Suc by (simp add: filter_empty_conv)
    moreover have "filter P (concat xss) = xss ! k'"
      using Cons.IH[of k'] Cons.prems(1) tl Suc by simp
    ultimately show ?thesis using Suc by simp
  qed
qed

lemma results_of_buy:
  assumes r: "runs env buys s trs buys' s'" and d: "distinct (map fo_id buys)" and k: "k < length buys"
  shows "filter (\<lambda>r. mr_buy_order_id r = fo_id (buys ! k)) (run_results trs) = map snd (trs ! k)"
proof -
  have len: "length trs = length buys" by (rule runs_effect(5)[OF r])
  have "filter (\<lambda>r. mr_buy_order_id r = fo_id (buys ! k)) (concat (map (map snd) trs))
      = map (map snd) trs ! k"
  proof (rule filter_concat_nth)
    show "k < length (map (map snd) trs)" using k len by simp
    fix j q assume j: "j < length (map (map snd) trs)" "q \<in> set (map (map snd) trs ! j)"
    then obtain c where "(c, q) \<in> set (trs ! j)" "j < length trs" by auto
    then have "mr_buy_order_id q = fo_id (buys ! j)"
      using runs_result_of(1)[OF r] result_of_parties(2) by blast
    then show "mr_buy_order_id q = fo_id (buys ! k) \<longleftrightarrow> j = k"
      using distinct_map_nth_eq[OF d, of j k] j(1) k len by auto
  qed
  then show ?thesis using k len by (simp add: run_results_def)
qed

lemma results_of_sell:
  assumes r: "runs env buys s trs buys' s'" and d: "distinct (map fo_id (cy_sells s))"
    and k: "k < length (cy_sells s)"
  shows "filter (\<lambda>r. mr_sell_order_id r = fo_id (cy_sells s ! k)) (run_results trs)
           = concat (map (idx_fills k) trs)"
proof -
  have "filter (\<lambda>q. mr_sell_order_id q = fo_id (cy_sells s ! k)) (map snd tr) = idx_fills k tr"
    if tr: "tr \<in> set trs" for tr
  proof -
    have "mr_sell_order_id q = fo_id (cy_sells s ! k) \<longleftrightarrow> cd_sell_idx c = k" if m: "(c, q) \<in> set tr" for c q
    proof -
      obtain j where j: "j < length trs" "tr = trs ! j" using tr by (auto simp: in_set_conv_nth)
      note res = runs_result_of(1)[OF r j(1), unfolded j(2)[symmetric], OF m]
      show ?thesis
        using result_of_parties(1,3)[OF res] distinct_map_nth_eq[OF d _ k] by auto
    qed
    then show ?thesis
      unfolding idx_fills_def filter_map by (auto intro!: arg_cong[of _ _ "map snd"] filter_cong)
  qed
  then show ?thesis unfolding run_results_def filter_concat map_map comp_def
    by (auto intro!: arg_cong[of _ _ concat])
qed

lemma run_result_mem:
  assumes "runs env buys s trs buys' s'" "r \<in> set (run_results trs)"
  obtains k c where "k < length buys" "(c, r) \<in> set (trs ! k)"
    "result_of env (buys ! k) (cy_sells s) c r" "\<not> is_expired (buys ! k) (env_now env)"
proof -
  obtain k c where k: "k < length trs" "(c, r) \<in> set (trs ! k)"
    using assms(2) by (auto simp: run_results_def in_set_conv_nth[of _ trs])
  show thesis
    by (rule that[of k c]) (use k runs_result_of[OF assms(1) k] runs_effect(5)[OF assms(1)] in auto)
qed

lemma runs_fok:
  assumes "runs env buys s trs buys' s'" "k < length buys" "fo_time_in_force (buys ! k) = Fok"
    "0 \<le> remaining_amount (buys ! k)"
  shows "trs ! k = [] \<or> remaining_amount (buys' ! k) = 0"
  using assms
proof (induction arbitrary: k rule: runs.induct)
  case (runs_Nil s)
  then show ?case by simp
next
  case (runs_Cons buy s tr buy1 s1 buys trs buys' s2)
  then show ?case by (cases k) auto
qed

lemma fills_pairs_distinct:
  assumes f: "fills env buy s tr buy' s'" and d: "distinct (map fo_id (cy_sells s))"
  shows "distinct (map (\<lambda>r. (mr_buy_order_id r, mr_sell_order_id r)) (map snd tr))"
proof -
  have "mr_sell_order_id r = fo_id (cy_sells s ! cd_sell_idx c)" "cd_sell_idx c < length (cy_sells s)"
    if "(c, r) \<in> set tr" for c r
    using result_of_parties(1,3)[OF fills_result_of[OF f that]] by simp_all
  then have idx: "cd_sell_idx (fst x) = cd_sell_idx (fst y)"
    if "x \<in> set tr" "y \<in> set tr" "mr_sell_order_id (snd x) = mr_sell_order_id (snd y)" for x y
    using that distinct_map_nth_eq[OF d] by (cases x; cases y) auto
  have tr: "distinct tr" "inj_on (\<lambda>x. cd_sell_idx (fst x)) (set tr)"
    using fills_distinct[OF f] by (auto simp: distinct_map split_def)
  then have "inj_on (\<lambda>x. (mr_buy_order_id (snd x), mr_sell_order_id (snd x))) (set tr)"
    using idx unfolding inj_on_def by (metis Pair_inject)
  then show ?thesis using tr(1) by (simp add: distinct_map comp_def)
qed

lemma runs_pairs_distinct:
  assumes "runs env buys s trs buys' s'" "distinct (map fo_id buys)" "distinct (map fo_id (cy_sells s))"
  shows "distinct (map (\<lambda>r. (mr_buy_order_id r, mr_sell_order_id r)) (run_results trs))"
  using assms
proof (induction rule: runs.induct)
  case (runs_Nil s)
  then show ?case by simp
next
  case (runs_Cons buy s tr buy1 s1 buys trs buys' s2)
  have "map fo_id (cy_sells s1) = map fo_id (cy_sells s)"
    using fills_static(1)[OF runs_Cons(1)] by (rule static_map_id)
  then have IH: "distinct (map (\<lambda>r. (mr_buy_order_id r, mr_sell_order_id r)) (run_results trs))"
    using runs_Cons by simp
  let ?f = "\<lambda>r. (mr_buy_order_id r, mr_sell_order_id r)"
  have left: "mr_buy_order_id r = fo_id buy" if "r \<in> set (map snd tr)" for r
    using that result_of_parties(2)[OF fills_result_of[OF runs_Cons(1)]] by auto
  have right: "mr_buy_order_id r \<noteq> fo_id buy" if mem: "r \<in> set (run_results trs)" for r
  proof -
    obtain k c where k: "k < length buys" "result_of env (buys ! k) (cy_sells s1) c r"
      using run_result_mem[OF runs_Cons(3) mem] by metis
    have "fo_id (buys ! k) \<in> fo_id ` set buys" using k(1) by simp
    then show ?thesis using result_of_parties(2)[OF k(2)] runs_Cons.prems(1) by auto
  qed
  have "fst x = fo_id buy" if "x \<in> ?f ` set (map snd tr)" for x
    using that by (elim imageE) (simp only: left fst_conv)
  moreover have "fst x \<noteq> fo_id buy" if "x \<in> ?f ` set (run_results trs)" for x
    using that by (elim imageE) (simp only: right fst_conv not_False_eq_True)
  ultimately have "?f ` set (map snd tr) \<inter> ?f ` set (run_results trs) = {}" by blast
  then show ?case
    using IH fills_pairs_distinct[OF runs_Cons(1) runs_Cons.prems(2)]
    unfolding run_results_simps map_append distinct_append set_map by simp
qed

section \<open>The flow ledger\<close>

definition on_link :: "zone \<times> zone \<Rightarrow> match_result \<Rightarrow> bool" where
  "on_link l r \<longleftrightarrow> l = (mr_seller_zone_id r, mr_buyer_zone_id r)"

definition flow_ok :: "cycle_env \<Rightarrow> cycle_state \<Rightarrow> bool" where
  "flow_ok env s \<longleftrightarrow> bt_ok (cy_flow s) \<and>
     (\<forall>l. bt_get (cy_flow s) l =
        (if filter (on_link l) (cy_results s) = [] then None
         else Some (amounts (filter (on_link l) (cy_results s))))) \<and>
     (\<forall>l x. bt_get (cy_flow s) l = Some x \<longrightarrow> can_accommodate_flow (env_topo env) (fst l) (snd l) x)"

lemma flow_ok_fills: "fills env buy s tr buy' s' \<Longrightarrow> flow_ok env s \<Longrightarrow> flow_ok env s'"
proof (induction rule: fills.induct)
  case (fills_Nil buy s)
  then show ?case by simp
next
  case (fills_Cons buy s c r buy1 s1 tr buy2 s2)
  let ?sell = "cy_sells s ! cd_sell_idx c"
  let ?l = "(fo_zone_id ?sell, fo_zone_id buy)"
  have ok: "bt_ok (cy_flow s)" using fills_Cons.prems by (simp add: flow_ok_def)
  have mk: "make_match (env_dec env) (env_meta env) buy ?sell c (mr_match_amount r) = Some r"
    and can: "can_accommodate_flow (env_topo env) (fst ?l) (snd ?l) (flow_at (cy_flow s) ?l + mr_match_amount r)"
    using fills_Cons(1) fill_ok_amount(1)[OF fills_Cons(1)] by (auto simp: fill_ok_def Let_def)
  have link: "on_link l r \<longleftrightarrow> l = ?l" for l using make_match_fields(8,9)[OF mk] by (auto simp: on_link_def)
  have get: "bt_get (cy_flow s1) = (bt_get (cy_flow s))(?l := Some (flow_at (cy_flow s) ?l + mr_match_amount r))"
    using ok by (simp add: sells_commit(6)[OF fills_Cons(2)] add_flow_def flow_at_def)
  have "flow_at (cy_flow s) ?l = amounts (filter (on_link ?l) (cy_results s))"
    using fills_Cons.prems by (simp add: flow_ok_def flow_at_def)
  then have "flow_ok env s1"
    using fills_Cons.prems can ok link
    unfolding flow_ok_def get sells_commit(3)[OF fills_Cons(2)]
    by (auto simp: sells_commit(6)[OF fills_Cons(2)] add_flow_def)
  then show ?case by (rule fills_Cons.IH)
qed

lemma flow_ok_init: "flow_ok env (init_cycle now sells)"
  by (simp add: flow_ok_def init_cycle_def bt_get_def)

section \<open>Clearing and the free grid\<close>

lemma match_buys_lazy:
  assumes "env_ok env" "free_grid (env_topo env)" "cycle_ok env s"
  shows "match_buys env buys s = match_buys_full env buys s"
  using assms(3)
proof (induction buys arbitrary: s)
  case Nil
  then show ?case by simp
next
  case (Cons b bs)
  have "match_buy env b s = match_buy_full env b s"
    using buy_loop_lazy[OF Cons.prems assms(1,2)] by (cases "fo_time_in_force b = Fok") (simp_all add: match_buy_def match_buy_full_def)
  moreover have "match_buys env bs s1 = match_buys_full env bs s1" if "match_buy env b s = Some (b1, s1)" for b1 s1
    using Cons.IH match_buy_fills[OF that Cons.prems assms(1)] cycle_ok_fills Cons.prems by blast
  ultimately show ?case by (cases "match_buy_full env b s") auto
qed

lemma resting_fills:
  "fills env buy s tr buy' s' \<Longrightarrow> cycle_ok env s \<Longrightarrow> resting env s \<Longrightarrow> distinct (map fo_id (cy_sells s)) \<Longrightarrow>
     resting env s' \<and> distinct (map fo_id (cy_sells s'))"
proof (induction rule: fills.induct)
  case (fills_Nil buy s)
  then show ?case by simp
next
  case (fills_Cons buy s c r buy1 s1 tr buy2 s2)
  note i = fill_ok_amount(3)[OF fills_Cons(1)]
  have "map fo_id (cy_sells s1) = map fo_id (cy_sells s)"
    using commit_sell_nth[OF fills_Cons(2) i] by (auto intro!: nth_equalityI)
  then show ?case
    using fills_Cons.IH cycle_ok_commit[OF fills_Cons(5,1,2)]
      resting_commit[OF fills_Cons(5,6,7,1,2)] fills_Cons(7) by simp
qed

lemma runs_cleared: "runs env buys s trs buys' s' \<Longrightarrow> cleared env b s \<Longrightarrow> cleared env b s'"
  by (induction rule: runs.induct) (auto intro: cleared_fills)

lemma match_buys_clear:
  assumes "env_ok env" "free_grid (env_topo env)"
    and "match_buys env buys s = Some (buys', s')" "cycle_ok env s" "resting env s"
      "distinct (map fo_id (cy_sells s))"
    and "b \<in> set buys'" "fo_time_in_force b \<noteq> Fok" "\<not> is_expired b (env_now env)"
      "min_trade_amount \<le> remaining_amount b"
  shows "cleared env b s'"
  using assms(3-)
proof (induction buys arbitrary: s buys')
  case Nil
  then show ?case by simp
next
  case (Cons x xs)
  obtain x1 s1 xs' where m: "match_buy env x s = Some (x1, s1)" "match_buys env xs s1 = Some (xs', s')"
    "buys' = x1 # xs'"
    using Cons.prems(1) by (auto simp: bind_eq_Some_conv)
  obtain tr where tr: "fills env x s tr x1 s1" using match_buy_fills[OF m(1) Cons.prems(2) assms(1)] by blast
  have ok1: "cycle_ok env s1" "resting env s1" "distinct (map fo_id (cy_sells s1))"
    using cycle_ok_fills[OF tr] resting_fills[OF tr] Cons.prems(2-4) by blast+
  obtain trs where rr: "runs env xs s1 trs xs' s'" using match_buys_runs[OF m(2) ok1(1) assms(1)] by blast
  show ?case
  proof (cases "b = x1")
    case True
    have x1: "x1 = add_fill (amounts (map snd tr)) x" by (rule fills_effect(2)[OF tr])
    have "cleared env x s1"
      using match_buy_clears[OF m(1) Cons.prems(2) assms(1) Cons.prems(3) assms(2)] Cons.prems(6-8) True x1 by simp
    then have "cleared env x1 s1" by (simp add: cleared_def x1)
    then show ?thesis using runs_cleared[OF rr] True by simp
  next
    case False
    then show ?thesis using Cons.IH[OF m(2) ok1] Cons.prems(5-8) m(3) by simp
  qed
qed

section \<open>Properties\<close>

lemma demo_some: "match_cycle exact_dec demo_buys demo_sells demo_meta demo_grid (FastPrice 1000000000) 0
    = Some (the demo_cycle)"
proof -
  have "demo_cycle \<noteq> None" by code_simp
  then show ?thesis by (simp add: demo_cycle_def)
qed

lemma demo_asks_ok: "asks_ok demo_sells" and demo_mult_ok: "fp_ok (FastPrice 1000000000)"
  and demo_buys_distinct: "distinct (map fo_id demo_buys)" and demo_sells_distinct: "distinct (map fo_id demo_sells)"
  by code_simp+

lemmas demo_ok = demo_some demo_asks_ok demo_mult_ok


lemma cycle_conserves:
  assumes "match_cycle D buys sells meta topo m now = Some out"
    and "asks_ok sells" and "fp_ok m" and "distinct (map fo_id buys)" and "distinct (map fo_id sells)"
  shows "co_buys out = map (\<lambda>b. add_fill (amounts (filter (\<lambda>r. mr_buy_order_id r = fo_id b) (co_results out))) b)
                         (sort_key buy_priority buys) \<and>
         co_sells out = map (\<lambda>s. add_fill (amounts (filter (\<lambda>r. mr_sell_order_id r = fo_id s) (co_results out))) s)
                         sells \<and>
         cs_total_volume (co_stats out) = amounts (co_results out) \<and>
         cs_matches_created (co_stats out) = length (co_results out)"
proof -
  let ?B = "sort_key buy_priority buys"
  obtain trs s where r: "runs (env_of D meta topo m now) ?B (init_cycle now sells) trs (co_buys out) s"
    and s: "co_sells out = cy_sells s" "co_results out = run_results trs"
    and st: "cs_matches_created (co_stats out) = length (run_results trs)"
      "cs_total_volume (co_stats out) = amounts (run_results trs)"
    using match_cycle_runs[OF assms(1-3)] by metis
  have "distinct (map fo_id ?B)"
    using assms(4) by (metis distinct_map distinct_sort set_sort)
  have len: "length trs = length ?B" by (rule runs_effect(5)[OF r])
  have sells0: "cy_sells (init_cycle now sells) = sells" by (simp add: init_cycle_def)
  have "co_buys out = map (\<lambda>b. add_fill (amounts (filter (\<lambda>r. mr_buy_order_id r = fo_id b) (run_results trs))) b) ?B"
    unfolding runs_effect(6)[OF r]
    by (rule nth_equalityI) (use len results_of_buy[OF r \<open>distinct (map fo_id ?B)\<close>] in simp_all)
  moreover have "cy_sells s = map (\<lambda>x. add_fill (amounts (filter (\<lambda>r. mr_sell_order_id r = fo_id x) (run_results trs))) x) sells"
    by (rule nth_equalityI)
      (use runs_effect(4)[OF r] results_of_sell[OF r] runs_sell(1)[OF r] assms(5) in \<open>simp_all add: sells0\<close>)
  ultimately show ?thesis using s st by simp
qed

text \<open>C1: Conservation.  Every order ends with exactly the fills of the results that name it, on
  both sides; the reported volume and number of matches are those of the results.\<close>

theorem match_cycle_conserves:
  assumes "match_cycle D buys sells meta topo m now = Some out"
    and "asks_ok sells" and "fp_ok m" and "distinct (map fo_id buys)" and "distinct (map fo_id sells)"
  shows "co_buys out = map (\<lambda>b. add_fill (amounts (filter (\<lambda>r. mr_buy_order_id r = fo_id b) (co_results out))) b)
                         (sort_key buy_priority buys) \<and>
         co_sells out = map (\<lambda>s. add_fill (amounts (filter (\<lambda>r. mr_sell_order_id r = fo_id s) (co_results out))) s)
                         sells \<and>
         cs_total_volume (co_stats out) = amounts (co_results out) \<and>
         cs_matches_created (co_stats out) = length (co_results out)"
  by (rule cycle_conserves[OF assms])

theorem match_cycle_conserves_witness:
  "co_buys (the demo_cycle) =
     map (\<lambda>b. add_fill (amounts (filter (\<lambda>r. mr_buy_order_id r = fo_id b) (co_results (the demo_cycle)))) b)
       (sort_key buy_priority demo_buys) \<and>
   co_sells (the demo_cycle) =
     map (\<lambda>s. add_fill (amounts (filter (\<lambda>r. mr_sell_order_id r = fo_id s) (co_results (the demo_cycle)))) s)
       demo_sells \<and>
   cs_total_volume (co_stats (the demo_cycle)) = amounts (co_results (the demo_cycle)) \<and>
   cs_matches_created (co_stats (the demo_cycle)) = length (co_results (the demo_cycle))"
  by (rule match_cycle_conserves[OF demo_ok demo_buys_distinct demo_sells_distinct])

lemma cycle_no_overfill:
  assumes "match_cycle D buys sells meta topo m now = Some out" and "asks_ok sells" and "fp_ok m"
    and "\<forall>ord\<in>set (buys @ sells). fo_filled_amount ord \<le> fo_energy_amount ord"
  shows "\<forall>ord\<in>set (co_buys out @ co_sells out). fo_filled_amount ord \<le> fo_energy_amount ord"
proof -
  obtain trs s where r: "runs (env_of D meta topo m now) (sort_key buy_priority buys) (init_cycle now sells)
      trs (co_buys out) s" and s: "co_sells out = cy_sells s"
    using match_cycle_runs[OF assms(1-3)] by metis
  have rem: "0 \<le> remaining_amount ord \<longleftrightarrow> fo_filled_amount ord \<le> fo_energy_amount ord" for ord
    by (simp add: remaining_amount_def)
  have "\<forall>b\<in>set (co_buys out). 0 \<le> remaining_amount b"
    using runs_buy_remaining[OF r] assms(4) by (simp add: rem)
  moreover have "0 \<le> remaining_amount x" if x: "x \<in> set (cy_sells s)" for x
  proof -
    obtain j where "j < length sells" "x = cy_sells s ! j"
      using x runs_effect(4)[OF r] by (auto simp: in_set_conv_nth init_cycle_def)
    then show ?thesis using runs_sell(2)[OF r, of j] assms(4) by (simp add: init_cycle_def rem)
  qed
  ultimately show ?thesis using s by (auto simp: rem)
qed

text \<open>C2: No order is ever overfilled: orders that enter within their energy leave within it.\<close>

theorem match_cycle_no_overfill:
  assumes "match_cycle D buys sells meta topo m now = Some out" and "asks_ok sells" and "fp_ok m"
    and "\<forall>ord\<in>set (buys @ sells). fo_filled_amount ord \<le> fo_energy_amount ord"
  shows "\<forall>ord\<in>set (co_buys out @ co_sells out). fo_filled_amount ord \<le> fo_energy_amount ord"
  by (rule cycle_no_overfill[OF assms])

lemma cycle_result_legit:
  assumes "match_cycle D buys sells meta topo m now = Some out" and "asks_ok sells" and "fp_ok m"
    and "r \<in> set (co_results out)"
  shows "\<exists>b\<in>set buys. \<exists>sl\<in>set sells.
           mr_buy_order_id r = fo_id b \<and> mr_sell_order_id r = fo_id sl \<and>
           \<not> is_expired b now \<and> \<not> is_expired sl now \<and> fo_user_id b \<noteq> fo_user_id sl \<and>
           min_trade_amount \<le> mr_match_amount r \<and>
           mr_settle_price r = fp_to_decimal (landed_cost (fo_price sl)
             (fees_of topo (fo_zone_id sl) (fo_zone_id b)) (effective_multiplier m)) \<and>
           mr_seller_price r = fp_to_decimal (fo_price sl) \<and> mr_buyer_price r = fp_to_decimal (fo_price b) \<and>
           mr_seller_price r \<le> mr_buyer_price r \<and> mr_settle_price r \<le> mr_buyer_price r \<and>
           mr_epoch_id r = md_epoch_id (meta ! fo_metadata_index b)"
proof -
  obtain trs s where r: "runs (env_of D meta topo m now) (sort_key buy_priority buys) (init_cycle now sells)
      trs (co_buys out) s" and s: "co_results out = run_results trs"
    using match_cycle_runs[OF assms(1-3)] by metis
  obtain k c where k: "k < length (sort_key buy_priority buys)"
    and res: "result_of (env_of D meta topo m now) (sort_key buy_priority buys ! k) (cy_sells (init_cycle now sells)) c r"
    and live: "\<not> is_expired (sort_key buy_priority buys ! k) now"
    using run_result_mem[OF r] assms(4) s by (metis env_of_def cycle_env.select_convs(3))
  let ?b = "sort_key buy_priority buys ! k" and ?sl = "sells ! cd_sell_idx c"
  have sells0: "cy_sells (init_cycle now sells) = sells" by (simp add: init_cycle_def)
  have b: "?b \<in> set buys" using k by (metis nth_mem set_sort)
  have sl: "?sl \<in> set sells" using result_of_parties(1)[OF res] sells0 by simp
  show ?thesis
    by (rule bexI[OF _ b], rule bexI[OF _ sl])
      (use result_of_parties[OF res] res live in
        \<open>auto simp: sells0 result_of_def cand_ok_def Let_def env_of_def\<close>)
qed

theorem match_cycle_no_overfill_witness:
  "list_all (\<lambda>ord. fo_filled_amount ord \<le> fo_energy_amount ord)
     (co_buys (the demo_cycle) @ co_sells (the demo_cycle))"
  unfolding list_all_iff by (rule match_cycle_no_overfill[OF demo_ok]) code_simp

text \<open>C3: Every match is legitimate: it joins a live buy with a live sell of another user, for at
  least the minimum amount, the bid covers the ask, and it settles at the landed cost of that
  pair, which the bid covers; its epoch is that of the buy's metadata.\<close>

theorem match_cycle_legitimate:
  assumes "match_cycle D buys sells meta topo m now = Some out" and "asks_ok sells" and "fp_ok m"
    and "r \<in> set (co_results out)"
  shows "\<exists>b\<in>set buys. \<exists>sl\<in>set sells.
           mr_buy_order_id r = fo_id b \<and> mr_sell_order_id r = fo_id sl \<and>
           \<not> is_expired b now \<and> \<not> is_expired sl now \<and> fo_user_id b \<noteq> fo_user_id sl \<and>
           min_trade_amount \<le> mr_match_amount r \<and>
           mr_settle_price r = fp_to_decimal (landed_cost (fo_price sl)
             (fees_of topo (fo_zone_id sl) (fo_zone_id b)) (effective_multiplier m)) \<and>
           mr_seller_price r = fp_to_decimal (fo_price sl) \<and> mr_buyer_price r = fp_to_decimal (fo_price b) \<and>
           mr_seller_price r \<le> mr_buyer_price r \<and> mr_settle_price r \<le> mr_buyer_price r \<and>
           mr_epoch_id r = md_epoch_id (meta ! fo_metadata_index b)"
  using assms by (rule cycle_result_legit)

theorem match_cycle_legitimate_witness:
  "\<exists>b\<in>set demo_buys. \<exists>sl\<in>set demo_sells. let r = hd (co_results (the demo_cycle)) in
     mr_buy_order_id r = fo_id b \<and> mr_sell_order_id r = fo_id sl \<and>
     \<not> is_expired b 0 \<and> \<not> is_expired sl 0 \<and> fo_user_id b \<noteq> fo_user_id sl \<and>
     min_trade_amount \<le> mr_match_amount r \<and>
     mr_settle_price r = fp_to_decimal (landed_cost (fo_price sl)
       (fees_of demo_grid (fo_zone_id sl) (fo_zone_id b)) (effective_multiplier (FastPrice 1000000000))) \<and>
     mr_seller_price r = fp_to_decimal (fo_price sl) \<and> mr_buyer_price r = fp_to_decimal (fo_price b) \<and>
     mr_seller_price r \<le> mr_buyer_price r \<and> mr_settle_price r \<le> mr_buyer_price r \<and>
     mr_epoch_id r = md_epoch_id (demo_meta ! fo_metadata_index b)"
  unfolding Let_def by (rule match_cycle_legitimate[OF demo_ok]) code_simp

text \<open>The on-chain price guard holds: unless the multiplier is a genuine discount (strictly
  between zero and one), every match settles between the ask and the bid.\<close>

theorem match_cycle_price_guard:
  assumes "match_cycle D buys sells meta topo m now = Some out" and "asks_ok sells" and "fp_ok m"
    and "raw m \<le> 0 \<or> fp_factor \<le> raw m" and "r \<in> set (co_results out)"
  shows "mr_seller_price r \<le> mr_settle_price r \<and> mr_settle_price r \<le> mr_buyer_price r"
proof -
  obtain b sl :: fast_order where "sl \<in> set sells"
    "mr_settle_price r = fp_to_decimal (landed_cost (fo_price sl)
       (fees_of topo (fo_zone_id sl) (fo_zone_id b)) (effective_multiplier m))"
    "mr_seller_price r = fp_to_decimal (fo_price sl)" "mr_settle_price r \<le> mr_buyer_price r"
    using cycle_result_legit[OF assms(1-3,5)] by blast
  moreover have "fp_ok (effective_multiplier m)" "fp_factor \<le> raw (effective_multiplier m)"
    using assms(3,4) by (auto simp: effective_multiplier_def fp_from_raw_def fp_ok_def i64_ok_def
        i64_min_def i64_max_def fp_factor_def)
  moreover have "fp_ok (fo_price sl)" "0 \<le> raw (fo_price sl)"
    using assms(2) calculation(1) by (auto simp: asks_ok_def)
  ultimately show ?thesis
    using landed_cost_ge_ask[of "fo_price sl" "effective_multiplier m"
        "fees_of topo (fo_zone_id sl) (fo_zone_id b)"] by simp
qed

theorem match_cycle_price_guard_witness:
  "let r = hd (co_results (the demo_cycle)) in
     mr_seller_price r \<le> mr_settle_price r \<and> mr_settle_price r \<le> mr_buyer_price r"
  unfolding Let_def by (rule match_cycle_price_guard[OF demo_ok]) code_simp+

text \<open>C4: The grid is never oversold: for every link, the grid accepts the whole energy the cycle
  committed on it, not only each trade by itself.\<close>

theorem match_cycle_respects_links:
  assumes "match_cycle D buys sells meta topo m now = Some out" and "asks_ok sells" and "fp_ok m"
    and "\<exists>r\<in>set (co_results out). mr_seller_zone_id r = a \<and> mr_buyer_zone_id r = b"
  shows "can_accommodate_flow topo a b
           (amounts (filter (\<lambda>r. mr_seller_zone_id r = a \<and> mr_buyer_zone_id r = b) (co_results out)))"
proof -
  obtain trs s where r: "runs (env_of D meta topo m now) (sort_key buy_priority buys) (init_cycle now sells)
      trs (co_buys out) s" and s: "co_results out = cy_results s"
    using match_cycle_runs[OF assms(1-3)] by metis
  have ok: "flow_ok (env_of D meta topo m now) s"
    using runs_preserve[OF r, of "flow_ok (env_of D meta topo m now)"] flow_ok_init flow_ok_fills by blast
  have link: "on_link (a, b) = (\<lambda>r. mr_seller_zone_id r = a \<and> mr_buyer_zone_id r = b)"
    by (auto simp: on_link_def)
  have "filter (on_link (a, b)) (cy_results s) \<noteq> []"
    using assms(4) by (auto simp: s link filter_empty_conv)
  then show ?thesis using ok by (simp add: flow_ok_def s link env_of_def)
qed

theorem match_cycle_respects_links_witness:
  "can_accommodate_flow demo_grid (Some 1) (Some 1)
     (amounts (filter (\<lambda>r. mr_seller_zone_id r = Some 1 \<and> mr_buyer_zone_id r = Some 1) (co_results (the demo_cycle))))"
  by (rule match_cycle_respects_links[OF demo_ok]) code_simp

text \<open>A buy and a sell meet at most once in a cycle, also across the rebuild after a partial
  fill: no two results name the same pair.\<close>

theorem match_cycle_pairs_once:
  assumes "match_cycle D buys sells meta topo m now = Some out" and "asks_ok sells" and "fp_ok m"
    and "distinct (map fo_id buys)" and "distinct (map fo_id sells)"
  shows "distinct (map (\<lambda>r. (mr_buy_order_id r, mr_sell_order_id r)) (co_results out))"
proof -
  let ?B = "sort_key buy_priority buys" and ?f = "\<lambda>r. (mr_buy_order_id r, mr_sell_order_id r)"
  obtain trs s where r: "runs (env_of D meta topo m now) ?B (init_cycle now sells) trs (co_buys out) s"
    and s: "co_results out = run_results trs"
    using match_cycle_runs[OF assms(1-3)] by metis
  have dB: "distinct (map fo_id ?B)" using assms(4) by (metis distinct_map distinct_sort set_sort)
  show ?thesis unfolding s by (rule runs_pairs_distinct[OF r dB]) (simp add: init_cycle_def assms(5))
qed

theorem match_cycle_pairs_once_witness:
  "distinct (map (\<lambda>r. (mr_buy_order_id r, mr_sell_order_id r)) (co_results (the demo_cycle)))"
  by (rule match_cycle_pairs_once[OF demo_ok demo_buys_distinct demo_sells_distinct])

text \<open>C5: Fill or kill is all or nothing: a live fill-or-kill buy is filled completely or not at
  all, and when it is not filled it is reported for cancellation.\<close>

theorem match_cycle_fok:
  assumes "match_cycle D buys sells meta topo m now = Some out" and "asks_ok sells" and "fp_ok m"
    and "distinct (map fo_id buys)" and "b \<in> set buys" and "fo_time_in_force b = Fok"
    and "\<not> is_expired b now" and "0 < remaining_amount b"
  shows "let fills = filter (\<lambda>r. mr_buy_order_id r = fo_id b) (co_results out) in
           amounts fills = remaining_amount b \<or>
           fills = [] \<and> fo_id b \<in> set (cs_ioc_cancellations (co_stats out))"
proof -
  let ?B = "sort_key buy_priority buys"
  obtain trs s where r: "runs (env_of D meta topo m now) ?B (init_cycle now sells) trs (co_buys out) s"
    and s: "co_results out = run_results trs"
      "cs_ioc_cancellations (co_stats out) = immediate_leftovers now (co_buys out @ co_sells out)"
    using match_cycle_runs[OF assms(1-3)] by metis
  obtain k where k: "k < length ?B" "b = ?B ! k" using assms(5) by (metis in_set_conv_nth set_sort)
  have dB: "distinct (map fo_id ?B)" using assms(4) by (metis distinct_map distinct_sort set_sort)
  have fills: "filter (\<lambda>r. mr_buy_order_id r = fo_id b) (co_results out) = map snd (trs ! k)"
    using results_of_buy[OF r dB k(1)] k(2) s(1) by simp
  have len: "length trs = length ?B" by (rule runs_effect(5)[OF r])
  have bk: "co_buys out ! k = add_fill (amounts (map snd (trs ! k))) b" "k < length (co_buys out)"
    using runs_effect(6)[OF r] k len by simp_all
  have "trs ! k = [] \<or> remaining_amount (co_buys out ! k) = 0"
    using runs_fok[OF r k(1)] k(2) assms(6,8) by simp
  then show ?thesis
  proof
    assume "trs ! k = []"
    then have "co_buys out ! k = b" using bk by simp
    then have "b \<in> set (co_buys out)" using bk(2) by (metis nth_mem)
    then have "fo_id b \<in> set (immediate_leftovers now (co_buys out @ co_sells out))"
      using assms(6-8) by (auto simp: immediate_leftovers_def is_immediate_def)
    then show ?thesis using \<open>trs ! k = []\<close> fills s(2) by (simp add: Let_def)
  next
    assume "remaining_amount (co_buys out ! k) = 0"
    then show ?thesis using bk fills by (simp add: Let_def)
  qed
qed

theorem match_cycle_fok_witness:
  "let fills = filter (\<lambda>r. mr_buy_order_id r = fo_id (hd demo_buys)) (co_results (the demo_cycle)) in
     amounts fills = remaining_amount (hd demo_buys) \<or>
     fills = [] \<and> fo_id (hd demo_buys) \<in> set (cs_ioc_cancellations (co_stats (the demo_cycle)))"
  by (rule match_cycle_fok[OF demo_ok demo_buys_distinct]) code_simp+



text \<open>C7: The market clears: on a grid that refuses nothing, after the cycle no live buy that may
  rest and still wants the minimum faces a live sell offering the minimum at a price both accept.\<close>

theorem match_cycle_clears:
  assumes "match_cycle D buys sells meta topo m now = Some out" and "asks_ok sells" and "fp_ok m"
    and "distinct (map fo_id sells)" and "\<forall>x y amount. can_accommodate_flow topo x y amount"
    and "b \<in> set (co_buys out)" and "fo_time_in_force b \<noteq> Fok" and "\<not> is_expired b now"
    and "min_trade_amount \<le> remaining_amount b"
    and "sl \<in> set (co_sells out)" and "\<not> is_expired sl now" and "min_trade_amount \<le> remaining_amount sl"
  shows "fo_user_id b = fo_user_id sl \<or> fo_price b < fo_price sl \<or>
         fo_price b < landed_cost (fo_price sl) (fees_of topo (fo_zone_id sl) (fo_zone_id b)) (effective_multiplier m)"
proof -
  let ?env = "env_of D meta topo m now"
  obtain s where s: "match_buys ?env (sort_key buy_priority buys) (init_cycle now sells) = Some (co_buys out, s)"
    "co_sells out = cy_sells s"
    using assms(1) by (auto simp: match_cycle_def env_of_def Let_def bind_eq_Some_conv)
  have env: "env_ok ?env" "free_grid (env_topo ?env)" "env_now ?env = now"
    using env_ok_env_of[OF assms(3)] assms(5) by (auto simp: env_of_def free_grid_def)
  have "cleared ?env b s"
    by (rule match_buys_clear[OF env(1,2) s(1)])
      (use assms init_cycle_ok[OF assms(2), of ?env] init_resting[OF assms(4), of ?env] env(3)
        in \<open>simp_all add: init_cycle_def\<close>)
  then have "\<not> crosses ?env b sl" using assms(10-12) s(2) env(3) by (simp add: cleared_def)
  then show ?thesis by (auto simp: crosses_def env_of_def not_le simp del: fp_order_simps)
qed

theorem match_cycle_clears_witness:
  "let b = hd (co_buys (the demo_cycle)); sl = co_sells (the demo_cycle) ! 1 in
     fo_user_id b = fo_user_id sl \<or> fo_price b < fo_price sl \<or>
     fo_price b < landed_cost (fo_price sl) (fees_of demo_grid (fo_zone_id sl) (fo_zone_id b))
       (effective_multiplier (FastPrice 1000000000))"
  unfolding Let_def
proof (rule match_cycle_clears[OF demo_ok demo_sells_distinct])
  show "\<forall>x y amount. can_accommodate_flow demo_grid x y amount" by (simp add: demo_grid_def)
qed code_simp+

text \<open>C8: The early stop is only an optimisation: on a grid that refuses nothing the cycle returns
  what the exhaustive one returns, results, orders, statistics and panics included.\<close>

theorem match_cycle_lazy_exhaustive:
  assumes "asks_ok sells" and "fp_ok m" and "\<forall>x y amount. can_accommodate_flow topo x y amount"
  shows "match_cycle D buys sells meta topo m now = match_cycle_exhaustive D buys sells meta topo m now"
proof -
  let ?env = "env_of D meta topo m now"
  have "match_buys ?env (sort_key buy_priority buys) (init_cycle now sells)
      = match_buys_full ?env (sort_key buy_priority buys) (init_cycle now sells)"
  proof (rule match_buys_lazy)
    show "env_ok ?env" using assms(2) by (rule env_ok_env_of)
    show "free_grid (env_topo ?env)" using assms(3) by (simp add: free_grid_def env_of_def)
    show "cycle_ok ?env (init_cycle now sells)"
      using init_cycle_ok[OF assms(1), of ?env] by (simp add: env_of_def)
  qed
  then show ?thesis by (simp add: match_cycle_def match_cycle_exhaustive_def env_of_def Let_def)
qed

theorem match_cycle_lazy_exhaustive_witness:
  "match_cycle exact_dec demo_buys demo_sells demo_meta demo_grid (FastPrice 1000000000) 0 =
     match_cycle_exhaustive exact_dec demo_buys demo_sells demo_meta demo_grid (FastPrice 1000000000) 0"
  by (rule match_cycle_lazy_exhaustive[OF demo_asks_ok demo_mult_ok]) (simp add: demo_grid_def)

text \<open>The candidates of a buy come in landed order: a full scan returns every crossing sell of
  every reachable zone exactly once, cheapest landed cost first (ties by ask, arrival and
  identifier), and an early stop returns a prefix of it that holds the needed energy.\<close>

theorem gather_candidates_landed_order:
  assumes "books_ok sells books" and "asks_ok sells" and "fp_ok m" and "0 < raw m"
    and "gather_candidates topo books sells buy need m early_stop = (cs, truncated)"
  shows "\<exists>rest. mset (cs @ rest) = mset (crossing_sells topo books sells buy need m) \<and>
           sorted (map cand_key (cs @ rest)) \<and> distinct (map cd_sell_idx (cs @ rest)) \<and>
           (if truncated then need \<le> sum_list (map (avail_at sells) cs) else rest = []) \<and>
           (truncated \<longrightarrow> early_stop)"
proof -
  let ?L = "landed_list topo books sells buy need m"
  have te: "take_enough (avail_at sells) early_stop need 0 ?L = (cs, truncated)"
    using assms(5) by (simp add: gather_landed)
  obtain rest where r: "?L = cs @ rest" "\<not> truncated \<longrightarrow> rest = []" using take_enough_prefix[OF te] by blast
  have "truncated \<longrightarrow> early_stop" using te by (cases early_stop) simp_all
  moreover have "truncated \<longrightarrow> need \<le> sum_list (map (avail_at sells) cs)"
    using take_enough_covers[of "avail_at sells" early_stop need 0 ?L cs] te by auto
  ultimately show ?thesis
    using landed_list_correct[OF assms(1-4), of topo buy need] distinct_landed[OF assms(1-4), of topo buy need] r
    by (intro exI[of _ rest]) simp
qed

theorem gather_candidates_landed_order_witness:
  "\<exists>cs truncated rest. gather_candidates demo_grid (build_books 0 demo_sells) demo_sells (hd demo_buys) 1
       (FastPrice 1000000000) True = (cs, truncated) \<and>
     mset (cs @ rest) = mset (crossing_sells demo_grid (build_books 0 demo_sells) demo_sells (hd demo_buys) 1
       (FastPrice 1000000000)) \<and>
     sorted (map cand_key (cs @ rest)) \<and> distinct (map cd_sell_idx (cs @ rest)) \<and>
     (if truncated then 1 \<le> sum_list (map (avail_at demo_sells) cs) else rest = [])"
proof -
  obtain cs truncated where g: "gather_candidates demo_grid (build_books 0 demo_sells) demo_sells (hd demo_buys) 1
       (FastPrice 1000000000) True = (cs, truncated)" by fastforce
  have "books_ok demo_sells (build_books 0 demo_sells)" by code_simp
  from gather_candidates_landed_order[OF this demo_asks_ok demo_mult_ok _ g] show ?thesis using g by auto
qed

text \<open>With capacity limits the rebuild is not the exhaustive pass.  The link of zone 1 refuses
  the cheap sell 11 when it is offered whole; the early pass then fills 4 from sell 12, and the
  rebuild offers sell 11 again for the remaining 6, which now fits.  The exhaustive pass would
  have taken the 6 from sell 13.\<close>

theorem rebuild_differs_from_exhaustive:
  "map_option (\<lambda>out. map (\<lambda>r. (mr_buy_order_id r, mr_sell_order_id r, mr_match_amount r)) (co_results out))
     (match_cycle exact_dec capped_buys capped_sells demo_meta capped_grid (FastPrice 1000000000) 0)
     = Some [(1, 10, 2), (2, 12, 4), (2, 11, 6)] \<and>
   map_option (\<lambda>out. map (\<lambda>r. (mr_buy_order_id r, mr_sell_order_id r, mr_match_amount r)) (co_results out))
     (match_cycle_exhaustive exact_dec capped_buys capped_sells demo_meta capped_grid (FastPrice 1000000000) 0)
     = Some [(1, 10, 2), (2, 12, 4), (2, 13, 6)]"
  by code_simp

text \<open>A multiplier between zero and one breaks the price guard the settlement relies on: the
  trade settles below the ask.\<close>

theorem discount_settles_below_ask:
  "case match_cycle exact_dec [demo_order 1 1 2000000000 5 (Some 1) Gtc] [demo_order 2 2 1000000000 3 (Some 1) Gtc]
          demo_meta capped_grid (FastPrice 500000000) 0 of
     Some out \<Rightarrow> mr_settle_price (hd (co_results out)) = 1 / 2 \<and> mr_seller_price (hd (co_results out)) = 1
   | None \<Rightarrow> False"
  by code_simp

end
