(* ===== verification/Grid_Topology.thy ===== *)
theory Grid_Topology imports Engine_Types Charges begin

text \<open>
  \<open>trading-logic/src/energy.rs\<close>: the topology the service runs with.  It admits every flow and
  prices wheeling and loss from the live tariff, in every zone alike.  Each method is its own
  definition (\<^const>\<open>None\<close> is the panic of the decimal arithmetic); \<open>grid_aware_topology\<close> is the
  snapshot a cycle sees, with the panic-free values of the methods.
\<close>

definition gat_can_accommodate_flow :: "zone \<Rightarrow> zone \<Rightarrow> decimal \<Rightarrow> bool" where
  "gat_can_accommodate_flow from_zone to_zone amount = True"

definition gat_calculate_wheeling_charge ::
  "dec_ops \<Rightarrow> static_charge_rates \<Rightarrow> zone \<Rightarrow> zone \<Rightarrow> fast_price option" where
  "gat_calculate_wheeling_charge D rates from_zone to_zone =
     Option.bind (wheeling_per_kwh D rates) (fp_of_decimal D)"

definition gat_calculate_loss_factor ::
  "dec_ops \<Rightarrow> static_charge_rates \<Rightarrow> zone \<Rightarrow> zone \<Rightarrow> fast_price option" where
  "gat_calculate_loss_factor D rates from_zone to_zone =
     Option.bind (loss_factor D rates) (fp_of_decimal D)"

definition grid_aware_topology :: "dec_ops \<Rightarrow> static_charge_rates \<Rightarrow> topology" where
  "grid_aware_topology D rates =
     \<lparr>can_accommodate_flow = gat_can_accommodate_flow,
      calculate_wheeling_charge = (\<lambda>a b. the (gat_calculate_wheeling_charge D rates a b)),
      calculate_loss_factor = (\<lambda>a b. the (gat_calculate_loss_factor D rates a b))\<rparr>"

section \<open>The tariff in price units\<close>

text \<open>A scaled integer converts exactly, clamped into the price range.\<close>

lemma fp_of_scaled:
  assumes "dec_laws D" "d * of_int fp_factor = of_int n" "\<bar>n\<bar> < 2 ^ 96"
  shows "fp_of_decimal D d = Some (FastPrice (i64_clamp n))"
proof -
  have "dmul D d (of_int fp_factor) = Some (of_int n)"
    using assms dec_repr_of_int[OF assms(3)] dmul_exact[of D d "of_int fp_factor"] by simp
  then show ?thesis
    using assms(1) by (auto simp: fp_of_decimal_def dround_of_int i64_clamp_def i64_min_def i64_max_def)
qed

lemma gat_wheeling:
  assumes "dec_laws D"
  shows "gat_calculate_wheeling_charge D rates a b =
           Some (FastPrice (i64_clamp (uint (scr_wheeling_rate_per_kwh rates) * 1000)))"
proof -
  let ?w = "uint (scr_wheeling_rate_per_kwh rates)"
  have "\<bar>?w * 1000\<bar> < 2 ^ 96" using uint_lt2p[of "scr_wheeling_rate_per_kwh rates"] by simp
  moreover have "dec_of_word (scr_wheeling_rate_per_kwh rates) / 1000000 * of_int fp_factor = of_int (?w * 1000)"
    by (simp add: dec_of_word_def fp_factor_def)
  ultimately show ?thesis
    using assms fp_of_scaled[OF assms] by (simp add: gat_calculate_wheeling_charge_def wheeling_per_kwh_exact)
qed

lemma gat_loss:
  assumes "dec_laws D"
  shows "gat_calculate_loss_factor D rates a b =
           Some (FastPrice (fp_factor + uint (scr_loss_bps rates) * 100000))"
proof -
  let ?l = "uint (scr_loss_bps rates)"
  have l: "0 \<le> ?l" "?l < 65536" using uint_lt2p[of "scr_loss_bps rates"] by simp_all
  have "(1 + dec_of_word (scr_loss_bps rates) / 10000) * of_int fp_factor = of_int (fp_factor + ?l * 100000)"
    by (simp add: dec_of_word_def fp_factor_def algebra_simps)
  moreover have "\<bar>fp_factor + ?l * 100000\<bar> < 2 ^ 96" using l by (simp add: fp_factor_def)
  moreover have "i64_clamp (fp_factor + ?l * 100000) = fp_factor + ?l * 100000"
    by (rule i64_clamp_id) (use l in \<open>simp add: i64_ok_def i64_min_def i64_max_def fp_factor_def\<close>)
  ultimately have "fp_of_decimal D (1 + dec_of_word (scr_loss_bps rates) / 10000)
      = Some (FastPrice (fp_factor + ?l * 100000))"
    using fp_of_scaled[OF assms, of "1 + dec_of_word (scr_loss_bps rates) / 10000" "fp_factor + ?l * 100000"]
    by (simp only:)
  then show ?thesis
    using assms by (simp add: gat_calculate_loss_factor_def loss_factor_exact)
qed

text \<open>The live topology meets the contract the engine relies on.\<close>

interpretation live_grid: grid_topology "grid_aware_topology exact_dec rates" for rates
proof
  note w = gat_wheeling[OF dec_laws_exact] and l = gat_loss[OF dec_laws_exact]
  have "0 \<le> uint (scr_loss_bps rates)" "uint (scr_loss_bps rates) < 65536"
    using uint_lt2p[of "scr_loss_bps rates"] by simp_all
  then show "fp_ok (calculate_loss_factor (grid_aware_topology exact_dec rates) a b)" for a b
    by (simp add: grid_aware_topology_def l fp_ok_def i64_ok_def i64_min_def i64_max_def fp_factor_def)
  show "0 \<le> raw (calculate_wheeling_charge (grid_aware_topology exact_dec rates) a b)" for a b
    using uint_ge_0[of "scr_wheeling_rate_per_kwh rates"]
    by (simp add: grid_aware_topology_def w i64_clamp_def i64_max_def le_max_iff_disj)
  show "fp_ok (calculate_wheeling_charge (grid_aware_topology exact_dec rates) a b)" for a b
    by (simp add: grid_aware_topology_def w fp_ok_def)
  show "fp_factor \<le> raw (calculate_loss_factor (grid_aware_topology exact_dec rates) a b)" for a b
    by (simp add: grid_aware_topology_def l)
qed (simp add: grid_aware_topology_def gat_can_accommodate_flow_def)

text \<open>The matcher prices with the tariff the ledger bills: the wheeling charge it uses, in the
  engine's price units, is exactly the charge per kWh of the settlement ledger, up to the largest
  price, and the loss factor minus one is exactly the billed loss rate; neither can panic.\<close>

theorem topology_prices_the_tariff:
  assumes "dec_laws D" and "uint (scr_wheeling_rate_per_kwh rates) \<le> 9223372036854775"
  shows "map_option fp_to_decimal (gat_calculate_wheeling_charge D rates a b) = wheeling_per_kwh D rates \<and>
         map_option fp_to_decimal (gat_calculate_loss_factor D rates a b) = loss_factor D rates \<and>
         loss_factor D rates = Some (1 + dec_of_word (scr_loss_bps rates) / 10000)"
proof -
  let ?w = "uint (scr_wheeling_rate_per_kwh rates)"
  have "i64_clamp (?w * 1000) = ?w * 1000"
  proof (rule i64_clamp_id)
    have "0 \<le> ?w" by simp
    then show "i64_ok (?w * 1000)" using assms(2) unfolding i64_ok_def i64_min_def i64_max_def by linarith
  qed
  then show ?thesis
    using assms(1)
    by (simp add: gat_wheeling gat_loss wheeling_per_kwh_exact loss_factor_exact fp_to_decimal_alt
        dec_of_word_def fp_factor_def add_divide_distrib)
qed

theorem topology_prices_the_tariff_witness:
  "map_option fp_to_decimal (gat_calculate_wheeling_charge exact_dec deployed_rates None None)
     = wheeling_per_kwh exact_dec deployed_rates \<and>
   map_option fp_to_decimal (gat_calculate_loss_factor exact_dec deployed_rates None None)
     = loss_factor exact_dec deployed_rates \<and>
   loss_factor exact_dec deployed_rates = Some (1 + dec_of_word (scr_loss_bps deployed_rates) / 10000)"
  by (rule topology_prices_the_tariff) (simp_all add: deployed_rates_def)

end
