(* ===== verification/Uniform_Auction.thy ===== *)
theory Uniform_Auction imports Engine_Types BTree_Map "HOL-Library.Multiset" begin

text \<open>
  \<open>trading-engine/src/uniform_auction.rs\<close>: the uniform-price auction.  Each zone is swept with two
  pointers over its buys (highest bid first) and sells (lowest ask first); every fill of the zone
  settles at the midpoint of the last bid and ask that traded.  Indices come from the order
  slices themselves; \<^const>\<open>None\<close> is a panic (metadata index out of range, decimal overflow).
\<close>

section \<open>The model\<close>

record zone_clearing =
  zn_zone_id :: zone
  zn_clearing_price :: decimal
  zn_cleared_volume :: decimal
  zn_matches :: "match_result list"

definition auction_add :: "int \<Rightarrow> nat \<times> fast_order \<Rightarrow> (zone, nat list) btree_map \<Rightarrow> (zone, nat list) btree_map" where
  "auction_add now_ns = (\<lambda>(idx, ord) m.
     if remaining_amount ord \<ge> min_trade_amount \<and> \<not> is_expired ord now_ns
     then bt_update (fo_zone_id ord) [] (\<lambda>v. v @ [idx]) m
     else m)"

definition partition_by_zone :: "fast_order list \<Rightarrow> int \<Rightarrow> (zone, nat list) btree_map" where
  "partition_by_zone orders now_ns = fold (auction_add now_ns) (List.enumerate 0 orders) []"

record sweep_state =
  sw_buys :: "fast_order list"
  sw_sells :: "fast_order list"
  sw_fills :: "(nat \<times> nat \<times> decimal) list"
  sw_marginal :: "(fast_price \<times> fast_price) option" \<comment> \<open>last bid and ask that traded\<close>

text \<open>One fill of the sweep.\<close>

definition sweep_fill :: "nat \<Rightarrow> nat \<Rightarrow> decimal \<Rightarrow> sweep_state \<Rightarrow> sweep_state" where
  "sweep_fill bi sj amount st =
     st\<lparr>sw_buys := (sw_buys st)[bi := add_fill amount (sw_buys st ! bi)],
        sw_sells := (sw_sells st)[sj := add_fill amount (sw_sells st ! sj)],
        sw_fills := sw_fills st @ [(bi, sj, amount)],
        sw_marginal := Some (fo_price (sw_buys st ! bi), fo_price (sw_sells st ! sj))\<rparr>"

text \<open>The two-pointer loop: the lists are what the pointers \<open>i\<close> and \<open>j\<close> have not passed.\<close>

function sweep :: "nat list \<Rightarrow> nat list \<Rightarrow> sweep_state \<Rightarrow> sweep_state" where
  "sweep [] ss st = st"
| "sweep (b # bs) [] st = st"
| "sweep (b # bs) (s # ss) st =
     (let buy = sw_buys st ! b; sell = sw_sells st ! s in
      if fo_price buy < fo_price sell then st
      else if fo_user_id buy = fo_user_id sell then sweep (b # bs) ss st
      else let buy_rem = remaining_amount buy; sell_rem = remaining_amount sell in
        if buy_rem < min_trade_amount then sweep bs (s # ss) st
        else if sell_rem < min_trade_amount then sweep (b # bs) ss st
        else let amount = min buy_rem sell_rem in
          sweep (if remaining_amount (add_fill amount buy) < min_trade_amount then bs else b # bs)
                (if remaining_amount (add_fill amount sell) < min_trade_amount then ss else s # ss)
                (sweep_fill b s amount st))"
  by pat_completeness auto
termination
  by (relation "measure (\<lambda>(bs, ss, _). length bs + length ss)")
    (auto simp: min_def min_trade_amount_def)

text \<open>\<open>i64::midpoint\<close> rounds towards zero.\<close>

definition i64_midpoint :: "int \<Rightarrow> int \<Rightarrow> int" where
  "i64_midpoint a b = (a + b) sdiv 2"

definition auction_match ::
  "dec_ops \<Rightarrow> order_metadata list \<Rightarrow> fast_order \<Rightarrow> fast_order \<Rightarrow> decimal \<Rightarrow> decimal \<Rightarrow> decimal \<Rightarrow> decimal
     \<Rightarrow> decimal \<Rightarrow> match_result option" where
  "auction_match D buy_metadata buy sell amount p_star wheeling_unit loss_factor loss_cost_unit =
     (if fo_metadata_index buy < length buy_metadata then do {
        energy_cost \<leftarrow> dmul D amount p_star;
        wheeling \<leftarrow> dmul D amount wheeling_unit;
        loss_cost \<leftarrow> dmul D amount loss_cost_unit;
        Some \<lparr>mr_buy_order_id = fo_id buy, mr_sell_order_id = fo_id sell,
              mr_buy_metadata_index = fo_metadata_index buy,
              mr_sell_metadata_index = fo_metadata_index sell,
              mr_match_amount = amount, mr_match_price = p_star, mr_settle_price = p_star,
              mr_seller_price = fp_to_decimal (fo_price sell),
              mr_buyer_price = fp_to_decimal (fo_price buy),
              mr_total_energy_cost = energy_cost, mr_wheeling_charge = wheeling,
              mr_loss_factor = loss_factor, mr_loss_cost = loss_cost,
              mr_buyer_zone_id = fo_zone_id buy, mr_seller_zone_id = fo_zone_id sell,
              mr_buyer_id = fo_user_id buy, mr_seller_id = fo_user_id sell,
              mr_epoch_id = md_epoch_id (buy_metadata ! fo_metadata_index buy)\<rparr> }
      else None)"

fun collect_matches :: "('a \<Rightarrow> match_result option) \<Rightarrow> 'a list \<Rightarrow> match_result list option" where
  "collect_matches f [] = Some []"
| "collect_matches f (x # xs) = do { r \<leftarrow> f x; rs \<leftarrow> collect_matches f xs; Some (r # rs) }"

definition auction_loss_cost :: "fast_price \<Rightarrow> fast_price \<Rightarrow> int" where
  "auction_loss_cost p_star loss =
     (let extra_loss_raw = max (i64_saturating_sub (raw loss) fp_factor) 0
      in unwrap_or (i64_try_from ((raw p_star * extra_loss_raw) sdiv fp_factor)) i64_max)"

definition settle_fills ::
  "dec_ops \<Rightarrow> zone \<Rightarrow> (nat \<times> nat \<times> decimal) list \<Rightarrow> fast_price \<Rightarrow> fast_order list \<Rightarrow> fast_order list
     \<Rightarrow> order_metadata list \<Rightarrow> topology \<Rightarrow> zone_clearing option" where
  "settle_fills D z fills p_star_fp buys sells buy_metadata topo =
     (let p_star = fp_to_decimal p_star_fp;
          wheeling_fp = calculate_wheeling_charge topo z z;
          loss_fp = calculate_loss_factor topo z z;
          loss_cost_unit = fp_to_decimal (fp_from_raw (auction_loss_cost p_star_fp loss_fp));
          wheeling_unit = fp_to_decimal wheeling_fp;
          loss_factor = fp_to_decimal loss_fp
      in do {
        matches \<leftarrow> collect_matches (\<lambda>(bi, sj, amount).
            auction_match D buy_metadata (buys ! bi) (sells ! sj) amount p_star wheeling_unit
              loss_factor loss_cost_unit) fills;
        Some \<lparr>zn_zone_id = z, zn_clearing_price = p_star,
              zn_cleared_volume = sum_list (map (\<lambda>(_, _, amount). amount) fills),
              zn_matches = matches\<rparr> })"

definition auction_buy_key :: "fast_order \<Rightarrow> int \<times> int \<times> uuid" where
  "auction_buy_key b = (- raw (fo_price b), fo_created_at_ns b, fo_id b)"

definition clear_zone ::
  "dec_ops \<Rightarrow> zone \<Rightarrow> nat list \<Rightarrow> nat list \<Rightarrow> fast_order list \<Rightarrow> fast_order list \<Rightarrow> order_metadata list
     \<Rightarrow> topology \<Rightarrow> (zone_clearing option \<times> fast_order list \<times> fast_order list) option" where
  "clear_zone D z buy_ix sell_ix buys sells buy_metadata topo =
     (let bs = sort_key (\<lambda>i. auction_buy_key (buys ! i)) buy_ix;
          ss = sort_key (\<lambda>i. sell_key (sells ! i)) sell_ix;
          st = sweep bs ss \<lparr>sw_buys = buys, sw_sells = sells, sw_fills = [], sw_marginal = None\<rparr>
      in case sw_marginal st of
           None \<Rightarrow> Some (None, sw_buys st, sw_sells st)
         | Some (b_m, s_m) \<Rightarrow>
             if sw_fills st = [] then Some (None, sw_buys st, sw_sells st)
             else do {
               zc \<leftarrow> settle_fills D z (sw_fills st) (fp_from_raw (i64_midpoint (raw b_m) (raw s_m)))
                      (sw_buys st) (sw_sells st) buy_metadata topo;
               Some (Some zc, sw_buys st, sw_sells st) })"

record auction_state =
  au_buys :: "fast_order list"
  au_sells :: "fast_order list"
  au_zones :: "zone_clearing list"
  au_stats :: cycle_stats

definition clear_step ::
  "dec_ops \<Rightarrow> (zone, nat list) btree_map \<Rightarrow> order_metadata list \<Rightarrow> topology \<Rightarrow> zone \<times> nat list
     \<Rightarrow> auction_state \<Rightarrow> auction_state option" where
  "clear_step D sells_by_zone buy_metadata topo = (\<lambda>(z, buy_ix) a.
     case bt_get sells_by_zone z of
       None \<Rightarrow> Some a
     | Some sell_ix \<Rightarrow> do {
         (zc, buys', sells') \<leftarrow> clear_zone D z buy_ix sell_ix (au_buys a) (au_sells a) buy_metadata topo;
         Some (case zc of
             None \<Rightarrow> a\<lparr>au_buys := buys', au_sells := sells'\<rparr>
           | Some c \<Rightarrow> a\<lparr>au_buys := buys', au_sells := sells', au_zones := au_zones a @ [c],
                        au_stats := (au_stats a)\<lparr>cs_matches_created := cs_matches_created (au_stats a) + length (zn_matches c),
                                                 cs_total_volume := cs_total_volume (au_stats a) + zn_cleared_volume c\<rparr>\<rparr>) })"

definition clear_cycle ::
  "dec_ops \<Rightarrow> fast_order list \<Rightarrow> fast_order list \<Rightarrow> order_metadata list \<Rightarrow> topology \<Rightarrow> int \<Rightarrow> auction_state option" where
  "clear_cycle D buys sells buy_metadata topo now_ns =
     (let buys_by_zone = partition_by_zone buys now_ns; sells_by_zone = partition_by_zone sells now_ns in
      fold_opt (clear_step D sells_by_zone buy_metadata topo) buys_by_zone
        \<lparr>au_buys = buys, au_sells = sells, au_zones = [],
         au_stats = \<lparr>cs_matches_created = 0, cs_total_volume = 0, cs_ioc_cancellations = []\<rparr>\<rparr>)"

section \<open>The sweep\<close>

definition fill_total :: "(nat \<times> nat \<times> decimal \<Rightarrow> bool) \<Rightarrow> (nat \<times> nat \<times> decimal) list \<Rightarrow> decimal" where
  "fill_total P F = sum_list (map (\<lambda>(_, _, a). a) (filter P F))"

lemma fill_total_simps [simp]:
  "fill_total P [] = 0"
  "fill_total P ((b, s, a) # F) = (if P (b, s, a) then a + fill_total P F else fill_total P F)"
  by (simp_all add: fill_total_def)

text \<open>A fill between two listed orders that may trade.\<close>

definition fair_fill :: "nat list \<Rightarrow> nat list \<Rightarrow> fast_order list \<Rightarrow> fast_order list \<Rightarrow> nat \<times> nat \<times> decimal \<Rightarrow> bool" where
  "fair_fill bs ss buys sells = (\<lambda>(b, s, a).
     b \<in> set bs \<and> s \<in> set ss \<and> min_trade_amount \<le> a \<and>
     fo_user_id (buys ! b) \<noteq> fo_user_id (sells ! s) \<and> fo_price (sells ! s) \<le> fo_price (buys ! b))"

text \<open>What a sweep did: the fills \<open>F\<close> it appended and their effect.\<close>

definition swept ::
  "nat list \<Rightarrow> nat list \<Rightarrow> sweep_state \<Rightarrow> (nat \<times> nat \<times> decimal) list \<Rightarrow> sweep_state \<Rightarrow> bool" where
  "swept bs ss st F st' \<longleftrightarrow>
     sw_fills st' = sw_fills st @ F \<and>
     (\<forall>f\<in>set F. fair_fill bs ss (sw_buys st) (sw_sells st) f) \<and>
     length (sw_buys st') = length (sw_buys st) \<and> length (sw_sells st') = length (sw_sells st) \<and>
     (\<forall>k<length (sw_buys st). sw_buys st' ! k = add_fill (fill_total (\<lambda>(b, s, a). b = k) F) (sw_buys st ! k)) \<and>
     (\<forall>k<length (sw_sells st). sw_sells st' ! k = add_fill (fill_total (\<lambda>(b, s, a). s = k) F) (sw_sells st ! k)) \<and>
     (\<forall>k<length (sw_buys st). 0 \<le> remaining_amount (sw_buys st ! k) \<longrightarrow> 0 \<le> remaining_amount (sw_buys st' ! k)) \<and>
     (\<forall>k<length (sw_sells st). 0 \<le> remaining_amount (sw_sells st ! k) \<longrightarrow> 0 \<le> remaining_amount (sw_sells st' ! k)) \<and>
     sw_marginal st' = (if F = [] then sw_marginal st
       else Some (fo_price (sw_buys st ! fst (last F)), fo_price (sw_sells st ! fst (snd (last F)))))"

lemma swept_refl [simp]: "swept bs ss st [] st"
  by (simp add: swept_def)

lemma fair_fill_mono:
  "fair_fill bs ss buys sells f \<Longrightarrow> set bs \<subseteq> set bs' \<Longrightarrow> set ss \<subseteq> set ss' \<Longrightarrow> fair_fill bs' ss' buys sells f"
  by (auto simp: fair_fill_def)

lemma swept_mono:
  "swept bs ss st F st' \<Longrightarrow> set bs \<subseteq> set bs' \<Longrightarrow> set ss \<subseteq> set ss' \<Longrightarrow> swept bs' ss' st F st'"
  using fair_fill_mono by (auto simp: swept_def)

lemma swept_fill:
  assumes sw: "swept bs' ss' (sweep_fill b s a st) F st'"
    and sub: "set bs' \<subseteq> set bs" "set ss' \<subseteq> set ss" "b \<in> set bs" "s \<in> set ss"
    and idx: "b < length (sw_buys st)" "s < length (sw_sells st)"
    and fair: "fo_user_id (sw_buys st ! b) \<noteq> fo_user_id (sw_sells st ! s)"
      "fo_price (sw_sells st ! s) \<le> fo_price (sw_buys st ! b)"
    and a: "min_trade_amount \<le> a" "a \<le> remaining_amount (sw_buys st ! b)" "a \<le> remaining_amount (sw_sells st ! s)"
  shows "swept bs ss st ((b, s, a) # F) st'"
proof -
  let ?st = "sweep_fill b s a st"
  have buys: "sw_buys ?st ! k = (if k = b then add_fill a (sw_buys st ! b) else sw_buys st ! k)" for k
    using idx by (simp add: sweep_fill_def nth_list_update)
  have sells: "sw_sells ?st ! k = (if k = s then add_fill a (sw_sells st ! s) else sw_sells st ! k)" for k
    using idx by (simp add: sweep_fill_def nth_list_update)
  have len: "length (sw_buys ?st) = length (sw_buys st)" "length (sw_sells ?st) = length (sw_sells st)"
    by (simp_all add: sweep_fill_def)
  have price: "fo_price (sw_buys ?st ! k) = fo_price (sw_buys st ! k)"
    "fo_user_id (sw_buys ?st ! k) = fo_user_id (sw_buys st ! k)"
    "fo_price (sw_sells ?st ! k) = fo_price (sw_sells st ! k)"
    "fo_user_id (sw_sells ?st ! k) = fo_user_id (sw_sells st ! k)" for k
    by (simp_all add: buys sells)
  have ff: "fair_fill bs ss (sw_buys st) (sw_sells st) f" if "f \<in> set F" for f
    using that sw sub unfolding swept_def fair_fill_def price by fastforce
  moreover have "fair_fill bs ss (sw_buys st) (sw_sells st) (b, s, a)"
    using sub fair a by (simp add: fair_fill_def)
  ultimately have fair_all: "\<forall>f\<in>set ((b, s, a) # F). fair_fill bs ss (sw_buys st) (sw_sells st) f" by simp
  have fm: "sw_fills ?st = sw_fills st @ [(b, s, a)]"
    "sw_marginal ?st = Some (fo_price (sw_buys st ! b), fo_price (sw_sells st ! s))"
    by (simp_all add: sweep_fill_def)
  note S = sw[unfolded swept_def len price fm]
  have "sw_buys st' ! k = add_fill (fill_total (\<lambda>(b, s, a). b = k) ((b, s, a) # F)) (sw_buys st ! k)"
    if "k < length (sw_buys st)" for k
    using S that by (simp add: buys)
  moreover have "sw_sells st' ! k = add_fill (fill_total (\<lambda>(b, s, a). s = k) ((b, s, a) # F)) (sw_sells st ! k)"
    if "k < length (sw_sells st)" for k
    using S that by (simp add: sells)
  moreover have "0 \<le> remaining_amount (sw_buys st' ! k)"
    if "k < length (sw_buys st)" "0 \<le> remaining_amount (sw_buys st ! k)" for k
    using S that a by (cases "k = b") (auto simp: buys)
  moreover have "0 \<le> remaining_amount (sw_sells st' ! k)"
    if "k < length (sw_sells st)" "0 \<le> remaining_amount (sw_sells st ! k)" for k
    using S that a by (cases "k = s") (auto simp: sells)
  ultimately show ?thesis
    using S fair_all unfolding swept_def by (simp del: fill_total_simps)
qed

text \<open>Lists in priority order, and fills in the order the pointers move.\<close>

definition price_sorted :: "nat list \<Rightarrow> nat list \<Rightarrow> sweep_state \<Rightarrow> bool" where
  "price_sorted bs ss st \<longleftrightarrow>
     sorted_wrt (\<lambda>i j. fo_price (sw_buys st ! j) \<le> fo_price (sw_buys st ! i)) bs \<and>
     sorted_wrt (\<lambda>i j. fo_price (sw_sells st ! i) \<le> fo_price (sw_sells st ! j)) ss"

definition ordered_fills :: "sweep_state \<Rightarrow> (nat \<times> nat \<times> decimal) list \<Rightarrow> bool" where
  "ordered_fills st F \<longleftrightarrow> sorted_wrt (\<lambda>(b, s, _) (b', s', _).
     fo_price (sw_buys st ! b') \<le> fo_price (sw_buys st ! b) \<and>
     fo_price (sw_sells st ! s) \<le> fo_price (sw_sells st ! s')) F"

lemma sweep_fill_price [simp]:
  assumes "b < length (sw_buys st)" "s < length (sw_sells st)"
  shows "fo_price (sw_buys (sweep_fill b s a st) ! k) = fo_price (sw_buys st ! k)"
    and "fo_price (sw_sells (sweep_fill b s a st) ! k) = fo_price (sw_sells st ! k)"
  using assms by (simp_all add: sweep_fill_def nth_list_update)

lemma ordered_fills_Cons:
  assumes "price_sorted (b # bs) (s # ss) st" "ordered_fills st F"
    and "\<And>f. f \<in> set F \<Longrightarrow> fst f \<in> set (b # bs) \<and> fst (snd f) \<in> set (s # ss)"
  shows "ordered_fills st ((b, s, a) # F)"
  using assms by (fastforce simp: ordered_fills_def price_sorted_def simp del: fp_order_simps)

lemma sweep_swept:
  "\<lbrakk>\<forall>b\<in>set bs. b < length (sw_buys st); \<forall>s\<in>set ss. s < length (sw_sells st)\<rbrakk> \<Longrightarrow>
     \<exists>F. swept bs ss st F (sweep bs ss st) \<and> (price_sorted bs ss st \<longrightarrow> ordered_fills st F)"
proof (induction bs ss st rule: sweep.induct)
  case (1 ss st)
  show ?case by (rule exI[of _ "[]"]) (simp add: ordered_fills_def)
next
  case (2 b bs st)
  show ?case by (rule exI[of _ "[]"]) (simp add: ordered_fills_def)
next
  case (3 b bs s ss st)
  let ?buy = "sw_buys st ! b" and ?sell = "sw_sells st ! s"
  let ?a = "min (remaining_amount ?buy) (remaining_amount ?sell)"
  let ?bs = "if remaining_amount (add_fill ?a ?buy) < min_trade_amount then bs else b # bs"
  let ?ss = "if remaining_amount (add_fill ?a ?sell) < min_trade_amount then ss else s # ss"
  have bound: "\<forall>x\<in>set bs. x < length (sw_buys st)" "\<forall>x\<in>set ss. x < length (sw_sells st)"
    "b < length (sw_buys st)" "s < length (sw_sells st)"
    using "3.prems" by auto
  consider (stop) "fo_price ?buy < fo_price ?sell"
    | (self) "\<not> fo_price ?buy < fo_price ?sell" "fo_user_id ?buy = fo_user_id ?sell"
    | (dust_buy) "\<not> fo_price ?buy < fo_price ?sell" "fo_user_id ?buy \<noteq> fo_user_id ?sell"
        "remaining_amount ?buy < min_trade_amount"
    | (dust_sell) "\<not> fo_price ?buy < fo_price ?sell" "fo_user_id ?buy \<noteq> fo_user_id ?sell"
        "\<not> remaining_amount ?buy < min_trade_amount" "remaining_amount ?sell < min_trade_amount"
    | (fill) "\<not> fo_price ?buy < fo_price ?sell" "fo_user_id ?buy \<noteq> fo_user_id ?sell"
        "\<not> remaining_amount ?buy < min_trade_amount" "\<not> remaining_amount ?sell < min_trade_amount"
    by blast
  then show ?case
  proof cases
    case stop
    then show ?thesis by (intro exI[of _ "[]"]) (simp add: ordered_fills_def)
  next
    case self
    then obtain F where F: "swept (b # bs) ss st F (sweep (b # bs) ss st)"
      "price_sorted (b # bs) ss st \<longrightarrow> ordered_fills st F"
      using "3.IH"(1)[OF refl refl] "3.prems" by auto
    have "swept (b # bs) (s # ss) st F (sweep (b # bs) ss st)" by (rule swept_mono[OF F(1)]) auto
    then show ?thesis using self F(2) by (auto simp: price_sorted_def)
  next
    case dust_buy
    then obtain F where F: "swept bs (s # ss) st F (sweep bs (s # ss) st)"
      "price_sorted bs (s # ss) st \<longrightarrow> ordered_fills st F"
      using "3.IH"(2)[OF refl refl _ _ refl refl] "3.prems" by auto
    have "swept (b # bs) (s # ss) st F (sweep bs (s # ss) st)" by (rule swept_mono[OF F(1)]) auto
    then show ?thesis using dust_buy F(2) by (auto simp: price_sorted_def)
  next
    case dust_sell
    then obtain F where F: "swept (b # bs) ss st F (sweep (b # bs) ss st)"
      "price_sorted (b # bs) ss st \<longrightarrow> ordered_fills st F"
      using "3.IH"(3)[OF refl refl _ _ refl refl] "3.prems" by auto
    have "swept (b # bs) (s # ss) st F (sweep (b # bs) ss st)" by (rule swept_mono[OF F(1)]) auto
    then show ?thesis using dust_sell F(2) by (auto simp: price_sorted_def)
  next
    case fill
    have step: "sweep (b # bs) (s # ss) st = sweep ?bs ?ss (sweep_fill b s ?a st)"
      using fill by (simp add: Let_def)
    let ?st = "sweep_fill b s ?a st"
    have "\<exists>F. swept ?bs ?ss ?st F (sweep ?bs ?ss ?st) \<and> (price_sorted ?bs ?ss ?st \<longrightarrow> ordered_fills ?st F)"
      using "3.IH"(4)[OF refl refl _ _ refl refl _ _ refl] fill bound by (auto simp: sweep_fill_def)
    then obtain F where F: "swept ?bs ?ss ?st F (sweep ?bs ?ss ?st)"
      "price_sorted ?bs ?ss ?st \<longrightarrow> ordered_fills ?st F" by blast
    have "swept (b # bs) (s # ss) st ((b, s, ?a) # F) (sweep (b # bs) (s # ss) st)"
      unfolding step by (rule swept_fill[OF F(1)]) (use fill bound in \<open>auto simp: not_less\<close>)
    moreover have "ordered_fills st ((b, s, ?a) # F)" if ps: "price_sorted (b # bs) (s # ss) st"
    proof (rule ordered_fills_Cons[OF ps])
      have "price_sorted ?bs ?ss ?st" using ps bound by (auto simp: price_sorted_def simp del: fp_order_simps)
      then show "ordered_fills st F" using F(2) bound by (simp add: ordered_fills_def)
      show "fst f \<in> set (b # bs) \<and> fst (snd f) \<in> set (s # ss)" if "f \<in> set F" for f
      proof -
        have "fair_fill ?bs ?ss (sw_buys ?st) (sw_sells ?st) f" using F(1) that unfolding swept_def by blast
        then have "fst f \<in> set ?bs" "fst (snd f) \<in> set ?ss" by (cases f; simp only: fair_fill_def split fst_conv snd_conv)+
        moreover have "set ?bs \<subseteq> set (b # bs)" "set ?ss \<subseteq> set (s # ss)" by auto
        ultimately show ?thesis by blast
      qed
    qed
    ultimately show ?thesis by blast
  qed
qed

end
