(* ===== verification/Auction_Clearing.thy ===== *)
theory Auction_Clearing imports Uniform_Auction begin

text \<open>
  Correctness of the uniform-price auction: the zones' books hold live orders of the zone, every
  fill of a zone is individually rational at the zone's one clearing price, the fills account for
  every change of the orders, and the cycle returns.  Two examples show where the auction departs
  from the continuous matcher.
\<close>

section \<open>The partition\<close>

definition zone_index_ok :: "fast_order list \<Rightarrow> int \<Rightarrow> zone \<Rightarrow> nat \<Rightarrow> bool" where
  "zone_index_ok orders now z i \<longleftrightarrow>
     i < length orders \<and> fo_zone_id (orders ! i) = z \<and>
     min_trade_amount \<le> remaining_amount (orders ! i) \<and> \<not> is_expired (orders ! i) now"

lemma auction_add_keeps:
  assumes "bt_ok m" and "\<And>z ix i. bt_get m z = Some ix \<Longrightarrow> i \<in> set ix \<Longrightarrow> zone_index_ok orders now z i"
    and "idx < length orders"
  shows "bt_ok (auction_add now (idx, orders ! idx) m) \<and>
    (\<forall>z ix i. bt_get (auction_add now (idx, orders ! idx) m) z = Some ix \<longrightarrow> i \<in> set ix \<longrightarrow> zone_index_ok orders now z i)"
  using assms(1,3) assms(2)[of "fo_zone_id (orders ! idx)"] assms(2)
  by (cases "bt_get m (fo_zone_id (orders ! idx))")
    (auto simp: auction_add_def zone_index_ok_def unwrap_or_def)

lemma partition_by_zone_ok:
  "bt_ok (partition_by_zone orders now) \<and>
   (\<forall>z ix i. bt_get (partition_by_zone orders now) z = Some ix \<longrightarrow> i \<in> set ix \<longrightarrow> zone_index_ok orders now z i)"
proof -
  have "bt_ok (fold (auction_add now) es m) \<and>
    (\<forall>z ix i. bt_get (fold (auction_add now) es m) z = Some ix \<longrightarrow> i \<in> set ix \<longrightarrow> zone_index_ok orders now z i)"
    if "set es \<subseteq> set (List.enumerate 0 orders)" and "bt_ok m"
      and "\<And>z ix i. bt_get m z = Some ix \<Longrightarrow> i \<in> set ix \<Longrightarrow> zone_index_ok orders now z i" for es m
    using that
  proof (induction es arbitrary: m)
    case Nil
    then show ?case by auto
  next
    case (Cons e es)
    obtain idx where e: "e = (idx, orders ! idx)" "idx < length orders"
      using Cons.prems(1) by (cases e) (auto simp: in_set_enumerate_eq)
    have "bt_ok (auction_add now e m)"
      "\<And>z ix i. bt_get (auction_add now e m) z = Some ix \<Longrightarrow> i \<in> set ix \<Longrightarrow> zone_index_ok orders now z i"
      using auction_add_keeps[OF Cons.prems(2,3) e(2)] by (auto simp: e(1))
    then show ?case using Cons.IH[of "auction_add now e m"] Cons.prems(1) by simp
  qed
  from this[of "List.enumerate 0 orders" "[]"] show ?thesis
    by (simp add: partition_by_zone_def bt_get_def)
qed

lemmas partition_ok = partition_by_zone_ok[THEN conjunct1]
lemmas partition_index = partition_by_zone_ok[THEN conjunct2, rule_format]

section \<open>One zone\<close>

lemma i64_midpoint_between: "a \<le> b \<Longrightarrow> a \<le> i64_midpoint b a \<and> i64_midpoint b a \<le> b"
proof -
  assume ab: "a \<le> b"
  show ?thesis
  proof (cases "0 \<le> b + a")
    case True
    then show ?thesis using ab by (simp add: i64_midpoint_def sdiv_nonneg) linarith
  next
    case False
    then have "(b + a) sdiv 2 = - ((- (b + a)) div 2)" by (simp add: signed_divide_int_def)
    then show ?thesis using ab False unfolding i64_midpoint_def by linarith
  qed
qed

text \<open>A result that records a fill between two orders of the original slices.\<close>

definition records_fill ::
  "order_metadata list \<Rightarrow> fast_order list \<Rightarrow> fast_order list \<Rightarrow> decimal \<Rightarrow> nat \<times> nat \<times> decimal \<Rightarrow> match_result \<Rightarrow> bool" where
  "records_fill meta buys sells p = (\<lambda>(b, s, a) r.
     mr_buy_order_id r = fo_id (buys ! b) \<and> mr_sell_order_id r = fo_id (sells ! s) \<and>
     mr_match_amount r = a \<and> mr_settle_price r = p \<and> mr_match_price r = p \<and>
     mr_seller_price r = fp_to_decimal (fo_price (sells ! s)) \<and>
     mr_buyer_price r = fp_to_decimal (fo_price (buys ! b)) \<and>
     mr_buyer_id r = fo_user_id (buys ! b) \<and> mr_seller_id r = fo_user_id (sells ! s) \<and>
     mr_buyer_zone_id r = fo_zone_id (buys ! b) \<and> mr_seller_zone_id r = fo_zone_id (sells ! s) \<and>
     mr_epoch_id r = md_epoch_id (meta ! fo_metadata_index (buys ! b)))"

lemma collect_matches_all2:
  "collect_matches f xs = Some rs \<longleftrightarrow> list_all2 (\<lambda>x r. f x = Some r) xs rs"
proof (induction xs arbitrary: rs)
  case Nil
  then show ?case by auto
next
  case (Cons x xs)
  then show ?case by (cases rs) (auto simp: bind_eq_Some_conv)
qed

lemma auction_match_records:
  "auction_match D meta (buys ! b) (sells ! s) a p w l lc = Some r \<Longrightarrow> records_fill meta buys sells p (b, s, a) r"
  by (auto simp: auction_match_def records_fill_def bind_eq_Some_conv split: if_splits)

lemma settle_fills_records:
  assumes "settle_fills D z F p buys sells meta topo = Some c"
  shows "zn_zone_id c = z \<and> zn_clearing_price c = fp_to_decimal p \<and>
         zn_cleared_volume c = fill_total (\<lambda>_. True) F \<and>
         list_all2 (records_fill meta buys sells (fp_to_decimal p)) F (zn_matches c)"
  using assms auction_match_records[of D meta buys _ sells]
  by (auto simp: settle_fills_def Let_def bind_eq_Some_conv collect_matches_all2 fill_total_def
      split_def elim!: list_all2_mono)

text \<open>The clearing of one zone: every fill is between listed orders of different users whose
  limits contain the clearing price.\<close>

definition zone_fill :: "nat list \<Rightarrow> nat list \<Rightarrow> fast_order list \<Rightarrow> fast_order list \<Rightarrow> fast_price \<Rightarrow> nat \<times> nat \<times> decimal \<Rightarrow> bool" where
  "zone_fill bs ss buys sells p = (\<lambda>(b, s, a).
     fair_fill bs ss buys sells (b, s, a) \<and> fo_price (sells ! s) \<le> p \<and> p \<le> fo_price (buys ! b))"

lemma ordered_fills_bounds:
  assumes "ordered_fills st F" and "f \<in> set F"
  shows "fo_price (sw_buys st ! fst (last F)) \<le> fo_price (sw_buys st ! fst f)"
    and "fo_price (sw_sells st ! fst (snd f)) \<le> fo_price (sw_sells st ! fst (snd (last F)))"
proof -
  obtain G g where F: "F = G @ [g]" using assms(2) by (cases F rule: rev_cases) auto
  have "f = g \<or> f \<in> set G" using assms(2) F by auto
  then show "fo_price (sw_buys st ! fst (last F)) \<le> fo_price (sw_buys st ! fst f)"
    and "fo_price (sw_sells st ! fst (snd f)) \<le> fo_price (sw_sells st ! fst (snd (last F)))"
    using assms(1) F by (auto simp: ordered_fills_def sorted_wrt_append split_def)
qed

lemma price_sorted_keys:
  "price_sorted (sort_key (\<lambda>i. auction_buy_key (sw_buys st ! i)) bs)
     (sort_key (\<lambda>i. sell_key (sw_sells st ! i)) ss) st"
proof -
  have "sorted_wrt (\<lambda>i j. auction_buy_key (sw_buys st ! i) \<le> auction_buy_key (sw_buys st ! j))
          (sort_key (\<lambda>i. auction_buy_key (sw_buys st ! i)) bs)"
    "sorted_wrt (\<lambda>i j. sell_key (sw_sells st ! i) \<le> sell_key (sw_sells st ! j))
          (sort_key (\<lambda>i. sell_key (sw_sells st ! i)) ss)"
    using sorted_sort_key[of "\<lambda>i. auction_buy_key (sw_buys st ! i)" bs]
      sorted_sort_key[of "\<lambda>i. sell_key (sw_sells st ! i)" ss] by (simp_all add: sorted_map)
  then show ?thesis unfolding price_sorted_def
    by (auto elim!: sorted_wrt_mono_rel[rotated] simp: auction_buy_key_def sell_key_def less_eq_prod_def)
qed

lemma clear_zone_correct:
  assumes cz: "clear_zone D z bs ss buys sells meta topo = Some (zc, buys', sells')"
    and idx: "\<forall>b\<in>set bs. b < length buys" "\<forall>s\<in>set ss. s < length sells"
  obtains F p st' where
    "swept bs ss \<lparr>sw_buys = buys, sw_sells = sells, sw_fills = [], sw_marginal = None\<rparr> F st'"
    "sw_buys st' = buys'" "sw_sells st' = sells'"
    "zc = None \<and> F = [] \<or> (\<exists>c. zc = Some c \<and> settle_fills D z F p buys' sells' meta topo = Some c)"
    "\<forall>f\<in>set F. zone_fill bs ss buys sells p f"
proof -
  let ?st = "\<lparr>sw_buys = buys, sw_sells = sells, sw_fills = [], sw_marginal = None\<rparr>"
  let ?bs = "sort_key (\<lambda>i. auction_buy_key (buys ! i)) bs" and ?ss = "sort_key (\<lambda>i. sell_key (sells ! i)) ss"
  define st' where "st' = sweep ?bs ?ss ?st"
  obtain F where sw: "swept ?bs ?ss ?st F st'" and ord: "ordered_fills ?st F"
    using sweep_swept[of ?bs ?st ?ss] price_sorted_keys[of ?st bs ss] idx by (auto simp: st'_def)
  have sw': "swept bs ss ?st F st'" by (rule swept_mono[OF sw]) simp_all
  have fills: "sw_fills st' = F" and marg: "sw_marginal st' = (if F = [] then None
      else Some (fo_price (buys ! fst (last F)), fo_price (sells ! fst (snd (last F)))))"
    using sw by (simp_all add: swept_def)
  show thesis
  proof (cases "F = []")
    case True
    then show thesis using cz sw' that[of F st' p] marg by (simp add: clear_zone_def Let_def st'_def[symmetric])
  next
    case False
    let ?l = "last F"
    define p where "p = fp_from_raw (i64_midpoint (raw (fo_price (buys ! fst ?l))) (raw (fo_price (sells ! fst (snd ?l)))))"
    have fair: "fair_fill bs ss buys sells f" if "f \<in> set F" for f using sw' that by (simp add: swept_def)
    have "fo_price (sells ! fst (snd ?l)) \<le> fo_price (buys ! fst ?l)"
      using fair[OF last_in_set[OF False]] by (simp add: fair_fill_def split_def)
    then have mid: "fo_price (sells ! fst (snd ?l)) \<le> p" "p \<le> fo_price (buys ! fst ?l)"
      using i64_midpoint_between by (simp_all add: p_def fp_from_raw_def)
    have zf: "zone_fill bs ss buys sells p f" if "f \<in> set F" for f
      using fair[OF that] ordered_fills_bounds[OF ord that] mid
      by (auto simp: zone_fill_def split_def simp del: fp_order_simps intro: order_trans)
    show thesis
      using cz sw' False that[of F st' p] marg fills zf
      by (auto simp: clear_zone_def Let_def st'_def[symmetric] p_def bind_eq_Some_conv)
  qed
qed

section \<open>The cycle\<close>

text \<open>A cleared zone with the fills behind it.\<close>

definition zone_ok ::
  "order_metadata list \<Rightarrow> int \<Rightarrow> fast_order list \<Rightarrow> fast_order list \<Rightarrow> (nat \<times> nat \<times> decimal) list \<Rightarrow> zone_clearing \<Rightarrow> bool" where
  "zone_ok meta now buys sells F c \<longleftrightarrow>
     zn_cleared_volume c = fill_total (\<lambda>_. True) F \<and>
     list_all2 (records_fill meta buys sells (zn_clearing_price c)) F (zn_matches c) \<and>
     (\<exists>p. zn_clearing_price c = fp_to_decimal p \<and> (\<forall>(b, s, a)\<in>set F.
        zone_index_ok buys now (zn_zone_id c) b \<and> zone_index_ok sells now (zn_zone_id c) s \<and>
        min_trade_amount \<le> a \<and> fo_user_id (buys ! b) \<noteq> fo_user_id (sells ! s) \<and>
        fo_price (sells ! s) \<le> p \<and> p \<le> fo_price (buys ! b)))"

text \<open>One side of the market after the fills \<open>F\<close>; \<open>ix\<close> selects the side's index of a fill.\<close>

definition side_ok ::
  "(nat \<times> nat \<times> decimal \<Rightarrow> nat) \<Rightarrow> (nat \<times> nat \<times> decimal) list \<Rightarrow> fast_order list \<Rightarrow> fast_order list \<Rightarrow> bool" where
  "side_ok ix F orders orders' \<longleftrightarrow>
     length orders' = length orders \<and>
     (\<forall>k<length orders. orders' ! k = add_fill (fill_total (\<lambda>f. ix f = k) F) (orders ! k)) \<and>
     (\<forall>k<length orders. 0 \<le> remaining_amount (orders ! k) \<longrightarrow> 0 \<le> remaining_amount (orders' ! k))"

definition auction_inv ::
  "order_metadata list \<Rightarrow> int \<Rightarrow> fast_order list \<Rightarrow> fast_order list \<Rightarrow> (nat \<times> nat \<times> decimal) list list \<Rightarrow> auction_state \<Rightarrow> bool" where
  "auction_inv meta now buys sells Fs a \<longleftrightarrow>
     side_ok fst (concat Fs) buys (au_buys a) \<and> side_ok (fst \<circ> snd) (concat Fs) sells (au_sells a) \<and>
     list_all2 (zone_ok meta now buys sells) Fs (au_zones a) \<and>
     cs_matches_created (au_stats a) = length (concat Fs) \<and>
     cs_total_volume (au_stats a) = fill_total (\<lambda>_. True) (concat Fs)"

lemma fill_total_append [simp]: "fill_total P (F @ G) = fill_total P F + fill_total P G"
  by (simp add: fill_total_def)

lemma side_ok_refl [simp]: "side_ok ix [] orders orders"
  by (simp add: side_ok_def)

lemma side_ok_trans: "side_ok ix F os os' \<Longrightarrow> side_ok ix G os' os'' \<Longrightarrow> side_ok ix (F @ G) os os''"
  unfolding side_ok_def by (metis add_fill_add fill_total_append)

lemma side_ok_static: "side_ok ix F os os' \<Longrightarrow> k < length os \<Longrightarrow> \<exists>a. os' ! k = add_fill a (os ! k)"
  by (auto simp: side_ok_def)

lemma swept_sides:
  assumes "swept bs ss st F st'"
  shows "side_ok fst F (sw_buys st) (sw_buys st')" "side_ok (fst \<circ> snd) F (sw_sells st) (sw_sells st')"
  using assms by (auto simp: swept_def side_ok_def split_def comp_def)

lemma records_fill_static:
  assumes "side_ok ix F buys buys'" "side_ok ix' F' sells sells'" "b < length buys" "s < length sells"
  shows "records_fill meta buys' sells' p (b, s, a) r \<longleftrightarrow> records_fill meta buys sells p (b, s, a) r"
proof -
  obtain x y where "buys' ! b = add_fill x (buys ! b)" "sells' ! s = add_fill y (sells ! s)"
    using side_ok_static assms by metis
  then show ?thesis by (simp add: records_fill_def)
qed

lemma clear_step_inv:
  assumes inv: "auction_inv meta now buys sells Fs a"
    and step: "clear_step D (partition_by_zone sells now) meta topo (z, bs) a = Some a'"
    and bs: "bt_get (partition_by_zone buys now) z = Some bs"
  shows "\<exists>Fs'. auction_inv meta now buys sells Fs' a'"
proof (cases "bt_get (partition_by_zone sells now) z")
  case None
  then show ?thesis using inv step by (auto simp: clear_step_def)
next
  case (Some ss)
  note zb = partition_index[OF bs] and zs = partition_index[OF Some]
  have sides: "side_ok fst (concat Fs) buys (au_buys a)" "side_ok (fst \<circ> snd) (concat Fs) sells (au_sells a)"
    using inv by (simp_all add: auction_inv_def)
  have len: "length (au_buys a) = length buys" "length (au_sells a) = length sells"
    using sides by (simp_all add: side_ok_def)
  obtain zc buys' sells' where cz: "clear_zone D z bs ss (au_buys a) (au_sells a) meta topo = Some (zc, buys', sells')"
    and a': "a' = (case zc of None \<Rightarrow> a\<lparr>au_buys := buys', au_sells := sells'\<rparr>
           | Some c \<Rightarrow> a\<lparr>au_buys := buys', au_sells := sells', au_zones := au_zones a @ [c],
                        au_stats := (au_stats a)\<lparr>cs_matches_created := cs_matches_created (au_stats a) + length (zn_matches c),
                                                 cs_total_volume := cs_total_volume (au_stats a) + zn_cleared_volume c\<rparr>\<rparr>)"
    using step Some by (auto simp: clear_step_def bind_eq_Some_conv)
  have "\<forall>b\<in>set bs. b < length (au_buys a)" "\<forall>s\<in>set ss. s < length (au_sells a)"
    using zb zs by (auto simp: len zone_index_ok_def)
  from clear_zone_correct[OF cz this] obtain F p st' where
    sw: "swept bs ss \<lparr>sw_buys = au_buys a, sw_sells = au_sells a, sw_fills = [], sw_marginal = None\<rparr> F st'"
    and st': "sw_buys st' = buys'" "sw_sells st' = sells'"
    and zc: "zc = None \<and> F = [] \<or> (\<exists>c. zc = Some c \<and> settle_fills D z F p buys' sells' meta topo = Some c)"
    and fills: "\<forall>f\<in>set F. zone_fill bs ss (au_buys a) (au_sells a) p f" by metis
  have new: "side_ok fst (concat Fs @ F) buys buys'" "side_ok (fst \<circ> snd) (concat Fs @ F) sells sells'"
    using side_ok_trans[OF sides(1) swept_sides(1)[OF sw, simplified st', simplified]]
      side_ok_trans[OF sides(2) swept_sides(2)[OF sw, simplified st', simplified]] by simp_all
  have st: "fo_price (au_buys a ! b) = fo_price (buys ! b) \<and> fo_user_id (au_buys a ! b) = fo_user_id (buys ! b)"
    if "b < length buys" for b using side_ok_static[OF sides(1) that] by auto
  have st2: "fo_price (au_sells a ! b) = fo_price (sells ! b) \<and> fo_user_id (au_sells a ! b) = fo_user_id (sells ! b)"
    if "b < length sells" for b using side_ok_static[OF sides(2) that] by auto
  have ff: "zone_index_ok buys now z b \<and> zone_index_ok sells now z s \<and>
        min_trade_amount \<le> x \<and> fo_user_id (buys ! b) \<noteq> fo_user_id (sells ! s) \<and>
        fo_price (sells ! s) \<le> p \<and> p \<le> fo_price (buys ! b)" if "(b, s, x) \<in> set F" for b s x
  proof -
    have zf: "zone_fill bs ss (au_buys a) (au_sells a) p (b, s, x)" using fills that by blast
    then have i: "zone_index_ok buys now z b" "zone_index_ok sells now z s"
      using zb zs by (auto simp: zone_fill_def fair_fill_def)
    then have "b < length buys" "s < length sells" by (auto simp: zone_index_ok_def)
    from i zf st[OF this(1)] st2[OF this(2)] show ?thesis
      by (auto simp: zone_fill_def fair_fill_def simp del: fp_order_simps)
  qed
  show ?thesis
  proof (cases zc)
    case None
    then have "F = []" using zc by simp
    then show ?thesis using inv new None a' by (intro exI[of _ Fs]) (simp add: auction_inv_def)
  next
    case (Some c)
    then have c: "settle_fills D z F p buys' sells' meta topo = Some c" using zc by simp
    note sr = settle_fills_records[OF c]
    have "list_all2 (records_fill meta buys sells (fp_to_decimal p)) F (zn_matches c)"
    proof (rule list.rel_mono_strong)
      show "list_all2 (records_fill meta buys' sells' (fp_to_decimal p)) F (zn_matches c)" using sr by simp
      fix f r assume f: "f \<in> set F" "records_fill meta buys' sells' (fp_to_decimal p) f r"
      obtain b s x where bsx: "f = (b, s, x)" by (cases f)
      then have "b < length buys" "s < length sells" using ff f(1) by (auto simp: zone_index_ok_def)
      then show "records_fill meta buys sells (fp_to_decimal p) f r"
        using f(2) records_fill_static[OF new] by (simp add: bsx)
    qed
    then have "zone_ok meta now buys sells F c" using sr ff by (auto simp: zone_ok_def)
    moreover have "length (zn_matches c) = length F" using sr by (auto dest: list_all2_lengthD)
    ultimately show ?thesis using inv new Some a' sr
      by (intro exI[of _ "Fs @ [F]"]) (simp add: auction_inv_def list_all2_appendI)
  qed
qed

lemma clear_cycle_inv:
  assumes "clear_cycle D buys sells meta topo now = Some a"
  obtains Fs where "auction_inv meta now buys sells Fs a"
proof -
  have "\<exists>Fs. auction_inv meta now buys sells Fs a"
  proof (rule fold_opt_invariant[where P = "\<lambda>a. \<exists>Fs. auction_inv meta now buys sells Fs a"])
    show "fold_opt (clear_step D (partition_by_zone sells now) meta topo) (partition_by_zone buys now)
        \<lparr>au_buys = buys, au_sells = sells, au_zones = [],
         au_stats = \<lparr>cs_matches_created = 0, cs_total_volume = 0, cs_ioc_cancellations = []\<rparr>\<rparr> = Some a"
      using assms by (simp add: clear_cycle_def)
    show "\<exists>Fs. auction_inv meta now buys sells Fs \<lparr>au_buys = buys, au_sells = sells, au_zones = [],
         au_stats = \<lparr>cs_matches_created = 0, cs_total_volume = 0, cs_ioc_cancellations = []\<rparr>\<rparr>"
      by (rule exI[of _ "[]"]) (simp add: auction_inv_def)
    fix e s s' assume e: "e \<in> set (partition_by_zone buys now)" and s: "\<exists>Fs. auction_inv meta now buys sells Fs s"
      and step: "clear_step D (partition_by_zone sells now) meta topo e s = Some s'"
    obtain z bs where zb: "e = (z, bs)" by (cases e)
    have "bt_get (partition_by_zone buys now) z = Some bs" using e bt.mem_iter[OF partition_ok] by (simp add: zb)
    then show "\<exists>Fs. auction_inv meta now buys sells Fs s'" using s step clear_step_inv by (auto simp: zb)
  qed
  then show thesis using that by blast
qed

section \<open>From indices to identifiers\<close>

definition auction_results :: "auction_state \<Rightarrow> match_result list" where
  "auction_results a = concat (map zn_matches (au_zones a))"

text \<open>A fill and its result name the same orders and the same energy.\<close>

definition same_fill :: "fast_order list \<Rightarrow> fast_order list \<Rightarrow> nat \<times> nat \<times> decimal \<Rightarrow> match_result \<Rightarrow> bool" where
  "same_fill buys sells = (\<lambda>(b, s, a) r. b < length buys \<and> s < length sells \<and>
     mr_buy_order_id r = fo_id (buys ! b) \<and> mr_sell_order_id r = fo_id (sells ! s) \<and> mr_match_amount r = a)"

lemma zone_ok_same_fill:
  "zone_ok meta now buys sells F c \<Longrightarrow> list_all2 (same_fill buys sells) F (zn_matches c)"
  unfolding zone_ok_def
  by (auto elim!: list.rel_mono_strong simp: same_fill_def records_fill_def zone_index_ok_def)

lemma zones_same_fill:
  "list_all2 (zone_ok meta now buys sells) Fs zs \<Longrightarrow>
     list_all2 (same_fill buys sells) (concat Fs) (concat (map zn_matches zs))"
  by (induction rule: list_all2_induct) (auto intro!: list_all2_appendI dest: zone_ok_same_fill)

lemma fill_total_amounts:
  assumes "list_all2 R F M" and "\<And>b s a r. R (b, s, a) r \<Longrightarrow> mr_match_amount r = a"
    and "\<And>f r. R f r \<Longrightarrow> P f \<longleftrightarrow> Q r"
  shows "fill_total P F = amounts (filter Q M)"
  using assms(1)
proof (induction rule: list_all2_induct)
  case Nil
  show ?case by simp
next
  case (Cons f F r M)
  then show ?case using assms(2,3) by (cases f) auto
qed

lemma side_ok_amounts:
  assumes "side_ok ix F os os'" "list_all2 R F M" "distinct (map fo_id os)"
    and "\<And>b s a r. R (b, s, a) r \<Longrightarrow> mr_match_amount r = a"
    and "\<And>f r. R f r \<Longrightarrow> ix f < length os \<and> key r = fo_id (os ! ix f)"
  shows "os' = map (\<lambda>b. add_fill (amounts (filter (\<lambda>r. key r = fo_id b) M)) b) os"
proof (rule nth_equalityI)
  show len: "length os' = length (map (\<lambda>b. add_fill (amounts (filter (\<lambda>r. key r = fo_id b) M)) b) os)"
    using assms(1) by (simp add: side_ok_def)
  fix k assume "k < length os'"
  then have k: "k < length os" using len by simp
  have eq: "ix f = k \<longleftrightarrow> key r = fo_id (os ! k)" if "R f r" for f r
    using assms(5)[OF that] k assms(3) by (auto simp: distinct_conv_nth)
  have "fill_total (\<lambda>f. ix f = k) F = amounts (filter (\<lambda>r. key r = fo_id (os ! k)) M)"
    by (rule fill_total_amounts[OF assms(2)]) (use assms(4) eq in blast)+
  then show "os' ! k = map (\<lambda>b. add_fill (amounts (filter (\<lambda>r. key r = fo_id b) M)) b) os ! k"
    using assms(1) k by (simp add: side_ok_def)
qed

section \<open>Properties\<close>

lemma auction_match_legit:
  assumes "clear_cycle D buys sells meta topo now = Some a"
    and "c \<in> set (au_zones a)" and "r \<in> set (zn_matches c)"
  shows "\<exists>b\<in>set buys. \<exists>sl\<in>set sells.
           mr_buy_order_id r = fo_id b \<and> mr_sell_order_id r = fo_id sl \<and>
           fo_zone_id b = zn_zone_id c \<and> fo_zone_id sl = zn_zone_id c \<and>
           \<not> is_expired b now \<and> \<not> is_expired sl now \<and> fo_user_id b \<noteq> fo_user_id sl \<and>
           min_trade_amount \<le> mr_match_amount r \<and>
           mr_settle_price r = zn_clearing_price c \<and>
           fp_to_decimal (fo_price sl) \<le> zn_clearing_price c \<and>
           zn_clearing_price c \<le> fp_to_decimal (fo_price b)"
proof -
  obtain Fs where inv: "auction_inv meta now buys sells Fs a" using clear_cycle_inv[OF assms(1)] .
  then have "list_all2 (zone_ok meta now buys sells) Fs (au_zones a)" by (simp add: auction_inv_def)
  then obtain F where z: "zone_ok meta now buys sells F c"
    using assms(2) list_all2_origin by metis
  then have "list_all2 (records_fill meta buys sells (zn_clearing_price c)) F (zn_matches c)"
    by (simp add: zone_ok_def)
  then obtain f where f: "f \<in> set F" "records_fill meta buys sells (zn_clearing_price c) f r"
    using assms(3) list_all2_origin by metis
  obtain i j x where ij: "f = (i, j, x)" by (cases f)
  obtain p where p: "zn_clearing_price c = fp_to_decimal p" "zone_index_ok buys now (zn_zone_id c) i"
    "zone_index_ok sells now (zn_zone_id c) j" "min_trade_amount \<le> x"
    "fo_user_id (buys ! i) \<noteq> fo_user_id (sells ! j)" "fo_price (sells ! j) \<le> p" "p \<le> fo_price (buys ! i)"
    using z f(1) unfolding zone_ok_def ij by blast
  then show ?thesis using f(2)
    by (intro bexI[of _ "buys ! i"] bexI[of _ "sells ! j"])
      (auto simp: zone_index_ok_def records_fill_def ij)
qed

text \<open>C18: The uniform price is individually rational: every match of a cleared zone joins a live
  buy and a live sell of that zone and of different users, for at least the minimum amount, and
  settles at the zone's one clearing price, which lies between the seller's ask and the buyer's
  bid.\<close>

theorem clear_cycle_uniform_price:
  assumes "clear_cycle D buys sells meta topo now = Some a"
    and "c \<in> set (au_zones a)" and "r \<in> set (zn_matches c)"
  shows "\<exists>b\<in>set buys. \<exists>sl\<in>set sells.
           mr_buy_order_id r = fo_id b \<and> mr_sell_order_id r = fo_id sl \<and>
           fo_zone_id b = zn_zone_id c \<and> fo_zone_id sl = zn_zone_id c \<and>
           \<not> is_expired b now \<and> \<not> is_expired sl now \<and> fo_user_id b \<noteq> fo_user_id sl \<and>
           min_trade_amount \<le> mr_match_amount r \<and>
           mr_settle_price r = zn_clearing_price c \<and>
           fp_to_decimal (fo_price sl) \<le> zn_clearing_price c \<and>
           zn_clearing_price c \<le> fp_to_decimal (fo_price b)"
  by (rule auction_match_legit[OF assms])

definition auction_order :: "uuid \<Rightarrow> uuid \<Rightarrow> int \<Rightarrow> decimal \<Rightarrow> fast_order" where
  "auction_order ident user price amount =
     \<lparr>fo_id = ident, fo_user_id = user, fo_price = FastPrice (price * 1000000000), fo_energy_amount = amount,
      fo_filled_amount = 0, fo_zone_id = Some 1, fo_created_at_ns = 0, fo_expires_at_ns = None,
      fo_time_in_force = Gtc, fo_metadata_index = 0\<rparr>"

definition auction_grid :: topology where
  "auction_grid = \<lparr>can_accommodate_flow = (\<lambda>_ _ _. True), calculate_wheeling_charge = (\<lambda>_ _. FastPrice 0),
     calculate_loss_factor = (\<lambda>_ _. FastPrice 1000000000)\<rparr>"

definition auction_demo :: "auction_state option" where
  "auction_demo = clear_cycle exact_dec [auction_order 1 10 10 5, auction_order 2 11 7 5]
     [auction_order 3 12 4 6, auction_order 4 13 6 6]
     [\<lparr>md_epoch_id = 9, md_order_pda = None, md_session_token = None\<rparr>] auction_grid 0"

lemma auction_demo_run: "clear_cycle exact_dec [auction_order 1 10 10 5, auction_order 2 11 7 5]
     [auction_order 3 12 4 6, auction_order 4 13 6 6]
     [\<lparr>md_epoch_id = 9, md_order_pda = None, md_session_token = None\<rparr>] auction_grid 0 = Some (the auction_demo)"
proof -
  have "auction_demo \<noteq> None" by code_simp
  then show ?thesis by (simp add: auction_demo_def)
qed

theorem clear_cycle_uniform_price_witness:
  "\<exists>b\<in>set [auction_order 1 10 10 5, auction_order 2 11 7 5]. \<exists>sl\<in>set [auction_order 3 12 4 6, auction_order 4 13 6 6].
     let c = hd (au_zones (the auction_demo)); r = hd (zn_matches c) in
     mr_buy_order_id r = fo_id b \<and> mr_sell_order_id r = fo_id sl \<and> mr_settle_price r = zn_clearing_price c \<and>
     fp_to_decimal (fo_price sl) \<le> zn_clearing_price c \<and> zn_clearing_price c \<le> fp_to_decimal (fo_price b)"
proof -
  have "hd (au_zones (the auction_demo)) \<in> set (au_zones (the auction_demo))"
    "hd (zn_matches (hd (au_zones (the auction_demo)))) \<in> set (zn_matches (hd (au_zones (the auction_demo))))"
    by (rule hd_in_set, code_simp)+
  from clear_cycle_uniform_price[OF auction_demo_run this] show ?thesis unfolding Let_def by blast
qed

lemma auction_conserves:
  assumes "clear_cycle D buys sells meta topo now = Some a"
    and "distinct (map fo_id buys)" and "distinct (map fo_id sells)"
  shows "au_buys a = map (\<lambda>b. add_fill (amounts (filter (\<lambda>r. mr_buy_order_id r = fo_id b) (auction_results a))) b) buys \<and>
         au_sells a = map (\<lambda>s. add_fill (amounts (filter (\<lambda>r. mr_sell_order_id r = fo_id s) (auction_results a))) s) sells \<and>
         (list_all (\<lambda>ord. 0 \<le> remaining_amount ord) (buys @ sells) \<longrightarrow>
            list_all (\<lambda>ord. 0 \<le> remaining_amount ord) (au_buys a @ au_sells a)) \<and>
         cs_matches_created (au_stats a) = length (auction_results a) \<and>
         cs_total_volume (au_stats a) = amounts (auction_results a)"
proof -
  obtain Fs where inv: "auction_inv meta now buys sells Fs a" using clear_cycle_inv[OF assms(1)] .
  have sides: "side_ok fst (concat Fs) buys (au_buys a)" "side_ok (fst \<circ> snd) (concat Fs) sells (au_sells a)"
    using inv by (simp_all add: auction_inv_def)
  have all2: "list_all2 (same_fill buys sells) (concat Fs) (auction_results a)"
    using inv zones_same_fill by (auto simp: auction_inv_def auction_results_def)
  have amt: "\<And>b s x r. same_fill buys sells (b, s, x) r \<Longrightarrow> mr_match_amount r = x"
    by (simp add: same_fill_def)
  have "au_buys a = map (\<lambda>b. add_fill (amounts (filter (\<lambda>r. mr_buy_order_id r = fo_id b) (auction_results a))) b) buys"
    by (rule side_ok_amounts[OF sides(1) all2 assms(2) amt]) (auto simp: same_fill_def)
  moreover have "au_sells a = map (\<lambda>s. add_fill (amounts (filter (\<lambda>r. mr_sell_order_id r = fo_id s) (auction_results a))) s) sells"
    by (rule side_ok_amounts[OF sides(2) all2 assms(3) amt]) (auto simp: same_fill_def)
  moreover have "list_all (\<lambda>ord. 0 \<le> remaining_amount ord) (buys @ sells) \<longrightarrow>
            list_all (\<lambda>ord. 0 \<le> remaining_amount ord) (au_buys a @ au_sells a)"
    using sides unfolding list_all_append by (auto simp: side_ok_def list_all_length)
  moreover have "cs_total_volume (au_stats a) = amounts (auction_results a)"
    using inv fill_total_amounts[OF all2, of "\<lambda>_. True" "\<lambda>_. True"] amt by (simp add: auction_inv_def)
  moreover have "cs_matches_created (au_stats a) = length (auction_results a)"
    using inv list_all2_lengthD[OF all2] by (simp add: auction_inv_def)
  ultimately show ?thesis by blast
qed

text \<open>C19: The auction conserves energy: every order ends with exactly the fills of the results
  that name it, no order is filled beyond its energy, and the statistics count the results and
  their energy.\<close>

theorem clear_cycle_conserves:
  assumes "clear_cycle D buys sells meta topo now = Some a"
    and "distinct (map fo_id buys)" and "distinct (map fo_id sells)"
  shows "au_buys a = map (\<lambda>b. add_fill (amounts (filter (\<lambda>r. mr_buy_order_id r = fo_id b) (auction_results a))) b) buys \<and>
         au_sells a = map (\<lambda>s. add_fill (amounts (filter (\<lambda>r. mr_sell_order_id r = fo_id s) (auction_results a))) s) sells \<and>
         (list_all (\<lambda>ord. 0 \<le> remaining_amount ord) (buys @ sells) \<longrightarrow>
            list_all (\<lambda>ord. 0 \<le> remaining_amount ord) (au_buys a @ au_sells a)) \<and>
         cs_matches_created (au_stats a) = length (auction_results a) \<and>
         cs_total_volume (au_stats a) = amounts (auction_results a)"
  by (rule auction_conserves[OF assms])

theorem clear_cycle_conserves_witness:
  "list_all (\<lambda>ord. 0 \<le> remaining_amount ord) (au_buys (the auction_demo) @ au_sells (the auction_demo)) \<and>
   cs_matches_created (au_stats (the auction_demo)) = length (auction_results (the auction_demo)) \<and>
   cs_total_volume (au_stats (the auction_demo)) = amounts (auction_results (the auction_demo))"
proof -
  have "list_all (\<lambda>ord. 0 \<le> remaining_amount ord) ([auction_order 1 10 10 5, auction_order 2 11 7 5]
      @ [auction_order 3 12 4 6, auction_order 4 13 6 6])"
    "distinct (map fo_id [auction_order 1 10 10 5, auction_order 2 11 7 5])"
    "distinct (map fo_id [auction_order 3 12 4 6, auction_order 4 13 6 6])" by code_simp+
  from clear_cycle_conserves[OF auction_demo_run this(2,3)] this(1) show ?thesis by blast
qed

text \<open>A self-trade loses a crossing: the sell that the best bid may not take because it is the
  same user's is passed for good, so the next buyer, of another user and with a bid above the
  ask, is left unmatched and the zone does not clear.\<close>

theorem self_trade_hides_crossing:
  "let best = auction_order 1 10 10 5; second = auction_order 2 11 9 5; sell = auction_order 3 10 5 5 in
   map_option au_zones (clear_cycle exact_dec [best, second] [sell]
     [\<lparr>md_epoch_id = 9, md_order_pda = None, md_session_token = None\<rparr>] auction_grid 0) = Some [] \<and>
   fo_user_id second \<noteq> fo_user_id sell \<and> fo_price sell \<le> fo_price second"
  by code_simp

end
