(* ===== verification/Store.thy ===== *)
theory Store imports Domain_Types begin

text \<open>
  The database and the calls that reach it.  The tables of
  \<open>migrations/20260715000000_trading_initial_schema.sql\<close> that the trading core uses are lists of
  rows; a repository method is a function on the store that commits as a whole or fails without
  an effect, as a statement or a transaction does.  A call may also fail because the database is
  not reachable: the world carries a list of such faults, one per call, that an execution
  consumes.  Events are stored as themselves: writing and reading their JSON is the identity.
\<close>

section \<open>Columns\<close>

text \<open>\<open>numeric(20,8)\<close>: stored values are rounded to eight places, half away from zero, and twelve
  integral digits are the limit.\<close>

definition round_half_away :: "decimal \<Rightarrow> int" where
  "round_half_away x = (if 0 \<le> x then \<lfloor>x + 1 / 2\<rfloor> else \<lceil>x - 1 / 2\<rceil>)"

definition num8 :: "decimal \<Rightarrow> decimal option" where
  "num8 x = (let r = of_int (round_half_away (x * 10 ^ 8)) / 10 ^ 8 in if \<bar>r\<bar> < 10 ^ 12 then Some r else None)"

definition num8_opt :: "decimal option \<Rightarrow> decimal option option" where
  "num8_opt x = (case x of None \<Rightarrow> Some None | Some v \<Rightarrow> map_option Some (num8 v))"

text \<open>The columns of \<open>trading_orders\<close>.\<close>

record order_row =
  odb_id :: uuid
  odb_user_id :: uuid
  odb_order_type :: order_type
  odb_side :: order_side
  odb_energy_amount :: decimal
  odb_price_per_kwh :: decimal
  odb_filled_amount :: "decimal option"
  odb_status :: order_status
  odb_expires_at :: "datetime option"
  odb_created_at :: "datetime option"
  odb_updated_at :: "datetime option"
  odb_filled_at :: "datetime option"
  odb_epoch_id :: "uuid option"
  odb_zone_id :: zone
  odb_meter_id :: "uuid option"
  odb_refund_tx_signature :: "string option"
  odb_order_pda :: "string option"
  odb_order_index :: "int option"
  odb_session_token :: "string option"
  odb_trigger_price :: "decimal option"
  odb_trigger_type :: "trigger_type option"
  odb_trigger_status :: "trigger_status option"
  odb_trailing_offset :: "decimal option"
  odb_triggered_at :: "datetime option"
  odb_last_peak_price :: "decimal option"
  odb_limit_price :: "decimal option"
  odb_blockchain_status :: "string option"
  odb_blockchain_tx_hash :: "string option"
  odb_blockchain_error :: "string option"
  odb_retry_count :: int
  odb_time_in_force :: time_in_force
  odb_market_segment :: market_segment
  odb_signature :: "string option"

text \<open>The columns of \<open>settlements\<close>; the status column is text.\<close>

record settlement_row =
  sdb_id :: uuid
  sdb_trade_id :: "uuid option"
  sdb_epoch_id :: uuid
  sdb_buyer_id :: uuid
  sdb_seller_id :: uuid
  sdb_buy_order_id :: uuid
  sdb_sell_order_id :: uuid
  sdb_energy_amount :: decimal
  sdb_price_per_kwh :: decimal
  sdb_total_amount :: decimal
  sdb_fee_amount :: decimal
  sdb_wheeling_charge :: "decimal option"
  sdb_loss_factor :: "decimal option"
  sdb_loss_cost :: "decimal option"
  sdb_effective_energy :: "decimal option"
  sdb_buyer_zone_id :: zone
  sdb_seller_zone_id :: zone
  sdb_net_amount :: decimal
  sdb_status :: string
  sdb_transaction_hash :: "string option"
  sdb_created_at :: datetime
  sdb_processed_at :: "datetime option"
  sdb_buyer_session_token :: "string option"
  sdb_seller_session_token :: "string option"
  sdb_erc_certificate_id :: "string option"
  sdb_erc_transfer_tx :: "string option"
  sdb_retry_count :: int
  sdb_error_message :: "string option"
  sdb_updated_at :: datetime

record match_row =
  mdb_match :: order_match
  mdb_settlement_id :: "uuid option"
  mdb_zone_id :: zone

record outbox_row =
  obx_id :: uuid
  obx_event_type :: string
  obx_payload :: event
  obx_status :: outbox_status
  obx_attempts :: int
  obx_last_attempt_at :: "datetime option"
  obx_created_at :: datetime

record store =
  db_orders :: "order_row list"
  db_settlements :: "settlement_row list"
  db_matches :: "match_row list"
  db_outbox :: "outbox_row list"
  db_epochs :: "market_epoch list"
  db_rules :: "recurring_order list"
  db_alerts :: "price_alert list"
  db_ids :: "uuid list"   \<comment> \<open>the random identifiers still to be drawn\<close>

text \<open>\<open>gen_random_uuid()\<close> and \<open>Uuid::new_v4()\<close>.\<close>

definition draw_id :: "store \<Rightarrow> uuid \<times> store" where
  "draw_id s = (case db_ids s of [] \<Rightarrow> (0, s) | i # is \<Rightarrow> (i, s\<lparr>db_ids := is\<rparr>))"

section \<open>Text\<close>

text \<open>\<open>to_string\<close> of a natural number and of an identifier (hyphenated lower-case hexadecimal).\<close>

fun nat_str :: "nat \<Rightarrow> string" where
  "nat_str n = (if n < 10 then [char_of (48 + n)] else nat_str (n div 10) @ [char_of (48 + n mod 10)])"

definition int_str :: "int \<Rightarrow> string" where
  "int_str i = (if i < 0 then ''-'' @ nat_str (nat (- i)) else nat_str (nat i))"

definition hex_digit :: "nat \<Rightarrow> char" where
  "hex_digit d = char_of (if d < 10 then 48 + d else 87 + d)"

definition uuid_str :: "uuid \<Rightarrow> string" where
  "uuid_str u =
     (let h = map (\<lambda>k. hex_digit (unat (take_bit 4 (drop_bit (4 * (31 - k)) u)))) [0..<32]
      in take 8 h @ ''-'' @ take 4 (drop 8 h) @ ''-'' @ take 4 (drop 12 h) @ ''-''
         @ take 4 (drop 16 h) @ ''-'' @ drop 20 h)"

section \<open>Statements\<close>

text \<open>\<open>UPDATE ... WHERE\<close>: the rows that satisfy the predicate are rewritten in place.\<close>

definition update_where :: "('r \<Rightarrow> bool) \<Rightarrow> ('r \<Rightarrow> 'r) \<Rightarrow> 'r list \<Rightarrow> 'r list" where
  "update_where P f rows = map (\<lambda>r. if P r then f r else r) rows"

definition rows_affected :: "('r \<Rightarrow> bool) \<Rightarrow> 'r list \<Rightarrow> nat" where
  "rows_affected P rows = length (filter P rows)"

lemma update_where_simps [simp]:
  "update_where P f [] = []"
  "update_where P f (r # rs) = (if P r then f r else r) # update_where P f rs"
  "length (update_where P f rs) = length rs"
  by (simp_all add: update_where_def)

lemma set_update_where: "set (update_where P f rs) = (\<lambda>r. if P r then f r else r) ` set rs"
  by (simp add: update_where_def)

lemma update_where_id: "(\<And>r. r \<in> set rs \<Longrightarrow> \<not> P r) \<Longrightarrow> update_where P f rs = rs"
  by (induction rs) auto

lemma map_update_where [simp]: "(\<And>r. P r \<Longrightarrow> g (f r) = g r) \<Longrightarrow> map g (update_where P f rs) = map g rs"
  by (simp add: update_where_def)

section \<open>Calls\<close>

text \<open>A call changes a state, and fails with an error of the API or panics; \<open>?\<close> passes both on.  The
  state is the world, or, for calls to the chain, the gateway's.\<close>

datatype failure = Error api_error | Panicked

record world =
  w_store :: store
  w_faults :: "bool list"                       \<comment> \<open>the database calls to come that fail\<close>
  w_now :: datetime                             \<comment> \<open>the telemetry clock\<close>
  w_db_now :: datetime                          \<comment> \<open>the database's \<open>NOW()\<close>\<close>
  w_audit :: "(uuid \<times> string \<times> string) list"
  w_sent :: "settlement list list"              \<comment> \<open>the batches handed to the chain so far\<close>
  w_wake :: bool                                \<comment> \<open>the permit of the matcher's \<open>Notify\<close>\<close>

type_synonym ('s, 'a) call = "'s \<Rightarrow> (failure + 'a) \<times> 's"
type_synonym 'a io = "(world, 'a) call"

definition ok :: "'a \<Rightarrow> ('s, 'a) call" where
  "ok x w = (Inr x, w)"

definition throw :: "api_error \<Rightarrow> ('s, 'a) call" where
  "throw e w = (Inl (Error e), w)"

definition and_then :: "('s, 'a) call \<Rightarrow> ('a \<Rightarrow> ('s, 'b) call) \<Rightarrow> ('s, 'b) call" where
  "and_then m k w = (case m w of (Inl e, w') \<Rightarrow> (Inl e, w') | (Inr x, w') \<Rightarrow> k x w')"

text \<open>\<open>match call.await \<open>{\<close> Ok(x) => \<dots>, Err(e) => \<dots> \<open>}\<close>\<close>: an error becomes a value, a panic does not.\<close>

definition attempt :: "('s, 'a) call \<Rightarrow> ('s, api_error + 'a) call" where
  "attempt m w = (case m w of
       (Inl (Error e), w') \<Rightarrow> (Inr (Inl e), w')
     | (Inl Panicked, w') \<Rightarrow> (Inl Panicked, w')
     | (Inr x, w') \<Rightarrow> (Inr (Inr x), w'))"

text \<open>A value that a panicking computation may not give.\<close>

definition or_panic :: "'a option \<Rightarrow> ('s, 'a) call" where
  "or_panic x w = (case x of None \<Rightarrow> (Inl Panicked, w) | Some v \<Rightarrow> (Inr v, w))"

fun for_each :: "('x \<Rightarrow> ('s, unit) call) \<Rightarrow> 'x list \<Rightarrow> ('s, unit) call" where
  "for_each f [] = ok ()"
| "for_each f (x # xs) = and_then (f x) (\<lambda>_. for_each f xs)"

text \<open>One statement or transaction.  It sees the database's clock, and it either commits or changes nothing.\<close>

definition db_call :: "(datetime \<Rightarrow> store \<Rightarrow> api_error + ('a \<times> store)) \<Rightarrow> 'a io" where
  "db_call f w =
     (case w_faults w of
        True # fs \<Rightarrow> (Inl (Error (Database ''connection lost'')), w\<lparr>w_faults := fs\<rparr>)
      | fs \<Rightarrow> (case f (w_db_now w) (w_store w) of
            Inl e \<Rightarrow> (Inl (Error e), w\<lparr>w_faults := tl fs\<rparr>)
          | Inr (x, s) \<Rightarrow> (Inr x, w\<lparr>w_faults := tl fs, w_store := s\<rparr>)))"

definition db_read :: "(datetime \<Rightarrow> store \<Rightarrow> 'a) \<Rightarrow> 'a io" where
  "db_read f = db_call (\<lambda>now s. Inr (f now s, s))"

definition telemetry_now :: "datetime io" where
  "telemetry_now w = (Inr (w_now w), w)"

definition new_v4 :: "uuid io" where
  "new_v4 w = (case draw_id (w_store w) of (i, s) \<Rightarrow> (Inr i, w\<lparr>w_store := s\<rparr>))"

section \<open>Laws of calls\<close>

lemma and_then_ok [simp]: "and_then (ok x) k = k x"
  by (simp add: and_then_def ok_def fun_eq_iff)

lemma and_then_throw [simp]: "and_then (throw e) k = throw e"
  by (simp add: and_then_def throw_def fun_eq_iff)

lemma and_then_assoc: "and_then (and_then m k) h = and_then m (\<lambda>x. and_then (k x) h)"
  by (auto simp: and_then_def fun_eq_iff split: prod.splits sum.splits)

lemma for_each_append: "for_each f (xs @ ys) = and_then (for_each f xs) (\<lambda>_. for_each f ys)"
  by (induction xs) (simp_all add: and_then_assoc)

text \<open>A predicate of the world that a call keeps, whatever it returns.\<close>

definition keeps :: "('s \<Rightarrow> bool) \<Rightarrow> ('s, 'a) call \<Rightarrow> bool" where
  "keeps P m \<longleftrightarrow> (\<forall>w. P w \<longrightarrow> P (snd (m w)))"

named_theorems keeps_intros

lemma keeps_ok [keeps_intros]: "keeps P (ok x)"
  by (simp add: keeps_def ok_def)

lemma keeps_throw [keeps_intros]: "keeps P (throw e)"
  by (simp add: keeps_def throw_def)

lemma keeps_and_then [keeps_intros]: "keeps P m \<Longrightarrow> (\<And>x. keeps P (k x)) \<Longrightarrow> keeps P (and_then m k)"
  unfolding keeps_def and_then_def by (auto split: prod.splits sum.splits)

lemma keeps_attempt [keeps_intros]: "keeps P m \<Longrightarrow> keeps P (attempt m)"
  unfolding keeps_def attempt_def
  by (auto split: prod.splits sum.splits failure.splits)

lemma keeps_or_panic [keeps_intros]: "keeps P (or_panic x)"
  by (cases x) (simp_all add: keeps_def or_panic_def)

lemma keeps_for_each [keeps_intros]: "(\<And>x. x \<in> set xs \<Longrightarrow> keeps P (f x)) \<Longrightarrow> keeps P (for_each f xs)"
  by (induction xs) (auto intro!: keeps_intros)

lemma keeps_telemetry_now [keeps_intros]: "keeps P telemetry_now"
  by (simp add: keeps_def telemetry_now_def)

text \<open>A property of the store, and that a call keeps it.\<close>

definition stores :: "(store \<Rightarrow> bool) \<Rightarrow> world \<Rightarrow> bool" where
  "stores Q w \<longleftrightarrow> Q (w_store w)"

lemma keeps_db_call:
  "(\<And>now s x s'. Q s \<Longrightarrow> f now s = Inr (x, s') \<Longrightarrow> Q s') \<Longrightarrow> keeps (stores Q) (db_call f)"
  by (fastforce simp: keeps_def stores_def db_call_def split: list.splits bool.splits sum.splits)

lemma keeps_db_read [keeps_intros]: "keeps (stores Q) (db_read f)"
  unfolding db_read_def by (rule keeps_db_call) auto

lemma keeps_new_v4: "(\<And>s. Q s \<Longrightarrow> Q (s\<lparr>db_ids := tl (db_ids s)\<rparr>)) \<Longrightarrow> keeps (stores Q) new_v4"
  by (fastforce simp: keeps_def stores_def new_v4_def draw_id_def split: list.splits)

text \<open>Without faults a call does what its function says.\<close>

definition healthy :: "world \<Rightarrow> bool" where
  "healthy w \<longleftrightarrow> True \<notin> set (w_faults w)"

lemma db_call_healthy:
  assumes "healthy w"
  shows "db_call f w = (case f (w_db_now w) (w_store w) of
           Inl e \<Rightarrow> (Inl (Error e), w\<lparr>w_faults := tl (w_faults w)\<rparr>)
         | Inr (x, s) \<Rightarrow> (Inr x, w\<lparr>w_faults := tl (w_faults w), w_store := s\<rparr>))"
proof (cases "w_faults w")
  case (Cons b fs)
  then have "\<not> b" using assms by (auto simp: healthy_def)
  then show ?thesis by (simp add: db_call_def Cons split: sum.split prod.split)
qed (simp add: db_call_def split: sum.split prod.split)

lemma healthy_tl: "healthy w \<Longrightarrow> healthy (w\<lparr>w_faults := tl (w_faults w)\<rparr>)"
  by (cases "w_faults w") (auto simp: healthy_def)

section \<open>Triples\<close>

text \<open>What a call establishes from a precondition; the postcondition sees the result.\<close>

definition triple :: "('s \<Rightarrow> bool) \<Rightarrow> ('s, 'a) call \<Rightarrow> (failure + 'a \<Rightarrow> 's \<Rightarrow> bool) \<Rightarrow> bool" where
  "triple P m Q \<longleftrightarrow> (\<forall>w. P w \<longrightarrow> Q (fst (m w)) (snd (m w)))"

lemma tripleD: "triple P m Q \<Longrightarrow> P w \<Longrightarrow> m w = (r, w') \<Longrightarrow> Q r w'"
  by (auto simp: triple_def dest!: spec[of _ w])

lemma triple_weaken:
  "triple P m Q \<Longrightarrow> (\<And>w. P' w \<Longrightarrow> P w) \<Longrightarrow> (\<And>r w. Q r w \<Longrightarrow> Q' r w) \<Longrightarrow> triple P' m Q'"
  by (auto simp: triple_def)

lemma triple_ok: "(\<And>w. P w \<Longrightarrow> Q (Inr x) w) \<Longrightarrow> triple P (ok x) Q"
  by (simp add: triple_def ok_def)

lemma triple_throw: "(\<And>w. P w \<Longrightarrow> Q (Inl (Error e)) w) \<Longrightarrow> triple P (throw e) Q"
  by (simp add: triple_def throw_def)

lemma triple_and_then:
  assumes "triple P m (\<lambda>r w. case r of Inl e \<Rightarrow> Q (Inl e) w | Inr x \<Rightarrow> R x w)"
    and "\<And>x. triple (R x) (k x) Q"
  shows "triple P (and_then m k) Q"
  unfolding triple_def
proof (intro allI impI)
  fix w assume "P w"
  obtain r w' where m: "m w = (r, w')" by (cases "m w")
  have post: "case r of Inl e \<Rightarrow> Q (Inl e) w' | Inr x \<Rightarrow> R x w'" using tripleD[OF assms(1) \<open>P w\<close> m] .
  show "Q (fst (and_then m k w)) (snd (and_then m k w))"
  proof (cases r)
    case (Inl e)
    then show ?thesis using post by (simp add: and_then_def m)
  next
    case (Inr x)
    then have "R x w'" using post by simp
    then have "Q (fst (k x w')) (snd (k x w'))" using assms(2)[of x] by (simp add: triple_def)
    then show ?thesis by (simp add: and_then_def m Inr)
  qed
qed

text \<open>An error is turned into a value; a panic ends the task.\<close>

lemma triple_attempt:
  assumes "triple P m (\<lambda>r w. case r of Inl (Error e) \<Rightarrow> Q (Inr (Inl e)) w
                             | Inl Panicked \<Rightarrow> Q (Inl Panicked) w | Inr x \<Rightarrow> Q (Inr (Inr x)) w)"
  shows "triple P (attempt m) Q"
  using assms unfolding triple_def attempt_def
  by (auto split: prod.splits sum.splits failure.splits)

lemma triple_for_each:
  assumes "\<And>pre x post. xs = pre @ x # post \<Longrightarrow>
      triple (P pre) (f x) (\<lambda>r w. case r of Inl e \<Rightarrow> Q (Inl e) w | Inr _ \<Rightarrow> P (pre @ [x]) w)"
    and "\<And>w. P xs w \<Longrightarrow> Q (Inr ()) w"
  shows "triple (P []) (for_each f xs) Q"
proof -
  have "triple (P pre) (for_each f post) Q" if "xs = pre @ post" for pre post
    using that
  proof (induction post arbitrary: pre)
    case Nil
    then show ?case using assms(2) by (auto intro!: triple_ok)
  next
    case (Cons x post)
    have "triple (P pre) (and_then (f x) (\<lambda>_. for_each f post)) Q"
      by (rule triple_and_then[OF assms(1)[OF Cons.prems]]) (use Cons.IH[of "pre @ [x]"] Cons.prems in simp)
    then show ?case by simp
  qed
  from this[of "[]" xs] show ?thesis by simp
qed

end
