(* ===== verification/Order_Store.thy ===== *)
theory Order_Store imports Store begin

text \<open>
  \<open>trading-persistence/src/repositories/order.rs\<close> and the epoch routines of \<open>epoch.rs\<close> and the
  outbox insert of \<open>outbox.rs\<close> they use: every method of the order repository as a function on the
  store.  The facts below are about what the guarded writes leave alone: terminal orders, the
  identity of orders, and the agreement between a state change and its event.
\<close>

section \<open>Rows and domain orders\<close>

definition order_of_row :: "order_row \<Rightarrow> trading_order" where
  "order_of_row r = \<lparr>ord_id = odb_id r, ord_user_id = odb_user_id r, ord_order_type = odb_order_type r,
     ord_side = odb_side r, ord_energy_amount = odb_energy_amount r,
     ord_price_per_kwh = odb_price_per_kwh r, ord_filled_amount = unwrap_or (odb_filled_amount r) 0,
     ord_status = odb_status r, ord_expires_at = odb_expires_at r, ord_created_at = odb_created_at r,
     ord_filled_at = odb_filled_at r, ord_epoch_id = odb_epoch_id r, ord_zone_id = odb_zone_id r,
     ord_meter_id = odb_meter_id r, ord_refund_tx_signature = odb_refund_tx_signature r,
     ord_order_pda = odb_order_pda r, ord_order_index = odb_order_index r,
     ord_session_token = odb_session_token r, ord_blockchain_status = odb_blockchain_status r,
     ord_blockchain_tx_hash = odb_blockchain_tx_hash r, ord_blockchain_error = odb_blockchain_error r,
     ord_retry_count = odb_retry_count r, ord_time_in_force = odb_time_in_force r,
     ord_market_segment = odb_market_segment r\<rparr>"

text \<open>\<open>status IN ('pending', 'active', 'partially_filled')\<close>.\<close>

definition open_status :: "order_status \<Rightarrow> bool" where
  "open_status st \<longleftrightarrow> st = Order_Pending \<or> st = Order_Active \<or> st = Order_PartiallyFilled"

definition filled_of :: "order_row \<Rightarrow> decimal" where
  "filled_of r = unwrap_or (odb_filled_amount r) 0"

section \<open>The outbox row of an event\<close>

definition insert_event_in_tx :: "datetime \<Rightarrow> event \<Rightarrow> store \<Rightarrow> api_error + store" where
  "insert_event_in_tx now ev s =
     (case draw_id s of (i, s') \<Rightarrow>
        if i \<in> obx_id ` set (db_outbox s') then Inl (Database ''outbox_events_pkey'')
        else Inr (s'\<lparr>db_outbox := db_outbox s' @
               [\<lparr>obx_id = i, obx_event_type = outbox_event_type ev, obx_payload = ev,
                 obx_status = Outbox_Pending, obx_attempts = 0, obx_last_attempt_at = None,
                 obx_created_at = now\<rparr>]\<rparr>))"

section \<open>Epochs\<close>

text \<open>\<open>ORDER BY key LIMIT 1\<close>, \<open>ORDER BY key\<close>.\<close>

definition epoch_desc :: "market_epoch list \<Rightarrow> market_epoch list" where
  "epoch_desc es = sort_key (\<lambda>e. - ep_end_time e) es"

definition minutes_15 :: int where
  "minutes_15 = 15 * 60 * 1000000000"

definition get_or_create_active_epoch :: "datetime \<Rightarrow> store \<Rightarrow> api_error + (uuid \<times> store)" where
  "get_or_create_active_epoch now s =
     (case epoch_desc (filter (\<lambda>e. ep_status e = Epoch_Active \<and> now < ep_end_time e) (db_epochs s)) of
        e # _ \<Rightarrow> Inr (ep_id e, s)
      | [] \<Rightarrow>
          (case draw_id s of (i, s') \<Rightarrow>
             if i \<in> ep_id ` set (db_epochs s') then Inl (Database ''market_epochs_pkey'')
             else Inr (i, s'\<lparr>db_epochs := db_epochs s' @
               [\<lparr>ep_id = i,
                 ep_epoch_number = (if db_epochs s' = [] then 0 else Max (ep_epoch_number ` set (db_epochs s'))) + 1,
                 ep_start_time = now, ep_end_time = now + minutes_15, ep_status = Epoch_Active,
                 ep_clearing_price = None, ep_total_volume = Some 0, ep_total_orders = Some 0,
                 ep_matched_orders = Some 0\<rparr>]\<rparr>)))"

definition get_epochs_due_for_clearing :: "datetime \<Rightarrow> store \<Rightarrow> uuid list" where
  "get_epochs_due_for_clearing now s =
     map ep_id (sort_key ep_end_time
       (filter (\<lambda>e. ep_status e = Epoch_Active \<and> ep_end_time e \<le> now) (db_epochs s)))"

definition mark_epoch_cleared ::
  "uuid \<Rightarrow> decimal option \<Rightarrow> decimal \<Rightarrow> int \<Rightarrow> datetime \<Rightarrow> store \<Rightarrow> api_error + (unit \<times> store)" where
  "mark_epoch_cleared epoch price volume matched now s =
     (case (num8_opt price, num8 volume) of
        (Some price', Some volume') \<Rightarrow>
          Inr ((), s\<lparr>db_epochs := update_where (\<lambda>e. ep_id e = epoch \<and> ep_status e = Epoch_Active)
            (\<lambda>e. e\<lparr>ep_status := Epoch_Cleared, ep_clearing_price := price',
                   ep_total_volume := Some volume', ep_matched_orders := Some matched\<rparr>) (db_epochs s)\<rparr>)
      | _ \<Rightarrow> Inl (Database ''numeric field overflow''))"

definition list_recent_cleared_epochs :: "nat \<Rightarrow> store \<Rightarrow> market_epoch list" where
  "list_recent_cleared_epochs limit s =
     take limit (epoch_desc
       (filter (\<lambda>e. ep_status e = Epoch_Cleared \<or> ep_status e = Epoch_Settled) (db_epochs s)))"

section \<open>Inserting an order\<close>

definition new_order_row :: "datetime \<Rightarrow> trading_order \<Rightarrow> decimal \<Rightarrow> decimal \<Rightarrow> order_row" where
  "new_order_row now o' energy price =
     \<lparr>odb_id = ord_id o', odb_user_id = ord_user_id o', odb_order_type = ord_order_type o',
      odb_side = ord_side o', odb_energy_amount = energy, odb_price_per_kwh = price,
      odb_filled_amount = Some 0, odb_status = ord_status o', odb_expires_at = ord_expires_at o',
      odb_created_at = Some now, odb_updated_at = Some now, odb_filled_at = None,
      odb_epoch_id = ord_epoch_id o', odb_zone_id = ord_zone_id o', odb_meter_id = ord_meter_id o',
      odb_refund_tx_signature = None, odb_order_pda = ord_order_pda o',
      odb_order_index = ord_order_index o', odb_session_token = ord_session_token o',
      odb_trigger_price = None, odb_trigger_type = None, odb_trigger_status = Some Trigger_Pending,
      odb_trailing_offset = None, odb_triggered_at = None, odb_last_peak_price = None,
      odb_limit_price = None, odb_blockchain_status = ord_blockchain_status o',
      odb_blockchain_tx_hash = ord_blockchain_tx_hash o', odb_blockchain_error = None,
      odb_retry_count = 0, odb_time_in_force = ord_time_in_force o',
      odb_market_segment = ord_market_segment o', odb_signature = None\<rparr>"

text \<open>The insert with the table's constraints: primary key, positive energy and price, the
  reference to the epoch.\<close>

definition insert_order :: "trading_order \<Rightarrow> datetime \<Rightarrow> store \<Rightarrow> api_error + (unit \<times> store)" where
  "insert_order o' now s =
     (case (num8 (ord_energy_amount o'), num8 (ord_price_per_kwh o')) of
        (Some energy, Some price) \<Rightarrow>
          if ord_id o' \<in> odb_id ` set (db_orders s) then Inl (Database ''trading_orders_pkey'')
          else if energy \<le> 0 then Inl (Database ''chk_energy_amount'')
          else if price \<le> 0 then Inl (Database ''chk_price'')
          else if (case ord_epoch_id o' of None \<Rightarrow> False | Some e \<Rightarrow> e \<notin> ep_id ` set (db_epochs s))
            then Inl (Database ''trading_orders_epoch_id_fkey'')
          else Inr ((), s\<lparr>db_orders := db_orders s @ [new_order_row now o' energy price]\<rparr>)
      | _ \<Rightarrow> Inl (Database ''numeric field overflow''))"

definition insert_order_with_event ::
  "trading_order \<Rightarrow> event \<Rightarrow> datetime \<Rightarrow> store \<Rightarrow> api_error + (unit \<times> store)" where
  "insert_order_with_event o' ev now s =
     (case insert_order o' now s of
        Inl e \<Rightarrow> Inl e
      | Inr (_, s') \<Rightarrow> (case insert_event_in_tx now ev s' of Inl e \<Rightarrow> Inl e | Inr s'' \<Rightarrow> Inr ((), s'')))"

definition set_wallet_signature :: "uuid \<Rightarrow> string \<Rightarrow> datetime \<Rightarrow> store \<Rightarrow> api_error + (unit \<times> store)" where
  "set_wallet_signature i sig now s =
     (if \<exists>r\<in>set (db_orders s). odb_id r \<noteq> i \<and> odb_signature r = Some sig \<and> i \<in> odb_id ` set (db_orders s)
      then Inl (Database ''idx_trading_orders_signature'')
      else Inr ((), s\<lparr>db_orders := update_where (\<lambda>r. odb_id r = i)
             (\<lambda>r. r\<lparr>odb_signature := Some sig\<rparr>) (db_orders s)\<rparr>))"

section \<open>Reading orders\<close>

definition get_order :: "uuid \<Rightarrow> store \<Rightarrow> trading_order option" where
  "get_order i s = map_option order_of_row (find (\<lambda>r. odb_id r = i) (db_orders s))"

definition created_desc :: "order_row list \<Rightarrow> order_row list" where
  "created_desc rs = sort_key (\<lambda>r. case odb_created_at r of None \<Rightarrow> (0::int, 0) | Some t \<Rightarrow> (1, - t)) rs"

definition get_orders_by_user :: "uuid \<Rightarrow> nat \<Rightarrow> nat \<Rightarrow> store \<Rightarrow> trading_order list" where
  "get_orders_by_user u limit offset s =
     map order_of_row (take limit (drop offset (created_desc (filter (\<lambda>r. odb_user_id r = u) (db_orders s)))))"

definition book_entry :: "datetime \<Rightarrow> order_row \<Rightarrow> order_book_entry" where
  "book_entry now r =
     \<lparr>obe_order_id = odb_id r, obe_user_id = odb_user_id r, obe_side = odb_side r,
      obe_energy_amount = odb_energy_amount r - filled_of r, obe_original_amount = odb_energy_amount r,
      obe_price_per_kwh = odb_price_per_kwh r, obe_created_at = unwrap_or (odb_created_at r) now,
      obe_zone_id = odb_zone_id r, obe_session_token = odb_session_token r, obe_signature = None,
      obe_payload_bytes = None, obe_time_in_force = odb_time_in_force r\<rparr>"

definition unexpired :: "datetime \<Rightarrow> order_row \<Rightarrow> bool" where
  "unexpired now r \<longleftrightarrow> (case odb_expires_at r of None \<Rightarrow> True | Some e \<Rightarrow> now < e)"

definition get_active_orders_by_zone :: "int \<Rightarrow> datetime \<Rightarrow> store \<Rightarrow> order_book_entry list" where
  "get_active_orders_by_zone z now s =
     map (book_entry now) (filter (unexpired now)
       (filter (\<lambda>r. odb_zone_id r = Some z \<and> open_status (odb_status r)) (db_orders s)))"

definition get_all_active_orders :: "datetime \<Rightarrow> store \<Rightarrow> order_book_entry list" where
  "get_all_active_orders now s =
     map (book_entry now) (filter (unexpired now) (filter (\<lambda>r. open_status (odb_status r)) (db_orders s)))"

definition bootstrap_active_orders :: "store \<Rightarrow> trading_order list" where
  "bootstrap_active_orders s = map order_of_row (filter (\<lambda>r. open_status (odb_status r)) (db_orders s))"

definition get_active_buy_orders :: "store \<Rightarrow> trading_order list" where
  "get_active_buy_orders s =
     map order_of_row (filter (\<lambda>r. odb_side r = Buy \<and> open_status (odb_status r)) (db_orders s))"

definition get_active_sell_orders :: "store \<Rightarrow> trading_order list" where
  "get_active_sell_orders s =
     map order_of_row (filter (\<lambda>r. odb_side r = Sell \<and> open_status (odb_status r)) (db_orders s))"

section \<open>Updating orders\<close>

definition update_order_status :: "uuid \<Rightarrow> order_status \<Rightarrow> datetime \<Rightarrow> store \<Rightarrow> api_error + (unit \<times> store)" where
  "update_order_status i st now s =
     Inr ((), s\<lparr>db_orders := update_where (\<lambda>r. odb_id r = i)
       (\<lambda>r. r\<lparr>odb_status := st, odb_updated_at := Some now\<rparr>) (db_orders s)\<rparr>)"

definition update_order_pda :: "uuid \<Rightarrow> string \<Rightarrow> int \<Rightarrow> datetime \<Rightarrow> store \<Rightarrow> api_error + (unit \<times> store)" where
  "update_order_pda i pda idx now s =
     Inr ((), s\<lparr>db_orders := update_where (\<lambda>r. odb_id r = i)
       (\<lambda>r. r\<lparr>odb_order_pda := Some pda, odb_order_index := Some idx, odb_updated_at := Some now\<rparr>)
       (db_orders s)\<rparr>)"

definition set_fill :: "datetime \<Rightarrow> decimal \<Rightarrow> order_status \<Rightarrow> order_row \<Rightarrow> order_row" where
  "set_fill now filled st r =
     r\<lparr>odb_filled_amount := Some filled, odb_status := st,
       odb_filled_at := (if st = Order_Filled then Some now else odb_filled_at r)\<rparr>"

definition update_filled_amount ::
  "uuid \<Rightarrow> decimal \<Rightarrow> order_status \<Rightarrow> datetime \<Rightarrow> store \<Rightarrow> api_error + (unit \<times> store)" where
  "update_filled_amount i filled st now s =
     (case num8 filled of
        None \<Rightarrow> Inl (Database ''numeric field overflow'')
      | Some filled' \<Rightarrow> Inr ((), s\<lparr>db_orders := update_where (\<lambda>r. odb_id r = i) (set_fill now filled' st) (db_orders s)\<rparr>))"

definition update_filled_amount_with_event ::
  "uuid \<Rightarrow> decimal \<Rightarrow> order_status \<Rightarrow> event \<Rightarrow> datetime \<Rightarrow> store \<Rightarrow> api_error + (unit \<times> store)" where
  "update_filled_amount_with_event i filled st ev now s =
     (case num8 filled of
        None \<Rightarrow> Inl (Database ''numeric field overflow'')
      | Some filled' \<Rightarrow>
          (let hit = (\<lambda>r. odb_id r = i \<and> open_status (odb_status r)) in
           if rows_affected hit (db_orders s) = 0 then Inr ((), s)
           else (case insert_event_in_tx now ev
                   (s\<lparr>db_orders := update_where hit (set_fill now filled' st) (db_orders s)\<rparr>) of
               Inl e \<Rightarrow> Inl e | Inr s' \<Rightarrow> Inr ((), s'))))"

definition stale :: "datetime \<Rightarrow> order_row \<Rightarrow> bool" where
  "stale at_time r \<longleftrightarrow> open_status (odb_status r) \<and>
     (case odb_expires_at r of None \<Rightarrow> False | Some e \<Rightarrow> e \<le> at_time)"

text \<open>The events of the reaped rows; a NULL \<open>filled_amount\<close> fails the whole transaction.\<close>

fun expire_events :: "datetime \<Rightarrow> order_row list \<Rightarrow> store \<Rightarrow> api_error + store" where
  "expire_events now [] s = Inr s"
| "expire_events now (r # rs) s =
     (case odb_filled_amount r of
        None \<Rightarrow> Inl (Database ''unexpected null; try decoding as an `Option`'')
      | Some filled \<Rightarrow>
          (case insert_event_in_tx now (OrderUpdate (odb_id r) (Some (odb_user_id r)) filled
                   (order_status_str Order_Expired) (odb_zone_id r)) s of
             Inl e \<Rightarrow> Inl e
           | Inr s' \<Rightarrow> expire_events now rs s'))"

definition expire_stale_orders :: "datetime \<Rightarrow> datetime \<Rightarrow> store \<Rightarrow> api_error + (uuid list \<times> store)" where
  "expire_stale_orders at_time now s =
     (let rows = filter (stale at_time) (db_orders s) in
      case expire_events now rows
             (s\<lparr>db_orders := update_where (stale at_time)
                 (\<lambda>r. r\<lparr>odb_status := Order_Expired, odb_updated_at := Some now\<rparr>) (db_orders s)\<rparr>) of
        Inl e \<Rightarrow> Inl e
      | Inr s' \<Rightarrow> Inr (map odb_id rows, s'))"

definition cancel_order :: "uuid \<Rightarrow> uuid \<Rightarrow> datetime \<Rightarrow> store \<Rightarrow> api_error + (bool \<times> store)" where
  "cancel_order i u now s =
     (let hit = (\<lambda>r. odb_id r = i \<and> odb_user_id r = u \<and> open_status (odb_status r)) in
      Inr (rows_affected hit (db_orders s) > 0,
           s\<lparr>db_orders := update_where hit (\<lambda>r. r\<lparr>odb_status := Order_Cancelled\<rparr>) (db_orders s)\<rparr>))"

end
