(* ===== verification/Settlement_Store.thy ===== *)
theory Settlement_Store imports Order_Store Charges begin

text \<open>
  \<open>trading-persistence/src/repositories/settlement.rs\<close>: the settlement ledger, the match ledger and
  the atomic persist of a matched trade, as functions on the store.
\<close>

section \<open>Rows and domain settlements\<close>

definition settlement_status_of :: "string \<Rightarrow> settlement_status" where
  "settlement_status_of st =
     (if st = ''processing'' then Settle_Processing
      else if st = ''completed'' \<or> st = ''confirmed'' then Settle_Completed
      else if st = ''failed'' then Settle_Failed
      else if st = ''permanently_failed'' then Settle_PermanentlyFailed
      else Settle_Pending)"

definition settlement_of_row :: "settlement_row \<Rightarrow> settlement" where
  "settlement_of_row r = \<lparr>st_id = sdb_id r, st_trade_id = sdb_trade_id r, st_epoch_id = sdb_epoch_id r,
     st_buyer_id = sdb_buyer_id r, st_seller_id = sdb_seller_id r,
     st_buy_order_id = sdb_buy_order_id r, st_sell_order_id = sdb_sell_order_id r,
     st_energy_amount = sdb_energy_amount r, st_price = sdb_price_per_kwh r,
     st_total_amount = sdb_total_amount r, st_fee_amount = sdb_fee_amount r,
     st_net_amount = sdb_net_amount r, st_status = settlement_status_of (sdb_status r),
     st_blockchain_tx = sdb_transaction_hash r, st_created_at = sdb_created_at r,
     st_confirmed_at = sdb_processed_at r, st_wheeling_charge = sdb_wheeling_charge r,
     st_loss_factor = sdb_loss_factor r, st_loss_cost = sdb_loss_cost r,
     st_effective_energy = sdb_effective_energy r, st_buyer_zone_id = sdb_buyer_zone_id r,
     st_seller_zone_id = sdb_seller_zone_id r, st_buyer_session_token = sdb_buyer_session_token r,
     st_seller_session_token = sdb_seller_session_token r,
     st_erc_certificate_id = sdb_erc_certificate_id r, st_erc_transfer_tx = sdb_erc_transfer_tx r,
     st_retry_count = sdb_retry_count r, st_error_message = sdb_error_message r\<rparr>"

section \<open>Inserts\<close>

text \<open>The columns \<open>bind_settlement\<close> binds; retry count and error message take their defaults.\<close>

definition settlement_insert_row :: "datetime \<Rightarrow> settlement \<Rightarrow> settlement_row option" where
  "settlement_insert_row now st = do {
     energy \<leftarrow> num8 (st_energy_amount st);
     price \<leftarrow> num8 (st_price st);
     gross \<leftarrow> num8 (st_total_amount st);
     fee \<leftarrow> num8 (st_fee_amount st);
     wheeling \<leftarrow> num8_opt (st_wheeling_charge st);
     loss_f \<leftarrow> num8_opt (st_loss_factor st);
     loss_c \<leftarrow> num8_opt (st_loss_cost st);
     effective \<leftarrow> num8_opt (st_effective_energy st);
     net \<leftarrow> num8 (st_net_amount st);
     Some \<lparr>sdb_id = st_id st, sdb_trade_id = st_trade_id st, sdb_epoch_id = st_epoch_id st,
       sdb_buyer_id = st_buyer_id st, sdb_seller_id = st_seller_id st,
       sdb_buy_order_id = st_buy_order_id st, sdb_sell_order_id = st_sell_order_id st,
       sdb_energy_amount = energy, sdb_price_per_kwh = price, sdb_total_amount = gross,
       sdb_fee_amount = fee, sdb_wheeling_charge = wheeling, sdb_loss_factor = loss_f,
       sdb_loss_cost = loss_c, sdb_effective_energy = effective,
       sdb_buyer_zone_id = st_buyer_zone_id st, sdb_seller_zone_id = st_seller_zone_id st,
       sdb_net_amount = net, sdb_status = settlement_status_str (st_status st),
       sdb_transaction_hash = st_blockchain_tx st, sdb_created_at = st_created_at st,
       sdb_processed_at = st_confirmed_at st, sdb_buyer_session_token = st_buyer_session_token st,
       sdb_seller_session_token = st_seller_session_token st,
       sdb_erc_certificate_id = st_erc_certificate_id st,
       sdb_erc_transfer_tx = st_erc_transfer_tx st, sdb_retry_count = 0,
       sdb_error_message = None, sdb_updated_at = now\<rparr> }"

definition insert_settlement :: "settlement \<Rightarrow> datetime \<Rightarrow> store \<Rightarrow> api_error + (unit \<times> store)" where
  "insert_settlement st now s =
     (case settlement_insert_row now st of
        None \<Rightarrow> Inl (Database ''numeric field overflow'')
      | Some r \<Rightarrow>
          if st_id st \<in> sdb_id ` set (db_settlements s) then Inl (Database ''settlements_pkey'')
          else if st_epoch_id st \<notin> ep_id ` set (db_epochs s) then Inl (Database ''settlements_epoch_id_fkey'')
          else Inr ((), s\<lparr>db_settlements := db_settlements s @ [r]\<rparr>))"

definition insert_settlement_with_event ::
  "settlement \<Rightarrow> event \<Rightarrow> datetime \<Rightarrow> store \<Rightarrow> api_error + (unit \<times> store)" where
  "insert_settlement_with_event st ev now s =
     (case insert_settlement st now s of
        Inl e \<Rightarrow> Inl e
      | Inr (_, s') \<Rightarrow> (case insert_event_in_tx now ev s' of Inl e \<Rightarrow> Inl e | Inr s'' \<Rightarrow> Inr ((), s'')))"

definition insert_match ::
  "order_match \<Rightarrow> uuid option \<Rightarrow> zone \<Rightarrow> datetime \<Rightarrow> store \<Rightarrow> api_error + (unit \<times> store)" where
  "insert_match m settlement_id z now s =
     (case (num8 (om_matched_amount m), num8 (om_match_price m)) of
        (Some amount, Some price) \<Rightarrow>
          if om_id m \<in> (om_id \<circ> mdb_match) ` set (db_matches s) then Inl (Database ''order_matches_pkey'')
          else if om_epoch_id m \<notin> ep_id ` set (db_epochs s) then Inl (Database ''order_matches_epoch_id_fkey'')
          else if om_buy_order_id m \<notin> odb_id ` set (db_orders s) then Inl (Database ''order_matches_buy_order_id_fkey'')
          else if om_sell_order_id m \<notin> odb_id ` set (db_orders s) then Inl (Database ''order_matches_sell_order_id_fkey'')
          else if (case settlement_id of None \<Rightarrow> False | Some i \<Rightarrow> i \<notin> sdb_id ` set (db_settlements s))
            then Inl (Database ''fk_order_matches_settlement'')
          else if amount \<le> 0 then Inl (Database ''chk_matched_amount'')
          else if om_status m \<notin> {''pending'', ''settled'', ''failed''} then Inl (Database ''chk_match_status'')
          else Inr ((), s\<lparr>db_matches := db_matches s @
                 [\<lparr>mdb_match = m\<lparr>om_matched_amount := amount, om_match_price := price\<rparr>,
                   mdb_settlement_id = settlement_id, mdb_zone_id = z\<rparr>]\<rparr>)
      | _ \<Rightarrow> Inl (Database ''numeric field overflow''))"

definition insert_match_with_event ::
  "order_match \<Rightarrow> uuid option \<Rightarrow> zone \<Rightarrow> event \<Rightarrow> datetime \<Rightarrow> store \<Rightarrow> api_error + (unit \<times> store)" where
  "insert_match_with_event m settlement_id z ev now s =
     (case insert_match m settlement_id z now s of
        Inl e \<Rightarrow> Inl e
      | Inr (_, s') \<Rightarrow> (case insert_event_in_tx now ev s' of Inl e \<Rightarrow> Inl e | Inr s'' \<Rightarrow> Inr ((), s'')))"

section \<open>The atomic persist of a trade\<close>

text \<open>The incremental fill of one row.\<close>

definition fill_status :: "decimal \<Rightarrow> order_row \<Rightarrow> order_status" where
  "fill_status delta r =
     (if filled_of r + delta \<ge> odb_energy_amount r then Order_Filled else Order_PartiallyFilled)"

definition incremental_fill :: "datetime \<Rightarrow> decimal \<Rightarrow> decimal \<Rightarrow> order_row \<Rightarrow> order_row" where
  "incremental_fill now delta filled r =
     r\<lparr>odb_filled_amount := Some filled, odb_status := fill_status delta r,
       odb_filled_at := (if filled_of r + delta \<ge> odb_energy_amount r then Some now else odb_filled_at r)\<rparr>"

text \<open>One side: \<open>None\<close> when no live row matches, otherwise the update and its event.\<close>

definition fill_side :: "datetime \<Rightarrow> trade_fill \<Rightarrow> store \<Rightarrow> api_error + store option" where
  "fill_side now side s =
     (case find (\<lambda>r. odb_id r = tf_order_id side \<and> open_status (odb_status r)) (db_orders s) of
        None \<Rightarrow> Inr None
      | Some r \<Rightarrow>
          (case num8 (filled_of r + tf_delta side) of
             None \<Rightarrow> Inl (Database ''numeric field overflow'')
           | Some filled \<Rightarrow>
               (case insert_event_in_tx now
                       (OrderUpdate (tf_order_id side) (tf_user_id side) filled
                          (order_status_str (fill_status (tf_delta side) r)) (tf_zone_id side))
                       (s\<lparr>db_orders := update_where
                            (\<lambda>r. odb_id r = tf_order_id side \<and> open_status (odb_status r))
                            (incremental_fill now (tf_delta side) filled) (db_orders s)\<rparr>) of
                  Inl e \<Rightarrow> Inl e
                | Inr s' \<Rightarrow> Inr (Some s'))))"

definition persist_matched_trade ::
  "settlement \<Rightarrow> order_match \<Rightarrow> event \<Rightarrow> zone \<Rightarrow> trade_fill \<Rightarrow> trade_fill \<Rightarrow> datetime \<Rightarrow> store
     \<Rightarrow> api_error + (bool \<times> store)" where
  "persist_matched_trade st m ev z buyer seller now s =
     (case insert_settlement st now s of
        Inl e \<Rightarrow> Inl e
      | Inr (_, s1) \<Rightarrow>
     (case insert_match m (Some (st_id st)) z now s1 of
        Inl e \<Rightarrow> Inl e
      | Inr (_, s2) \<Rightarrow>
     (case insert_event_in_tx now ev s2 of
        Inl e \<Rightarrow> Inl e
      | Inr s3 \<Rightarrow>
     (case fill_side now buyer s3 of
        Inl e \<Rightarrow> Inl e
      | Inr None \<Rightarrow> Inr (False, s)
      | Inr (Some s4) \<Rightarrow>
     (case fill_side now seller s4 of
        Inl e \<Rightarrow> Inl e
      | Inr None \<Rightarrow> Inr (False, s)
      | Inr (Some s5) \<Rightarrow> Inr (True, s5))))))"

section \<open>Queries\<close>

definition get_settlement :: "uuid \<Rightarrow> store \<Rightarrow> settlement option" where
  "get_settlement i s = map_option settlement_of_row (find (\<lambda>r. sdb_id r = i) (db_settlements s))"

definition get_pending_settlements :: "nat \<Rightarrow> store \<Rightarrow> settlement list" where
  "get_pending_settlements limit s =
     map settlement_of_row (take limit (filter (\<lambda>r. sdb_status r = ''pending'') (db_settlements s)))"

definition completed_rows :: "store \<Rightarrow> settlement_row list" where
  "completed_rows s = filter (\<lambda>r. sdb_status r = ''completed'') (db_settlements s)"

definition completed_charge_totals :: "store \<Rightarrow> charge_totals" where
  "completed_charge_totals s =
     \<lparr>ct_fee = sum_list (map sdb_fee_amount (completed_rows s)),
      ct_wheeling = sum_list (map (\<lambda>r. unwrap_or (sdb_wheeling_charge r) 0) (completed_rows s)),
      ct_loss = sum_list (map (\<lambda>r. unwrap_or (sdb_loss_cost r) 0) (completed_rows s))\<rparr>"

text \<open>The two pre-flight joins: a settlement joins when both its orders exist.\<close>

definition joined :: "store \<Rightarrow> settlement_row \<Rightarrow> (order_row \<Rightarrow> order_row \<Rightarrow> bool) \<Rightarrow> bool" where
  "joined s r P \<longleftrightarrow> (\<exists>bo\<in>set (db_orders s). \<exists>so\<in>set (db_orders s).
     odb_id bo = sdb_buy_order_id r \<and> odb_id so = sdb_sell_order_id r \<and> P bo so)"

definition settlements_missing_order_pda :: "uuid list \<Rightarrow> store \<Rightarrow> uuid list" where
  "settlements_missing_order_pda ids s =
     (if ids = [] then [] else
      map sdb_id (filter (\<lambda>r. sdb_id r \<in> set ids \<and>
        joined s r (\<lambda>bo so. odb_order_pda bo = None \<or> odb_order_pda so = None)) (db_settlements s)))"

definition lapsed :: "datetime \<Rightarrow> order_row \<Rightarrow> bool" where
  "lapsed now r \<longleftrightarrow> (case odb_expires_at r of None \<Rightarrow> False | Some e \<Rightarrow> e \<le> now)"

definition settlements_with_lapsed_orders :: "uuid list \<Rightarrow> datetime \<Rightarrow> store \<Rightarrow> uuid list" where
  "settlements_with_lapsed_orders ids now s =
     (if ids = [] then [] else
      map sdb_id (filter (\<lambda>r. sdb_id r \<in> set ids \<and>
        joined s r (\<lambda>bo so. lapsed now bo \<or> lapsed now so)) (db_settlements s)))"

definition recent_completed_settlements :: "nat \<Rightarrow> store \<Rightarrow> settlement list" where
  "recent_completed_settlements limit s =
     map settlement_of_row (take limit (sort_key (\<lambda>r. - sdb_created_at r) (completed_rows s)))"

section \<open>Status changes\<close>

definition claimable :: "uuid list \<Rightarrow> settlement_row \<Rightarrow> bool" where
  "claimable ids r \<longleftrightarrow> sdb_id r \<in> set ids \<and> sdb_status r = ''pending''"

definition claim_settlements_for_processing ::
  "uuid list \<Rightarrow> datetime \<Rightarrow> store \<Rightarrow> api_error + (settlement list \<times> store)" where
  "claim_settlements_for_processing ids now s =
     (if ids = [] then Inr ([], s)
      else let upd = (\<lambda>r. r\<lparr>sdb_status := ''processing'', sdb_updated_at := now\<rparr>) in
        Inr (map (settlement_of_row \<circ> upd) (filter (claimable ids) (db_settlements s)),
             s\<lparr>db_settlements := update_where (claimable ids) upd (db_settlements s)\<rparr>))"

definition bump_retry :: "int \<Rightarrow> datetime \<Rightarrow> settlement_row \<Rightarrow> settlement_row" where
  "bump_retry max_retries now r =
     r\<lparr>sdb_retry_count := sdb_retry_count r + 1,
       sdb_status := (if sdb_retry_count r + 1 \<ge> max_retries then ''permanently_failed'' else ''pending''),
       sdb_updated_at := now\<rparr>"

definition reset_settlements_for_retry ::
  "uuid list \<Rightarrow> int \<Rightarrow> string option \<Rightarrow> datetime \<Rightarrow> store \<Rightarrow> api_error + (nat \<times> store)" where
  "reset_settlements_for_retry ids max_retries err now s =
     (if ids = [] then Inr (0, s)
      else let hit = (\<lambda>r. sdb_id r \<in> set ids \<and> sdb_status r = ''processing'') in
        Inr (rows_affected hit (db_settlements s),
             s\<lparr>db_settlements := update_where hit
                 (\<lambda>r. (bump_retry max_retries now r)\<lparr>sdb_error_message := err\<rparr>) (db_settlements s)\<rparr>))"

definition reclaim_stale_processing :: "int \<Rightarrow> int \<Rightarrow> datetime \<Rightarrow> store \<Rightarrow> api_error + (nat \<times> store)" where
  "reclaim_stale_processing stale_after_secs max_retries now s =
     (let hit = (\<lambda>r. sdb_status r = ''processing'' \<and>
                   sdb_updated_at r < now - stale_after_secs * 1000000000) in
      Inr (rows_affected hit (db_settlements s),
           s\<lparr>db_settlements := update_where hit (bump_retry max_retries now) (db_settlements s)\<rparr>))"

definition set_status :: "string \<Rightarrow> string option \<Rightarrow> string option \<Rightarrow> datetime \<Rightarrow> settlement_row \<Rightarrow> settlement_row" where
  "set_status st tx err now r =
     r\<lparr>sdb_status := st, sdb_transaction_hash := tx, sdb_error_message := err, sdb_updated_at := now\<rparr>"

definition update_settlement_status ::
  "uuid \<Rightarrow> string \<Rightarrow> string option \<Rightarrow> string option \<Rightarrow> datetime \<Rightarrow> store \<Rightarrow> api_error + (unit \<times> store)" where
  "update_settlement_status i st tx err now s =
     Inr ((), s\<lparr>db_settlements := update_where (\<lambda>r. sdb_id r = i) (set_status st tx err now) (db_settlements s)\<rparr>)"

definition update_settlement_status_with_event ::
  "uuid \<Rightarrow> string \<Rightarrow> string option \<Rightarrow> string option \<Rightarrow> event \<Rightarrow> datetime \<Rightarrow> store \<Rightarrow> api_error + (unit \<times> store)" where
  "update_settlement_status_with_event i st tx err ev now s =
     (case update_settlement_status i st tx err now s of
        Inl e \<Rightarrow> Inl e
      | Inr (_, s') \<Rightarrow> (case insert_event_in_tx now ev s' of Inl e \<Rightarrow> Inl e | Inr s'' \<Rightarrow> Inr ((), s'')))"

section \<open>Reports\<close>

definition list_settlements_for_user :: "uuid \<Rightarrow> nat \<Rightarrow> nat \<Rightarrow> store \<Rightarrow> settlement list \<times> nat" where
  "list_settlements_for_user u limit offset s =
     (let mine = filter (\<lambda>r. sdb_buyer_id r = u \<or> sdb_seller_id r = u) (db_settlements s) in
      (map settlement_of_row (take limit (drop offset (sort_key (\<lambda>r. - sdb_created_at r) mine))), length mine))"

record settlement_stats =
  ss_pending_count :: nat
  ss_processing_count :: nat
  ss_confirmed_count :: nat
  ss_failed_count :: nat
  ss_total_settled_value :: decimal

definition get_settlement_stats :: "store \<Rightarrow> settlement_stats" where
  "get_settlement_stats s =
     \<lparr>ss_pending_count = rows_affected (\<lambda>r. sdb_status r = ''pending'') (db_settlements s),
      ss_processing_count = rows_affected (\<lambda>r. sdb_status r = ''processing'') (db_settlements s),
      ss_confirmed_count = rows_affected (\<lambda>r. sdb_status r = ''completed'') (db_settlements s),
      ss_failed_count = rows_affected (\<lambda>r. sdb_status r = ''failed'') (db_settlements s),
      ss_total_settled_value = sum_list (map sdb_total_amount (completed_rows s))\<rparr>"

definition in_window :: "int \<Rightarrow> datetime \<Rightarrow> settlement_row \<Rightarrow> bool" where
  "in_window window_hours now r \<longleftrightarrow>
     window_hours \<le> 0 \<or>
     now - (if window_hours < 2 ^ 31 then window_hours else 24) * 3600 * 1000000000 \<le> sdb_created_at r"

definition count_active_traders :: "int \<Rightarrow> datetime \<Rightarrow> store \<Rightarrow> nat" where
  "count_active_traders window_hours now s =
     (let rows = filter (in_window window_hours now) (completed_rows s) in
      card (sdb_buyer_id ` set rows \<union> sdb_seller_id ` set rows))"

end
