(* ===== verification/Settlement_Service.thy ===== *)
theory Settlement_Service imports Settlement_Store begin

text \<open>
  \<open>trading-logic/src/settlement.rs\<close>: the settlement lifecycle.  Pending settlements are claimed,
  those that can never settle are parked, the rest goes to the chain in one batch; a batch the
  program rejects is settled entry by entry.  The chain is a parameter: given the batches sent so
  far and the next one it answers with the transactions or an error.
\<close>

section \<open>The service\<close>

type_synonym chain = "settlement list list \<Rightarrow> settlement list \<Rightarrow> api_error + settlement_transaction list"

definition max_settlement_retries :: int where "max_settlement_retries = 5"
definition stale_processing_secs :: int where "stale_processing_secs = 300"

definition log_action :: "uuid \<Rightarrow> string \<Rightarrow> string \<Rightarrow> unit io" where
  "log_action user action details w = (Inr (), w\<lparr>w_audit := w_audit w @ [(user, action, details)]\<rparr>)"

definition send_batch :: "chain \<Rightarrow> settlement list \<Rightarrow> settlement_transaction list io" where
  "send_batch chain batch w =
     (case chain (w_sent w) batch of
        Inl e \<Rightarrow> (Inl (Error e), w\<lparr>w_sent := w_sent w @ [batch]\<rparr>)
      | Inr rs \<Rightarrow> (Inr rs, w\<lparr>w_sent := w_sent w @ [batch]\<rparr>))"

text \<open>\<open>let _ = call.await;\<close>\<close>

definition ignore :: "'a io \<Rightarrow> unit io" where
  "ignore m = and_then (attempt m) (\<lambda>_. ok ())"

definition reclaim_stale_settlements :: "nat io" where
  "reclaim_stale_settlements = db_call (reclaim_stale_processing stale_processing_secs max_settlement_retries)"

subsection \<open>The pre-flight checks\<close>

text \<open>Strings are their UTF-8 bytes.\<close>

definition em_dash :: string where
  "em_dash = [CHR 0xE2, CHR 0x80, CHR 0x94]"

definition unplaced_reason :: "settlement \<Rightarrow> string" where
  "unplaced_reason st = ''order never placed on-chain (buy '' @ uuid_str (st_buy_order_id st) @ '' / sell ''
     @ uuid_str (st_sell_order_id st) @ '' '' @ em_dash @ '' one has no order_pda); placement is not retried by any worker, so this settlement can never succeed''"

definition lapsed_reason :: "settlement \<Rightarrow> string" where
  "lapsed_reason st = ''order expired before settlement (buy '' @ uuid_str (st_buy_order_id st) @ '' / sell ''
     @ uuid_str (st_sell_order_id st) @ ''); on-chain settlement would be rejected OrderExpired''
     @ (case st_error_message st of None \<Rightarrow> ''''
        | Some prior \<Rightarrow> ''; earlier failure after '' @ int_str (st_retry_count st)
            @ '' attempt(s), which is the cause to investigate: '' @ prior)"

text \<open>Park one settlement in the terminal state, with the reason and an audit entry; a failed
  write leaves the row in \<open>processing\<close>.\<close>

definition park :: "(settlement \<Rightarrow> string) \<Rightarrow> string \<Rightarrow> settlement \<Rightarrow> unit io" where
  "park reason action st =
     and_then (attempt (db_call (update_settlement_status (st_id st)
                 (settlement_status_str Settle_PermanentlyFailed) None (Some (reason st)))))
       (\<lambda>res. case res of
            Inl _ \<Rightarrow> ok ()
          | Inr _ \<Rightarrow> ignore (log_action (st_buyer_id st) action
                (''Settlement '' @ uuid_str (st_id st) @ '' not attempted: '' @ reason st)))"

definition park_unplaceable_settlements :: "settlement list \<Rightarrow> settlement list io" where
  "park_unplaceable_settlements claimed =
     and_then (attempt (db_read (\<lambda>_. settlements_missing_order_pda (map st_id claimed))))
       (\<lambda>res. case res of
            Inl _ \<Rightarrow> ok claimed
          | Inr unplaced \<Rightarrow>
              if unplaced = [] then ok claimed
              else and_then (for_each (park unplaced_reason ''settlement_failed'')
                       (filter (\<lambda>st. st_id st \<in> set unplaced) claimed))
                     (\<lambda>_. ok (filter (\<lambda>st. st_id st \<notin> set unplaced) claimed)))"

definition park_lapsed_settlements :: "settlement list \<Rightarrow> settlement list io" where
  "park_lapsed_settlements claimed =
     and_then (attempt (db_read (settlements_with_lapsed_orders (map st_id claimed))))
       (\<lambda>res. case res of
            Inl _ \<Rightarrow> ok claimed
          | Inr lapsed_ids \<Rightarrow>
              if lapsed_ids = [] then ok claimed
              else and_then (for_each (park lapsed_reason ''settlement_expired'')
                       (filter (\<lambda>st. st_id st \<in> set lapsed_ids) claimed))
                     (\<lambda>_. ok (filter (\<lambda>st. st_id st \<notin> set lapsed_ids) claimed)))"

subsection \<open>Settling a claimed batch\<close>

text \<open>The completion of one minted settlement: status and event together, otherwise the status
  alone, otherwise nothing.\<close>

definition complete_minted :: "settlement list \<Rightarrow> settlement_transaction \<Rightarrow> unit io" where
  "complete_minted claimed tx =
     and_then telemetry_now (\<lambda>now.
     and_then (attempt (db_call (update_settlement_status_with_event (tx_settlement_id tx)
                 (settlement_status_str Settle_Completed) (Some (tx_signature tx)) None
                 (SettlementProcessed \<lparr>spp_settlement_id = tx_settlement_id tx, spp_tx_signature = tx_signature tx,
                    spp_status = settlement_status_str Settle_Completed, spp_timestamp = now\<rparr>))))
       (\<lambda>res. case res of
            Inl _ \<Rightarrow> ignore (db_call (update_settlement_status (tx_settlement_id tx)
                        (settlement_status_str Settle_Completed) (Some (tx_signature tx)) None))
          | Inr _ \<Rightarrow>
              (case find (\<lambda>st. st_id st = tx_settlement_id tx) (rev claimed) of
                 None \<Rightarrow> ok ()
               | Some st \<Rightarrow> ignore (log_action (st_buyer_id st) ''settlement_completed''
                   (''Settlement '' @ uuid_str (st_id st) @ '' completed on-chain with signature ''
                     @ tx_signature tx)))))"

text \<open>The singleton the program rejected.\<close>

definition park_rejected :: "settlement \<Rightarrow> string \<Rightarrow> unit io" where
  "park_rejected st reason =
     and_then (ignore (db_call (update_settlement_status (st_id st)
                 (settlement_status_str Settle_PermanentlyFailed) None
                 (Some (''deterministic on-chain rejection, not retried: '' @ reason)))))
       (\<lambda>_. ignore (log_action (st_buyer_id st) ''settlement_failed''
              (''Settlement '' @ uuid_str (st_id st) @ '' permanently failed: program rejected it ('' @ reason @ '')'')))"

text \<open>The transient failure: the whole batch is released.\<close>

definition release_batch :: "settlement list \<Rightarrow> string \<Rightarrow> unit io" where
  "release_batch claimed reason =
     and_then (ignore (db_call (reset_settlements_for_retry (map st_id claimed) max_settlement_retries (Some reason))))
       (\<lambda>_. for_each (\<lambda>st. ignore (log_action (st_buyer_id st) ''settlement_failed''
              (''Settlement '' @ uuid_str (st_id st) @ '' failed on-chain: '' @ reason))) claimed)"

definition isolate_step ::
  "(settlement \<Rightarrow> settlement_transaction list io) \<Rightarrow> settlement \<Rightarrow> settlement_transaction list \<Rightarrow> settlement_transaction list io" where
  "isolate_step resettle st acc =
     and_then (attempt (resettle st)) (\<lambda>res. case res of Inl _ \<Rightarrow> ok acc | Inr rs \<Rightarrow> ok (acc @ rs))"

fun isolate ::
  "(settlement \<Rightarrow> settlement_transaction list io) \<Rightarrow> settlement list \<Rightarrow> settlement_transaction list
     \<Rightarrow> settlement_transaction list io" where
  "isolate resettle [] acc = ok acc"
| "isolate resettle (st # sts) acc = and_then (isolate_step resettle st acc) (isolate resettle sts)"

definition finish_batch :: "settlement list \<Rightarrow> settlement_transaction list \<Rightarrow> settlement_transaction list io" where
  "finish_batch claimed tx_results =
     and_then (for_each (complete_minted claimed) tx_results) (\<lambda>_.
       let unminted = filter (\<lambda>i. i \<notin> tx_settlement_id ` set tx_results) (map st_id claimed) in
       and_then (if unminted = [] then ok ()
                 else ignore (db_call (reset_settlements_for_retry unminted max_settlement_retries
                        (Some ''not included in on-chain batch result''))))
         (\<lambda>_. ok tx_results))"

text \<open>What follows the chain's answer; the recursive call of \<open>settle_claimed\<close> is an argument.\<close>

definition settle_answer ::
  "(settlement \<Rightarrow> settlement_transaction list io) \<Rightarrow> settlement list \<Rightarrow> api_error + settlement_transaction list
     \<Rightarrow> settlement_transaction list io" where
  "settle_answer resettle claimed res =
     (case res of
         Inr tx_results \<Rightarrow> finish_batch claimed tx_results
       | Inl e \<Rightarrow>
           (let reason = api_error_str e in
            if is_deterministic_chain_rejection reason then
              (case claimed of
                 [single] \<Rightarrow> and_then (park_rejected single reason) (\<lambda>_. throw e)
               | _ \<Rightarrow> isolate resettle claimed [])
            else and_then (release_batch claimed reason) (\<lambda>_. throw e)))"

definition settle_batch ::
  "chain \<Rightarrow> (settlement \<Rightarrow> settlement_transaction list io) \<Rightarrow> settlement list \<Rightarrow> settlement_transaction list io" where
  "settle_batch chain resettle claimed0 =
     and_then (park_unplaceable_settlements claimed0) (\<lambda>claimed1.
     if claimed1 = [] then ok [] else
     and_then (park_lapsed_settlements claimed1) (\<lambda>claimed.
     if claimed = [] then ok [] else
     and_then (attempt (send_batch chain claimed)) (settle_answer resettle claimed)))"

text \<open>The recursion is one level deep: a singleton batch never calls itself.\<close>

definition settle_single :: "chain \<Rightarrow> settlement \<Rightarrow> settlement_transaction list io" where
  "settle_single chain st = settle_batch chain (\<lambda>_. ok []) [st]"

definition settle_claimed :: "chain \<Rightarrow> settlement list \<Rightarrow> settlement_transaction list io" where
  "settle_claimed chain = settle_batch chain (settle_single chain)"

definition process_pending_settlements :: "chain \<Rightarrow> nat \<Rightarrow> nat io" where
  "process_pending_settlements chain limit =
     and_then (db_read (\<lambda>_. get_pending_settlements limit)) (\<lambda>pending.
     if pending = [] then ok 0 else
     and_then (db_call (claim_settlements_for_processing (map st_id pending))) (\<lambda>claimed.
     if claimed = [] then ok 0 else
     and_then (settle_claimed chain claimed) (\<lambda>results. ok (length results))))"

definition execute_batched_settlements :: "chain \<Rightarrow> settlement list \<Rightarrow> settlement_transaction list io" where
  "execute_batched_settlements chain settlements =
     (if settlements = [] then ok [] else
      and_then (db_call (claim_settlements_for_processing (map st_id settlements))) (\<lambda>claimed.
      if claimed = [] then ok [] else settle_claimed chain claimed))"

text \<open>One tick of \<open>workers/settlement.rs\<close>: both results are only logged.\<close>

definition settlement_tick :: "chain \<Rightarrow> nat \<Rightarrow> unit io" where
  "settlement_tick chain batch_limit =
     and_then (ignore reclaim_stale_settlements) (\<lambda>_. ignore (process_pending_settlements chain batch_limit))"

end
