(* ===== verification/Settlement_Lifecycle.thy ===== *)
theory Settlement_Lifecycle imports Settlement_Service begin

text \<open>
  What the settlement service does to the ledger.  The lifecycle of a row is a transition system;
  the service's operations, under any database faults and any answers of the chain, only move
  rows along it, complete exactly what the chain minted, and, when no write fails, leave nothing
  in \<open>processing\<close> and never mint a settlement twice.
\<close>

section \<open>The lifecycle of a row\<close>

inductive life :: "settlement_row \<Rightarrow> settlement_row \<Rightarrow> bool" where
  claimed: "sdb_status r = ''pending'' \<Longrightarrow> life r (r\<lparr>sdb_status := ''processing'', sdb_updated_at := t\<rparr>)"
| retried: "sdb_status r = ''processing'' \<Longrightarrow>
    life r ((bump_retry max_settlement_retries t r)\<lparr>sdb_error_message := e\<rparr>)"
| completed: "sdb_status r = ''processing'' \<Longrightarrow> life r (set_status ''completed'' (Some tx) None t r)"
| parked: "sdb_status r = ''processing'' \<Longrightarrow> life r (set_status ''permanently_failed'' None (Some e) t r)"

inductive_cases life_from: "life r r'"

lemma life_reclaimed: "sdb_status r = ''processing'' \<Longrightarrow> life r (bump_retry max_settlement_retries t r)"
  using retried[of r "sdb_error_message r" t] by (simp add: bump_retry_def)

text \<open>What no transition changes, and the two statuses that have one.\<close>

definition same_trade :: "settlement_row \<Rightarrow> settlement_row \<Rightarrow> bool" where
  "same_trade r r' \<longleftrightarrow>
     sdb_id r' = sdb_id r \<and> sdb_trade_id r' = sdb_trade_id r \<and> sdb_buy_order_id r' = sdb_buy_order_id r \<and>
     sdb_sell_order_id r' = sdb_sell_order_id r \<and> sdb_energy_amount r' = sdb_energy_amount r \<and>
     sdb_total_amount r' = sdb_total_amount r \<and> sdb_net_amount r' = sdb_net_amount r"

definition live_status :: "string \<Rightarrow> bool" where
  "live_status st \<longleftrightarrow> st = ''pending'' \<or> st = ''processing''"

lemma life_step:
  "life r r' \<Longrightarrow> same_trade r r' \<and> live_status (sdb_status r) \<and> sdb_retry_count r \<le> sdb_retry_count r'
     \<and> sdb_status r' \<noteq> sdb_status r"
  by (auto elim!: life_from simp: same_trade_def live_status_def bump_retry_def set_status_def split: if_splits)

lemma life_id [simp]: "life r r' \<Longrightarrow> sdb_id r' = sdb_id r"
  using life_step by (auto simp: same_trade_def)

lemma life_star:
  "life\<^sup>*\<^sup>* r r' \<Longrightarrow> same_trade r r' \<and> sdb_retry_count r \<le> sdb_retry_count r'
     \<and> (\<not> live_status (sdb_status r) \<longrightarrow> r' = r)"
proof (induction rule: rtranclp_induct)
  case base
  then show ?case by (simp add: same_trade_def)
next
  case (step y z)
  then show ?case using life_step[OF step.hyps(2)] by (auto simp: same_trade_def)
qed

lemma life_star_id: "life\<^sup>*\<^sup>* r r' \<Longrightarrow> sdb_id r' = sdb_id r"
  using life_star by (auto simp: same_trade_def)

lemma lives_ids: "list_all2 life\<^sup>*\<^sup>* rs rs' \<Longrightarrow> map sdb_id rs' = map sdb_id rs"
  by (induction rule: list_all2_induct) (auto simp: life_star_id)

section \<open>What the chain minted\<close>

definition minted_by :: "chain \<Rightarrow> settlement list list \<Rightarrow> settlement_transaction \<Rightarrow> bool" where
  "minted_by chain sent tx \<longleftrightarrow>
     (\<exists>k<length sent. \<exists>rs. chain (take k sent) (sent ! k) = Inr rs \<and> tx \<in> set rs)"

lemma minted_by_append:
  "minted_by chain (sent @ [b]) tx \<longleftrightarrow>
     minted_by chain sent tx \<or> (\<exists>rs. chain sent b = Inr rs \<and> tx \<in> set rs)"
proof -
  have "(\<exists>k<Suc (length sent). P k) \<longleftrightarrow> (\<exists>k<length sent. P k) \<or> P (length sent)" for P
    by (auto simp: less_Suc_eq)
  then show ?thesis by (simp add: minted_by_def nth_append cong: conj_cong)
qed

text \<open>The settlements of all answers, in the order they were minted.\<close>

definition answer_ids :: "api_error + settlement_transaction list \<Rightarrow> uuid list" where
  "answer_ids res = (case res of Inl _ \<Rightarrow> [] | Inr rs \<Rightarrow> map tx_settlement_id rs)"

definition minted_ids :: "chain \<Rightarrow> settlement list list \<Rightarrow> uuid list" where
  "minted_ids chain sent = concat (map (\<lambda>k. answer_ids (chain (take k sent) (sent ! k))) [0..<length sent])"

lemma minted_ids_append: "minted_ids chain (sent @ [b]) = minted_ids chain sent @ answer_ids (chain sent b)"
proof -
  have "map (\<lambda>k. answer_ids (chain (take k (sent @ [b])) ((sent @ [b]) ! k))) [0..<length sent] =
        map (\<lambda>k. answer_ids (chain (take k sent) (sent ! k))) [0..<length sent]"
    by (rule map_cong) (simp_all add: nth_append)
  moreover have "take (length sent) (sent @ [b]) = sent" by simp
  ultimately show ?thesis unfolding minted_ids_def by (simp del: take_append map_eq_conv)
qed

lemma minted_ids_minted_by:
  assumes "i \<in> set (minted_ids chain sent)"
  obtains tx where "minted_by chain sent tx" "tx_settlement_id tx = i"
proof -
  obtain k where k: "k < length sent" "i \<in> set (answer_ids (chain (take k sent) (sent ! k)))"
    using assms by (auto simp: minted_ids_def)
  then obtain rs tx where "chain (take k sent) (sent ! k) = Inr rs" "tx \<in> set rs" "tx_settlement_id tx = i"
    by (cases "chain (take k sent) (sent ! k)") (auto simp: answer_ids_def)
  then show thesis using k(1) by (intro that[of tx]) (auto simp: minted_by_def)
qed

text \<open>The contract of the gateway: for a batch without duplicates, the answer names settlements of it, each once.\<close>

definition chain_ok :: "chain \<Rightarrow> bool" where
  "chain_ok chain \<longleftrightarrow> (\<forall>sent b rs. distinct (map st_id b) \<longrightarrow> chain sent b = Inr rs \<longrightarrow>
     tx_settlement_id ` set rs \<subseteq> st_id ` set b \<and> distinct (map tx_settlement_id rs))"

definition proven :: "chain \<Rightarrow> settlement list list \<Rightarrow> settlement_row \<Rightarrow> bool" where
  "proven chain sent r \<longleftrightarrow> (\<exists>tx. minted_by chain sent tx \<and> tx_settlement_id tx = sdb_id r \<and>
     sdb_transaction_hash r = Some (tx_signature tx))"

section \<open>The invariant of a settlement run\<close>

abbreviation rows :: "world \<Rightarrow> settlement_row list" where
  "rows w \<equiv> db_settlements (w_store w)"

text \<open>
  From the rows \<open>rows0\<close>: \<open>S\<close> are the settlements held in \<open>processing\<close>, \<open>J\<close> those that have left it,
  \<open>C\<close> those the chain minted and the ledger does not show yet; \<open>hl\<close> says that no call fails.
\<close>

definition sinv ::
  "bool \<Rightarrow> chain \<Rightarrow> settlement_row list \<Rightarrow> uuid set \<Rightarrow> uuid set \<Rightarrow> uuid set \<Rightarrow> world \<Rightarrow> bool" where
  "sinv hl chain rows0 S J C w \<longleftrightarrow>
     list_all2 life\<^sup>*\<^sup>* rows0 (rows w) \<and> distinct (map sdb_id (rows w)) \<and>
     (\<forall>r\<in>set (rows w). sdb_id r \<in> S \<longrightarrow> sdb_status r = ''processing'') \<and>
     (\<forall>r\<in>set (rows w). sdb_status r = ''completed'' \<longrightarrow>
        (\<exists>r0\<in>set rows0. sdb_id r0 = sdb_id r \<and> sdb_status r0 = ''completed'') \<or> proven chain (w_sent w) r) \<and>
     (hl \<longrightarrow> healthy w \<and> distinct (minted_ids chain (w_sent w)) \<and>
        set (minted_ids chain (w_sent w)) \<union> S \<subseteq> set (map sdb_id (rows w)) \<and>
        (\<forall>r\<in>set (rows w). sdb_id r \<in> J \<longrightarrow> sdb_status r \<noteq> ''processing'') \<and>
        (\<forall>r\<in>set (rows w). \<forall>tx. minted_by chain (w_sent w) tx \<and> tx_settlement_id tx = sdb_id r \<and> sdb_id r \<notin> C
           \<longrightarrow> sdb_status r = ''completed''))"

lemma sinvD:
  assumes "sinv hl chain rows0 S J C w"
  shows sinv_lives: "list_all2 life\<^sup>*\<^sup>* rows0 (rows w)"
    and sinv_distinct: "distinct (map sdb_id (rows w))"
    and sinv_ids: "hl \<Longrightarrow> set (minted_ids chain (w_sent w)) \<union> S \<subseteq> set (map sdb_id (rows w))"
    and sinv_held: "r \<in> set (rows w) \<Longrightarrow> sdb_id r \<in> S \<Longrightarrow> sdb_status r = ''processing''"
    and sinv_completed: "r \<in> set (rows w) \<Longrightarrow> sdb_status r = ''completed'' \<Longrightarrow>
      (\<exists>r0\<in>set rows0. sdb_id r0 = sdb_id r \<and> sdb_status r0 = ''completed'') \<or> proven chain (w_sent w) r"
    and sinv_healthy: "hl \<Longrightarrow> healthy w"
    and sinv_once: "hl \<Longrightarrow> distinct (minted_ids chain (w_sent w))"
    and sinv_left: "hl \<Longrightarrow> r \<in> set (rows w) \<Longrightarrow> sdb_id r \<in> J \<Longrightarrow> sdb_status r \<noteq> ''processing''"
    and sinv_minted: "hl \<Longrightarrow> r \<in> set (rows w) \<Longrightarrow> minted_by chain (w_sent w) tx \<Longrightarrow>
      tx_settlement_id tx = sdb_id r \<Longrightarrow> sdb_id r \<notin> C \<Longrightarrow> sdb_status r = ''completed''"
  using assms unfolding sinv_def by blast+

lemma list_all2_update_where:
  assumes "list_all2 life\<^sup>*\<^sup>* rs0 rs" and "\<And>r. r \<in> set rs \<Longrightarrow> hit r \<Longrightarrow> life r (f r)"
  shows "list_all2 life\<^sup>*\<^sup>* rs0 (update_where hit f rs)"
  using assms
proof (induction rule: list_all2_induct)
  case (Cons r0 rs0 r rs)
  then show ?case using rtranclp.rtrancl_into_rtrancl[of life r0 r "f r"] by simp
qed simp

lemma sinv_update:
  assumes inv: "sinv hl chain rows0 S J C w"
    and hit: "\<And>r. r \<in> set (rows w) \<Longrightarrow> hit r \<Longrightarrow> sdb_id r \<in> I \<and> life r (f r) \<and>
      (sdb_status (f r) = ''completed'' \<longrightarrow> proven chain (w_sent w) (f r))"
    and S: "S' \<inter> I = {}" "S' \<subseteq> S" and J: "I \<inter> J = {}"
    and left: "\<And>r. r \<in> set (rows w) \<Longrightarrow> sdb_id r \<in> J' - J \<Longrightarrow> sdb_status (if hit r then f r else r) \<noteq> ''processing''"
    and C: "\<And>r. r \<in> set (rows w) \<Longrightarrow> sdb_id r \<in> C - C' \<Longrightarrow> hit r \<and> sdb_status (f r) = ''completed''"
    and w': "rows w' = update_where hit f (rows w)" "w_sent w' = w_sent w" "healthy w \<Longrightarrow> healthy w'"
  shows "sinv hl chain rows0 S' J' C' w'"
proof -
  let ?g = "\<lambda>r. if hit r then f r else r"
  have g: "\<exists>r\<in>set (rows w). r' = ?g r" if "r' \<in> set (rows w')" for r'
    using that unfolding w'(1) set_update_where by blast
  have gid: "sdb_id (?g r) = sdb_id r" if "r \<in> set (rows w)" for r using hit[OF that] by auto
  have ids: "map sdb_id (rows w') = map sdb_id (rows w)"
    unfolding w'(1) update_where_def using gid by simp
  have "list_all2 life\<^sup>*\<^sup>* rows0 (rows w')"
    unfolding w'(1) by (rule list_all2_update_where) (use sinv_lives[OF inv] hit in auto)
  moreover have "sdb_status r' = ''processing''" if m: "r' \<in> set (rows w')" and p: "sdb_id r' \<in> S'" for r'
  proof -
    obtain r where r: "r \<in> set (rows w)" "r' = ?g r" using g[OF m] by blast
    then have "sdb_id r \<in> S'" using p gid by simp
    then have "\<not> hit r" using hit[OF r(1)] S(1) by auto
    then show ?thesis using sinv_held[OF inv r(1)] r(2) \<open>sdb_id r \<in> S'\<close> S(2) by auto
  qed
  moreover have "(\<exists>r0\<in>set rows0. sdb_id r0 = sdb_id r' \<and> sdb_status r0 = ''completed'') \<or> proven chain (w_sent w') r'"
    if m: "r' \<in> set (rows w')" and p: "sdb_status r' = ''completed''" for r'
  proof -
    obtain r where r: "r \<in> set (rows w)" "r' = ?g r" using g[OF m] by blast
    then show ?thesis using p hit[OF r(1)] sinv_completed[OF inv r(1)] unfolding w'(2) by (cases "hit r") auto
  qed
  moreover have "sdb_status r' \<noteq> ''processing''" if "hl" and m: "r' \<in> set (rows w')" and p: "sdb_id r' \<in> J'" for r'
  proof -
    obtain r where r: "r \<in> set (rows w)" "r' = ?g r" using g[OF m] by blast
    have rJ: "sdb_id r \<in> J'" using p r gid by simp
    show ?thesis
    proof (cases "sdb_id r \<in> J")
      case True
      then have "\<not> hit r" using hit[OF r(1)] J by auto
      then show ?thesis using sinv_left[OF inv \<open>hl\<close> r(1) True] r(2) by simp
    next
      case False
      then show ?thesis using left[OF r(1)] rJ r(2) by auto
    qed
  qed
  moreover have "sdb_status r' = ''completed''"
    if "hl" and m: "r' \<in> set (rows w')" and p: "minted_by chain (w_sent w') tx" "tx_settlement_id tx = sdb_id r'" "sdb_id r' \<notin> C'" for r' tx
  proof -
    obtain r where r: "r \<in> set (rows w)" "r' = ?g r" using g[OF m] by blast
    have rC: "sdb_id r \<notin> C'" "tx_settlement_id tx = sdb_id r" using p r gid by simp_all
    show ?thesis
    proof (cases "sdb_id r \<in> C")
      case True
      then show ?thesis using C[OF r(1)] rC r(2) by auto
    next
      case False
      then have c: "sdb_status r = ''completed''" using sinv_minted[OF inv \<open>hl\<close> r(1)] p(1) rC(2) w'(2) by simp
      then have "\<not> hit r" using hit[OF r(1)] life_step by (fastforce simp: live_status_def)
      then show ?thesis using c r(2) by simp
    qed
  qed
  moreover have "set (minted_ids chain (w_sent w')) \<union> S' \<subseteq> set (map sdb_id (rows w))" if hl
    using sinv_ids[OF inv that] S(2) unfolding w'(2) by blast
  ultimately show ?thesis using inv w'(3) unfolding sinv_def ids w'(2) by blast
qed

text \<open>Steps that do not touch the rows.\<close>

lemma in_set_tlD: "x \<in> set (tl xs) \<Longrightarrow> x \<in> set xs"
  by (cases xs) auto

lemma sinv_mono:
  assumes "sinv hl chain rows0 S J C w" and "rows w' = rows w" "w_sent w' = w_sent w"
    and "healthy w \<Longrightarrow> healthy w'" and "S' \<subseteq> S" and "hl \<Longrightarrow> J' \<subseteq> J" and "hl \<Longrightarrow> C \<subseteq> C'"
  shows "sinv hl chain rows0 S' J' C' w'"
proof -
  have "\<forall>r\<in>set (rows w'). sdb_id r \<in> S' \<longrightarrow> sdb_status r = ''processing''"
    using sinv_held[OF assms(1)] assms(2,5) by auto
  moreover have "set (minted_ids chain (w_sent w')) \<union> S' \<subseteq> set (map sdb_id (rows w'))" if hl
    using sinv_ids[OF assms(1) that] assms(5) unfolding assms(2,3) by blast
  moreover have "healthy w' \<and> (\<forall>r\<in>set (rows w'). sdb_id r \<in> J' \<longrightarrow> sdb_status r \<noteq> ''processing'') \<and>
      (\<forall>r\<in>set (rows w'). \<forall>tx. minted_by chain (w_sent w') tx \<and> tx_settlement_id tx = sdb_id r \<and> sdb_id r \<notin> C'
         \<longrightarrow> sdb_status r = ''completed'')" if hl
    using assms(1,4) assms(6,7)[OF that] that unfolding sinv_def assms(2,3) by blast
  ultimately show ?thesis using assms(1) unfolding sinv_def assms(2,3) by blast
qed

lemma triple_log_action:
  "triple (sinv hl chain rows0 S J C) (log_action u a d) (\<lambda>r w. r = Inr () \<and> sinv hl chain rows0 S J C w)"
  by (auto simp: triple_def log_action_def healthy_def elim!: sinv_mono)

lemma triple_ignore:
  assumes "triple P m (\<lambda>r w. r \<noteq> Inl Panicked \<and> Q w)"
  shows "triple P (ignore m) (\<lambda>r w. r = Inr () \<and> Q w)"
  unfolding ignore_def
  by (rule triple_and_then[where R = "\<lambda>_. Q"], rule triple_attempt, rule triple_weaken[OF assms])
    (auto split: sum.splits failure.splits intro: triple_ok)

lemma triple_ignore_then:
  assumes "triple P m (\<lambda>r w. r \<noteq> Inl Panicked \<and> R w)" and "triple R k Q"
  shows "triple P (and_then (ignore m) (\<lambda>_. k)) Q"
  by (rule triple_and_then[where R = "\<lambda>_. R"], rule triple_weaken[OF triple_ignore[OF assms(1)]])
    (use assms(2) in \<open>auto split: sum.splits\<close>)

lemma triple_ignore_log:
  "triple (sinv hl chain rows0 S J C) (ignore (log_action u a d)) (\<lambda>r w. r = Inr () \<and> sinv hl chain rows0 S J C w)"
  by (rule triple_ignore, rule triple_weaken[OF triple_log_action]) auto

text \<open>A write that rewrites rows, the common case of the ledger's statements.\<close>

lemma triple_rows:
  assumes f: "\<And>now s. f now s = Inr (x now s, s\<lparr>db_settlements := update_where (hit now) (g now) (db_settlements s)\<rparr>)"
    and hit: "\<And>now w r. sinv hl chain rows0 S J C w \<Longrightarrow> Pr w \<Longrightarrow> r \<in> set (rows w) \<Longrightarrow> hit now r \<Longrightarrow>
      sdb_id r \<in> I \<and> life r (g now r) \<and> (sdb_status (g now r) = ''completed'' \<longrightarrow> proven chain (w_sent w) (g now r))"
    and S: "S' \<inter> I = {}" "S' \<subseteq> S" and J: "I \<inter> J = {}"
    and left: "\<And>now w r. sinv hl chain rows0 S J C w \<Longrightarrow> r \<in> set (rows w) \<Longrightarrow> sdb_id r \<in> J' - J \<Longrightarrow>
      sdb_status (if hit now r then g now r else r) \<noteq> ''processing''"
    and C: "\<And>now w r. sinv hl chain rows0 S J C w \<Longrightarrow> r \<in> set (rows w) \<Longrightarrow> sdb_id r \<in> C - C' \<Longrightarrow>
      hit now r \<and> sdb_status (g now r) = ''completed''"
  shows "triple (\<lambda>w. sinv hl chain rows0 S J C w \<and> Pr w) (db_call f)
           (\<lambda>r w. r \<noteq> Inl Panicked \<and> (hl \<longrightarrow> (\<exists>y. r = Inr y)) \<and> sinv hl chain rows0 S' J' C' w)"
  unfolding triple_def
proof (intro allI impI, elim conjE)
  fix w assume inv: "sinv hl chain rows0 S J C w" and pr: "Pr w"
  show "fst (db_call f w) \<noteq> Inl Panicked \<and> (hl \<longrightarrow> (\<exists>y. fst (db_call f w) = Inr y)) \<and>
        sinv hl chain rows0 S' J' C' (snd (db_call f w))"
  proof (cases "\<exists>fs. w_faults w = True # fs")
    case True
    then obtain fs where fs: "w_faults w = True # fs" by blast
    then have "\<not> hl" using sinv_healthy[OF inv] by (auto simp: healthy_def)
    then have "sinv hl chain rows0 S' J' C' (w\<lparr>w_faults := fs\<rparr>)"
      by (intro sinv_mono[OF inv]) (use S(2) fs in \<open>auto simp: healthy_def\<close>)
    then show ?thesis using \<open>\<not> hl\<close> by (simp add: db_call_def fs)
  next
    case False
    then have call: "db_call f w = (Inr (x (w_db_now w) (w_store w)), w\<lparr>w_faults := tl (w_faults w),
        w_store := (w_store w)\<lparr>db_settlements := update_where (hit (w_db_now w)) (g (w_db_now w)) (rows w)\<rparr>\<rparr>)"
      by (auto simp: db_call_def f split: list.split bool.split)
    have "sinv hl chain rows0 S' J' C' (snd (db_call f w))"
      by (rule sinv_update[OF inv hit[OF inv pr] S J left[OF inv] C[OF inv]])
        (auto simp: call healthy_def dest: in_set_tlD)
    then show ?thesis by (simp add: call)
  qed
qed

text \<open>The terminal writes of a held settlement.\<close>

lemma set_status_simps [simp]:
  "sdb_id (set_status st tx e t r) = sdb_id r" "sdb_status (set_status st tx e t r) = st"
  "sdb_transaction_hash (set_status st tx e t r) = tx"
  by (simp_all add: set_status_def)

lemma triple_park_write:
  assumes "i \<in> S" "i \<notin> J"
  shows "triple (sinv hl chain rows0 S J C)
           (db_call (update_settlement_status i ''permanently_failed'' None (Some e)))
           (\<lambda>r w. r \<noteq> Inl Panicked \<and> sinv hl chain rows0 (S - {i}) (insert i J) C w)"
  by (rule triple_weaken[OF triple_rows[where Pr = "\<lambda>_. True" and I = "{i}" and S = S and J = J and C = C
        and hit = "\<lambda>_ r. sdb_id r = i" and g = "set_status ''permanently_failed'' None (Some e)"
        and S' = "S - {i}" and J' = "insert i J" and C' = C]])
    (use assms in \<open>auto simp: update_settlement_status_def intro: parked sinv_held\<close>)

lemma triple_complete_write:
  assumes "tx_settlement_id tx \<in> S" "tx_settlement_id tx \<notin> J"
  shows "triple (\<lambda>w. sinv hl chain rows0 S J C w \<and> minted_by chain (w_sent w) tx)
           (db_call (update_settlement_status (tx_settlement_id tx) ''completed''
              (Some (tx_signature tx)) None))
           (\<lambda>r w. r \<noteq> Inl Panicked \<and> (hl \<longrightarrow> (\<exists>y. r = Inr y)) \<and>
              sinv hl chain rows0 (S - {tx_settlement_id tx}) (insert (tx_settlement_id tx) J) (C - {tx_settlement_id tx}) w)"
proof -
  have held: "sinv hl chain rows0 S J C w \<Longrightarrow> r \<in> set (rows w) \<Longrightarrow> sdb_id r = tx_settlement_id tx \<Longrightarrow>
      sdb_status r = ''processing''" for w r
    using sinv_held assms(1) by metis
  show ?thesis
  by (rule triple_rows[where I = "{tx_settlement_id tx}" and S = S and J = J and C = C
        and hit = "\<lambda>_ r. sdb_id r = tx_settlement_id tx" and g = "set_status ''completed'' (Some (tx_signature tx)) None"])
    (use assms in \<open>auto simp: update_settlement_status_def proven_def intro!: completed held\<close>)
qed

text \<open>The completion with its event: the transaction may also fail on the outbox row.\<close>

lemma insert_event_rows: "insert_event_in_tx now ev s = Inr s' \<Longrightarrow> db_settlements s' = db_settlements s"
  by (auto simp: insert_event_in_tx_def draw_id_def Let_def split: list.splits if_splits)

lemma triple_complete_event_write:
  assumes "tx_settlement_id tx \<in> S" "tx_settlement_id tx \<notin> J"
  shows "triple (\<lambda>w. sinv hl chain rows0 S J C w \<and> minted_by chain (w_sent w) tx)
           (db_call (update_settlement_status_with_event (tx_settlement_id tx) ''completed''
              (Some (tx_signature tx)) None ev))
           (\<lambda>r w. r \<noteq> Inl Panicked \<and> (case r of
              Inl _ \<Rightarrow> sinv hl chain rows0 S J C w \<and> minted_by chain (w_sent w) tx
            | Inr _ \<Rightarrow> sinv hl chain rows0 (S - {tx_settlement_id tx}) (insert (tx_settlement_id tx) J)
                        (C - {tx_settlement_id tx}) w))"
  unfolding triple_def
proof (intro allI impI, elim conjE)
  fix w assume inv: "sinv hl chain rows0 S J C w" and m: "minted_by chain (w_sent w) tx"
  let ?i = "tx_settlement_id tx"
  let ?plain = "update_settlement_status ?i ''completed'' (Some (tx_signature tx)) None"
  let ?f = "update_settlement_status_with_event ?i ''completed'' (Some (tx_signature tx)) None ev"
  show "fst (db_call ?f w) \<noteq> Inl Panicked \<and> (case fst (db_call ?f w) of
          Inl _ \<Rightarrow> sinv hl chain rows0 S J C (snd (db_call ?f w)) \<and> minted_by chain (w_sent (snd (db_call ?f w))) tx
        | Inr _ \<Rightarrow> sinv hl chain rows0 (S - {?i}) (insert ?i J) (C - {?i}) (snd (db_call ?f w)))"
  proof (cases "fst (db_call ?f w)")
    case (Inl e)
    then have w': "rows (snd (db_call ?f w)) = rows w" "w_sent (snd (db_call ?f w)) = w_sent w"
      "healthy w \<Longrightarrow> healthy (snd (db_call ?f w))" "e \<noteq> Panicked"
      by (auto simp: db_call_def healthy_def split: list.splits bool.splits sum.splits dest: in_set_tlD)
    then show ?thesis using Inl sinv_mono[OF inv w'(1,2)] m by auto
  next
    case (Inr y)
    then obtain s' where s': "?f (w_db_now w) (w_store w) = Inr ((), s')" and nofault: "\<nexists>fs. w_faults w = True # fs"
      and w': "snd (db_call ?f w) = w\<lparr>w_faults := tl (w_faults w), w_store := s'\<rparr>"
      by (auto simp: db_call_def split: list.splits bool.splits sum.splits)
    have call: "db_call ?plain w = (Inr (), w\<lparr>w_faults := tl (w_faults w),
        w_store := snd (projr (?plain (w_db_now w) (w_store w)))\<rparr>)"
      using nofault by (auto simp: db_call_def update_settlement_status_def split: list.splits bool.splits)
    have "sinv hl chain rows0 (S - {?i}) (insert ?i J) (C - {?i}) (snd (db_call ?plain w))"
      using tripleD[OF triple_complete_write[OF assms] conjI[OF inv m] call] unfolding call by simp
    then have "sinv hl chain rows0 (S - {?i}) (insert ?i J) (C - {?i}) (snd (db_call ?f w))"
      by (rule sinv_mono) (use s' in \<open>auto simp: w' call update_settlement_status_with_event_def
        update_settlement_status_def healthy_def dest!: insert_event_rows split: sum.splits\<close>)
    then show ?thesis by (simp add: Inr)
  qed
qed

lemma bump_retry_simps [simp]:
  "sdb_id (bump_retry n t r) = sdb_id r"
  "sdb_status (bump_retry n t r) = (if n \<le> sdb_retry_count r + 1 then ''permanently_failed'' else ''pending'')"
  "sdb_retry_count (bump_retry n t r) = sdb_retry_count r + 1"
  by (simp_all add: bump_retry_def)

text \<open>The guarded release of settlements.\<close>

lemma triple_reset:
  assumes "S' \<inter> set ids = {}" "S' \<subseteq> S" "set ids \<inter> J = {}" "C \<inter> set ids = {}"
  shows "triple (sinv hl chain rows0 S J C)
           (db_call (reset_settlements_for_retry ids max_settlement_retries err))
           (\<lambda>r w. r \<noteq> Inl Panicked \<and> sinv hl chain rows0 S' (J \<union> set ids) C w)"
proof (cases "ids = []")
  case True
  show ?thesis
    by (rule triple_weaken[OF triple_rows[where Pr = "\<lambda>_. True" and I = "{}" and S = S and J = J and C = C
        and hit = "\<lambda>_ _. False" and g = "\<lambda>_ r. r" and S' = S' and J' = J and C' = C]])
      (use assms True in \<open>auto simp: reset_settlements_for_retry_def update_where_id\<close>)
next
  case False
  show ?thesis
    by (rule triple_weaken[OF triple_rows[where Pr = "\<lambda>_. True" and I = "set ids" and S = S and J = J and C = C
        and hit = "\<lambda>_ r. sdb_id r \<in> set ids \<and> sdb_status r = ''processing''"
        and g = "\<lambda>now r. (bump_retry max_settlement_retries now r)\<lparr>sdb_error_message := err\<rparr>"
        and S' = S' and J' = "J \<union> set ids" and C' = C]])
      (use assms False in \<open>auto simp: reset_settlements_for_retry_def Let_def intro: retried\<close>)
qed

section \<open>The operations of the service\<close>

lemma triple_park:
  assumes "st_id st \<in> S" "st_id st \<notin> J"
  shows "triple (sinv hl chain rows0 S J C) (park reason action st)
           (\<lambda>r w. r = Inr () \<and> sinv hl chain rows0 (S - {st_id st}) (insert (st_id st) J) C w)"
  unfolding park_def settlement_status_str.simps
proof (rule triple_and_then[where R = "\<lambda>_. sinv hl chain rows0 (S - {st_id st}) (insert (st_id st) J) C"])
  let ?P = "sinv hl chain rows0 (S - {st_id st}) (insert (st_id st) J) C"
  show "triple (sinv hl chain rows0 S J C)
     (attempt (db_call (update_settlement_status (st_id st) ''permanently_failed'' None (Some (reason st)))))
     (\<lambda>r w. case r of Inl e \<Rightarrow> Inl e = Inr () \<and> ?P w | Inr _ \<Rightarrow> ?P w)"
    by (rule triple_attempt, rule triple_weaken[OF triple_park_write[OF assms, of hl chain rows0 C "reason st"]])
      (auto split: sum.splits failure.splits)
  show "triple ?P (case res of Inl _ \<Rightarrow> ok () | Inr _ \<Rightarrow> ignore (log_action u a d)) (\<lambda>r w. r = Inr () \<and> ?P w)" for res u a d
    by (cases res) (auto intro!: triple_ok triple_ignore triple_weaken[OF triple_log_action])
qed

text \<open>A loop that finalises one held settlement per round.\<close>

lemma triple_each:
  assumes step: "\<And>x S J C. x \<in> set xs \<Longrightarrow> key x \<in> S \<Longrightarrow> key x \<notin> J \<Longrightarrow>
      triple (\<lambda>w. sinv hl chain rows0 S J C w \<and> Pr w) (f x)
        (\<lambda>r w. r = Inr () \<and> sinv hl chain rows0 (S - {key x}) (insert (key x) J) (C - D x) w \<and> Pr w)"
    and "distinct (map key xs)" "key ` set xs \<subseteq> S" "key ` set xs \<inter> J = {}"
  shows "triple (\<lambda>w. sinv hl chain rows0 S J C w \<and> Pr w) (for_each f xs)
           (\<lambda>r w. r = Inr () \<and> sinv hl chain rows0 (S - key ` set xs) (J \<union> key ` set xs) (C - \<Union> (D ` set xs)) w \<and> Pr w)"
  using assms
proof (induction xs arbitrary: S J C)
  case Nil
  then show ?case by (auto intro!: triple_ok)
next
  case (Cons x xs)
  let ?P = "\<lambda>w. sinv hl chain rows0 (S - {key x}) (insert (key x) J) (C - D x) w \<and> Pr w"
  have "triple (\<lambda>w. sinv hl chain rows0 S J C w \<and> Pr w) (f x) (\<lambda>r w. r = Inr () \<and> ?P w)"
    using Cons.prems by (intro Cons.prems(1)) auto
  then have 1: "triple (\<lambda>w. sinv hl chain rows0 S J C w \<and> Pr w) (f x)
      (\<lambda>r w. case r of Inl e \<Rightarrow> False | Inr _ \<Rightarrow> ?P w)"
    by (rule triple_weaken) auto
  have 2: "triple ?P (for_each f xs) (\<lambda>r w. r = Inr () \<and>
      sinv hl chain rows0 (S - {key x} - key ` set xs) (insert (key x) J \<union> key ` set xs) (C - D x - \<Union> (D ` set xs)) w \<and> Pr w)"
  proof (rule Cons.IH)
    have n: "key x \<notin> key ` set xs" using Cons.prems(2) by simp
    have s: "key ` set xs \<subseteq> S" using Cons.prems(3) by simp
    have j: "key ` set xs \<inter> J = {}" using Cons.prems(4) by simp
    show "key ` set xs \<subseteq> S - {key x}" using n s by (simp add: subset_Diff_insert)
    show "key ` set xs \<inter> insert (key x) J = {}" using n j by (simp add: Int_insert_right)
  qed (use Cons.prems in auto)
  have sets: "S - {key x} - key ` set xs = S - key ` set (x # xs)"
    "insert (key x) J \<union> key ` set xs = J \<union> key ` set (x # xs)"
    "C - D x - \<Union> (D ` set xs) = C - \<Union> (D ` set (x # xs))" by auto
  show ?case unfolding for_each.simps
    by (rule triple_and_then[where R = "\<lambda>_. ?P"], rule triple_weaken[OF 1])
      (use 2[unfolded sets] in \<open>auto split: sum.splits\<close>)
qed

text \<open>A batch in hand: the settlements of \<open>cl\<close> that are left of \<open>cl0\<close> are held, the others are done;
  \<open>F\<close> and \<open>J0\<close> are what the batch does not concern.\<close>

definition batch_held ::
  "bool \<Rightarrow> chain \<Rightarrow> settlement_row list \<Rightarrow> uuid set \<Rightarrow> uuid set \<Rightarrow> settlement list \<Rightarrow> settlement list \<Rightarrow> world \<Rightarrow> bool" where
  "batch_held hl chain rows0 F J0 cl0 cl w \<longleftrightarrow>
     distinct (map st_id cl) \<and> set cl \<subseteq> set cl0 \<and>
     sinv hl chain rows0 (st_id ` set cl \<union> F) (J0 \<union> (st_id ` set cl0 - st_id ` set cl)) {} w"

lemma triple_parks:
  assumes free: "st_id ` set cl0 \<inter> (F \<union> J0) = {}"
  shows "triple (batch_held hl chain rows0 F J0 cl0 cl)
           (for_each (park reason action) (filter (\<lambda>st. st_id st \<in> X) cl))
           (\<lambda>r w. r = Inr () \<and> batch_held hl chain rows0 F J0 cl0 (filter (\<lambda>st. st_id st \<notin> X) cl) w)"
proof (cases "distinct (map st_id cl) \<and> set cl \<subseteq> set cl0")
  case True
  let ?xs = "filter (\<lambda>st. st_id st \<in> X) cl" and ?ys = "filter (\<lambda>st. st_id st \<notin> X) cl"
  let ?S = "st_id ` set cl \<union> F" and ?J = "J0 \<union> (st_id ` set cl0 - st_id ` set cl)"
  have sub: "st_id ` set cl \<subseteq> st_id ` set cl0" using True by blast
  have t: "triple (\<lambda>w. sinv hl chain rows0 ?S ?J {} w \<and> True) (for_each (park reason action) ?xs)
     (\<lambda>r w. r = Inr () \<and> sinv hl chain rows0 (?S - st_id ` set ?xs) (?J \<union> st_id ` set ?xs)
        ({} - \<Union> ((\<lambda>_. {}) ` set ?xs)) w \<and> True)"
  proof (rule triple_each[where key = st_id and Pr = "\<lambda>_. True" and D = "\<lambda>_. {}"])
    fix x :: settlement and S J C assume "st_id x \<in> S" "st_id x \<notin> J"
    from triple_park[OF this] show "triple (\<lambda>w. sinv hl chain rows0 S J C w \<and> True) (park reason action x)
        (\<lambda>r w. r = Inr () \<and> sinv hl chain rows0 (S - {st_id x}) (insert (st_id x) J) (C - {}) w \<and> True)" by simp
  next
    show "distinct (map st_id ?xs)" using True by (simp add: distinct_map_filter)
    show "st_id ` set ?xs \<subseteq> ?S" by auto
    have "st_id ` set ?xs \<subseteq> st_id ` set cl" by auto
    then show "st_id ` set ?xs \<inter> ?J = {}" using free sub by blast
  qed
  have "st_id ` set ?xs \<inter> F = {}" using free sub by fastforce
  then have "st_id ` set ?ys \<union> F = ?S - st_id ` set ?xs" by auto
  moreover have "J0 \<union> (st_id ` set cl0 - st_id ` set ?ys) = ?J \<union> st_id ` set ?xs" using sub by auto
  ultimately show ?thesis using t True
    by (elim triple_weaken) (auto simp: batch_held_def distinct_map_filter)
next
  case False
  then show ?thesis by (auto simp: triple_def batch_held_def)
qed

lemma triple_db_read:
  "triple (batch_held hl chain rows0 F J0 cl0 cl) (db_read f)
     (\<lambda>r w. r \<noteq> Inl Panicked \<and> batch_held hl chain rows0 F J0 cl0 cl w)"
  unfolding triple_def
proof (intro allI impI)
  fix w assume b: "batch_held hl chain rows0 F J0 cl0 cl w"
  have w': "rows (snd (db_read f w)) = rows w" "w_sent (snd (db_read f w)) = w_sent w"
    "healthy w \<Longrightarrow> healthy (snd (db_read f w))" "fst (db_read f w) \<noteq> Inl Panicked"
    by (auto simp: db_read_def db_call_def healthy_def split: list.splits bool.splits dest: in_set_tlD)
  then show "fst (db_read f w) \<noteq> Inl Panicked \<and> batch_held hl chain rows0 F J0 cl0 cl (snd (db_read f w))"
    using b sinv_mono[OF _ w'(1-3)] by (auto simp: batch_held_def)
qed

text \<open>A pre-flight check: it asks, parks what it was told, and passes on the rest.\<close>

lemma triple_preflight:
  assumes "st_id ` set cl0 \<inter> (F \<union> J0) = {}"
  shows "triple (batch_held hl chain rows0 F J0 cl0 cl)
     (and_then (attempt (db_read q)) (\<lambda>res. case res of
          Inl _ \<Rightarrow> ok cl
        | Inr X \<Rightarrow> if X = [] then ok cl
            else and_then (for_each (park reason action) (filter (\<lambda>st. st_id st \<in> set X) cl))
                   (\<lambda>_. ok (filter (\<lambda>st. st_id st \<notin> set X) cl))))
     (\<lambda>r w. \<exists>cl'. r = Inr cl' \<and> batch_held hl chain rows0 F J0 cl0 cl' w)"
proof (rule triple_and_then[where R = "\<lambda>_. batch_held hl chain rows0 F J0 cl0 cl"])
  show "triple (batch_held hl chain rows0 F J0 cl0 cl) (attempt (db_read q))
     (\<lambda>r w. case r of Inl e \<Rightarrow> \<exists>cl'. Inl e = Inr cl' \<and> batch_held hl chain rows0 F J0 cl0 cl' w
                   | Inr x \<Rightarrow> batch_held hl chain rows0 F J0 cl0 cl w)"
    by (rule triple_attempt, rule triple_weaken[OF triple_db_read]) (auto split: sum.splits failure.splits)
  fix res :: "api_error + uuid list"
  have ok: "triple (batch_held hl chain rows0 F J0 cl0 cl) (ok cl)
      (\<lambda>r w. \<exists>cl'. r = Inr cl' \<and> batch_held hl chain rows0 F J0 cl0 cl' w)"
    by (rule triple_ok) blast
  have parks: "triple (batch_held hl chain rows0 F J0 cl0 cl)
      (and_then (for_each (park reason action) (filter (\<lambda>st. st_id st \<in> set X) cl))
         (\<lambda>_. ok (filter (\<lambda>st. st_id st \<notin> set X) cl)))
      (\<lambda>r w. \<exists>cl'. r = Inr cl' \<and> batch_held hl chain rows0 F J0 cl0 cl' w)" for X
    by (rule triple_and_then[where R = "\<lambda>_. batch_held hl chain rows0 F J0 cl0 (filter (\<lambda>st. st_id st \<notin> set X) cl)"],
        rule triple_weaken[OF triple_parks[OF assms]]) (auto split: sum.splits intro!: triple_ok)
  show "triple (batch_held hl chain rows0 F J0 cl0 cl)
     (case res of Inl _ \<Rightarrow> ok cl
        | Inr X \<Rightarrow> if X = [] then ok cl
            else and_then (for_each (park reason action) (filter (\<lambda>st. st_id st \<in> set X) cl))
                   (\<lambda>_. ok (filter (\<lambda>st. st_id st \<notin> set X) cl)))
     (\<lambda>r w. \<exists>cl'. r = Inr cl' \<and> batch_held hl chain rows0 F J0 cl0 cl' w)"
    using ok parks by (cases res) simp_all
qed

lemma sinv_unminted:
  assumes "sinv hl chain rows0 S J {} w" "hl" "i \<in> S"
  shows "i \<notin> set (minted_ids chain (w_sent w))"
proof
  assume "i \<in> set (minted_ids chain (w_sent w))"
  then obtain tx where tx: "minted_by chain (w_sent w) tx" "tx_settlement_id tx = i" by (rule minted_ids_minted_by)
  obtain r where r: "r \<in> set (rows w)" "sdb_id r = i" using sinv_ids[OF assms(1,2)] assms(3) by auto
  then have "sdb_status r = ''processing''" using sinv_held[OF assms(1)] assms(3) by simp
  moreover have "sdb_status r = ''completed''" using sinv_minted[OF assms(1,2) r(1) tx(1)] tx(2) r(2) by simp
  ultimately show False by simp
qed

text \<open>The batch goes out: what the answer names is minted and not yet shown.\<close>

lemma triple_send:
  assumes "chain_ok chain" "distinct (map st_id cl)" and held: "st_id ` set cl \<subseteq> S"
  shows "triple (\<lambda>w. sinv hl chain rows0 S J {} w) (send_batch chain cl)
     (\<lambda>r w. case r of
        Inl e \<Rightarrow> e \<noteq> Panicked \<and> sinv hl chain rows0 S J {} w
      | Inr rs \<Rightarrow> tx_settlement_id ` set rs \<subseteq> st_id ` set cl \<and> distinct (map tx_settlement_id rs) \<and>
          (\<forall>tx\<in>set rs. minted_by chain (w_sent w) tx) \<and> sinv hl chain rows0 S J (tx_settlement_id ` set rs) w)"
  unfolding triple_def
proof (intro allI impI)
  fix w assume inv: "sinv hl chain rows0 S J {} w"
  let ?w = "w\<lparr>w_sent := w_sent w @ [cl]\<rparr>"
  have pr: "proven chain (w_sent w) r \<Longrightarrow> proven chain (w_sent ?w) r" for r
    by (auto simp: proven_def minted_by_append)
  show "case fst (send_batch chain cl w) of
        Inl e \<Rightarrow> e \<noteq> Panicked \<and> sinv hl chain rows0 S J {} (snd (send_batch chain cl w))
      | Inr rs \<Rightarrow> tx_settlement_id ` set rs \<subseteq> st_id ` set cl \<and> distinct (map tx_settlement_id rs) \<and>
          (\<forall>tx\<in>set rs. minted_by chain (w_sent (snd (send_batch chain cl w))) tx) \<and>
          sinv hl chain rows0 S J (tx_settlement_id ` set rs) (snd (send_batch chain cl w))"
  proof (cases "chain (w_sent w) cl")
    case (Inl e)
    have m: "minted_by chain (w_sent ?w) = minted_by chain (w_sent w)"
      by (simp add: fun_eq_iff minted_by_append Inl)
    have "minted_ids chain (w_sent ?w) = minted_ids chain (w_sent w)"
      by (simp add: minted_ids_append answer_ids_def Inl)
    then have "sinv hl chain rows0 S J {} ?w"
      using inv by (simp add: sinv_def proven_def healthy_def m[simplified])
    then show ?thesis by (simp add: send_batch_def Inl)
  next
    case (Inr rs)
    have m: "minted_by chain (w_sent ?w) tx \<longleftrightarrow> minted_by chain (w_sent w) tx \<or> tx \<in> set rs" for tx
      by (simp add: minted_by_append Inr)
    have ids: "minted_ids chain (w_sent ?w) = minted_ids chain (w_sent w) @ map tx_settlement_id rs"
      by (simp add: minted_ids_append answer_ids_def Inr)
    have rs: "tx_settlement_id ` set rs \<subseteq> S" "distinct (map tx_settlement_id rs)"
      using assms Inr unfolding chain_ok_def by (meson order_trans, blast)
    have fresh: "tx_settlement_id ` set rs \<inter> set (minted_ids chain (w_sent w)) = {}" if hl
      using rs(1) that sinv_unminted[OF inv] by blast
    have keep: "list_all2 life\<^sup>*\<^sup>* rows0 (rows w)" "distinct (map sdb_id (rows w))"
      "\<forall>r\<in>set (rows w). sdb_id r \<in> S \<longrightarrow> sdb_status r = ''processing''"
      "hl \<Longrightarrow> set (minted_ids chain (w_sent w)) \<union> S \<subseteq> set (map sdb_id (rows w))"
      "hl \<Longrightarrow> distinct (minted_ids chain (w_sent w))" using sinvD[OF inv] by blast+
    have proofs: "\<forall>r\<in>set (rows w). sdb_status r = ''completed'' \<longrightarrow>
        (\<exists>r0\<in>set rows0. sdb_id r0 = sdb_id r \<and> sdb_status r0 = ''completed'') \<or> proven chain (w_sent ?w) r"
      using sinv_completed[OF inv] pr by blast
    have live: "healthy ?w \<and> (\<forall>r\<in>set (rows w). sdb_id r \<in> J \<longrightarrow> sdb_status r \<noteq> ''processing'') \<and>
        (\<forall>r\<in>set (rows w). \<forall>tx. minted_by chain (w_sent ?w) tx \<and> tx_settlement_id tx = sdb_id r \<and>
           sdb_id r \<notin> tx_settlement_id ` set rs \<longrightarrow> sdb_status r = ''completed'')" if hl
    proof -
      have "healthy ?w" "\<forall>r\<in>set (rows w). sdb_id r \<in> J \<longrightarrow> sdb_status r \<noteq> ''processing''"
        and old: "\<forall>r\<in>set (rows w). \<forall>tx. minted_by chain (w_sent w) tx \<and> tx_settlement_id tx = sdb_id r
          \<longrightarrow> sdb_status r = ''completed''"
        using inv that by (simp_all add: sinv_def healthy_def)
      then show ?thesis unfolding m by (metis image_eqI)
    qed
    have "sinv hl chain rows0 S J (tx_settlement_id ` set rs) ?w"
      unfolding sinv_def
    proof (intro conjI impI)
      show "set (minted_ids chain (w_sent ?w)) \<union> S \<subseteq> set (map sdb_id (rows ?w))" if hl
        using keep(4)[OF that] rs(1) unfolding ids by auto
      show "distinct (minted_ids chain (w_sent ?w))" if hl
        using keep(5) rs(2) fresh that unfolding ids by auto
    qed (use keep proofs live in \<open>simp_all\<close>)
    then show ?thesis using assms Inr m by (auto simp: send_batch_def chain_ok_def)
  qed
qed

lemma sent_db_call [simp]: "w_sent (snd (db_call f w)) = w_sent w"
  by (simp add: db_call_def split: list.split bool.split sum.split prod.split)

lemma triple_complete_minted:
  assumes "tx_settlement_id tx \<in> S" "tx_settlement_id tx \<notin> J"
  shows "triple (\<lambda>w. sinv hl chain rows0 S J C w \<and> minted_by chain (w_sent w) tx) (complete_minted cl tx)
     (\<lambda>r w. r = Inr () \<and> sinv hl chain rows0 (S - {tx_settlement_id tx}) (insert (tx_settlement_id tx) J)
        (C - {tx_settlement_id tx}) w)"
proof -
  let ?P = "\<lambda>w. sinv hl chain rows0 S J C w \<and> minted_by chain (w_sent w) tx"
  let ?Q = "sinv hl chain rows0 (S - {tx_settlement_id tx}) (insert (tx_settlement_id tx) J) (C - {tx_settlement_id tx})"
  have now: "triple ?P telemetry_now (\<lambda>r w. case r of Inl e \<Rightarrow> Inl e = Inr () \<and> ?Q w | Inr _ \<Rightarrow> ?P w)"
    by (auto simp: triple_def telemetry_now_def)
  have event: "triple ?P (attempt (db_call (update_settlement_status_with_event (tx_settlement_id tx) ''completed''
        (Some (tx_signature tx)) None ev)))
      (\<lambda>r w. case r of Inl e \<Rightarrow> Inl e = Inr () \<and> ?Q w | Inr (Inl _) \<Rightarrow> ?P w | Inr (Inr _) \<Rightarrow> ?Q w)" for ev
    by (rule triple_attempt, rule triple_weaken[OF triple_complete_event_write[OF assms]])
      (auto split: sum.splits failure.splits)
  have plain: "triple ?P (ignore (db_call (update_settlement_status (tx_settlement_id tx) ''completed''
        (Some (tx_signature tx)) None))) (\<lambda>r w. r = Inr () \<and> ?Q w)"
    by (rule triple_ignore, rule triple_weaken[OF triple_complete_write[OF assms]]) auto
  have log: "triple ?Q (case st of None \<Rightarrow> ok () | Some st \<Rightarrow> ignore (log_action (u st) a (d st))) (\<lambda>r w. r = Inr () \<and> ?Q w)"
    for st :: "settlement option" and u a d
    by (cases st) (auto intro!: triple_ok triple_ignore triple_weaken[OF triple_log_action])
  show ?thesis unfolding complete_minted_def settlement_status_str.simps
  proof (rule triple_and_then[OF now], rule triple_and_then[where R = "\<lambda>res w. case res of Inl _ \<Rightarrow> ?P w | Inr _ \<Rightarrow> ?Q w"])
    fix t res
    show "triple ?P (attempt (db_call (update_settlement_status_with_event (tx_settlement_id tx) ''completed''
        (Some (tx_signature tx)) None (SettlementProcessed \<lparr>spp_settlement_id = tx_settlement_id tx,
          spp_tx_signature = tx_signature tx, spp_status = ''completed'', spp_timestamp = t\<rparr>))))
      (\<lambda>r w. case r of Inl e \<Rightarrow> Inl e = Inr () \<and> ?Q w | Inr res \<Rightarrow> (case res of Inl _ \<Rightarrow> ?P w | Inr _ \<Rightarrow> ?Q w))"
      using event by (rule triple_weaken) (auto split: sum.splits)
    show "triple (\<lambda>w. case res of Inl _ \<Rightarrow> ?P w | Inr _ \<Rightarrow> ?Q w)
       (case res of Inl _ \<Rightarrow> ignore (db_call (update_settlement_status (tx_settlement_id tx) ''completed'' (Some (tx_signature tx)) None))
        | Inr _ \<Rightarrow> (case find (\<lambda>st. st_id st = tx_settlement_id tx) (rev cl) of None \<Rightarrow> ok ()
             | Some st \<Rightarrow> ignore (log_action (st_buyer_id st) ''settlement_completed''
                 (''Settlement '' @ uuid_str (st_id st) @ '' completed on-chain with signature '' @ tx_signature tx))))
       (\<lambda>r w. r = Inr () \<and> ?Q w)"
      using plain log by (cases res) simp_all
  qed
qed

text \<open>Only \<open>send_batch\<close> talks to the chain.\<close>

lemma keeps_sent_db_call [keeps_intros]: "keeps (\<lambda>w. P (w_sent w)) (db_call f)"
  by (simp add: keeps_def)

lemma keeps_sent_log [keeps_intros]: "keeps (\<lambda>w. P (w_sent w)) (log_action u a d)"
  by (simp add: keeps_def log_action_def)

lemma keeps_ignore [keeps_intros]: "keeps P m \<Longrightarrow> keeps P (ignore m)"
  unfolding ignore_def by (intro keeps_intros)

lemma complete_minted_sent: "keeps (\<lambda>w. P (w_sent w)) (complete_minted cl tx)"
  unfolding complete_minted_def by (auto intro!: keeps_intros split: sum.split option.split)

lemma triple_finish_batch:
  assumes "chain_ok chain" and rs: "tx_settlement_id ` set rs \<subseteq> st_id ` set cl" "distinct (map tx_settlement_id rs)"
    and free: "st_id ` set cl \<inter> (F \<union> J) = {}"
  shows "triple (\<lambda>w. (\<forall>tx\<in>set rs. minted_by chain (w_sent w) tx) \<and>
            sinv hl chain rows0 (st_id ` set cl \<union> F) J (tx_settlement_id ` set rs) w)
          (finish_batch cl rs) (\<lambda>r w. r = Inr rs \<and> sinv hl chain rows0 F (J \<union> st_id ` set cl) {} w)"
proof -
  let ?M = "\<lambda>w. \<forall>tx\<in>set rs. minted_by chain (w_sent w) tx" and ?R = "tx_settlement_id ` set rs"
  let ?S = "st_id ` set cl \<union> F"
  let ?un = "filter (\<lambda>i. i \<notin> ?R) (map st_id cl)"
  have loop: "triple (\<lambda>w. sinv hl chain rows0 ?S J ?R w \<and> ?M w) (for_each (complete_minted cl) rs)
     (\<lambda>r w. r = Inr () \<and> sinv hl chain rows0 (?S - ?R) (J \<union> ?R) (?R - \<Union> ((\<lambda>tx. {tx_settlement_id tx}) ` set rs)) w \<and> ?M w)"
  proof (rule triple_each[where key = tx_settlement_id and D = "\<lambda>tx. {tx_settlement_id tx}"])
    fix tx S J C assume tx: "tx \<in> set rs" "tx_settlement_id tx \<in> S" "tx_settlement_id tx \<notin> J"
    note m = triple_complete_minted[OF tx(2,3), of hl chain rows0 C cl]
    show "triple (\<lambda>w. sinv hl chain rows0 S J C w \<and> ?M w) (complete_minted cl tx)
        (\<lambda>r w. r = Inr () \<and> sinv hl chain rows0 (S - {tx_settlement_id tx}) (insert (tx_settlement_id tx) J)
           (C - {tx_settlement_id tx}) w \<and> ?M w)"
      unfolding triple_def
    proof (intro allI impI, elim conjE)
      fix w assume w: "sinv hl chain rows0 S J C w" "?M w"
      then have "?M (snd (complete_minted cl tx w))" 
        using complete_minted_sent[of "\<lambda>sent. \<forall>tx\<in>set rs. minted_by chain sent tx" cl tx] by (simp add: keeps_def)
      then show "fst (complete_minted cl tx w) = Inr () \<and> sinv hl chain rows0 (S - {tx_settlement_id tx})
          (insert (tx_settlement_id tx) J) (C - {tx_settlement_id tx}) (snd (complete_minted cl tx w)) \<and>
          ?M (snd (complete_minted cl tx w))"
        using m w tx(1) by (auto simp: triple_def)
    qed
  next
    show "?R \<subseteq> ?S" using rs(1) by blast
    show "?R \<inter> J = {}" using rs(1) free by blast
  qed (rule rs(2))
  have sets: "?R - \<Union> ((\<lambda>tx. {tx_settlement_id tx}) ` set rs) = {}" "F \<subseteq> ?S - ?R" "F \<inter> set ?un = {}"
    "J \<union> ?R \<union> set ?un = J \<union> st_id ` set cl" "set ?un \<inter> (J \<union> ?R) = {}" using rs(1) free by auto
  have reset: "triple (sinv hl chain rows0 (?S - ?R) (J \<union> ?R) {})
      (if ?un = [] then ok () else ignore (db_call (reset_settlements_for_retry ?un max_settlement_retries err)))
      (\<lambda>r w. r = Inr () \<and> sinv hl chain rows0 F (J \<union> st_id ` set cl) {} w)" for err
  proof (cases "?un = []")
    case True
    then have J: "J \<union> ?R = J \<union> st_id ` set cl" using sets(4) by simp
    show ?thesis unfolding True if_True if_P[OF refl] J
      by (rule triple_ok) (use sets(2) J in \<open>auto elim!: sinv_mono\<close>)
  next
    case False
    have t: "triple (sinv hl chain rows0 (?S - ?R) (J \<union> ?R) {})
        (db_call (reset_settlements_for_retry ?un max_settlement_retries err))
        (\<lambda>r w. r \<noteq> Inl Panicked \<and> sinv hl chain rows0 F (J \<union> st_id ` set cl) {} w)"
      unfolding sets(4)[symmetric] by (rule triple_reset) (use sets in auto)
    show ?thesis using triple_ignore[OF t] False by simp
  qed
  have first: "triple (\<lambda>w. ?M w \<and> sinv hl chain rows0 ?S J ?R w) (for_each (complete_minted cl) rs)
      (\<lambda>r w. case r of Inl e \<Rightarrow> Inl e = Inr rs \<and> sinv hl chain rows0 F (J \<union> st_id ` set cl) {} w
                    | Inr _ \<Rightarrow> sinv hl chain rows0 (?S - ?R) (J \<union> ?R) {} w)"
    by (rule triple_weaken[OF loop[unfolded sets(1)]]) (auto split: sum.splits)
  have second: "triple (sinv hl chain rows0 (?S - ?R) (J \<union> ?R) {})
      (and_then (if ?un = [] then ok () else ignore (db_call (reset_settlements_for_retry ?un max_settlement_retries err)))
        (\<lambda>_. ok rs)) (\<lambda>r w. r = Inr rs \<and> sinv hl chain rows0 F (J \<union> st_id ` set cl) {} w)" for err
    by (rule triple_and_then[where R = "\<lambda>_. sinv hl chain rows0 F (J \<union> st_id ` set cl) {}"],
        rule triple_weaken[OF reset]) (auto split: sum.splits intro!: triple_ok)
  show ?thesis unfolding finish_batch_def Let_def by (rule triple_and_then[OF first second])
qed

lemma triple_release_batch:
  assumes free: "st_id ` set cl \<inter> (F \<union> J) = {}"
  shows "triple (sinv hl chain rows0 (st_id ` set cl \<union> F) J {}) (release_batch cl reason)
           (\<lambda>r w. r = Inr () \<and> sinv hl chain rows0 F (J \<union> st_id ` set cl) {} w)"
proof -
  let ?Q = "sinv hl chain rows0 F (J \<union> st_id ` set cl) {}"
  have "triple (sinv hl chain rows0 (st_id ` set cl \<union> F) J {})
      (db_call (reset_settlements_for_retry (map st_id cl) max_settlement_retries (Some reason)))
      (\<lambda>r w. r \<noteq> Inl Panicked \<and> sinv hl chain rows0 F (J \<union> set (map st_id cl)) {} w)"
    by (rule triple_reset) (use free in auto)
  then have reset: "triple (sinv hl chain rows0 (st_id ` set cl \<union> F) J {})
      (db_call (reset_settlements_for_retry (map st_id cl) max_settlement_retries (Some reason)))
      (\<lambda>r w. r \<noteq> Inl Panicked \<and> ?Q w)" by simp
  have logs: "triple ?Q (for_each (\<lambda>st. ignore (log_action (st_buyer_id st) ''settlement_failed''
      (''Settlement '' @ uuid_str (st_id st) @ '' failed on-chain: '' @ reason))) cl) (\<lambda>r w. r = Inr () \<and> ?Q w)"
    by (rule triple_for_each[where P = "\<lambda>_. ?Q"])
      (auto intro!: triple_weaken[OF triple_ignore_log] split: sum.splits)
  show ?thesis unfolding release_batch_def by (rule triple_ignore_then[OF reset logs])
qed

lemma triple_park_rejected:
  assumes "st_id st \<notin> F \<union> J"
  shows "triple (sinv hl chain rows0 (insert (st_id st) F) J {}) (park_rejected st reason)
           (\<lambda>r w. r = Inr () \<and> sinv hl chain rows0 F (insert (st_id st) J) {} w)"
proof -
  let ?Q = "sinv hl chain rows0 F (insert (st_id st) J) {}"
  have F: "insert (st_id st) F - {st_id st} = F" using assms by auto
  have "triple (sinv hl chain rows0 (insert (st_id st) F) J {})
      (db_call (update_settlement_status (st_id st) ''permanently_failed'' None (Some e)))
      (\<lambda>r w. r \<noteq> Inl Panicked \<and> ?Q w)" for e
    using triple_park_write[of "st_id st" "insert (st_id st) F" J hl chain rows0 "{}" e] assms F by simp
  then show ?thesis unfolding park_rejected_def settlement_status_str.simps
    by (rule triple_ignore_then) (rule triple_ignore_log)
qed

text \<open>Settling held settlements one after the other.\<close>

definition settles_one :: "bool \<Rightarrow> chain \<Rightarrow> settlement_row list \<Rightarrow> settlement \<Rightarrow> 'a io \<Rightarrow> bool" where
  "settles_one hl chain rows0 st m \<longleftrightarrow> (\<forall>F J. st_id st \<notin> F \<union> J \<longrightarrow>
     triple (sinv hl chain rows0 (insert (st_id st) F) J {}) m
       (\<lambda>r w. r \<noteq> Inl Panicked \<and> sinv hl chain rows0 F (insert (st_id st) J) {} w))"

lemma triple_isolate:
  assumes "\<And>st. st \<in> set cl \<Longrightarrow> settles_one hl chain rows0 st (resettle st)"
    and "distinct (map st_id cl)" "st_id ` set cl \<inter> (F \<union> J) = {}"
  shows "triple (sinv hl chain rows0 (st_id ` set cl \<union> F) J {}) (isolate resettle cl acc)
           (\<lambda>r w. r \<noteq> Inl Panicked \<and> sinv hl chain rows0 F (J \<union> st_id ` set cl) {} w)"
  using assms
proof (induction cl arbitrary: F J acc)
  case Nil
  then show ?case by (auto intro!: triple_ok)
next
  case (Cons st cl)
  let ?R = "sinv hl chain rows0 (st_id ` set cl \<union> F) (insert (st_id st) J) {}"
  have notin: "st_id st \<notin> (st_id ` set cl \<union> F) \<union> J" using Cons.prems(2,3) by auto
  have one: "triple (sinv hl chain rows0 (insert (st_id st) (st_id ` set cl \<union> F)) J {}) (resettle st)
      (\<lambda>r w. r \<noteq> Inl Panicked \<and> ?R w)"
    using Cons.prems(1)[of st] notin by (auto simp: settles_one_def)
  have step: "triple (sinv hl chain rows0 (insert (st_id st) (st_id ` set cl \<union> F)) J {}) (isolate_step resettle st acc)
      (\<lambda>r w. (\<exists>acc'. r = Inr acc') \<and> ?R w)"
    unfolding isolate_step_def
    by (rule triple_and_then[where R = "\<lambda>_. ?R"], rule triple_attempt, rule triple_weaken[OF one])
      (auto split: sum.splits failure.splits intro!: triple_ok)
  have free: "st_id ` set cl \<inter> (F \<union> insert (st_id st) J) = {}" using Cons.prems(2,3) by auto
  have rest: "triple ?R (isolate resettle cl acc') (\<lambda>r w. r \<noteq> Inl Panicked \<and>
      sinv hl chain rows0 F (insert (st_id st) J \<union> st_id ` set cl) {} w)" for acc'
    using Cons.prems(1,2) by (intro Cons.IH free) auto
  have sets: "st_id ` set (st # cl) \<union> F = insert (st_id st) (st_id ` set cl \<union> F)"
    "J \<union> st_id ` set (st # cl) = insert (st_id st) J \<union> st_id ` set cl" by auto
  show ?case unfolding isolate.simps sets
    by (rule triple_and_then[where R = "\<lambda>_. ?R"], rule triple_weaken[OF step])
      (auto split: sum.splits intro: rest[simplified])
qed

text \<open>The batch after the chain's answer.\<close>

definition answered ::
  "bool \<Rightarrow> chain \<Rightarrow> settlement_row list \<Rightarrow> uuid set \<Rightarrow> uuid set \<Rightarrow> settlement list
     \<Rightarrow> api_error + settlement_transaction list \<Rightarrow> world \<Rightarrow> bool" where
  "answered hl chain rows0 F J cl res w \<longleftrightarrow> (case res of
     Inl _ \<Rightarrow> sinv hl chain rows0 (st_id ` set cl \<union> F) J {} w
   | Inr rs \<Rightarrow> tx_settlement_id ` set rs \<subseteq> st_id ` set cl \<and> distinct (map tx_settlement_id rs) \<and>
       (\<forall>tx\<in>set rs. minted_by chain (w_sent w) tx) \<and>
       sinv hl chain rows0 (st_id ` set cl \<union> F) J (tx_settlement_id ` set rs) w)"

lemma triple_and_throw:
  assumes "triple P m (\<lambda>r w. r = Inr () \<and> Q w)"
  shows "triple P (and_then m (\<lambda>_. throw e)) (\<lambda>r w. r \<noteq> Inl Panicked \<and> Q w)"
  by (rule triple_and_then[where R = "\<lambda>_. Q"], rule triple_weaken[OF assms])
    (auto split: sum.splits intro!: triple_throw)

lemma triple_settle_answer:
  assumes "chain_ok chain" "distinct (map st_id cl)" and free: "st_id ` set cl \<inter> (F \<union> J) = {}"
    and re: "\<And>st. 2 \<le> length cl \<Longrightarrow> st \<in> set cl \<Longrightarrow> settles_one hl chain rows0 st (resettle st)" and "cl \<noteq> []"
  shows "triple (answered hl chain rows0 F J cl res) (settle_answer resettle cl res)
           (\<lambda>r w. r \<noteq> Inl Panicked \<and> sinv hl chain rows0 F (J \<union> st_id ` set cl) {} w)"
proof (cases res)
  case (Inr rs)
  show ?thesis
  proof (cases "tx_settlement_id ` set rs \<subseteq> st_id ` set cl \<and> distinct (map tx_settlement_id rs)")
    case True
    then show ?thesis unfolding settle_answer_def Inr sum.case
      by (intro triple_weaken[OF triple_finish_batch[OF assms(1) _ _ free]]) (auto simp: answered_def)
  qed (auto simp: triple_def answered_def Inr)
next
  case (Inl e)
  let ?Q = "\<lambda>(r :: failure + settlement_transaction list) w. r \<noteq> Inl Panicked \<and> sinv hl chain rows0 F (J \<union> st_id ` set cl) {} w"
  have P: "answered hl chain rows0 F J cl res = sinv hl chain rows0 (st_id ` set cl \<union> F) J {}"
    by (simp add: answered_def Inl fun_eq_iff)
  have release: "triple (sinv hl chain rows0 (st_id ` set cl \<union> F) J {}) (and_then (release_batch cl reason) (\<lambda>_. throw e)) ?Q" for reason
    by (rule triple_and_throw[OF triple_release_batch[OF free]])
  have reject: "triple (sinv hl chain rows0 (st_id ` set cl \<union> F) J {})
      (case cl of [single] \<Rightarrow> and_then (park_rejected single reason) (\<lambda>_. throw e) | _ \<Rightarrow> isolate resettle cl []) ?Q" for reason
  proof (cases "\<exists>x. cl = [x]")
    case True
    then obtain x where cl: "cl = [x]" by blast
    then have "st_id x \<notin> F \<union> J" using free by simp
    from triple_and_throw[OF triple_park_rejected[OF this]] show ?thesis by (simp add: cl)
  next
    case False
    then have len: "2 \<le> length cl" and iso: "(case cl of [single] \<Rightarrow> and_then (park_rejected single reason) (\<lambda>_. throw e)
        | _ \<Rightarrow> isolate resettle cl []) = isolate resettle cl []"
      using \<open>cl \<noteq> []\<close> by (auto simp: neq_Nil_conv split: list.splits)
    show ?thesis unfolding iso by (rule triple_isolate[OF re[OF len] assms(2) free])
  qed
  have "triple (sinv hl chain rows0 (st_id ` set cl \<union> F) J {}) (settle_answer resettle cl (Inl e)) ?Q"
    unfolding settle_answer_def sum.case Let_def using release reject by simp
  then show ?thesis unfolding P[symmetric] by (simp only: Inl)
qed

lemma triple_settle_batch:
  assumes chain: "chain_ok chain" and "distinct (map st_id cl0)" and free: "st_id ` set cl0 \<inter> (F \<union> J) = {}"
    and re: "\<And>st. 2 \<le> length cl0 \<Longrightarrow> st \<in> set cl0 \<Longrightarrow> settles_one hl chain rows0 st (resettle st)"
  shows "triple (sinv hl chain rows0 (st_id ` set cl0 \<union> F) J {}) (settle_batch chain resettle cl0)
           (\<lambda>r w. r \<noteq> Inl Panicked \<and> sinv hl chain rows0 F (J \<union> st_id ` set cl0) {} w)"
proof -
  let ?B = "batch_held hl chain rows0 F J cl0"
  let ?Q = "\<lambda>r w. r \<noteq> Inl Panicked \<and> sinv hl chain rows0 F (J \<union> st_id ` set cl0) {} w"
  have empty: "?B [] w \<Longrightarrow> sinv hl chain rows0 F (J \<union> st_id ` set cl0) {} w" for w
    by (simp add: batch_held_def)
  have answer: "triple (?B cl) (and_then (attempt (send_batch chain cl)) (settle_answer resettle cl)) ?Q"
    if ne: "cl \<noteq> []" for cl
  proof (cases "distinct (map st_id cl) \<and> set cl \<subseteq> set cl0")
    case True
    let ?J = "J \<union> (st_id ` set cl0 - st_id ` set cl)"
    have sub: "st_id ` set cl \<subseteq> st_id ` set cl0" using True by blast
    have J: "?J \<union> st_id ` set cl = J \<union> st_id ` set cl0" using sub by blast
    have free': "st_id ` set cl \<inter> (F \<union> ?J) = {}" using free sub by blast
    have len: "length cl \<le> length cl0"
      using True card_mono[of "set cl0" "set cl"] distinct_card[of cl] card_length[of cl0]
      by (simp add: distinct_map)
    have send: "triple (?B cl) (attempt (send_batch chain cl))
        (\<lambda>r w. case r of Inl e \<Rightarrow> ?Q (Inl e) w | Inr res \<Rightarrow> answered hl chain rows0 F ?J cl res w)"
      by (rule triple_attempt, rule triple_weaken[OF triple_send[OF chain, of cl "st_id ` set cl \<union> F"]])
        (use True in \<open>auto simp: batch_held_def answered_def split: sum.splits failure.splits\<close>)
    show ?thesis
    proof (rule triple_and_then[OF send])
      fix res
      have "settles_one hl chain rows0 st (resettle st)" if "2 \<le> length cl" "st \<in> set cl" for st
        using re[of st] that len True by auto
      from triple_settle_answer[OF chain _ free' this ne, of res]
      show "triple (answered hl chain rows0 F ?J cl res) (settle_answer resettle cl res) ?Q"
        unfolding J using True by simp
    qed
  qed (auto simp: triple_def batch_held_def)
  show ?thesis unfolding settle_batch_def
  proof (rule triple_and_then[where R = ?B])
    show "triple (sinv hl chain rows0 (st_id ` set cl0 \<union> F) J {}) (park_unplaceable_settlements cl0)
        (\<lambda>r w. case r of Inl e \<Rightarrow> ?Q (Inl e) w | Inr cl \<Rightarrow> ?B cl w)"
      unfolding park_unplaceable_settlements_def
      by (rule triple_weaken[OF triple_preflight[OF free]]) (use assms(2) in \<open>auto simp: batch_held_def\<close>)
    fix cl1
    have lapsed: "triple (?B cl1) (park_lapsed_settlements cl1) (\<lambda>r w. case r of Inl e \<Rightarrow> ?Q (Inl e) w | Inr cl \<Rightarrow> ?B cl w)"
      unfolding park_lapsed_settlements_def by (rule triple_weaken[OF triple_preflight[OF free]]) auto
    have "triple (?B cl1) (and_then (park_lapsed_settlements cl1) (\<lambda>claimed. if claimed = [] then ok [] else
        and_then (attempt (send_batch chain claimed)) (settle_answer resettle claimed))) ?Q"
      by (rule triple_and_then[OF lapsed]) (use empty answer in \<open>auto intro!: triple_ok\<close>)
    then show "triple (?B cl1) (if cl1 = [] then ok [] else and_then (park_lapsed_settlements cl1) (\<lambda>claimed.
       if claimed = [] then ok [] else
       and_then (attempt (send_batch chain claimed)) (settle_answer resettle claimed))) ?Q"
      using empty by (auto intro!: triple_ok)
  qed
qed

end
