(* ===== verification/Settlement_Runs.thy ===== *)
theory Settlement_Runs imports Settlement_Lifecycle begin

text \<open>
  Whole runs of the settlement service: what one tick and one batched request do to the ledger
  under any faults, that without faults nothing is left in \<open>processing\<close>, and that no settlement
  is minted twice over any sequence of ticks, requests and inserts.
\<close>

section \<open>The recursion of \<open>settle_claimed\<close>\<close>

lemma and_then_cong:
  "(\<And>w x w'. m w = (Inr x, w') \<Longrightarrow> k x w' = k' x w') \<Longrightarrow> and_then m k = and_then m k'"
  by (auto simp: and_then_def fun_eq_iff split: prod.split sum.split)

text \<open>A pre-flight check never adds a settlement.\<close>

lemma preflight_length:
  "triple (\<lambda>_. True)
     (and_then (attempt (db_read q)) (\<lambda>res. case res of
          Inl _ \<Rightarrow> ok cl
        | Inr X \<Rightarrow> if X = [] then ok cl
            else and_then (for_each f (filter (\<lambda>st. st_id st \<in> set X) cl))
                   (\<lambda>_. ok (filter (\<lambda>st. st_id st \<notin> set X) cl))))
     (\<lambda>r w. \<forall>cl'. r = Inr cl' \<longrightarrow> length cl' \<le> length cl)"
  by (auto simp: triple_def and_then_def ok_def split: prod.split sum.split)

lemma park_lengths:
  shows park_unplaceable_length: "park_unplaceable_settlements cl w = (Inr cl', w') \<Longrightarrow> length cl' \<le> length cl"
    and park_lapsed_length: "park_lapsed_settlements cl w = (Inr cl', w') \<Longrightarrow> length cl' \<le> length cl"
  unfolding park_unplaceable_settlements_def park_lapsed_settlements_def
  by (drule tripleD[OF preflight_length TrueI], simp)+

lemma settle_answer_short: "length cl = 1 \<Longrightarrow> settle_answer f cl res = settle_answer g cl res"
  by (auto simp: settle_answer_def length_Suc_conv Let_def split: sum.split)

text \<open>The recursive call is not reached from a singleton, so it is one level deep.\<close>

lemma settle_batch_short:
  assumes "length cl \<le> 1"
  shows "settle_batch chain f cl = settle_batch chain g cl"
proof -
  have answer: "settle_answer f cl2 = settle_answer g cl2" if "length cl2 \<le> length cl" "cl2 \<noteq> []" for cl2
    using that assms settle_answer_short[of cl2] by (auto simp: fun_eq_iff le_Suc_eq)
  have inner: "and_then (park_lapsed_settlements cl1) (\<lambda>claimed. if claimed = [] then ok []
        else and_then (attempt (send_batch chain claimed)) (settle_answer f claimed)) =
      and_then (park_lapsed_settlements cl1) (\<lambda>claimed. if claimed = [] then ok []
        else and_then (attempt (send_batch chain claimed)) (settle_answer g claimed))"
    if "length cl1 \<le> length cl" for cl1
  proof (rule and_then_cong)
    fix w x w' assume "park_lapsed_settlements cl1 w = (Inr x, w')"
    then have "length x \<le> length cl" using park_lapsed_length that order_trans by blast
    then show "(if x = [] then ok [] else and_then (attempt (send_batch chain x)) (settle_answer f x)) w' =
        (if x = [] then ok [] else and_then (attempt (send_batch chain x)) (settle_answer g x)) w'"
      using answer[of x] by simp
  qed
  show ?thesis unfolding settle_batch_def
    by (intro and_then_cong) (auto dest!: park_unplaceable_length inner)
qed

lemma settle_claimed_rec: "settle_claimed chain cl = settle_batch chain (\<lambda>st. settle_claimed chain [st]) cl"
proof -
  have "settle_single chain st = settle_claimed chain [st]" for st
    unfolding settle_single_def settle_claimed_def by (rule settle_batch_short) simp
  then show ?thesis unfolding settle_claimed_def by metis
qed

section \<open>Settling what was claimed\<close>

lemma settle_single_settles:
  assumes "chain_ok chain"
  shows "settles_one hl chain rows0 st (settle_single chain st)"
  unfolding settles_one_def settle_single_def
  using triple_settle_batch[OF assms, of "[st]"] by auto

lemma triple_settle_claimed:
  assumes "chain_ok chain" "distinct (map st_id cl)"
  shows "triple (sinv hl chain rows0 (st_id ` set cl) {} {}) (settle_claimed chain cl)
           (\<lambda>r w. r \<noteq> Inl Panicked \<and> sinv hl chain rows0 {} (st_id ` set cl) {} w)"
  using triple_settle_batch[OF assms, of "{}" "{}"] settle_single_settles[OF assms(1)]
  unfolding settle_claimed_def by simp

text \<open>The claim holds what it returns.\<close>

lemma sinv_hold:
  assumes "sinv hl chain rows0 {} J C w" "\<And>r. r \<in> set (rows w) \<Longrightarrow> sdb_id r \<in> S \<Longrightarrow> sdb_status r = ''processing''"
    "hl \<Longrightarrow> S \<subseteq> sdb_id ` set (rows w)"
  shows "sinv hl chain rows0 S J C w"
  using assms unfolding sinv_def by auto

lemma claim_eq:
  "claim_settlements_for_processing ids now s =
     Inr (map (\<lambda>r. settlement_of_row (r\<lparr>sdb_status := ''processing'', sdb_updated_at := now\<rparr>))
            (filter (claimable ids) (db_settlements s)),
          s\<lparr>db_settlements := update_where (claimable ids)
              (\<lambda>r. r\<lparr>sdb_status := ''processing'', sdb_updated_at := now\<rparr>) (db_settlements s)\<rparr>)"
  by (simp add: claim_settlements_for_processing_def comp_def update_where_id claimable_def)

lemma triple_claim:
  "triple (sinv hl chain rows0 {} {} {}) (db_call (claim_settlements_for_processing ids))
     (\<lambda>r w. case r of Inl e \<Rightarrow> e \<noteq> Panicked \<and> sinv hl chain rows0 {} {} {} w
        | Inr cl \<Rightarrow> distinct (map st_id cl) \<and> sinv hl chain rows0 (st_id ` set cl) {} {} w)"
proof -
  let ?upd = "\<lambda>now r. r\<lparr>sdb_status := ''processing'', sdb_updated_at := now\<rparr>"
  have safe: "triple (\<lambda>w. sinv hl chain rows0 {} {} {} w \<and> True) (db_call (claim_settlements_for_processing ids))
      (\<lambda>r w. r \<noteq> Inl Panicked \<and> (hl \<longrightarrow> (\<exists>y. r = Inr y)) \<and> sinv hl chain rows0 {} {} {} w)"
    by (rule triple_rows[where I = "set ids" and hit = "\<lambda>_. claimable ids" and g = ?upd])
      (auto simp: claim_eq claimable_def intro: claimed)
  show ?thesis unfolding triple_def
  proof (intro allI impI)
    fix w assume inv: "sinv hl chain rows0 {} {} {} w"
    obtain res w' where call: "db_call (claim_settlements_for_processing ids) w = (res, w')" by fastforce
    have inv': "sinv hl chain rows0 {} {} {} w'" "res \<noteq> Inl Panicked" using tripleD[OF safe _ call] inv by auto
    have "distinct (map st_id cl) \<and> sinv hl chain rows0 (st_id ` set cl) {} {} w'" if res: "res = Inr cl" for cl
    proof -
      let ?hits = "filter (claimable ids) (rows w)"
      have cl: "map st_id cl = map sdb_id ?hits" and rows': "rows w' = update_where (claimable ids) (?upd (w_db_now w)) (rows w)"
        using call res by (auto simp: db_call_def claim_eq settlement_of_row_def split: list.splits bool.splits)
      have ids: "st_id ` set cl = sdb_id ` set ?hits" using arg_cong[OF cl, of set] by simp
      have d: "distinct (map sdb_id (rows w))" by (rule sinv_distinct[OF inv])
      have "map sdb_id (rows w') = map sdb_id (rows w)" unfolding rows' by (rule map_update_where) simp
      then have ids': "sdb_id ` set (rows w') = sdb_id ` set (rows w)" by (metis set_map)
      have "sinv hl chain rows0 (st_id ` set cl) {} {} w'"
      proof (rule sinv_hold[OF inv'(1)])
        fix r' assume r': "r' \<in> set (rows w')" "sdb_id r' \<in> st_id ` set cl"
        obtain r where r: "r \<in> set (rows w)" "r' = (if claimable ids r then ?upd (w_db_now w) r else r)"
          using r'(1) unfolding rows' set_update_where by blast
        obtain q where q: "q \<in> set (rows w)" "claimable ids q" "sdb_id q = sdb_id r'" using r'(2) unfolding ids by auto
        have "sdb_id r' = sdb_id r" by (simp add: r(2))
        then have "sdb_id q = sdb_id r" using q(3) by simp
        then have "q = r" using d q(1) r(1) unfolding distinct_map by (blast dest: inj_onD)
        then show "sdb_status r' = ''processing''" using q(2) r(2) by simp
      next
        show "st_id ` set cl \<subseteq> sdb_id ` set (rows w')"
          using ids' unfolding ids by auto
      qed
      then show ?thesis using d by (simp add: cl distinct_map_filter)
    qed
    then show "case fst (db_call (claim_settlements_for_processing ids) w) of
         Inl e \<Rightarrow> e \<noteq> Panicked \<and> sinv hl chain rows0 {} {} {} (snd (db_call (claim_settlements_for_processing ids) w))
       | Inr cl \<Rightarrow> distinct (map st_id cl) \<and>
           sinv hl chain rows0 (st_id ` set cl) {} {} (snd (db_call (claim_settlements_for_processing ids) w))"
      using inv' unfolding call by (auto split: sum.split)
  qed
qed

section \<open>The operations of the service\<close>

text \<open>Neither of them panics; whatever they return, the ledger has only moved along the lifecycle.\<close>

abbreviation calm :: "bool \<Rightarrow> chain \<Rightarrow> settlement_row list \<Rightarrow> world \<Rightarrow> bool" where
  "calm hl chain rows0 \<equiv> sinv hl chain rows0 {} {} {}"

lemma triple_claim_settle:
  assumes "chain_ok chain"
    and k: "\<And>cl. triple (calm hl chain rows0) (k cl) (\<lambda>r w. r \<noteq> Inl Panicked \<and> calm hl chain rows0 w)"
  shows "triple (calm hl chain rows0)
     (and_then (db_call (claim_settlements_for_processing ids)) (\<lambda>claimed.
        if claimed = [] then ok z else and_then (settle_claimed chain claimed) k))
     (\<lambda>r w. r \<noteq> Inl Panicked \<and> calm hl chain rows0 w)"
proof (rule triple_and_then[where R = "\<lambda>cl w. distinct (map st_id cl) \<and> sinv hl chain rows0 (st_id ` set cl) {} {} w"])
  show "triple (calm hl chain rows0) (db_call (claim_settlements_for_processing ids))
     (\<lambda>r w. case r of Inl e \<Rightarrow> Inl e \<noteq> Inl Panicked \<and> calm hl chain rows0 w
        | Inr cl \<Rightarrow> distinct (map st_id cl) \<and> sinv hl chain rows0 (st_id ` set cl) {} {} w)"
    by (rule triple_weaken[OF triple_claim]) (auto split: sum.splits)
  fix cl :: "settlement list"
  let ?P = "\<lambda>w. distinct (map st_id cl) \<and> sinv hl chain rows0 (st_id ` set cl) {} {} w"
  have settle: "triple ?P (settle_claimed chain cl) (\<lambda>r w. r \<noteq> Inl Panicked \<and> calm hl chain rows0 w)"
  proof (cases "distinct (map st_id cl)")
    case True
    show ?thesis
      by (rule triple_weaken[OF triple_settle_claimed[OF assms(1) True, of hl rows0]])
        (auto elim!: sinv_mono)
  qed (auto simp: triple_def)
  have "triple ?P (and_then (settle_claimed chain cl) k) (\<lambda>r w. r \<noteq> Inl Panicked \<and> calm hl chain rows0 w)"
    by (rule triple_and_then[OF triple_weaken[OF settle] k]) (auto split: sum.splits)
  moreover have "cl = [] \<Longrightarrow> triple ?P (ok z) (\<lambda>r w. r \<noteq> Inl Panicked \<and> calm hl chain rows0 w)"
    by (auto intro!: triple_ok)
  ultimately show "triple ?P (if cl = [] then ok z else and_then (settle_claimed chain cl) k)
      (\<lambda>r w. r \<noteq> Inl Panicked \<and> calm hl chain rows0 w)" by simp
qed

lemma triple_process_pending:
  assumes "chain_ok chain"
  shows "triple (calm hl chain rows0) (process_pending_settlements chain limit)
           (\<lambda>r w. r \<noteq> Inl Panicked \<and> calm hl chain rows0 w)"
  unfolding process_pending_settlements_def
proof (rule triple_and_then[where R = "\<lambda>_. calm hl chain rows0"])
  show "triple (calm hl chain rows0) (db_read (\<lambda>_. get_pending_settlements limit))
      (\<lambda>r w. case r of Inl e \<Rightarrow> Inl e \<noteq> Inl Panicked \<and> calm hl chain rows0 w | Inr x \<Rightarrow> calm hl chain rows0 w)"
    using triple_db_read[of hl chain rows0 "{}" "{}" "[]" "[]" "\<lambda>_. get_pending_settlements limit"]
    by (auto simp: batch_held_def triple_def split: sum.split)
  fix pending :: "settlement list"
  have len: "triple (calm hl chain rows0) (ok n) (\<lambda>r w. r \<noteq> Inl Panicked \<and> calm hl chain rows0 w)" for n :: nat
    by (rule triple_ok) simp
  show "triple (calm hl chain rows0) (if pending = [] then ok 0 else
      and_then (db_call (claim_settlements_for_processing (map st_id pending))) (\<lambda>claimed.
        if claimed = [] then ok 0 else and_then (settle_claimed chain claimed) (\<lambda>results. ok (length results))))
      (\<lambda>r w. r \<noteq> Inl Panicked \<and> calm hl chain rows0 w)"
    using triple_claim_settle[OF assms len] len by simp
qed

lemma and_then_ok_right: "and_then m ok = m"
  by (auto simp: fun_eq_iff and_then_def ok_def split: prod.split sum.split)

lemma triple_execute:
  assumes "chain_ok chain"
  shows "triple (calm hl chain rows0) (execute_batched_settlements chain sts)
           (\<lambda>r w. r \<noteq> Inl Panicked \<and> calm hl chain rows0 w)"
proof -
  have ok: "triple (calm hl chain rows0) (ok rs) (\<lambda>r w. r \<noteq> Inl Panicked \<and> calm hl chain rows0 w)"
    for rs :: "settlement_transaction list" by (rule triple_ok) simp
  show ?thesis
    using ok triple_claim_settle[OF assms, where k = ok, OF ok, unfolded and_then_ok_right]
    by (simp add: execute_batched_settlements_def)
qed

lemma triple_reclaim:
  "triple (calm hl chain rows0) reclaim_stale_settlements (\<lambda>r w. r \<noteq> Inl Panicked \<and> calm hl chain rows0 w)"
  unfolding reclaim_stale_settlements_def
  by (rule triple_weaken[OF triple_rows[where Pr = "\<lambda>_. True" and I = UNIV and S = "{}" and J = "{}" and C = "{}"
        and hit = "\<lambda>now r. sdb_status r = ''processing'' \<and> sdb_updated_at r < now - stale_processing_secs * 1000000000"
        and g = "bump_retry max_settlement_retries" and S' = "{}" and J' = "{}" and C' = "{}"]])
    (auto simp: reclaim_stale_processing_def Let_def intro: life_reclaimed)

lemma triple_tick:
  assumes "chain_ok chain"
  shows "triple (calm hl chain rows0) (settlement_tick chain limit) (\<lambda>r w. r = Inr () \<and> calm hl chain rows0 w)"
  unfolding settlement_tick_def
  by (rule triple_ignore_then[OF triple_reclaim triple_ignore[OF triple_process_pending[OF assms]]])

section \<open>Nothing is left behind\<close>

definition processing_ids :: "store \<Rightarrow> uuid set" where
  "processing_ids s = sdb_id ` {r \<in> set (db_settlements s). sdb_status r = ''processing''}"

text \<open>After the claim no write puts a settlement into \<open>processing\<close>.\<close>

abbreviation held_in :: "uuid set \<Rightarrow> world \<Rightarrow> bool" where
  "held_in P \<equiv> stores (\<lambda>s. processing_ids s \<subseteq> P)"

lemma keeps_held_update:
  assumes "\<And>now s x s'. f now s = Inr (x, s') \<Longrightarrow> processing_ids s' \<subseteq> processing_ids s"
  shows "keeps (held_in P) (db_call f)"
  by (rule keeps_db_call) (use assms in blast)

lemma processing_ids_update:
  assumes "\<And>r. hit r \<Longrightarrow> sdb_id (f r) = sdb_id r \<and> sdb_status (f r) \<noteq> ''processing''"
    and "db_settlements s' = update_where hit f (db_settlements s)"
  shows "processing_ids s' \<subseteq> processing_ids s"
proof
  fix i assume "i \<in> processing_ids s'"
  then obtain r' where r': "r' \<in> set (update_where hit f (db_settlements s))" "sdb_status r' = ''processing''" "i = sdb_id r'"
    unfolding processing_ids_def assms(2) by blast
  then obtain r where r: "r \<in> set (db_settlements s)" "r' = (if hit r then f r else r)"
    unfolding set_update_where by blast
  then have "r' = r" using assms(1)[of r] r'(2) by (cases "hit r") auto
  then show "i \<in> processing_ids s" using r r' by (auto simp: processing_ids_def)
qed

lemma keeps_held_status [keeps_intros]:
  assumes "st \<noteq> ''processing''"
  shows "keeps (held_in P) (db_call (update_settlement_status i st tx e))"
proof (rule keeps_held_update)
  fix now s x s' assume "update_settlement_status i st tx e now s = Inr (x, s')"
  then show "processing_ids s' \<subseteq> processing_ids s" using assms
    by (intro processing_ids_update[where hit = "\<lambda>r. sdb_id r = i" and f = "set_status st tx e now"])
      (auto simp: update_settlement_status_def)
qed

lemma keeps_held_status_event [keeps_intros]:
  assumes "st \<noteq> ''processing''"
  shows "keeps (held_in P) (db_call (update_settlement_status_with_event i st tx e ev))"
proof (rule keeps_held_update)
  fix now s x s' assume "update_settlement_status_with_event i st tx e ev now s = Inr (x, s')"
  then have "db_settlements s' = update_where (\<lambda>r. sdb_id r = i) (set_status st tx e now) (db_settlements s)"
    by (auto simp: update_settlement_status_with_event_def update_settlement_status_def dest!: insert_event_rows split: sum.splits)
  then show "processing_ids s' \<subseteq> processing_ids s" using assms by (intro processing_ids_update) auto
qed

lemma keeps_held_reset [keeps_intros]: "keeps (held_in P) (db_call (reset_settlements_for_retry ids n e))"
proof (rule keeps_held_update)
  fix now s x s' assume "reset_settlements_for_retry ids n e now s = Inr (x, s')"
  then have "db_settlements s' = update_where (\<lambda>r. sdb_id r \<in> set ids \<and> sdb_status r = ''processing'')
      (\<lambda>r. (bump_retry n now r)\<lparr>sdb_error_message := e\<rparr>) (db_settlements s)"
    by (auto simp: reset_settlements_for_retry_def Let_def update_where_id split: if_splits)
  then show "processing_ids s' \<subseteq> processing_ids s" by (intro processing_ids_update) auto
qed

lemma keeps_held_reclaim [keeps_intros]: "keeps (held_in P) (db_call (reclaim_stale_processing secs n))"
proof (rule keeps_held_update)
  fix now s x s' assume "reclaim_stale_processing secs n now s = Inr (x, s')"
  then have "db_settlements s' = update_where (\<lambda>r. sdb_status r = ''processing'' \<and>
      sdb_updated_at r < now - secs * 1000000000) (bump_retry n now) (db_settlements s)"
    by (auto simp: reclaim_stale_processing_def Let_def)
  then show "processing_ids s' \<subseteq> processing_ids s" by (intro processing_ids_update) auto
qed

lemma keeps_store_log [keeps_intros]: "keeps (stores Q) (log_action u a d)"
  by (simp add: keeps_def stores_def log_action_def)

lemma keeps_store_send [keeps_intros]: "keeps (stores Q) (send_batch chain b)"
  by (simp add: keeps_def stores_def send_batch_def split: sum.split)

lemma keeps_held_isolate:
  "(\<And>st. keeps (held_in P) (resettle st)) \<Longrightarrow> keeps (held_in P) (isolate resettle cl acc)"
  by (induction cl arbitrary: acc) (auto simp: isolate_step_def intro!: keeps_intros split: sum.split)

lemma keeps_held_finish: "keeps (held_in P) (finish_batch cl rs)"
  unfolding finish_batch_def complete_minted_def Let_def
  by (auto intro!: keeps_intros split: sum.split option.split)

lemma keeps_held_park [keeps_intros]: "keeps (held_in P) (park reason action st)"
  unfolding park_def by (auto intro!: keeps_intros split: sum.split)

lemma keeps_held_answer:
  assumes "\<And>st. keeps (held_in P) (resettle st)"
  shows "keeps (held_in P) (settle_answer resettle cl res)"
proof -
  note iso = keeps_held_isolate[OF assms]
  have rej: "keeps (held_in P) (park_rejected st reason)" for st reason
    unfolding park_rejected_def by (intro keeps_intros) simp
  have rel: "keeps (held_in P) (release_batch cl reason)" for reason
    unfolding release_batch_def by (intro keeps_intros)
  have "keeps (held_in P) (case cl of [st] \<Rightarrow> and_then (park_rejected st reason) (\<lambda>_. throw e) | _ \<Rightarrow> isolate resettle cl [])"
    for reason e by (cases cl rule: list.exhaust) (auto split: list.split intro!: keeps_and_then keeps_throw rej iso simp del: isolate.simps)
  then show ?thesis unfolding settle_answer_def Let_def
    by (cases res) (auto intro!: keeps_and_then keeps_throw rel keeps_held_finish)
qed

lemma keeps_held_batch:
  assumes "\<And>st. keeps (held_in P) (resettle st)"
  shows "keeps (held_in P) (settle_batch chain resettle cl)"
  unfolding settle_batch_def park_unplaceable_settlements_def park_lapsed_settlements_def
  by (auto intro!: keeps_intros keeps_held_answer[OF assms] split: sum.split)

lemma keeps_held_claimed: "keeps (held_in P) (settle_claimed chain cl)"
  unfolding settle_claimed_def settle_single_def by (intro keeps_held_batch keeps_intros)

text \<open>A settlement that left \<open>processing\<close> is settled, parked, or has spent one of its retries.\<close>

definition resolved :: "settlement_row \<Rightarrow> settlement_row \<Rightarrow> bool" where
  "resolved r r' \<longleftrightarrow> sdb_status r' = ''completed'' \<or> sdb_status r' = ''permanently_failed'' \<or>
     sdb_status r' = ''pending'' \<and> sdb_retry_count r < sdb_retry_count r'"

lemma life_status: "life r r' \<Longrightarrow> sdb_status r' \<in> {''pending'', ''processing'', ''completed'', ''permanently_failed''}"
  by (auto elim!: life_from simp: bump_retry_def set_status_def split: if_splits)

lemma life_leaves_processing:
  assumes "life\<^sup>*\<^sup>* r r'" "sdb_status r = ''processing''" "sdb_status r' \<noteq> ''processing''"
  shows "resolved r r'"
proof -
  obtain q where q: "life r q" "life\<^sup>*\<^sup>* q r'" using assms by (metis converse_rtranclpE)
  have known: "sdb_status r' \<in> {''pending'', ''processing'', ''completed'', ''permanently_failed''}"
    using q by (metis rtranclp.cases life_status)
  have "\<not> live_status (sdb_status q) \<or> sdb_retry_count q = sdb_retry_count r + 1"
    using q(1) assms(2) by (auto elim!: life_from simp: live_status_def set_status_def)
  then show ?thesis using life_star[OF q(2)] known assms(3) life_status[OF q(1)]
    by (auto simp: resolved_def live_status_def)
qed

section \<open>The ledger shows what was minted\<close>

definition ledger_shows :: "chain \<Rightarrow> world \<Rightarrow> bool" where
  "ledger_shows chain w \<longleftrightarrow>
     distinct (map sdb_id (rows w)) \<and> distinct (minted_ids chain (w_sent w)) \<and>
     (\<forall>i\<in>set (minted_ids chain (w_sent w)). \<exists>r\<in>set (rows w). sdb_id r = i \<and> sdb_status r = ''completed'')"

lemma minted_by_ids: "minted_by chain sent tx \<Longrightarrow> tx_settlement_id tx \<in> set (minted_ids chain sent)"
proof -
  assume "minted_by chain sent tx"
  then obtain k rs where k: "k < length sent" "chain (take k sent) (sent ! k) = Inr rs" "tx \<in> set rs"
    by (auto simp: minted_by_def)
  then have "tx_settlement_id tx \<in> set (answer_ids (chain (take k sent) (sent ! k)))"
    by (simp add: answer_ids_def)
  then show ?thesis using k(1) by (auto simp: minted_ids_def)
qed

lemma calm_start:
  assumes "distinct (map sdb_id (rows w))" and "hl \<Longrightarrow> healthy w \<and> ledger_shows chain w"
  shows "calm hl chain (rows w) w"
proof -
  have shown: "sdb_status r = ''completed''"
    if h: "hl" "r \<in> set (rows w)" "minted_by chain (w_sent w) tx" "tx_settlement_id tx = sdb_id r" for r tx
  proof -
    have "sdb_id r \<in> set (minted_ids chain (w_sent w))" using minted_by_ids[OF h(3)] h(4) by simp
    then obtain q where "q \<in> set (rows w)" "sdb_id q = sdb_id r" "sdb_status q = ''completed''"
      using assms(2)[OF h(1)] unfolding ledger_shows_def by blast
    then show ?thesis using assms(1) h(2) unfolding distinct_map by (metis inj_onD)
  qed
  have ids: "set (minted_ids chain (w_sent w)) \<subseteq> set (map sdb_id (rows w))" if hl
    using assms(2)[OF that] unfolding ledger_shows_def by fastforce
  show ?thesis unfolding sinv_def
  proof (intro conjI impI ballI allI)
    show "list_all2 life\<^sup>*\<^sup>* (rows w) (rows w)" by (rule list.rel_refl) simp
    show "distinct (map sdb_id (rows w))" by (rule assms(1))
  qed (use shown ids assms(2) in \<open>auto simp: ledger_shows_def\<close>)
qed

lemma calm_shows:
  assumes "calm True chain rows0 w"
  shows "ledger_shows chain w"
proof -
  have "\<exists>r\<in>set (rows w). sdb_id r = i \<and> sdb_status r = ''completed''" if i: "i \<in> set (minted_ids chain (w_sent w))" for i
  proof -
    obtain tx where tx: "minted_by chain (w_sent w) tx" "tx_settlement_id tx = i" using i by (rule minted_ids_minted_by)
    obtain r where r: "r \<in> set (rows w)" "sdb_id r = i" using i sinv_ids[OF assms] by auto
    show ?thesis using sinv_minted[OF assms _ r(1) tx(1)] tx(2) r by auto
  qed
  then show ?thesis using sinv_distinct[OF assms] sinv_once[OF assms] by (simp add: ledger_shows_def)
qed

lemma list_all2_pointwise_ex: "list_all2 P xs ys \<Longrightarrow> x \<in> set xs \<Longrightarrow> \<exists>y\<in>set ys. P x y"
  by (induction rule: list_all2_induct) auto

lemma sinv_rebase: "sinv hl chain rows0 S J C w \<Longrightarrow> sinv hl chain (rows w) S J C w"
  unfolding sinv_def by (auto intro: list.rel_refl)

lemma claim_ids:
  "st_id ` set (map (\<lambda>r. settlement_of_row (r\<lparr>sdb_status := st, sdb_updated_at := t\<rparr>)) (filter (claimable ids) rs))
     = sdb_id ` {r \<in> set rs. claimable ids r}"
  by (auto simp: settlement_of_row_def image_image)

text \<open>Every settlement that is claimed is resolved.\<close>

lemma settle_resolves:
  assumes "chain_ok chain" and w: "healthy w" "ledger_shows chain w"
    and claim: "db_call (claim_settlements_for_processing ids) w = (Inr cl, w1)"
    and settle: "settle_claimed chain cl w1 = (res, w2)"
    and r: "r \<in> set (rows w)" "claimable ids r"
  shows "\<exists>r'\<in>set (rows w2). sdb_id r' = sdb_id r \<and> resolved r r'"
proof -
  have "calm True chain (rows w) w" by (rule calm_start) (use w in \<open>auto simp: ledger_shows_def\<close>)
  from tripleD[OF triple_claim this claim]
  have d: "distinct (map st_id cl)" and held: "sinv True chain (rows w1) (st_id ` set cl) {} {} w1"
    by (auto dest: sinv_rebase)
  have post: "sinv True chain (rows w1) {} (st_id ` set cl) {} w2"
    using tripleD[OF triple_settle_claimed[OF assms(1) d] held settle] by simp
  have cl: "cl = map (\<lambda>r. settlement_of_row (r\<lparr>sdb_status := ''processing'', sdb_updated_at := w_db_now w\<rparr>)) (filter (claimable ids) (rows w))"
    and rows1: "rows w1 = update_where (claimable ids) (\<lambda>r. r\<lparr>sdb_status := ''processing'', sdb_updated_at := w_db_now w\<rparr>) (rows w)"
    using claim w(1) by (auto simp: db_call_healthy claim_eq)
  let ?r1 = "r\<lparr>sdb_status := ''processing'', sdb_updated_at := w_db_now w\<rparr>"
  have "?r1 = (if claimable ids r then ?r1 else r)" using r(2) by simp
  then have r1: "?r1 \<in> set (rows w1)" using r(1) unfolding rows1 set_update_where by (rule image_eqI)
  then obtain r' where r': "r' \<in> set (rows w2)" "life\<^sup>*\<^sup>* ?r1 r'"
    using list_all2_pointwise_ex[OF sinv_lives[OF post]] by blast
  have id: "sdb_id r' = sdb_id r" using life_star_id[OF r'(2)] by simp
  have "sdb_id r \<in> st_id ` set cl" using r unfolding cl claim_ids by blast
  then have "sdb_status r' \<noteq> ''processing''" using sinv_left[OF post _ r'(1)] id by simp
  then have "resolved ?r1 r'" using life_leaves_processing[OF r'(2)] by simp
  then show ?thesis using r'(1) id by (auto simp: resolved_def)
qed

lemma claimed_held:
  assumes "db_settlements s' = update_where (claimable ids) (\<lambda>r. r\<lparr>sdb_status := ''processing'', sdb_updated_at := t\<rparr>) (db_settlements s)"
    and "i \<in> processing_ids s'" "i \<notin> processing_ids s"
  obtains r where "r \<in> set (db_settlements s)" "claimable ids r" "sdb_id r = i"
proof -
  obtain r' where r': "r' \<in> set (db_settlements s')" "sdb_status r' = ''processing''" "sdb_id r' = i"
    using assms(2) unfolding processing_ids_def by blast
  obtain r where r: "r \<in> set (db_settlements s)"
      "r' = (if claimable ids r then r\<lparr>sdb_status := ''processing'', sdb_updated_at := t\<rparr> else r)"
    using r'(1) unfolding assms(1) set_update_where by blast
  have "claimable ids r"
  proof (rule ccontr)
    assume "\<not> claimable ids r"
    then have "r' = r" by (simp add: r(2))
    then show False using assms(3) r' r(1) unfolding processing_ids_def by blast
  qed
  then show thesis using that[of r] r r'(3) by simp
qed

lemma claim_settle_held:
  assumes "db_call (claim_settlements_for_processing ids) w = (Inr cl, w1)" "healthy w"
    and "settle_claimed chain cl w1 = (res, w2)" and "chain_ok chain" "ledger_shows chain w"
  shows "processing_ids (w_store w2) \<subseteq> processing_ids (w_store w)"
proof
  fix i assume i: "i \<in> processing_ids (w_store w2)"
  then have 1: "i \<in> processing_ids (w_store w1)"
    using keeps_held_claimed[of "processing_ids (w_store w1)" chain cl, unfolded keeps_def stores_def,
      rule_format, of w1] assms(3) by auto
  show "i \<in> processing_ids (w_store w)"
  proof (rule ccontr)
    assume ni: "i \<notin> processing_ids (w_store w)"
    have "rows w1 = update_where (claimable ids) (\<lambda>r. r\<lparr>sdb_status := ''processing'', sdb_updated_at := w_db_now w\<rparr>) (rows w)"
      using assms(1,2) by (auto simp: db_call_healthy claim_eq)
    then obtain r where r: "r \<in> set (rows w)" "claimable ids r" "sdb_id r = i"
      using claimed_held[OF _ 1 ni] by blast
    obtain r' where r': "r' \<in> set (rows w2)" "sdb_id r' = i" "resolved r r'"
      using settle_resolves[OF assms(4,2,5,1,3) r(1,2)] r(3) by blast
    obtain q where q: "q \<in> set (rows w2)" "sdb_id q = i" "sdb_status q = ''processing''"
      using i unfolding processing_ids_def by blast
    have "calm True chain (rows w) w" by (rule calm_start) (use assms in \<open>auto simp: ledger_shows_def\<close>)
    from tripleD[OF triple_claim this assms(1)]
    have "distinct (map st_id cl)" "sinv True chain (rows w) (st_id ` set cl) {} {} w1" by simp_all
    from tripleD[OF triple_settle_claimed[OF assms(4) this(1)] this(2) assms(3)]
    have "distinct (map sdb_id (rows w2))" using sinv_distinct by blast
    then have "q = r'" using q r' unfolding distinct_map by (metis inj_onD)
    then show False using q(3) r'(3) by (simp add: resolved_def)
  qed
qed

section \<open>Runs of the service\<close>

inductive service_run :: "chain \<Rightarrow> world \<Rightarrow> world \<Rightarrow> bool" for chain :: chain and w0 :: world where
  start: "service_run chain w0 w0"
| tick: "service_run chain w0 w \<Longrightarrow> service_run chain w0 (snd (settlement_tick chain limit w))"
| request: "service_run chain w0 w \<Longrightarrow> service_run chain w0 (snd (execute_batched_settlements chain sts w))"
| booked: "service_run chain w0 w \<Longrightarrow> service_run chain w0 (snd (db_call (insert_settlement st) w))"
| elapsed: "service_run chain w0 w \<Longrightarrow> service_run chain w0 (w\<lparr>w_now := t, w_db_now := t'\<rparr>)"

lemma insert_settlement_rows:
  assumes "insert_settlement st now s = Inr (x, s')"
  obtains r where "db_settlements s' = db_settlements s @ [r]" "sdb_id r = st_id st"
    "st_id st \<notin> sdb_id ` set (db_settlements s)" "sdb_status r = settlement_status_str (st_status st)" "sdb_retry_count r = 0"
  using assms unfolding insert_settlement_def settlement_insert_row_def
  by (auto simp: bind_eq_Some_conv split: option.splits if_splits)

lemma shows_booked:
  assumes "healthy w" "ledger_shows chain w"
  shows "healthy (snd (db_call (insert_settlement st) w)) \<and> ledger_shows chain (snd (db_call (insert_settlement st) w))"
proof (cases "insert_settlement st (w_db_now w) (w_store w)")
  case (Inl e)
  then show ?thesis using assms healthy_tl[OF assms(1)] by (simp add: db_call_healthy ledger_shows_def)
next
  case (Inr y)
  obtain s' where s': "insert_settlement st (w_db_now w) (w_store w) = Inr ((), s')" using Inr by (cases y) auto
  obtain r where r: "db_settlements s' = rows w @ [r]" "sdb_id r = st_id st" "st_id st \<notin> sdb_id ` set (rows w)"
    using s' by (rule insert_settlement_rows)
  have w': "db_call (insert_settlement st) w = (Inr (), w\<lparr>w_faults := tl (w_faults w), w_store := s'\<rparr>)"
    using assms(1) s' by (simp add: db_call_healthy)
  have "healthy (w\<lparr>w_faults := tl (w_faults w), w_store := s'\<rparr>)"
    using healthy_tl[OF assms(1)] by (simp add: healthy_def)
  moreover have "ledger_shows chain (w\<lparr>w_faults := tl (w_faults w), w_store := s'\<rparr>)"
    using assms(2) r unfolding ledger_shows_def by fastforce
  ultimately show ?thesis by (simp add: w')
qed

lemma shows_service:
  assumes "healthy w" "ledger_shows chain w"
    and "triple (calm True chain (rows w)) m (\<lambda>r w'. calm True chain (rows w) w')"
  shows "healthy (snd (m w)) \<and> ledger_shows chain (snd (m w))"
proof -
  have "calm True chain (rows w) w" by (rule calm_start) (use assms in \<open>auto simp: ledger_shows_def\<close>)
  then have "calm True chain (rows w) (snd (m w))" using assms(3) by (simp add: triple_def)
  then show ?thesis using calm_shows sinv_healthy by blast
qed

lemma service_run_shows:
  assumes "service_run chain w0 w" "chain_ok chain" "healthy w0" "ledger_shows chain w0"
  shows "healthy w \<and> ledger_shows chain w"
  using assms
proof (induction rule: service_run.induct)
  case (tick w limit)
  then show ?case by (intro shows_service triple_weaken[OF triple_tick]) auto
next
  case (request w sts)
  then show ?case by (intro shows_service triple_weaken[OF triple_execute]) auto
next
  case (booked w st)
  then show ?case using shows_booked by blast
next
  case (elapsed w t t')
  then show ?case by (simp add: healthy_def ledger_shows_def)
qed auto

section \<open>Example data\<close>

text \<open>A gateway that mints the first settlement of a batch, and one that always loses the connection.\<close>

definition mint_first :: chain where
  "mint_first sent batch = (case batch of
       [] \<Rightarrow> Inr []
     | st # _ \<Rightarrow> Inr [\<lparr>tx_settlement_id = st_id st, tx_signature = ''sig'', tx_slot = 1,
                     tx_confirmation_status = ''confirmed''\<rparr>])"

lemma mint_first_ok: "chain_ok mint_first"
  by (auto simp: chain_ok_def mint_first_def split: list.splits)

definition example_settlement :: "uuid \<Rightarrow> string \<Rightarrow> datetime \<Rightarrow> settlement_row" where
  "example_settlement i st t = \<lparr>sdb_id = i, sdb_trade_id = None, sdb_epoch_id = 9, sdb_buyer_id = 11, sdb_seller_id = 12,
     sdb_buy_order_id = 21, sdb_sell_order_id = 22, sdb_energy_amount = 2, sdb_price_per_kwh = 3, sdb_total_amount = 6,
     sdb_fee_amount = 0, sdb_wheeling_charge = None, sdb_loss_factor = None, sdb_loss_cost = None,
     sdb_effective_energy = None, sdb_buyer_zone_id = None, sdb_seller_zone_id = None, sdb_net_amount = 6,
     sdb_status = st, sdb_transaction_hash = None, sdb_created_at = 0, sdb_processed_at = None,
     sdb_buyer_session_token = None, sdb_seller_session_token = None, sdb_erc_certificate_id = None,
     sdb_erc_transfer_tx = None, sdb_retry_count = 0, sdb_error_message = None, sdb_updated_at = t\<rparr>"

definition example_world :: "settlement_row list \<Rightarrow> world" where
  "example_world rs = \<lparr>w_store = \<lparr>db_orders = [], db_settlements = rs, db_matches = [], db_outbox = [],
     db_epochs = [], db_rules = [], db_alerts = [], db_ids = [101, 102, 103]\<rparr>, w_faults = [], w_now = 0, w_db_now = 0, w_audit = [], w_sent = [], w_wake = False\<rparr>"

text \<open>Two pending settlements, of which the gateway mints the first.\<close>

definition two_pending :: world where
  "two_pending = example_world [example_settlement 1 ''pending'' 0, example_settlement 2 ''pending'' 0]"

text \<open>One pending settlement; the two writes that would complete it fail.\<close>

definition lost_completion :: world where
  "lost_completion = (example_world [example_settlement 1 ''pending'' 0])
     \<lparr>w_faults := [False, False, False, False, False, True, True]\<rparr>"

lemma two_pending_ok:
  "healthy two_pending" "ledger_shows mint_first two_pending" "distinct (map sdb_id (rows two_pending))"
  by (simp_all add: healthy_def ledger_shows_def two_pending_def example_world_def example_settlement_def minted_ids_def)

text \<open>The steps of the service, for running it on concrete worlds.\<close>

lemmas service_steps = settlement_tick_def reclaim_stale_settlements_def process_pending_settlements_def
  execute_batched_settlements_def settle_claimed_def settle_single_def settle_batch_def settle_answer_def
  park_unplaceable_settlements_def park_lapsed_settlements_def park_def park_rejected_def release_batch_def
  finish_batch_def complete_minted_def isolate_step_def ignore_def log_action_def send_batch_def
  and_then_def attempt_def ok_def throw_def db_call_def db_read_def telemetry_now_def draw_id_def insert_event_in_tx_def
  reclaim_stale_processing_def get_pending_settlements_def claim_settlements_for_processing_def claimable_def
  reset_settlements_for_retry_def bump_retry_def update_settlement_status_def update_settlement_status_with_event_def
  set_status_def settlements_missing_order_pda_def settlements_with_lapsed_orders_def joined_def rows_affected_def
  settlement_of_row_def stale_processing_secs_def max_settlement_retries_def

lemmas example_defs = example_world_def example_settlement_def mint_first_def

lemma two_pending_tick:
  "map (\<lambda>r. (sdb_id r, sdb_status r, sdb_retry_count r)) (rows (snd (settlement_tick mint_first 10 two_pending)))
     = [(1, ''completed'', 0), (2, ''pending'', 1)]"
  by (simp add: service_steps two_pending_def example_defs)

section \<open>Properties\<close>

text \<open>C12: Whatever the database faults and whatever the chain answers, one tick of the settlement
  worker returns, every row of the ledger only moves along the lifecycle (the trade it records is
  unchanged, its retry count never decreases, a terminal row is not touched), and a row that the
  tick completed carries the signature of a transaction the chain returned for that settlement.\<close>

theorem settlement_tick_safe:
  assumes "chain_ok chain" "distinct (map sdb_id (rows w))" "settlement_tick chain limit w = (res, w')"
  shows "res = Inr () \<and>
    list_all2 (\<lambda>r r'. life\<^sup>*\<^sup>* r r' \<and> same_trade r r' \<and> sdb_retry_count r \<le> sdb_retry_count r'
       \<and> (\<not> live_status (sdb_status r) \<longrightarrow> r' = r)) (rows w) (rows w') \<and>
    (\<forall>r'\<in>set (rows w'). sdb_status r' = ''completed'' \<longrightarrow>
       (\<exists>r\<in>set (rows w). sdb_id r = sdb_id r' \<and> sdb_status r = ''completed'') \<or> proven chain (w_sent w') r')"
proof -
  have "calm False chain (rows w) w" by (rule calm_start) (use assms in auto)
  note post = tripleD[OF triple_tick[OF assms(1)] this assms(3)]
  have "list_all2 (\<lambda>r r'. life\<^sup>*\<^sup>* r r' \<and> same_trade r r' \<and> sdb_retry_count r \<le> sdb_retry_count r'
       \<and> (\<not> live_status (sdb_status r) \<longrightarrow> r' = r)) (rows w) (rows w')"
    by (rule list_all2_mono[OF sinv_lives[OF conjunct2[OF post]]]) (use life_star in blast)
  then show ?thesis using post sinv_completed[OF conjunct2[OF post]] by blast
qed

theorem settlement_tick_safe_witness:
  "fst (settlement_tick mint_first 10 two_pending) = Inr () \<and>
   list_all2 (\<lambda>r r'. life\<^sup>*\<^sup>* r r' \<and> sdb_retry_count r \<le> sdb_retry_count r')
     (rows two_pending) (rows (snd (settlement_tick mint_first 10 two_pending))) \<and>
   map sdb_status (rows (snd (settlement_tick mint_first 10 two_pending))) = [''completed'', ''pending'']"
  using settlement_tick_safe[OF mint_first_ok two_pending_ok(3), of 10, OF prod.collapse[symmetric]]
    arg_cong[OF two_pending_tick, of "map (fst \<circ> snd)"]
  by (auto elim: list_all2_mono simp: comp_def)

text \<open>C13: When no database call fails, every pending settlement among the first \<open>limit\<close> is
  resolved by one pass (completed, permanently failed, or pending again with a retry spent), and
  the pass leaves no settlement in \<open>processing\<close> that was not there before, also when it returns
  an error because the chain refused the batch.\<close>

theorem process_pending_resolves:
  assumes "chain_ok chain" "healthy w" "ledger_shows chain w"
    and run: "process_pending_settlements chain limit w = (res, w')"
  shows "list_all (\<lambda>r. \<exists>r'\<in>set (rows w'). sdb_id r' = sdb_id r \<and> resolved r r')
           (take limit (filter (\<lambda>r. sdb_status r = ''pending'') (rows w))) \<and>
         processing_ids (w_store w') \<subseteq> processing_ids (w_store w)"
proof -
  let ?due = "take limit (filter (\<lambda>r. sdb_status r = ''pending'') (rows w))"
  let ?ids = "map sdb_id ?due" and ?w = "w\<lparr>w_faults := tl (w_faults w)\<rparr>"
  have ids: "map st_id (get_pending_settlements limit (w_store w)) = ?ids"
    by (simp add: get_pending_settlements_def settlement_of_row_def comp_def)
  have read: "db_read (\<lambda>_. get_pending_settlements limit) w = (Inr (get_pending_settlements limit (w_store w)), ?w)"
    using assms(2) by (simp add: db_read_def db_call_healthy)
  have w: "healthy ?w" "ledger_shows chain ?w" using assms(2,3) healthy_tl by (auto simp: ledger_shows_def)
  show ?thesis
  proof (cases "?due = []")
    case True
    then have "w' = ?w" using run read by (auto simp: process_pending_settlements_def and_then_def get_pending_settlements_def ok_def)
    then show ?thesis unfolding True by simp
  next
    case False
    then have ne: "get_pending_settlements limit (w_store w) \<noteq> []" by (simp add: get_pending_settlements_def)
    obtain cl w1 where claim: "db_call (claim_settlements_for_processing ?ids) ?w = (Inr cl, w1)"
      using w(1) by (simp add: db_call_healthy claim_eq)
    have hit: "r \<in> set (rows ?w)" "claimable ?ids r" if "r \<in> set ?due" for r
      using that by (auto simp: claimable_def dest: in_set_takeD)
    have "length cl = length (filter (claimable ?ids) (rows ?w))"
      using claim w(1) by (auto simp: db_call_healthy claim_eq)
    moreover obtain r where "r \<in> set ?due" using hd_in_set[OF False] by blast
    ultimately have cl: "cl \<noteq> []" using hit[of r] by (auto simp: filter_empty_conv)
    obtain res' where settle: "settle_claimed chain cl w1 = (res', w')"
      using run read ne claim cl unfolding process_pending_settlements_def ids[symmetric]
      by (auto simp: and_then_def ok_def split: prod.splits sum.splits)
    show ?thesis
      using settle_resolves[OF assms(1) w claim settle hit] claim_settle_held[OF claim w(1) settle assms(1) w(2)]
      by (auto simp: list_all_iff)
  qed
qed

theorem process_pending_resolves_witness:
  "\<exists>r'\<in>set (rows (snd (process_pending_settlements mint_first 10 two_pending))).
     sdb_id r' = 2 \<and> resolved (example_settlement 2 ''pending'' 0) r'"
  using process_pending_resolves[OF mint_first_ok two_pending_ok(1,2), of 10, OF prod.collapse[symmetric]]
  by (simp add: two_pending_def example_world_def) (simp add: example_settlement_def)

text \<open>C11: Over any sequence of worker ticks, batched settlement requests, newly booked settlements
  and passing time, with no failing database call, no settlement is minted twice, and every minted
  settlement is shown as completed in the ledger.\<close>

theorem minted_at_most_once:
  assumes "chain_ok chain" "healthy w" "ledger_shows chain w" "service_run chain w w'"
  shows "distinct (minted_ids chain (w_sent w')) \<and>
    set (minted_ids chain (w_sent w')) \<subseteq> sdb_id ` {r \<in> set (rows w'). sdb_status r = ''completed''}"
proof -
  have "ledger_shows chain w'" using service_run_shows[OF assms(4,1-3)] by simp
  then show ?thesis unfolding ledger_shows_def by (auto simp: image_iff)
qed

theorem minted_at_most_once_witness:
  "minted_ids mint_first (w_sent (snd (settlement_tick mint_first 10 (snd (settlement_tick mint_first 10 two_pending)))))
     = [1, 2] \<and>
   distinct (minted_ids mint_first (w_sent (snd (settlement_tick mint_first 10 (snd (settlement_tick mint_first 10 two_pending))))))"
proof
  let ?w = "snd (settlement_tick mint_first 10 (snd (settlement_tick mint_first 10 two_pending)))"
  show "minted_ids mint_first (w_sent ?w) = [1, 2]"
    by (simp add: service_steps two_pending_def example_defs minted_ids_def answer_ids_def)
  have "service_run mint_first two_pending ?w" by (intro service_run.intros)
  from minted_at_most_once[OF mint_first_ok two_pending_ok(1,2) this]
  show "distinct (minted_ids mint_first (w_sent ?w))" by simp
qed


end
