(* ===== verification/Settlement_Claims.thy ===== *)
theory Settlement_Claims imports Settlement_Runs begin

text \<open>
  The claim protocol of the settlement ledger under concurrency.  Workers of several replicas
  interleave at the granularity of database statements; the contract of a ledger with claims and
  bounded retries is a locale, the statements of \<open>settlement.rs\<close> are its instance.
\<close>

section \<open>The contract\<close>

text \<open>Claims interleaved with other statements; \<open>g i\<close> counts how often \<open>i\<close> was handed out.\<close>

inductive claim_run :: "(uuid list \<Rightarrow> 's \<Rightarrow> uuid list \<Rightarrow> 's \<Rightarrow> bool) \<Rightarrow> ('s \<Rightarrow> 's \<Rightarrow> bool) \<Rightarrow> 's \<Rightarrow> (uuid \<Rightarrow> nat) \<Rightarrow> 's \<Rightarrow> bool"
  for claim :: "uuid list \<Rightarrow> 's \<Rightarrow> uuid list \<Rightarrow> 's \<Rightarrow> bool" and other :: "'s \<Rightarrow> 's \<Rightarrow> bool" and s0 :: 's where
  start: "claim_run claim other s0 (\<lambda>_. 0) s0"
| claim: "claim_run claim other s0 g s \<Longrightarrow> claim ids s c s' \<Longrightarrow> claim_run claim other s0 (\<lambda>i. g i + count_list c i) s'"
| other: "claim_run claim other s0 g s \<Longrightarrow> other s s' \<Longrightarrow> claim_run claim other s0 g s'"

lemma count_list_distinct: "distinct c \<Longrightarrow> count_list c i = (if i \<in> set c then 1 else 0)"
  by (induction c) auto

locale claim_ledger =
  fixes wf :: "'s \<Rightarrow> bool"
    and known :: "'s \<Rightarrow> uuid set"
    and pending :: "'s \<Rightarrow> uuid set"
    and retries :: "'s \<Rightarrow> uuid \<Rightarrow> nat"
    and limit :: nat
    and claim :: "uuid list \<Rightarrow> 's \<Rightarrow> uuid list \<Rightarrow> 's \<Rightarrow> bool"
    and other :: "'s \<Rightarrow> 's \<Rightarrow> bool"
  assumes claim_wf: "claim ids s c s' \<Longrightarrow> wf s \<Longrightarrow> wf s'"
    and claim_result: "claim ids s c s' \<Longrightarrow> wf s \<Longrightarrow> set c = set ids \<inter> pending s \<and> distinct c"
    and claim_pending: "claim ids s c s' \<Longrightarrow> wf s \<Longrightarrow> pending s' = pending s - set ids"
    and claim_keeps: "claim ids s c s' \<Longrightarrow> wf s \<Longrightarrow> known s' = known s \<and> retries s' = retries s"
    and pending_known: "wf s \<Longrightarrow> pending s \<subseteq> known s"
    and other_wf: "other s s' \<Longrightarrow> wf s \<Longrightarrow> wf s'"
    and other_known: "other s s' \<Longrightarrow> wf s \<Longrightarrow> known s \<subseteq> known s'"
    and other_retries: "other s s' \<Longrightarrow> wf s \<Longrightarrow> i \<in> known s \<Longrightarrow> retries s i \<le> retries s' i"
    and other_pending: "other s s' \<Longrightarrow> wf s \<Longrightarrow> i \<in> pending s' \<Longrightarrow>
      i \<in> pending s \<and> retries s' i = retries s i \<or> i \<in> known s \<and> retries s i < retries s' i \<and> retries s' i < limit
      \<or> i \<notin> known s \<and> retries s' i < limit"
begin

lemma claims_disjoint:
  assumes "wf s" "claim ids s c s'" "claim ids' s' c' s''"
  shows "set c \<inter> set c' = {}"
  using claim_result[OF assms(2,1)] claim_result[OF assms(3) claim_wf[OF assms(2,1)]] claim_pending[OF assms(2,1)]
  by auto

definition counts_ok :: "(uuid \<Rightarrow> nat) \<Rightarrow> 's \<Rightarrow> bool" where
  "counts_ok g s \<longleftrightarrow> wf s \<and> (\<forall>i.
     (i \<notin> known s \<longrightarrow> g i = 0) \<and> g i \<le> limit \<and> g i \<le> retries s i + 1 \<and>
     (i \<in> pending s \<longrightarrow> g i \<le> retries s i \<and> retries s i < limit))"

lemma counts_claim:
  assumes "counts_ok g s" "claim ids s c s'"
  shows "counts_ok (\<lambda>i. g i + count_list c i) s'"
proof -
  have wf: "wf s" using assms(1) by (simp add: counts_ok_def)
  note c = claim_result[OF assms(2) wf] claim_pending[OF assms(2) wf] claim_keeps[OF assms(2) wf] pending_known[OF wf]
  have one: "count_list c i = (if i \<in> set ids \<inter> pending s then 1 else 0)" for i
    using c(1) count_list_distinct[of c i] by simp
  show ?thesis
    using assms(1) claim_wf[OF assms(2) wf] c(2-4) unfolding counts_ok_def one by auto
qed

lemma counts_other:
  assumes "counts_ok g s" "other s s'"
  shows "counts_ok g s'"
proof -
  have wf: "wf s" using assms(1) by (simp add: counts_ok_def)
  note o' = other_wf[OF assms(2) wf] other_known[OF assms(2) wf] other_retries[OF assms(2) wf] other_pending[OF assms(2) wf]
  show ?thesis unfolding counts_ok_def
  proof (intro conjI allI impI)
    fix i
    have g: "i \<notin> known s \<longrightarrow> g i = 0" "g i \<le> limit" "g i \<le> retries s i + 1"
      "i \<in> pending s \<longrightarrow> g i \<le> retries s i \<and> retries s i < limit"
      using assms(1) by (auto simp: counts_ok_def)
    show "i \<notin> known s' \<Longrightarrow> g i = 0" using g(1) o'(2) by auto
    show "g i \<le> limit" by (rule g(2))
    show "g i \<le> retries s' i + 1" using g(1,3) o'(3)[of i] by (cases "i \<in> known s") auto
    show "i \<in> pending s' \<Longrightarrow> g i \<le> retries s' i" using g o'(4)[of i] by auto
    show "i \<in> pending s' \<Longrightarrow> retries s' i < limit" using g(4) o'(4)[of i] by auto
  qed (rule o'(1))
qed

lemma claims_bounded:
  assumes "wf s0" "\<And>i. i \<in> pending s0 \<Longrightarrow> retries s0 i < limit" "1 \<le> limit" "claim_run claim other s0 g s"
  shows "g i \<le> limit"
proof -
  have "counts_ok g s"
    using assms(4)
  proof (induction rule: claim_run.induct)
    case start
    then show ?case using assms(1,2) by (simp add: counts_ok_def)
  qed (auto intro: counts_claim counts_other)
  then show ?thesis by (simp add: counts_ok_def)
qed

end

section \<open>The statements of the repository\<close>

definition row_of :: "store \<Rightarrow> uuid \<Rightarrow> settlement_row option" where
  "row_of s i = find (\<lambda>r. sdb_id r = i) (db_settlements s)"

definition ledger_wf :: "store \<Rightarrow> bool" where
  "ledger_wf s \<longleftrightarrow> distinct (map sdb_id (db_settlements s)) \<and> list_all (\<lambda>r. 0 \<le> sdb_retry_count r) (db_settlements s)"

definition ledger_ids :: "store \<Rightarrow> uuid set" where
  "ledger_ids s = sdb_id ` set (db_settlements s)"

definition pending_ids :: "store \<Rightarrow> uuid set" where
  "pending_ids s = {i. \<exists>r. row_of s i = Some r \<and> sdb_status r = ''pending''}"

definition retries_of :: "store \<Rightarrow> uuid \<Rightarrow> nat" where
  "retries_of s i = (case row_of s i of None \<Rightarrow> 0 | Some r \<Rightarrow> nat (sdb_retry_count r))"

definition claims :: "uuid list \<Rightarrow> store \<Rightarrow> uuid list \<Rightarrow> store \<Rightarrow> bool" where
  "claims ids s c s' \<longleftrightarrow> (\<exists>now cl. claim_settlements_for_processing ids now s = Inr (cl, s') \<and> c = map st_id cl)"

text \<open>Every other statement the service and the matcher execute on the ledger.\<close>

inductive ledger_op :: "store \<Rightarrow> store \<Rightarrow> bool" where
  released: "reset_settlements_for_retry ids max_settlement_retries err now s = Inr (n, s') \<Longrightarrow> ledger_op s s'"
| reclaimed: "reclaim_stale_processing secs max_settlement_retries now s = Inr (n, s') \<Longrightarrow> ledger_op s s'"
| closed: "update_settlement_status i st tx err now s = Inr (u, s') \<Longrightarrow> st \<noteq> ''pending'' \<Longrightarrow> ledger_op s s'"
| closed_event: "update_settlement_status_with_event i st tx err ev now s = Inr (u, s') \<Longrightarrow> st \<noteq> ''pending'' \<Longrightarrow> ledger_op s s'"
| booked: "insert_settlement st now s = Inr (u, s') \<Longrightarrow> ledger_op s s'"
| traded: "persist_matched_trade st m ev z buyer seller now s = Inr (b, s') \<Longrightarrow> ledger_op s s'"

lemma row_of_update:
  assumes "\<And>r. hit r \<Longrightarrow> sdb_id (f r) = sdb_id r"
  shows "find (\<lambda>r. sdb_id r = i) (update_where hit f rs) = map_option (\<lambda>r. if hit r then f r else r) (find (\<lambda>r. sdb_id r = i) rs)"
  using assms by (induction rs) auto

text \<open>Two shapes: rows rewritten in place, or one fresh row appended.\<close>

definition in_place :: "store \<Rightarrow> store \<Rightarrow> bool" where
  "in_place s s' \<longleftrightarrow> (\<exists>f. db_settlements s' = map f (db_settlements s) \<and>
     (\<forall>r. sdb_id (f r) = sdb_id r \<and> sdb_retry_count r \<le> sdb_retry_count (f r) \<and>
        (sdb_status (f r) = ''pending'' \<longrightarrow> sdb_status r = ''pending'' \<and> sdb_retry_count (f r) = sdb_retry_count r \<or>
           sdb_retry_count r < sdb_retry_count (f r) \<and> sdb_retry_count (f r) < max_settlement_retries)))"

definition one_fresh :: "store \<Rightarrow> store \<Rightarrow> bool" where
  "one_fresh s s' \<longleftrightarrow> (\<exists>r. db_settlements s' = db_settlements s @ [r] \<and> sdb_id r \<notin> ledger_ids s \<and> sdb_retry_count r = 0)"

lemma in_place_update:
  assumes "db_settlements s' = update_where hit g (db_settlements s)"
    and "\<And>r. hit r \<Longrightarrow> sdb_id (g r) = sdb_id r \<and> sdb_retry_count r \<le> sdb_retry_count (g r) \<and>
      (sdb_status (g r) = ''pending'' \<longrightarrow> sdb_retry_count r < sdb_retry_count (g r) \<and> sdb_retry_count (g r) < max_settlement_retries)"
  shows "in_place s s'"
  unfolding in_place_def by (rule exI[of _ "\<lambda>r. if hit r then g r else r"]) (use assms in \<open>auto simp: update_where_def\<close>)

lemma fill_side_settlements: "fill_side now side s = Inr (Some s') \<Longrightarrow> db_settlements s' = db_settlements s"
  by (auto simp: fill_side_def dest!: insert_event_rows split: option.splits sum.splits)

lemma insert_match_settlements: "insert_match m i z now s = Inr (u, s') \<Longrightarrow> db_settlements s' = db_settlements s"
  by (auto simp: insert_match_def split: option.splits if_splits)

lemma persist_settlements:
  assumes "persist_matched_trade st m ev z buyer seller now s = Inr (b, s')"
  shows "db_settlements s' = db_settlements s \<or> (\<exists>u s1. insert_settlement st now s = Inr (u, s1) \<and> db_settlements s' = db_settlements s1)"
  using assms unfolding persist_matched_trade_def
  by (fastforce split: sum.splits option.splits dest!: insert_event_rows insert_match_settlements fill_side_settlements)

lemma ledger_op_shape: "ledger_op s s' \<Longrightarrow> in_place s s' \<or> one_fresh s s'"
proof (induction rule: ledger_op.induct)
  case (released ids err now s n s')
  then have "db_settlements s' = update_where (\<lambda>r. sdb_id r \<in> set ids \<and> sdb_status r = ''processing'')
      (\<lambda>r. (bump_retry max_settlement_retries now r)\<lparr>sdb_error_message := err\<rparr>) (db_settlements s)"
    by (auto simp: reset_settlements_for_retry_def Let_def update_where_id split: if_splits)
  then show ?case by (intro disjI1, elim in_place_update) auto
next
  case (reclaimed secs now s n s')
  then have "db_settlements s' = update_where (\<lambda>r. sdb_status r = ''processing'' \<and>
      sdb_updated_at r < now - secs * 1000000000) (bump_retry max_settlement_retries now) (db_settlements s)"
    by (auto simp: reclaim_stale_processing_def Let_def)
  then show ?case by (intro disjI1, elim in_place_update) auto
next
  case (closed i st tx err now s u s')
  then have "db_settlements s' = update_where (\<lambda>r. sdb_id r = i) (set_status st tx err now) (db_settlements s)"
    by (auto simp: update_settlement_status_def)
  then show ?case using closed(2) by (intro disjI1, elim in_place_update) (auto simp: set_status_def)
next
  case (closed_event i st tx err ev now s u s')
  then have "db_settlements s' = update_where (\<lambda>r. sdb_id r = i) (set_status st tx err now) (db_settlements s)"
    by (auto simp: update_settlement_status_with_event_def update_settlement_status_def dest!: insert_event_rows split: sum.splits)
  then show ?case using closed_event(2) by (intro disjI1, elim in_place_update) (auto simp: set_status_def)
next
  case (booked st now s u s')
  then show ?case by (elim insert_settlement_rows) (auto simp: one_fresh_def ledger_ids_def)
next
  case (traded st m ev z buyer seller now s b s')
  have "in_place s s'" if "db_settlements s' = db_settlements s"
    by (rule in_place_update[where hit = "\<lambda>_. False"]) (auto simp: that update_where_id)
  moreover have "one_fresh s s'" if "insert_settlement st now s = Inr (u, s1)" "db_settlements s' = db_settlements s1" for u s1
    using that by (elim insert_settlement_rows) (auto simp: one_fresh_def ledger_ids_def)
  ultimately show ?case using persist_settlements[OF traded] by blast
qed

lemma row_of_map:
  assumes "\<And>r. sdb_id (f r) = sdb_id r"
  shows "find (\<lambda>r. sdb_id r = i) (map f rs) = map_option f (find (\<lambda>r. sdb_id r = i) rs)"
  using assms by (induction rs) auto

lemma row_of_append:
  "find (\<lambda>r. sdb_id r = i) (rs @ [q]) = (case find (\<lambda>r. sdb_id r = i) rs of
     Some r \<Rightarrow> Some r | None \<Rightarrow> if sdb_id q = i then Some q else None)"
  by (induction rs) auto

lemma row_of_None: "row_of s i = None \<longleftrightarrow> i \<notin> ledger_ids s"
  by (auto simp: row_of_def ledger_ids_def find_None_iff)

lemma row_of_in: "row_of s i = Some r \<Longrightarrow> r \<in> set (db_settlements s) \<and> sdb_id r = i"
  by (auto simp: row_of_def find_Some_iff)

lemma wf_in_place: "in_place s s' \<Longrightarrow> ledger_wf s \<Longrightarrow> ledger_wf s' \<and> ledger_ids s' = ledger_ids s"
  unfolding in_place_def ledger_wf_def ledger_ids_def list_all_iff
  by (auto simp: comp_def image_image) (meson order_trans)

lemma wf_one_fresh: "one_fresh s s' \<Longrightarrow> ledger_wf s \<Longrightarrow> ledger_wf s' \<and> ledger_ids s \<subseteq> ledger_ids s'"
  by (auto simp: one_fresh_def ledger_wf_def ledger_ids_def)

lemma row_wf: "ledger_wf s \<Longrightarrow> row_of s i = Some r \<Longrightarrow> 0 \<le> sdb_retry_count r"
  using row_of_in by (auto simp: ledger_wf_def list_all_iff)

lemma op_in_place:
  assumes "in_place s s'" "ledger_wf s"
  shows op_retries: "retries_of s i \<le> retries_of s' i"
    and op_pending: "i \<in> pending_ids s' \<Longrightarrow> i \<in> pending_ids s \<and> retries_of s' i = retries_of s i
      \<or> i \<in> ledger_ids s \<and> retries_of s i < retries_of s' i \<and> retries_of s' i < nat max_settlement_retries"
proof -
  obtain f where f: "db_settlements s' = map f (db_settlements s)" "\<And>r. sdb_id (f r) = sdb_id r"
    "\<And>r. sdb_retry_count r \<le> sdb_retry_count (f r)"
    "\<And>r. sdb_status (f r) = ''pending'' \<Longrightarrow> sdb_status r = ''pending'' \<and> sdb_retry_count (f r) = sdb_retry_count r \<or>
       sdb_retry_count r < sdb_retry_count (f r) \<and> sdb_retry_count (f r) < max_settlement_retries"
    using assms(1) unfolding in_place_def by auto
  have row: "row_of s' i = map_option f (row_of s i)" unfolding row_of_def f(1) by (rule row_of_map[OF f(2)])
  show "retries_of s i \<le> retries_of s' i" using f(3) by (auto simp: retries_of_def row nat_mono split: option.split)
  assume "i \<in> pending_ids s'"
  then obtain r where r: "row_of s i = Some r" "sdb_status (f r) = ''pending''" by (auto simp: pending_ids_def row)
  have "i \<in> ledger_ids s" using r(1) row_of_None[of s i] by auto
  then show "i \<in> pending_ids s \<and> retries_of s' i = retries_of s i
      \<or> i \<in> ledger_ids s \<and> retries_of s i < retries_of s' i \<and> retries_of s' i < nat max_settlement_retries"
    using f(4)[OF r(2)] r(1) row_wf[OF assms(2) r(1)] by (auto simp: pending_ids_def retries_of_def row)
qed

lemma op_one_fresh:
  assumes "one_fresh s s'"
  shows fresh_retries: "i \<in> ledger_ids s \<Longrightarrow> retries_of s i \<le> retries_of s' i"
    and fresh_pending: "i \<in> pending_ids s' \<Longrightarrow> i \<in> pending_ids s \<and> retries_of s' i = retries_of s i
      \<or> i \<notin> ledger_ids s \<and> retries_of s' i < nat max_settlement_retries"
proof -
  obtain q where q: "db_settlements s' = db_settlements s @ [q]" "sdb_retry_count q = 0"
    using assms by (auto simp: one_fresh_def)
  have row: "row_of s' i = (case row_of s i of Some r \<Rightarrow> Some r | None \<Rightarrow> if sdb_id q = i then Some q else None)" for i
    unfolding row_of_def q(1) by (rule row_of_append)
  show "i \<in> ledger_ids s \<Longrightarrow> retries_of s i \<le> retries_of s' i"
    using row_of_None[of s i] by (auto simp: retries_of_def row split: option.split)
  show "i \<in> pending_ids s' \<Longrightarrow> i \<in> pending_ids s \<and> retries_of s' i = retries_of s i
      \<or> i \<notin> ledger_ids s \<and> retries_of s' i < nat max_settlement_retries"
    using row_of_None[of s i] q(2)
    by (auto simp: pending_ids_def retries_of_def row max_settlement_retries_def split: option.splits if_splits)
qed

text \<open>The claim.\<close>

lemma claims_rows:
  assumes "claims ids s c s'"
  obtains now where "c = map sdb_id (filter (claimable ids) (db_settlements s))"
    "db_settlements s' = map (\<lambda>r. if claimable ids r then r\<lparr>sdb_status := ''processing'', sdb_updated_at := now\<rparr> else r) (db_settlements s)"
proof -
  obtain now cl where now: "claim_settlements_for_processing ids now s = Inr (cl, s')" "c = map st_id cl"
    using assms by (auto simp: claims_def)
  then show thesis
    by (intro that[of now]) (auto simp: claim_eq settlement_of_row_def update_where_def comp_def)
qed

lemma claims_effect:
  assumes "claims ids s c s'" "ledger_wf s"
  shows claims_wf: "ledger_wf s'"
    and claims_result: "set c = set ids \<inter> pending_ids s \<and> distinct c"
    and claims_pending: "pending_ids s' = pending_ids s - set ids"
    and claims_keep: "ledger_ids s' = ledger_ids s \<and> retries_of s' = retries_of s"
proof -
  obtain now where c: "c = map sdb_id (filter (claimable ids) (db_settlements s))"
    and s': "db_settlements s' = map (\<lambda>r. if claimable ids r then r\<lparr>sdb_status := ''processing'', sdb_updated_at := now\<rparr> else r) (db_settlements s)"
    using assms(1) by (rule claims_rows)
  let ?f = "\<lambda>r. if claimable ids r then r\<lparr>sdb_status := ''processing'', sdb_updated_at := now\<rparr> else r"
  have d: "distinct (map sdb_id (db_settlements s))" using assms(2) by (simp add: ledger_wf_def)
  have row: "row_of s' i = map_option ?f (row_of s i)" for i unfolding row_of_def s' by (rule row_of_map) simp
  have "in_place s s'" unfolding in_place_def s' by (rule exI[of _ ?f]) simp
  from wf_in_place[OF this assms(2)] show "ledger_wf s'" by simp
  from wf_in_place[OF \<open>in_place s s'\<close> assms(2)] show "ledger_ids s' = ledger_ids s \<and> retries_of s' = retries_of s"
    by (auto simp: retries_of_def row fun_eq_iff split: option.split)
  have uniq: "row_of s (sdb_id r) = Some r" if "r \<in> set (db_settlements s)" for r
  proof (cases "row_of s (sdb_id r)")
    case None
    then show ?thesis using that row_of_None[of s "sdb_id r"] by (simp add: ledger_ids_def)
  next
    case (Some q)
    then show ?thesis using row_of_in[OF Some] that d unfolding distinct_map by (metis inj_onD)
  qed
  have "i \<in> set c \<longleftrightarrow> i \<in> set ids \<inter> pending_ids s" for i
  proof
    assume "i \<in> set c"
    then obtain r where "r \<in> set (db_settlements s)" "claimable ids r" "sdb_id r = i" unfolding c by auto
    then show "i \<in> set ids \<inter> pending_ids s" using uniq[of r] by (auto simp: pending_ids_def claimable_def)
  next
    assume "i \<in> set ids \<inter> pending_ids s"
    then obtain r where "row_of s i = Some r" "sdb_status r = ''pending''" "i \<in> set ids" by (auto simp: pending_ids_def)
    then show "i \<in> set c" using row_of_in[of s i r] unfolding c by (auto simp: claimable_def)
  qed
  then show "set c = set ids \<inter> pending_ids s \<and> distinct c" using d by (auto simp: c distinct_map_filter)
  show "pending_ids s' = pending_ids s - set ids"
  proof (rule set_eqI)
    fix i
    show "i \<in> pending_ids s' \<longleftrightarrow> i \<in> pending_ids s - set ids"
    proof (cases "row_of s i")
      case (Some r)
      then have "sdb_id r = i" using row_of_in by blast
      then show ?thesis by (auto simp: pending_ids_def row Some claimable_def)
    qed (simp add: pending_ids_def row)
  qed
qed

interpretation ledger: claim_ledger ledger_wf ledger_ids pending_ids retries_of "nat max_settlement_retries" claims ledger_op
proof unfold_locales
  fix s s' i assume op: "ledger_op s s'" "ledger_wf s"
  note shape = ledger_op_shape[OF op(1)]
  show "ledger_wf s'" "ledger_ids s \<subseteq> ledger_ids s'"
    using shape wf_in_place[OF _ op(2)] wf_one_fresh[OF _ op(2)] by blast+
  show "i \<in> ledger_ids s \<Longrightarrow> retries_of s i \<le> retries_of s' i"
    using shape op_retries[OF _ op(2)] fresh_retries by blast
  show "i \<in> pending_ids s' \<Longrightarrow> i \<in> pending_ids s \<and> retries_of s' i = retries_of s i
      \<or> i \<in> ledger_ids s \<and> retries_of s i < retries_of s' i \<and> retries_of s' i < nat max_settlement_retries
      \<or> i \<notin> ledger_ids s \<and> retries_of s' i < nat max_settlement_retries"
    using shape op_pending[OF _ op(2)] fresh_pending by blast
next
  show "ledger_wf s \<Longrightarrow> pending_ids s \<subseteq> ledger_ids s" for s
    using row_of_in unfolding pending_ids_def ledger_ids_def by blast
qed (use claims_effect in blast)+

section \<open>Properties\<close>

definition two_store :: store where
  "two_store = w_store two_pending"

lemma two_store_wf:
  "ledger_wf two_store"
  "list_all (\<lambda>r. sdb_status r = ''pending'' \<longrightarrow> sdb_retry_count r < max_settlement_retries) (db_settlements two_store)"
  by (simp_all add: two_store_def two_pending_def ledger_wf_def example_defs max_settlement_retries_def)

text \<open>Whatever way the statements of any number of workers interleave (claims, releases,
  reclaims of stale rows, status writes, new settlements and trades), a settlement is handed to a
  worker at most \<open>MAX_SETTLEMENT_RETRIES\<close> times.\<close>

theorem claims_bounded_by_retries:
  assumes "ledger_wf s" "list_all (\<lambda>r. sdb_status r = ''pending'' \<longrightarrow> sdb_retry_count r < max_settlement_retries) (db_settlements s)"
    and "claim_run claims ledger_op s g s'"
  shows "g i \<le> nat max_settlement_retries"
proof (rule ledger.claims_bounded[OF assms(1) _ _ assms(3)])
  fix j assume "j \<in> pending_ids s"
  then obtain r where r: "row_of s j = Some r" "sdb_status r = ''pending''" by (auto simp: pending_ids_def)
  then have "sdb_retry_count r < max_settlement_retries"
    using assms(2) row_of_in[OF r(1)] by (auto simp: list_all_iff)
  then show "retries_of s j < nat max_settlement_retries"
    using row_wf[OF assms(1) r(1)] by (simp add: retries_of_def r(1) max_settlement_retries_def)
qed (simp add: max_settlement_retries_def)

theorem claims_bounded_by_retries_witness:
  "\<exists>g s'. claim_run claims ledger_op two_store g s' \<and> g 1 = 1 \<and> g 2 = 0 \<and> g 1 \<le> nat max_settlement_retries"
proof -
  obtain cl s' where c: "claim_settlements_for_processing [1] 5 two_store = Inr (cl, s')" by (simp add: claim_eq)
  have "map st_id cl = [1]"
    using c by (auto simp: claim_eq two_store_def two_pending_def example_defs claimable_def settlement_of_row_def)
  then have "claims [1] two_store [1] s'" using c unfolding claims_def by metis
  then have run: "claim_run claims ledger_op two_store (\<lambda>i. 0 + count_list [1] i) s'"
    by (rule claim_run.claim[OF claim_run.start[of claims ledger_op two_store]])
  show ?thesis using run claims_bounded_by_retries[OF two_store_wf run, of 1]
    by (intro exI[of _ "\<lambda>i. 0 + count_list [1] i"] exI[of _ s']) simp
qed

text \<open>C14: Two workers never claim the same settlement: what the second of two consecutive claims
  returns is disjoint from what the first one returned, whichever settlements they ask for.\<close>

theorem claims_exclusive:
  assumes "ledger_wf s"
    and "claim_settlements_for_processing ids now s = Inr (cl, s')"
    and "claim_settlements_for_processing ids' now' s' = Inr (cl', s'')"
  shows "st_id ` set cl \<inter> st_id ` set cl' = {}"
  using ledger.claims_disjoint[OF assms(1), of ids "map st_id cl" s' ids' "map st_id cl'" s''] assms(2,3)
  by (auto simp: claims_def)

theorem claims_exclusive_witness:
  "\<exists>cl s' cl' s''. claim_settlements_for_processing [1] 5 two_store = Inr (cl, s') \<and>
     claim_settlements_for_processing [1, 2] 6 s' = Inr (cl', s'') \<and>
     map st_id cl = [1] \<and> map st_id cl' = [2] \<and> st_id ` set cl \<inter> st_id ` set cl' = {}"
proof -
  obtain cl s' where c: "claim_settlements_for_processing [1] 5 two_store = Inr (cl, s')" by (simp add: claim_eq)
  obtain cl' s'' where c': "claim_settlements_for_processing [1, 2] 6 s' = Inr (cl', s'')" by (simp add: claim_eq)
  have "map st_id cl = [1]" "map st_id cl' = [2]"
    using c c' by (auto simp: claim_eq two_store_def two_pending_def example_defs claimable_def settlement_of_row_def)
  with c c' claims_exclusive[OF two_store_wf(1) c c'] show ?thesis by (intro exI conjI)
qed

end
