(* ===== verification/Order_Ledger.thy ===== *)
theory Order_Ledger imports Settlement_Runs begin

text \<open>
  What the statements of the repositories do to the order book in the database: a terminal order
  is never touched again, a matched trade is booked as a whole or not at all, and every fill is
  backed by settlements.  The contract of a statement that respects the book is a locale; each
  repository method the services use is an instance.
\<close>

section \<open>Respecting the book\<close>

definition guarded :: "order_row \<Rightarrow> order_row \<Rightarrow> bool" where
  "guarded r r' \<longleftrightarrow>
     odb_id r' = odb_id r \<and> odb_user_id r' = odb_user_id r \<and> odb_side r' = odb_side r \<and>
     odb_energy_amount r' = odb_energy_amount r \<and> odb_price_per_kwh r' = odb_price_per_kwh r \<and>
     (\<not> open_status (odb_status r) \<longrightarrow> odb_status r' = odb_status r \<and> odb_filled_amount r' = odb_filled_amount r)"

definition book_moves :: "store \<Rightarrow> store \<Rightarrow> bool" where
  "book_moves s s' \<longleftrightarrow> (\<exists>moved new. db_orders s' = moved @ new \<and> list_all2 guarded (db_orders s) moved \<and>
     distinct (map odb_id new) \<and> odb_id ` set new \<inter> odb_id ` set (db_orders s) = {})"

lemma guarded_refl: "guarded r r"
  by (simp add: guarded_def)

lemma guarded_trans: "guarded r q \<Longrightarrow> guarded q t \<Longrightarrow> guarded r t"
  by (auto simp: guarded_def)

lemma guarded_ids: "list_all2 guarded rs qs \<Longrightarrow> map odb_id qs = map odb_id rs"
  by (induction rule: list_all2_induct) (auto simp: guarded_def)

lemma book_moves_same: "db_orders s' = db_orders s \<Longrightarrow> book_moves s s'"
  unfolding book_moves_def by (rule exI[of _ "db_orders s"], rule exI[of _ "[]"]) (simp add: list.rel_refl guarded_refl)

lemma book_moves_trans:
  assumes "book_moves s s1" "book_moves s1 s2"
  shows "book_moves s s2"
proof -
  obtain m1 n1 where 1: "db_orders s1 = m1 @ n1" "list_all2 guarded (db_orders s) m1"
    "distinct (map odb_id n1)" "odb_id ` set n1 \<inter> odb_id ` set (db_orders s) = {}"
    using assms(1) by (auto simp: book_moves_def)
  obtain m2 n2 where 2: "db_orders s2 = m2 @ n2" "list_all2 guarded (m1 @ n1) m2"
    "distinct (map odb_id n2)" "odb_id ` set n2 \<inter> odb_id ` set (m1 @ n1) = {}"
    using assms(2) 1(1) by (auto simp: book_moves_def)
  obtain p q where pq: "m2 = p @ q" "list_all2 guarded m1 p" "list_all2 guarded n1 q"
    using 2(2) unfolding list_all2_append1 by blast
  have "list_all2 guarded (db_orders s) p" by (rule list_all2_trans[OF guarded_trans 1(2) pq(2)])
  moreover have ids: "odb_id ` set q = odb_id ` set n1" "odb_id ` set m1 = odb_id ` set (db_orders s)"
    using guarded_ids[OF pq(3)] guarded_ids[OF 1(2)] by (metis set_map)+
  moreover have "distinct (map odb_id (q @ n2))"
    using 1(3) 2(3,4) ids(1) guarded_ids[OF pq(3)] unfolding map_append distinct_append set_map set_append image_Un
    by auto
  moreover have "odb_id ` set (q @ n2) \<inter> odb_id ` set (db_orders s) = {}"
    using 1(4) 2(4) unfolding set_append image_Un ids by blast
  moreover have "db_orders s2 = p @ (q @ n2)" by (simp add: 2(1) pq(1))
  ultimately show ?thesis unfolding book_moves_def by blast
qed

lemma book_moves_update:
  assumes "db_orders s' = update_where hit f (db_orders s)" and "\<And>r. hit r \<Longrightarrow> guarded r (f r)"
  shows "book_moves s s'"
proof -
  have "list_all2 guarded rs (update_where hit f rs)" for rs
    by (induction rs) (use assms(2) in \<open>auto simp: guarded_refl\<close>)
  then show ?thesis unfolding book_moves_def assms(1)
    by (intro exI[of _ "update_where hit f (db_orders s)"] exI[of _ "[]"]) simp
qed

lemma book_moves_distinct:
  assumes "book_moves s s'" "distinct (map odb_id (db_orders s))"
  shows "distinct (map odb_id (db_orders s'))"
proof -
  obtain m n where "db_orders s' = m @ n" "list_all2 guarded (db_orders s) m" "distinct (map odb_id n)"
    "odb_id ` set n \<inter> odb_id ` set (db_orders s) = {}" using assms(1) by (auto simp: book_moves_def)
  then show ?thesis using assms(2) guarded_ids[of "db_orders s" m]
    by (metis Int_commute distinct_append map_append set_map)
qed

lemma book_moves_row:
  assumes "book_moves s s'" "r \<in> set (db_orders s)"
  obtains r' where "r' \<in> set (db_orders s')" "guarded r r'"
proof -
  obtain m n where "db_orders s' = m @ n" "list_all2 guarded (db_orders s) m" using assms(1) by (auto simp: book_moves_def)
  moreover have "\<exists>r'\<in>set m. guarded r r'" using calculation(2) assms(2)
    by (induction rule: list_all2_induct) auto
  ultimately show thesis using that by auto
qed

section \<open>The contract of a statement\<close>

locale book_statement =
  fixes run :: "datetime \<Rightarrow> store \<Rightarrow> api_error + ('a \<times> store)"
  assumes moves: "run now s = Inr (x, s') \<Longrightarrow> book_moves s s'"
begin

lemma keeps_terminal:
  assumes "run now s = Inr (x, s')" "r \<in> set (db_orders s)" "\<not> open_status (odb_status r)"
  shows "\<exists>r'\<in>set (db_orders s'). odb_id r' = odb_id r \<and> odb_status r' = odb_status r \<and> odb_filled_amount r' = odb_filled_amount r"
  using book_moves_row[OF moves[OF assms(1)] assms(2)] assms(3) by (metis guarded_def)

lemma call: "keeps (stores (book_moves s0)) (db_call run)"
  by (rule keeps_db_call) (use moves book_moves_trans in blast)

end

lemma event_orders: "insert_event_in_tx now ev s = Inr s' \<Longrightarrow> db_orders s' = db_orders s"
  by (auto simp: insert_event_in_tx_def draw_id_def split: list.splits if_splits)

lemma insert_order_book: "insert_order o' now s = Inr (u, s') \<Longrightarrow> book_moves s s'"
  unfolding insert_order_def book_moves_def
  by (rule exI[of _ "db_orders s"])
    (auto simp: new_order_row_def list.rel_refl guarded_refl split: option.splits if_splits)

interpretation order_insert: book_statement "insert_order o'" for o'
  by unfold_locales (rule insert_order_book)

interpretation order_insert_event: book_statement "insert_order_with_event o' ev" for o' ev
proof unfold_locales
  fix now s x s' assume "insert_order_with_event o' ev now s = Inr (x, s')"
  then obtain u s1 where "insert_order o' now s = Inr (u, s1)" "db_orders s' = db_orders s1"
    by (auto simp: insert_order_with_event_def dest!: event_orders split: sum.splits)
  then show "book_moves s s'" using insert_order_book book_moves_same book_moves_trans by blast
qed

interpretation order_signature: book_statement "set_wallet_signature i sig" for i sig
  by unfold_locales (auto simp: set_wallet_signature_def guarded_def split: if_splits intro: book_moves_update)

interpretation order_pda: book_statement "update_order_pda i pda idx" for i pda idx
  by unfold_locales (auto simp: update_order_pda_def guarded_def intro: book_moves_update)

lemma guarded_fill: "open_status (odb_status r) \<Longrightarrow> guarded r (set_fill now filled st r)"
  by (simp add: guarded_def set_fill_def)

lemma guarded_incremental: "open_status (odb_status r) \<Longrightarrow> guarded r (incremental_fill now d filled r)"
  by (simp add: guarded_def incremental_fill_def)

interpretation order_fill_event: book_statement "update_filled_amount_with_event i filled st ev" for i filled st ev
proof unfold_locales
  fix now s x s' assume run: "update_filled_amount_with_event i filled st ev now s = Inr (x, s')"
  then have "s' = s \<or> (\<exists>f. db_orders s' = update_where (\<lambda>r. odb_id r = i \<and> open_status (odb_status r)) (set_fill now f st) (db_orders s))"
    by (fastforce simp: update_filled_amount_with_event_def Let_def dest!: event_orders split: option.splits if_splits sum.splits)
  then show "book_moves s s'" by (auto intro: book_moves_same guarded_fill elim!: book_moves_update)
qed

lemma expire_events_orders: "expire_events now rs s = Inr s' \<Longrightarrow> db_orders s' = db_orders s"
  by (induction rs arbitrary: s) (auto dest!: event_orders split: option.splits sum.splits)

lemma expire_orders:
  assumes "expire_stale_orders t now s = Inr (ids, s')"
  shows "ids = map odb_id (filter (stale t) (db_orders s)) \<and> db_orders s' = update_where (stale t)
           (\<lambda>r. r\<lparr>odb_status := Order_Expired, odb_updated_at := Some now\<rparr>) (db_orders s)"
  using assms by (auto simp: expire_stale_orders_def Let_def dest!: expire_events_orders split: sum.splits)

interpretation order_expire: book_statement "expire_stale_orders t" for t
proof unfold_locales
  fix now s x s' assume "expire_stale_orders t now s = Inr (x, s')"
  note s' = conjunct2[OF expire_orders[OF this]]
  show "book_moves s s'" by (rule book_moves_update[OF s']) (auto simp: stale_def guarded_def)
qed

interpretation order_cancel: book_statement "cancel_order i u" for i u
  by unfold_locales (auto simp: cancel_order_def Let_def guarded_def intro: book_moves_update)

text \<open>Statements on the other tables.\<close>

lemma insert_settlement_orders: "insert_settlement st now s = Inr (u, s') \<Longrightarrow> db_orders s' = db_orders s"
  by (auto simp: insert_settlement_def split: option.splits if_splits)

lemma insert_match_orders: "insert_match m i z now s = Inr (u, s') \<Longrightarrow> db_orders s' = db_orders s"
  by (auto simp: insert_match_def split: option.splits if_splits)

interpretation epoch_cleared: book_statement "mark_epoch_cleared e p v n" for e p v n
  by unfold_locales (auto simp: mark_epoch_cleared_def split: option.splits intro: book_moves_same)

section \<open>One side of a trade\<close>

abbreviation side_hit :: "trade_fill \<Rightarrow> order_row \<Rightarrow> bool" where
  "side_hit side r \<equiv> odb_id r = tf_order_id side \<and> open_status (odb_status r)"

lemma event_row:
  assumes "insert_event_in_tx now ev s = Inr s'"
  shows "map obx_payload (db_outbox s') = map obx_payload (db_outbox s) @ [ev]"
    and "db_orders s' = db_orders s" "db_settlements s' = db_settlements s" "db_matches s' = db_matches s"
    and "db_epochs s' = db_epochs s"
  using assms by (auto simp: insert_event_in_tx_def draw_id_def split: list.splits if_splits)

definition fill_event :: "trade_fill \<Rightarrow> order_row \<Rightarrow> decimal \<Rightarrow> event" where
  "fill_event side r filled = OrderUpdate (tf_order_id side) (tf_user_id side) filled
     (order_status_str (fill_status (tf_delta side) r)) (tf_zone_id side)"

lemma fill_side_done:
  assumes "fill_side now side s = Inr (Some s')"
  obtains r filled where "find (side_hit side) (db_orders s) = Some r" "num8 (filled_of r + tf_delta side) = Some filled"
    "db_orders s' = update_where (side_hit side) (incremental_fill now (tf_delta side) filled) (db_orders s)"
    "map obx_payload (db_outbox s') = map obx_payload (db_outbox s) @ [fill_event side r filled]"
    "db_settlements s' = db_settlements s" "db_matches s' = db_matches s" "db_epochs s' = db_epochs s"
proof -
  obtain r where r: "find (side_hit side) (db_orders s) = Some r"
    using assms by (auto simp: fill_side_def split: option.splits)
  obtain filled where f: "num8 (filled_of r + tf_delta side) = Some filled"
    using assms r by (auto simp: fill_side_def split: option.splits)
  have "insert_event_in_tx now (fill_event side r filled) (s\<lparr>db_orders := update_where (side_hit side)
      (incremental_fill now (tf_delta side) filled) (db_orders s)\<rparr>) = Inr s'"
    using assms by (auto simp: fill_side_def r f fill_event_def split: sum.splits)
  from event_row[OF this] show thesis by (intro that[OF r f]) simp_all
qed

lemma fill_side_ledger: "fill_side now side s = Inr (Some s') \<Longrightarrow> db_settlements s' = db_settlements s"
  by (elim fill_side_done)

lemma fill_side_none: "fill_side now side s = Inr None \<Longrightarrow> list_all (\<lambda>r. \<not> side_hit side r) (db_orders s)"
  by (auto simp: fill_side_def list_all_iff find_None_iff split: option.splits sum.splits)

lemma fill_side_book: "fill_side now side s = Inr (Some s') \<Longrightarrow> book_moves s s'"
  by (elim fill_side_done) (auto elim!: book_moves_update simp: guarded_incremental)

section \<open>The atomic persist\<close>

lemma persist_False: "persist_matched_trade st m ev z buyer seller now s = Inr (False, s') \<Longrightarrow> s' = s"
  by (auto simp: persist_matched_trade_def split: sum.splits option.splits)

lemma persist_True:
  assumes "persist_matched_trade st m ev z buyer seller now s = Inr (True, s')"
  obtains s1 s2 s3 s4 where "insert_settlement st now s = Inr ((), s1)" "insert_match m (Some (st_id st)) z now s1 = Inr ((), s2)"
    "insert_event_in_tx now ev s2 = Inr s3" "fill_side now buyer s3 = Inr (Some s4)" "fill_side now seller s4 = Inr (Some s')"
proof -
  obtain s1 where 1: "insert_settlement st now s = Inr ((), s1)"
    using assms by (auto simp: persist_matched_trade_def split: sum.splits)
  obtain s2 where 2: "insert_match m (Some (st_id st)) z now s1 = Inr ((), s2)"
    using assms by (auto simp: persist_matched_trade_def 1 split: sum.splits)
  obtain s3 where 3: "insert_event_in_tx now ev s2 = Inr s3"
    using assms by (auto simp: persist_matched_trade_def 1 2 split: sum.splits)
  obtain s4 where 4: "fill_side now buyer s3 = Inr (Some s4)"
    using assms by (auto simp: persist_matched_trade_def 1 2 3 split: sum.splits option.splits)
  show thesis using assms 4 by (intro that[OF 1 2 3 4]) (auto simp: persist_matched_trade_def 1 2 3 split: sum.splits option.splits)
qed

interpretation trade_persist: book_statement "persist_matched_trade st m ev z buyer seller" for st m ev z buyer seller
proof unfold_locales
  fix now s x s' assume run: "persist_matched_trade st m ev z buyer seller now s = Inr (x, s')"
  show "book_moves s s'"
  proof (cases x)
    case False
    then have "s' = s" using run persist_False by simp
    then show ?thesis by (simp add: book_moves_same)
  next
    case True
    then obtain s1 s2 s3 s4 where p: "insert_settlement st now s = Inr ((), s1)"
      "insert_match m (Some (st_id st)) z now s1 = Inr ((), s2)" "insert_event_in_tx now ev s2 = Inr s3"
      "fill_side now buyer s3 = Inr (Some s4)" "fill_side now seller s4 = Inr (Some s')"
      using run persist_True by metis
    have "book_moves s s3" using event_orders[OF p(3)] insert_match_orders[OF p(2)] insert_settlement_orders[OF p(1)]
      by (intro book_moves_same) simp
    then show ?thesis using fill_side_book[OF p(4)] fill_side_book[OF p(5)] book_moves_trans by blast
  qed
qed

section \<open>Fills backed by settlements\<close>

text \<open>Amounts the \<open>numeric(20,8)\<close> columns hold exactly.\<close>

definition grid8 :: "decimal \<Rightarrow> bool" where
  "grid8 x \<longleftrightarrow> (\<exists>k::int. x = of_int k / 10 ^ 8)"

lemma grid8_add: "grid8 x \<Longrightarrow> grid8 y \<Longrightarrow> grid8 (x + y)"
  unfolding grid8_def by (metis add_divide_distrib of_int_add)

lemma grid8_0 [simp]: "grid8 0"
  unfolding grid8_def by (rule exI[of _ 0]) simp

lemma round_half_away_int [simp]: "round_half_away (of_int k) = k"
  by (auto simp: round_half_away_def floor_unique ceiling_unique)

lemma num8_grid8: "grid8 x \<Longrightarrow> num8 x = Some y \<Longrightarrow> y = x"
  by (auto simp: grid8_def num8_def Let_def split: if_splits)

definition concerns :: "uuid \<Rightarrow> settlement_row \<Rightarrow> bool" where
  "concerns i r \<longleftrightarrow> sdb_buy_order_id r = i \<or> sdb_sell_order_id r = i"

definition booked :: "store \<Rightarrow> uuid \<Rightarrow> decimal" where
  "booked s i = sum_list (map sdb_energy_amount (filter (concerns i) (db_settlements s)))"

definition fills_backed :: "store \<Rightarrow> bool" where
  "fills_backed s \<longleftrightarrow> distinct (map odb_id (db_orders s)) \<and>
     (\<forall>r\<in>set (db_orders s). filled_of r = booked s (odb_id r) \<and> grid8 (filled_of r)) \<and>
     (\<forall>q\<in>set (db_settlements s). sdb_buy_order_id q \<in> odb_id ` set (db_orders s) \<and>
        sdb_sell_order_id q \<in> odb_id ` set (db_orders s))"

lemma incremental_fill_simps [simp]:
  "odb_id (incremental_fill now d f r) = odb_id r" "filled_of (incremental_fill now d f r) = f"
  by (simp_all add: incremental_fill_def filled_of_def)

text \<open>One side adds its delta to its own order.\<close>

definition adds :: "uuid \<Rightarrow> decimal \<Rightarrow> order_row \<Rightarrow> order_row \<Rightarrow> bool" where
  "adds i d r r' \<longleftrightarrow> odb_id r' = odb_id r \<and> filled_of r' = filled_of r + (if odb_id r = i then d else 0)"

lemma fill_side_adds:
  assumes "fill_side now side s = Inr (Some s')" "distinct (map odb_id (db_orders s))"
    and "\<And>r. r \<in> set (db_orders s) \<Longrightarrow> grid8 (filled_of r)" "grid8 (tf_delta side)"
  shows "list_all2 (adds (tf_order_id side) (tf_delta side)) (db_orders s) (db_orders s')"
    and "tf_order_id side \<in> odb_id ` set (db_orders s)"
proof -
  obtain r f where r: "find (side_hit side) (db_orders s) = Some r" "num8 (filled_of r + tf_delta side) = Some f"
    and s': "db_orders s' = update_where (side_hit side) (incremental_fill now (tf_delta side) f) (db_orders s)"
    using assms(1) by (rule fill_side_done)
  have mem: "r \<in> set (db_orders s)" "side_hit side r" using r(1) by (auto simp: find_Some_iff)
  then show "tf_order_id side \<in> odb_id ` set (db_orders s)" by force
  have f: "f = filled_of r + tf_delta side" using num8_grid8[OF grid8_add r(2)] assms(3)[OF mem(1)] assms(4) by simp
  have "adds (tf_order_id side) (tf_delta side) q (if side_hit side q then incremental_fill now (tf_delta side) f q else q)"
    if q: "q \<in> set (db_orders s)" for q
  proof (cases "odb_id q = tf_order_id side")
    case True
    then have "q = r" using q mem assms(2) unfolding distinct_map by (metis inj_onD)
    then show ?thesis using mem(2) f by (simp add: adds_def)
  qed (simp add: adds_def)
  then show "list_all2 (adds (tf_order_id side) (tf_delta side)) (db_orders s) (db_orders s')"
    unfolding s' update_where_def list_all2_map2 by (auto simp: list_all2_same)
qed

lemma adds_ids: "list_all2 (adds i d) rs qs \<Longrightarrow> map odb_id qs = map odb_id rs"
  by (induction rule: list_all2_induct) (auto simp: adds_def)

lemma adds_grid8:
  assumes "list_all2 (adds i d) rs qs" "grid8 d" "\<And>r. r \<in> set rs \<Longrightarrow> grid8 (filled_of r)" "q \<in> set qs"
  shows "grid8 (filled_of q)"
proof -
  obtain r where "r \<in> set rs" "adds i d r q"
    using list_all2_origin[OF assms(1,4)] by blast
  then show ?thesis using grid8_add[OF assms(3)[of r] assms(2)] assms(3)[of r] by (auto simp: adds_def)
qed

lemma insert_settlement_row:
  assumes "insert_settlement st now s = Inr (u, s')"
  obtains r where "db_settlements s' = db_settlements s @ [r]" "num8 (st_energy_amount st) = Some (sdb_energy_amount r)"
    "sdb_id r = st_id st" "sdb_buy_order_id r = st_buy_order_id st" "sdb_sell_order_id r = st_sell_order_id st"
proof -
  obtain r where r: "settlement_insert_row now st = Some r" "s' = s\<lparr>db_settlements := db_settlements s @ [r]\<rparr>"
    using assms by (auto simp: insert_settlement_def split: option.splits if_splits)
  then show thesis by (intro that[of r]) (auto simp: settlement_insert_row_def bind_eq_Some_conv)
qed

text \<open>What a booked trade does to the orders.\<close>

definition trade_adds :: "uuid \<Rightarrow> uuid \<Rightarrow> decimal \<Rightarrow> order_row \<Rightarrow> order_row \<Rightarrow> bool" where
  "trade_adds b l d r r' \<longleftrightarrow> odb_id r' = odb_id r \<and>
     filled_of r' = filled_of r + (if odb_id r = b \<or> odb_id r = l then d else 0)"

lemma persist_adds:
  assumes "distinct (map odb_id (db_orders s))" and g: "\<And>r. r \<in> set (db_orders s) \<Longrightarrow> grid8 (filled_of r)"
    and run: "persist_matched_trade st m ev z buyer seller now s = Inr (True, s')"
    and "tf_order_id buyer = b" "tf_order_id seller = l" "b \<noteq> l" and "tf_delta buyer = d" "tf_delta seller = d" "grid8 d"
  shows "list_all2 (trade_adds b l d) (db_orders s) (db_orders s')"
    and "\<And>r'. r' \<in> set (db_orders s') \<Longrightarrow> grid8 (filled_of r')"
    and "map odb_id (db_orders s') = map odb_id (db_orders s)"
    and "b \<in> odb_id ` set (db_orders s)" "l \<in> odb_id ` set (db_orders s)"
proof -
  obtain s1 s2 s3 s4 where p: "insert_settlement st now s = Inr ((), s1)"
    "insert_match m (Some (st_id st)) z now s1 = Inr ((), s2)" "insert_event_in_tx now ev s2 = Inr s3"
    "fill_side now buyer s3 = Inr (Some s4)" "fill_side now seller s4 = Inr (Some s')"
    using run persist_True by metis
  have s3: "db_orders s3 = db_orders s"
    using event_orders[OF p(3)] insert_match_orders[OF p(2)] insert_settlement_orders[OF p(1)] by simp
  have a1: "list_all2 (adds b d) (db_orders s) (db_orders s4)" "b \<in> odb_id ` set (db_orders s)"
    using fill_side_adds[OF p(4)] assms unfolding s3 by auto
  have d4: "distinct (map odb_id (db_orders s4))" using assms(1) adds_ids[OF a1(1)] by simp
  have g4: "\<And>r. r \<in> set (db_orders s4) \<Longrightarrow> grid8 (filled_of r)" using adds_grid8[OF a1(1) assms(9) g] by blast
  have a2: "list_all2 (adds l d) (db_orders s4) (db_orders s')" "l \<in> odb_id ` set (db_orders s4)"
    using fill_side_adds[OF p(5) d4 g4] assms by auto
  show "list_all2 (trade_adds b l d) (db_orders s) (db_orders s')"
    by (rule list_all2_trans[OF _ a1(1) a2(1)]) (use assms(6) in \<open>auto simp: adds_def trade_adds_def\<close>)
  show "grid8 (filled_of r')" if "r' \<in> set (db_orders s')" for r' using adds_grid8[OF a2(1) assms(9) g4 that] .
  show "map odb_id (db_orders s') = map odb_id (db_orders s)" using adds_ids[OF a1(1)] adds_ids[OF a2(1)] by simp
  show "b \<in> odb_id ` set (db_orders s)" by (rule a1(2))
  show "l \<in> odb_id ` set (db_orders s)" using a2(2) adds_ids[OF a1(1)] by (metis set_map)
qed

lemma persist_books:
  assumes "persist_matched_trade st m ev z buyer seller now s = Inr (True, s')"
  obtains row where "db_settlements s' = db_settlements s @ [row]" "num8 (st_energy_amount st) = Some (sdb_energy_amount row)"
    "sdb_id row = st_id st" "sdb_buy_order_id row = st_buy_order_id st" "sdb_sell_order_id row = st_sell_order_id st"
proof -
  obtain s1 s2 s3 s4 where p: "insert_settlement st now s = Inr ((), s1)"
    "insert_match m (Some (st_id st)) z now s1 = Inr ((), s2)" "insert_event_in_tx now ev s2 = Inr s3"
    "fill_side now buyer s3 = Inr (Some s4)" "fill_side now seller s4 = Inr (Some s')"
    using assms persist_True by metis
  have "db_settlements s2 = db_settlements s1"
    using p(2) by (auto simp: insert_match_def split: option.splits if_splits)
  then have "db_settlements s' = db_settlements s1"
    using fill_side_ledger[OF p(4)] fill_side_ledger[OF p(5)] event_row(3)[OF p(3)] by simp
  with p(1) show thesis by (elim insert_settlement_row) (auto intro: that)
qed

lemma persist_backed:
  assumes "fills_backed s" and run: "persist_matched_trade st m ev z buyer seller now s = Inr (b, s')"
    and "tf_order_id buyer = st_buy_order_id st" "tf_order_id seller = st_sell_order_id st"
    and "st_buy_order_id st \<noteq> st_sell_order_id st"
    and delta: "tf_delta buyer = st_energy_amount st" "tf_delta seller = st_energy_amount st" "grid8 (st_energy_amount st)"
  shows "fills_backed s'"
proof (cases b)
  case False
  then have "s' = s" using run persist_False by simp
  then show ?thesis using assms(1) by simp
next
  case True
  let ?B = "st_buy_order_id st" and ?L = "st_sell_order_id st" and ?d = "st_energy_amount st"
  have run': "persist_matched_trade st m ev z buyer seller now s = Inr (True, s')" using run True by simp
  obtain row where row: "db_settlements s' = db_settlements s @ [row]" "num8 ?d = Some (sdb_energy_amount row)"
    "sdb_id row = st_id st" "sdb_buy_order_id row = ?B" "sdb_sell_order_id row = ?L" using run' by (rule persist_books)
  have e: "sdb_energy_amount row = ?d" using num8_grid8[OF delta(3) row(2)] .
  have d: "distinct (map odb_id (db_orders s))" and g: "\<And>r. r \<in> set (db_orders s) \<Longrightarrow> grid8 (filled_of r)"
    and backed: "\<And>r. r \<in> set (db_orders s) \<Longrightarrow> filled_of r = booked s (odb_id r)"
    and refs: "\<And>q. q \<in> set (db_settlements s) \<Longrightarrow> sdb_buy_order_id q \<in> odb_id ` set (db_orders s) \<and> sdb_sell_order_id q \<in> odb_id ` set (db_orders s)"
    using assms(1) by (auto simp: fills_backed_def)
  note a = persist_adds[OF d g run' assms(3-5) delta]
  have ids': "odb_id ` set (db_orders s') = odb_id ` set (db_orders s)" using a(3) by (metis set_map)
  have bk: "booked s' i = booked s i + (if i = ?B \<or> i = ?L then ?d else 0)" for i
    by (auto simp: booked_def concerns_def row e)
  have "filled_of r' = booked s' (odb_id r')" if m: "r' \<in> set (db_orders s')" for r'
  proof -
    obtain r where "r \<in> set (db_orders s)" "trade_adds ?B ?L ?d r r'"
      using list_all2_origin[OF a(1) m] by blast
    then show ?thesis using backed bk by (simp add: trade_adds_def)
  qed
  moreover have "sdb_buy_order_id q \<in> odb_id ` set (db_orders s') \<and> sdb_sell_order_id q \<in> odb_id ` set (db_orders s')"
    if "q \<in> set (db_settlements s')" for q
    using that refs a(4,5) unfolding ids' row(1) set_append by (elim UnE) (simp_all add: row)
  ultimately show ?thesis using d a(2,3) by (simp add: fills_backed_def)
qed

section \<open>Runs of the book\<close>

text \<open>Any sequence of the statements the services execute on orders.\<close>

inductive book_run :: "store \<Rightarrow> store \<Rightarrow> bool" for s0 :: store where
  start: "book_run s0 s0"
| inserted: "book_run s0 s \<Longrightarrow> insert_order_with_event o' ev now s = Inr (u, s') \<Longrightarrow> book_run s0 s'"
| signed: "book_run s0 s \<Longrightarrow> set_wallet_signature i sig now s = Inr (u, s') \<Longrightarrow> book_run s0 s'"
| placed: "book_run s0 s \<Longrightarrow> update_order_pda i pda idx now s = Inr (u, s') \<Longrightarrow> book_run s0 s'"
| filled: "book_run s0 s \<Longrightarrow> update_filled_amount_with_event i f st ev now s = Inr (u, s') \<Longrightarrow> book_run s0 s'"
| expired: "book_run s0 s \<Longrightarrow> expire_stale_orders t now s = Inr (ids, s') \<Longrightarrow> book_run s0 s'"
| cancelled: "book_run s0 s \<Longrightarrow> cancel_order i owner now s = Inr (b, s') \<Longrightarrow> book_run s0 s'"
| traded: "book_run s0 s \<Longrightarrow> persist_matched_trade x m ev z buyer seller now s = Inr (b, s') \<Longrightarrow> book_run s0 s'"

lemma book_run_moves: "book_run s0 s \<Longrightarrow> book_moves s0 s"
proof (induction rule: book_run.induct)
  case start
  then show ?case by (simp add: book_moves_same)
next
  case inserted
  show ?case by (rule book_moves_trans[OF inserted.IH order_insert_event.moves[OF inserted.hyps(2)]])
next
  case signed
  show ?case by (rule book_moves_trans[OF signed.IH order_signature.moves[OF signed.hyps(2)]])
next
  case placed
  show ?case by (rule book_moves_trans[OF placed.IH order_pda.moves[OF placed.hyps(2)]])
next
  case filled
  show ?case by (rule book_moves_trans[OF filled.IH order_fill_event.moves[OF filled.hyps(2)]])
next
  case expired
  show ?case by (rule book_moves_trans[OF expired.IH order_expire.moves[OF expired.hyps(2)]])
next
  case cancelled
  show ?case by (rule book_moves_trans[OF cancelled.IH order_cancel.moves[OF cancelled.hyps(2)]])
next
  case traded
  show ?case by (rule book_moves_trans[OF traded.IH trade_persist.moves[OF traded.hyps(2)]])
qed

section \<open>Example data\<close>

definition example_order :: "uuid \<Rightarrow> uuid \<Rightarrow> order_side \<Rightarrow> order_status \<Rightarrow> datetime option \<Rightarrow> order_row" where
  "example_order i u sd st ex =
     \<lparr>odb_id = i, odb_user_id = u, odb_order_type = Limit, odb_side = sd, odb_energy_amount = 5, odb_price_per_kwh = 3,
      odb_filled_amount = Some 0, odb_status = st, odb_expires_at = ex, odb_created_at = Some 0, odb_updated_at = Some 0,
      odb_filled_at = None, odb_epoch_id = Some 9, odb_zone_id = Some 1, odb_meter_id = None,
      odb_refund_tx_signature = None, odb_order_pda = None, odb_order_index = None, odb_session_token = None,
      odb_trigger_price = None, odb_trigger_type = None, odb_trigger_status = None, odb_trailing_offset = None,
      odb_triggered_at = None, odb_last_peak_price = None, odb_limit_price = None, odb_blockchain_status = None,
      odb_blockchain_tx_hash = None, odb_blockchain_error = None, odb_retry_count = 0, odb_time_in_force = Gtc,
      odb_market_segment = Realtime, odb_signature = None\<rparr>"

definition example_epoch :: market_epoch where
  "example_epoch = \<lparr>ep_id = 9, ep_epoch_number = 1, ep_start_time = 0, ep_end_time = 900, ep_status = Epoch_Active,
     ep_clearing_price = None, ep_total_volume = None, ep_total_orders = None, ep_matched_orders = None\<rparr>"

text \<open>A buy and a sell that are live, a cancelled order, and a sell that has lapsed at time 50.\<close>

definition example_book :: store where
  "example_book = \<lparr>db_orders = [example_order 21 11 Buy Order_Active None, example_order 22 12 Sell Order_Active None,
       example_order 23 11 Buy Order_Cancelled None, example_order 24 12 Sell Order_Pending (Some 50)],
     db_settlements = [], db_matches = [], db_outbox = [], db_epochs = [example_epoch],
     db_rules = [], db_alerts = [], db_ids = [101, 102, 103]\<rparr>"

definition example_trade :: settlement where
  "example_trade = settlement_of_row (example_settlement 31 ''pending'' 0)"

definition example_match :: order_match where
  "example_match = \<lparr>om_id = 41, om_epoch_id = 9, om_buy_order_id = 21, om_sell_order_id = 22, om_matched_amount = 2,
     om_match_price = 3, om_match_time = 0, om_status = ''pending''\<rparr>"

definition example_fill :: "uuid \<Rightarrow> trade_fill" where
  "example_fill i = \<lparr>tf_order_id = i, tf_user_id = None, tf_delta = 2, tf_zone_id = Some 1\<rparr>"

definition example_persist :: "api_error + (bool \<times> store)" where
  "example_persist = persist_matched_trade example_trade example_match (OrderUpdate 21 None 0 [] None) (Some 1)
     (example_fill 21) (example_fill 22) 7 example_book"

lemma num8_int: "\<bar>of_int k :: decimal\<bar> < 10 ^ 12 \<Longrightarrow> num8 (of_int k) = Some (of_int k)"
proof -
  have "(of_int k * 10 ^ 8 :: decimal) = of_int (k * 10 ^ 8)" by simp
  then have "round_half_away (of_int k * 10 ^ 8 :: decimal) = k * 10 ^ 8" by (metis round_half_away_int)
  moreover assume "\<bar>of_int k :: decimal\<bar> < 10 ^ 12"
  ultimately show ?thesis by (simp add: num8_def)
qed

lemmas num8_numerals = num8_int[of "numeral n" for n, simplified] num8_int[of 0, simplified] num8_int[of 1, simplified]

lemma example_persist_run:
  obtains s' where "example_persist = Inr (True, s')" "map filled_of (db_orders s') = [2, 2, 0, 0]"
    "map obx_id (db_outbox s') = [101, 102, 103]"
proof -
  have "case example_persist of Inl _ \<Rightarrow> False | Inr (b, s') \<Rightarrow> b \<and> map filled_of (db_orders s') = [2, 2, 0, 0] \<and>
      map obx_id (db_outbox s') = [101, 102, 103]"
    by (simp add: example_persist_def persist_matched_trade_def insert_settlement_def settlement_insert_row_def
        insert_match_def insert_event_in_tx_def draw_id_def fill_side_def fill_status_def example_trade_def
        example_settlement_def settlement_of_row_def example_match_def example_fill_def example_book_def
        example_order_def example_epoch_def num8_numerals num8_opt_def filled_of_def open_status_def incremental_fill_def)
  then show thesis using that by (auto split: sum.splits)
qed

section \<open>Properties\<close>





text \<open>C16: Every fill is backed by settlements.  If the filled amount of every order is the sum of
  the energy of the settlements that name it, booking a trade (whatever its outcome) keeps it so:
  the two fills and the settlement can not drift apart.\<close>

theorem persist_keeps_fills_backed:
  assumes "fills_backed s" and run: "persist_matched_trade st m ev z buyer seller now s = Inr (b, s')"
    and "tf_order_id buyer = st_buy_order_id st" "tf_order_id seller = st_sell_order_id st"
    and "st_buy_order_id st \<noteq> st_sell_order_id st"
    and delta: "tf_delta buyer = st_energy_amount st" "tf_delta seller = st_energy_amount st" "grid8 (st_energy_amount st)"
  shows "fills_backed s'"
  by (rule persist_backed[OF assms])

lemma example_book_backed: "fills_backed example_book"
  by (simp add: fills_backed_def example_book_def example_order_def filled_of_def booked_def)

theorem persist_keeps_fills_backed_witness:
  "\<exists>s'. example_persist = Inr (True, s') \<and> fills_backed s' \<and> map filled_of (db_orders s') = [2, 2, 0, 0]"
proof -
  obtain s' where s': "example_persist = Inr (True, s')" "map filled_of (db_orders s') = [2, 2, 0, 0]"
    "map obx_id (db_outbox s') = [101, 102, 103]" by (rule example_persist_run)
  have "grid8 2" unfolding grid8_def by (rule exI[of _ "2 * 10 ^ 8"]) simp
  then have "fills_backed s'"
    by (intro persist_keeps_fills_backed[OF example_book_backed s'(1)[unfolded example_persist_def]])
      (simp_all add: example_fill_def example_trade_def settlement_of_row_def example_settlement_def)
  with s'(1,2) show ?thesis by (intro exI conjI)
qed

lemma expire_events_outbox:
  assumes "expire_events now rs s0 = Inr s'"
  shows "map obx_payload (db_outbox s') = map obx_payload (db_outbox s0) @
      map (\<lambda>r. OrderUpdate (odb_id r) (Some (odb_user_id r)) (filled_of r) ''expired'' (odb_zone_id r)) rs"
  using assms
proof (induction rs arbitrary: s0)
  case (Cons r rs)
  then obtain f s1 where f: "odb_filled_amount r = Some f"
    and e: "insert_event_in_tx now (OrderUpdate (odb_id r) (Some (odb_user_id r)) f ''expired'' (odb_zone_id r)) s0 = Inr s1"
    and rest: "expire_events now rs s1 = Inr s'" by (auto split: option.splits sum.splits)
  show ?case using Cons.IH[OF rest] event_row(1)[OF e] by (simp add: f filled_of_def)
qed simp

lemma expire_leaves_none:
  assumes "expire_stale_orders t now s = Inr (ids, s')"
  shows "list_all (\<lambda>r. \<not> stale t r) (db_orders s')"
  using expire_orders[OF assms] by (auto simp: update_where_def list_all_iff stale_def open_status_def)

text \<open>The reaper is exact: after \<open>expire_stale_orders\<close> no live order is past its expiry, precisely
  the returned orders changed (to expired, keeping what they filled), and each of them got one event
  that carries its filled amount.\<close>

theorem expire_stale_orders_exact:
  assumes "expire_stale_orders t now s = Inr (ids, s')"
  shows "list_all (\<lambda>r. \<not> stale t r) (db_orders s') \<and>
    ids = map odb_id (filter (stale t) (db_orders s)) \<and>
    db_orders s' = map (\<lambda>r. if stale t r then r\<lparr>odb_status := Order_Expired, odb_updated_at := Some now\<rparr> else r) (db_orders s) \<and>
    map obx_payload (db_outbox s') = map obx_payload (db_outbox s) @
      map (\<lambda>r. OrderUpdate (odb_id r) (Some (odb_user_id r)) (filled_of r) ''expired'' (odb_zone_id r))
        (filter (stale t) (db_orders s))"
proof -
  note o' = expire_orders[OF assms]
  obtain s0 where "expire_events now (filter (stale t) (db_orders s)) s0 = Inr s'" "db_outbox s0 = db_outbox s"
    using assms by (auto simp: expire_stale_orders_def Let_def split: sum.splits)
  then have "map obx_payload (db_outbox s') = map obx_payload (db_outbox s) @
      map (\<lambda>r. OrderUpdate (odb_id r) (Some (odb_user_id r)) (filled_of r) ''expired'' (odb_zone_id r))
        (filter (stale t) (db_orders s))" using expire_events_outbox[of now "filter (stale t) (db_orders s)" s0 s'] by simp
  moreover have "list_all (\<lambda>r. \<not> stale t r) (db_orders s')"
    by (rule expire_leaves_none[OF assms])
  ultimately show ?thesis using o' by (simp add: update_where_def)
qed

theorem expire_stale_orders_exact_witness:
  "\<exists>s'. expire_stale_orders 60 60 example_book = Inr ([24], s') \<and> list_all (\<lambda>r. \<not> stale 60 r) (db_orders s') \<and>
     length (db_outbox s') = 1"
proof -
  obtain s' where s': "expire_stale_orders 60 60 example_book = Inr ([24], s')" "length (db_outbox s') = 1"
    by (simp add: expire_stale_orders_def Let_def example_book_def example_order_def stale_def open_status_def
        insert_event_in_tx_def draw_id_def)
  show ?thesis by (rule exI[of _ s'], rule conjI[OF s'(1) conjI[OF conjunct1[OF expire_stale_orders_exact[OF s'(1)]] s'(2)]])
qed

end
