(* ===== verification/Match_Booking.thy ===== *)
theory Match_Booking imports Order_Ledger Matching_Engine Auction_Clearing Grid_Topology begin

text \<open>
  \<open>trading-logic/src/clearing_support.rs\<close>: the conversion of open orders to the engines' order
  type, and the persisting of a batch of matches, one atomic trade per match.  Shared by the
  continuous matcher and the interval auction.
\<close>

section \<open>Conversion\<close>

text \<open>\<open>timestamp_nanos_opt().unwrap_or(0)\<close>.\<close>

definition nanos :: "datetime \<Rightarrow> int" where
  "nanos t = (if i64_ok t then t else 0)"

definition order_meta :: "trading_order \<Rightarrow> order_metadata" where
  "order_meta o' = \<lparr>md_epoch_id = the (ord_epoch_id o'), md_order_pda = ord_order_pda o',
     md_session_token = ord_session_token o'\<rparr>"

definition fast_order_of :: "dec_ops \<Rightarrow> nat \<times> trading_order \<Rightarrow> fast_order option" where
  "fast_order_of D = (\<lambda>(i, o'). do {
     price \<leftarrow> fp_of_decimal D (ord_price_per_kwh o');
     Some \<lparr>fo_id = ord_id o', fo_user_id = ord_user_id o', fo_price = price,
       fo_energy_amount = ord_energy_amount o', fo_filled_amount = ord_filled_amount o',
       fo_zone_id = ord_zone_id o',
       fo_created_at_ns = (case ord_created_at o' of None \<Rightarrow> 0 | Some t \<Rightarrow> nanos t),
       fo_expires_at_ns = map_option nanos (ord_expires_at o'),
       fo_time_in_force = ord_time_in_force o', fo_metadata_index = i\<rparr> })"

definition to_fast_orders :: "dec_ops \<Rightarrow> trading_order list \<Rightarrow> (fast_order list \<times> order_metadata list) option" where
  "to_fast_orders D orders =
     (let kept = filter (\<lambda>o'. ord_epoch_id o' \<noteq> None) orders
      in do { fast \<leftarrow> those (map (fast_order_of D) (List.enumerate 0 kept)); Some (fast, map order_meta kept) })"

text \<open>\<open>order_totals\<close>: a later order with the same identifier replaces an earlier one.\<close>

definition order_totals :: "trading_order list \<Rightarrow> trading_order list \<Rightarrow> uuid \<Rightarrow> (decimal \<times> decimal \<times> uuid) option" where
  "order_totals a b = map_of (rev (map (\<lambda>o'. (ord_id o', ord_energy_amount o', ord_filled_amount o', ord_user_id o')) (a @ b)))"

section \<open>Booking a match\<close>

definition match_settlement ::
  "match_result \<Rightarrow> order_metadata \<Rightarrow> order_metadata \<Rightarrow> uuid \<Rightarrow> uuid \<Rightarrow> decimal \<Rightarrow> settlement_charges \<Rightarrow> datetime \<Rightarrow> settlement" where
  "match_settlement m buy_meta sell_meta settlement_id trade_id gross charges now =
     \<lparr>st_id = settlement_id, st_trade_id = Some trade_id, st_epoch_id = mr_epoch_id m,
      st_buyer_id = mr_buyer_id m, st_seller_id = mr_seller_id m,
      st_buy_order_id = mr_buy_order_id m, st_sell_order_id = mr_sell_order_id m,
      st_energy_amount = mr_match_amount m, st_price = mr_settle_price m,
      st_total_amount = gross, st_fee_amount = ch_fee charges, st_net_amount = ch_net charges,
      st_status = Settle_Pending, st_blockchain_tx = None, st_created_at = now, st_confirmed_at = None,
      st_wheeling_charge = Some (ch_wheeling charges), st_loss_factor = Some (mr_loss_factor m),
      st_loss_cost = Some (ch_loss charges), st_effective_energy = Some (mr_match_amount m),
      st_buyer_zone_id = mr_buyer_zone_id m, st_seller_zone_id = mr_seller_zone_id m,
      st_buyer_session_token = md_session_token buy_meta, st_seller_session_token = md_session_token sell_meta,
      st_erc_certificate_id = None, st_erc_transfer_tx = None, st_retry_count = 0, st_error_message = None\<rparr>"

definition matched_event :: "match_result \<Rightarrow> uuid \<Rightarrow> datetime \<Rightarrow> event" where
  "matched_event m match_id now = OrderMatched
     \<lparr>omp_match_id = match_id, omp_epoch_id = mr_epoch_id m, omp_buy_order_id = mr_buy_order_id m,
      omp_sell_order_id = mr_sell_order_id m, omp_amount = mr_match_amount m, omp_price = mr_settle_price m,
      omp_buyer_id = mr_buyer_id m, omp_seller_id = mr_seller_id m, omp_timestamp = now,
      omp_zone_id = mr_buyer_zone_id m\<rparr>"

definition ledger_match :: "match_result \<Rightarrow> uuid \<Rightarrow> datetime \<Rightarrow> order_match" where
  "ledger_match m match_id now =
     \<lparr>om_id = match_id, om_epoch_id = mr_epoch_id m, om_buy_order_id = mr_buy_order_id m,
      om_sell_order_id = mr_sell_order_id m, om_matched_amount = mr_match_amount m,
      om_match_price = mr_settle_price m, om_match_time = now, om_status = ''pending''\<rparr>"

definition match_fill :: "match_result \<Rightarrow> uuid \<Rightarrow> uuid option \<Rightarrow> zone \<Rightarrow> trade_fill" where
  "match_fill m i owner z = \<lparr>tf_order_id = i, tf_user_id = owner, tf_delta = mr_match_amount m, tf_zone_id = z\<rparr>"

text \<open>One iteration of the loop; both outcomes of the persist are only logged.\<close>

definition persist_match ::
  "dec_ops \<Rightarrow> static_charge_rates \<Rightarrow> order_metadata list \<Rightarrow> order_metadata list
     \<Rightarrow> (uuid \<Rightarrow> (decimal \<times> decimal \<times> uuid) option) \<Rightarrow> match_result \<Rightarrow> unit io" where
  "persist_match D rates buy_metadata sell_metadata totals m =
     (let owner_of = (\<lambda>i. map_option (snd \<circ> snd) (totals i)) in
      and_then (or_panic (if mr_buy_metadata_index m < length buy_metadata
                  then Some (buy_metadata ! mr_buy_metadata_index m) else None)) (\<lambda>buy_meta.
      and_then (or_panic (if mr_sell_metadata_index m < length sell_metadata
                  then Some (sell_metadata ! mr_sell_metadata_index m) else None)) (\<lambda>sell_meta.
      and_then new_v4 (\<lambda>match_id.
      and_then new_v4 (\<lambda>settlement_id.
      and_then (or_panic (dmul D (mr_match_amount m) (mr_settle_price m))) (\<lambda>gross.
      and_then (or_panic (compute_charges D gross (mr_match_amount m) rates)) (\<lambda>charges.
      and_then new_v4 (\<lambda>trade_id.
      and_then telemetry_now (\<lambda>now.
      and_then telemetry_now (\<lambda>event_now.
      and_then telemetry_now (\<lambda>match_now.
      and_then (attempt (db_call (persist_matched_trade
            (match_settlement m buy_meta sell_meta settlement_id trade_id gross charges now)
            (ledger_match m match_id match_now) (matched_event m match_id event_now) (mr_buyer_zone_id m)
            (match_fill m (mr_buy_order_id m) (owner_of (mr_buy_order_id m)) (mr_buyer_zone_id m))
            (match_fill m (mr_sell_order_id m) (owner_of (mr_sell_order_id m)) (mr_seller_zone_id m)))))
        (\<lambda>_. ok ()))))))))))))"

definition persist_matches ::
  "dec_ops \<Rightarrow> static_charge_rates \<Rightarrow> match_result list \<Rightarrow> order_metadata list \<Rightarrow> order_metadata list
     \<Rightarrow> (uuid \<Rightarrow> (decimal \<times> decimal \<times> uuid) option) \<Rightarrow> unit io" where
  "persist_matches D rates matches buy_metadata sell_metadata totals =
     for_each (persist_match D rates buy_metadata sell_metadata totals) matches"

section \<open>Prices and amounts of the conversion\<close>

lemma fp_of_decimal_of:
  assumes "dec_laws D" "0 \<le> d" "fp_of_decimal D d = Some p"
  shows "fp_ok p \<and> 0 \<le> raw p"
proof -
  obtain z where z: "dmul D d (of_int fp_factor) = Some z" and p: "p = FastPrice (i64_clamp (dround D z))"
    using assms(3) by (auto simp: fp_of_decimal_def bind_eq_Some_conv i64_clamp_def i64_min_def i64_max_def Let_def split: if_splits)
  let ?x = "d * of_int fp_factor"
  have x: "0 \<le> ?x" using assms(2) by (simp add: fp_factor_def)
  have "\<bar>z - ?x\<bar> \<le> (?x + 1) / 10 ^ 27" using dmul_near[OF assms(1) z] x by simp
  moreover have "(?x + 1) / 10 ^ 27 \<le> ?x + 1 / 10 ^ 27" using x by (simp add: field_simps)
  ultimately have "- (1 / 10 ^ 27) \<le> z" by linarith
  moreover have "\<bar>of_int (dround D z) - z\<bar> \<le> 1 / 2" by (rule dround_near[OF assms(1)])
  moreover have "(1 :: rat) / 10 ^ 27 \<le> 1 / 4" by simp
  ultimately have "(- 1 :: rat) < of_int (dround D z)" unfolding abs_le_iff by linarith
  then have "0 \<le> dround D z" by linarith
  then show ?thesis unfolding p by (auto simp: fp_ok_def i64_clamp_def i64_ok_def i64_max_def i64_min_def)
qed

lemma those_nth: "those xs = Some ys \<Longrightarrow> length ys = length xs \<and> (\<forall>k<length xs. xs ! k = Some (ys ! k))"
proof (induction xs arbitrary: ys)
  case (Cons x xs)
  then obtain y zs where "x = Some y" "those xs = Some zs" "ys = y # zs" by (auto split: option.splits)
  then show ?case using Cons.IH[of zs] by (auto simp: nth_Cons split: nat.split)
qed simp

lemma to_fast_orders_nth:
  assumes "to_fast_orders D orders = Some (fast, meta)"
  defines "kept \<equiv> filter (\<lambda>o'. ord_epoch_id o' \<noteq> None) orders"
  shows "length fast = length kept" "meta = map order_meta kept"
    and "k < length kept \<Longrightarrow> fast_order_of D (k, kept ! k) = Some (fast ! k)"
proof -
  have t: "those (map (fast_order_of D) (List.enumerate 0 kept)) = Some fast" "meta = map order_meta kept"
    using assms(1) unfolding kept_def to_fast_orders_def by (auto simp: Let_def bind_eq_Some_conv)
  note n = those_nth[OF t(1)]
  show "length fast = length kept" "meta = map order_meta kept" using n t(2) by simp_all
  show "k < length kept \<Longrightarrow> fast_order_of D (k, kept ! k) = Some (fast ! k)"
    using n by (simp add: nth_enumerate_eq)
qed

section \<open>What booking a batch does\<close>

text \<open>The tables that booking concerns are unchanged.\<close>

definition same_books :: "store \<Rightarrow> store \<Rightarrow> bool" where
  "same_books s s' \<longleftrightarrow> db_orders s' = db_orders s \<and> db_settlements s' = db_settlements s"

lemma same_books_refl [simp]: "same_books s s"
  by (simp add: same_books_def)

lemma keeps_same_new_v4: "keeps (stores (same_books s0)) new_v4"
  by (rule keeps_new_v4) (simp add: same_books_def)

text \<open>One match was booked.\<close>

definition booked_match :: "match_result \<Rightarrow> store \<Rightarrow> store \<Rightarrow> bool" where
  "booked_match m s0 s' \<longleftrightarrow> (\<exists>st lm ev z buyer seller now s.
     same_books s0 s \<and> persist_matched_trade st lm ev z buyer seller now s = Inr (True, s') \<and>
     tf_order_id buyer = mr_buy_order_id m \<and> tf_order_id seller = mr_sell_order_id m \<and>
     tf_delta buyer = mr_match_amount m \<and> tf_delta seller = mr_match_amount m \<and>
     st_buy_order_id st = mr_buy_order_id m \<and> st_sell_order_id st = mr_sell_order_id m \<and>
     st_energy_amount st = mr_match_amount m)"

lemma triple_prelim:
  assumes "keeps P m" "\<And>x. triple P (k x) Q" "\<And>e w. P w \<Longrightarrow> Q (Inl e) w"
  shows "triple P (and_then m k) Q"
  by (rule triple_and_then[where R = "\<lambda>_. P"])
    (use assms in \<open>auto simp: triple_def keeps_def split: sum.split\<close>)

text \<open>A first step that only reads: from a known store, what it hands on is known.\<close>

lemma triple_first:
  assumes "\<And>w. P w \<Longrightarrow> P (snd (m w)) \<and> (\<forall>x. fst (m w) = Inr x \<longrightarrow> F x)"
    and "\<And>x. F x \<Longrightarrow> triple P (k x) (\<lambda>r. Q)" and "\<And>w. P w \<Longrightarrow> Q w"
  shows "triple P (and_then m k) (\<lambda>r. Q)"
  by (rule triple_and_then[where R = "\<lambda>x w. P w \<and> F x"])
    (use assms in \<open>auto simp: triple_def split: sum.split\<close>)

lemma triple_read:
  assumes "\<And>now. triple (\<lambda>w. w_store w = s0) (k (f now s0)) (\<lambda>r. Q)" "\<And>w. w_store w = s0 \<Longrightarrow> Q w"
  shows "triple (\<lambda>w. w_store w = s0) (and_then (db_read f) k) (\<lambda>r. Q)"
  by (rule triple_first[where F = "\<lambda>x. \<exists>now. x = f now s0"])
    (use assms in \<open>auto simp: db_read_def db_call_def split: list.splits bool.splits\<close>)

lemma triple_panic:
  assumes "\<And>y. x = Some y \<Longrightarrow> triple P (k y) (\<lambda>r. Q)" "\<And>w. P w \<Longrightarrow> Q w"
  shows "triple P (and_then (or_panic x) k) (\<lambda>r. Q)"
  by (rule triple_first[where F = "\<lambda>y. x = Some y"])
    (use assms in \<open>auto simp: or_panic_def split: option.splits\<close>)

lemma triple_clock:
  assumes "\<And>now. triple P (k now) (\<lambda>r. Q)" "\<And>w. P w \<Longrightarrow> Q w"
  shows "triple P (and_then telemetry_now k) (\<lambda>r. Q)"
  by (rule triple_first[where F = "\<lambda>_. True"]) (use assms in \<open>auto simp: telemetry_now_def\<close>)

lemma triple_persist_match:
  "triple (stores (same_books s0)) (persist_match D rates bm sm totals m)
     (\<lambda>r w. same_books s0 (w_store w) \<or> booked_match m s0 (w_store w))"
proof -
  let ?Q = "\<lambda>r w. same_books s0 (w_store w) \<or> booked_match m s0 (w_store w)"
  have Q: "stores (same_books s0) w \<Longrightarrow> ?Q (Inl e) w" for e w by (simp add: stores_def)
  have call: "triple (stores (same_books s0))
      (and_then (attempt (db_call (persist_matched_trade (match_settlement m b s i t g c now) (ledger_match m j now')
         (matched_event m j now'') (mr_buyer_zone_id m) (match_fill m (mr_buy_order_id m) ob (mr_buyer_zone_id m))
         (match_fill m (mr_sell_order_id m) os (mr_seller_zone_id m))))) (\<lambda>_. ok ())) ?Q"
    for b s i t g c now j now' now'' ob os
    unfolding triple_def
  proof (intro allI impI)
    fix w assume w: "stores (same_books s0) w"
    let ?f = "persist_matched_trade (match_settlement m b s i t g c now) (ledger_match m j now')
         (matched_event m j now'') (mr_buyer_zone_id m) (match_fill m (mr_buy_order_id m) ob (mr_buyer_zone_id m))
         (match_fill m (mr_sell_order_id m) os (mr_seller_zone_id m))"
    have "w_store (snd (db_call ?f w)) = w_store w \<or> (\<exists>x. ?f (w_db_now w) (w_store w) = Inr (x, w_store (snd (db_call ?f w))))"
      by (auto simp: db_call_def split: list.split bool.split sum.split)
    moreover have "same_books s0 s' \<or> booked_match m s0 s'" if "?f (w_db_now w) (w_store w) = Inr (x, s')" for x s'
    proof (cases x)
      case True
      then have "booked_match m s0 s'" unfolding booked_match_def
        using w that by (intro exI conjI) (auto simp: stores_def match_settlement_def match_fill_def)
      then show ?thesis by simp
    next
      case False
      then have "s' = w_store w" using that persist_False by simp
      then show ?thesis using w by (simp add: stores_def)
    qed
    ultimately have "?Q r (snd (db_call ?f w))" for r using w by (auto simp: stores_def)
    moreover have "snd (and_then (attempt (db_call ?f)) (\<lambda>_. ok ()) w) = snd (db_call ?f w)"
      by (simp add: and_then_def attempt_def ok_def split: prod.split sum.split failure.split)
    ultimately show "?Q (fst (and_then (attempt (db_call ?f)) (\<lambda>_. ok ()) w)) (snd (and_then (attempt (db_call ?f)) (\<lambda>_. ok ()) w))"
      by simp
  qed
  note v4 = keeps_same_new_v4
  show ?thesis unfolding persist_match_def Let_def
    by (intro triple_prelim[OF keeps_or_panic _ Q] triple_prelim[OF v4 _ Q] triple_prelim[OF keeps_telemetry_now _ Q] call)
qed

text \<open>An invariant of the books that every booked match of the batch keeps.\<close>

lemma persist_matches_invariant:
  assumes same: "\<And>A s s'. I A s \<Longrightarrow> same_books s s' \<Longrightarrow> I A s'"
    and skip: "\<And>A m s. I A s \<Longrightarrow> m \<in> set ms \<Longrightarrow> I (A @ [m]) s"
    and step: "\<And>A m s s'. I A s \<Longrightarrow> m \<in> set ms \<Longrightarrow> booked_match m s s' \<Longrightarrow> I (A @ [m]) s'"
    and final: "\<And>pre post s. ms = pre @ post \<Longrightarrow> I pre s \<Longrightarrow> I ms s"
  shows "triple (stores (I [])) (persist_matches D rates ms bm sm totals) (\<lambda>r. stores (I ms))"
  unfolding persist_matches_def
proof (rule triple_for_each[where P = "\<lambda>pre. stores (I pre)"])
  fix pre x post assume ms: "ms = pre @ x # post"
  then have x: "x \<in> set ms" by simp
  show "triple (stores (I pre)) (persist_match D rates bm sm totals x)
      (\<lambda>r w. case r of Inl e \<Rightarrow> stores (I ms) w | Inr _ \<Rightarrow> stores (I (pre @ [x])) w)"
    unfolding triple_def
  proof (intro allI impI)
    fix w assume w: "stores (I pre) w"
    let ?w = "snd (persist_match D rates bm sm totals x w)"
    have "same_books (w_store w) (w_store ?w) \<or> booked_match x (w_store w) (w_store ?w)"
      using triple_persist_match[of "w_store w" D rates bm sm totals x] by (simp add: triple_def stores_def)
    then have "I (pre @ [x]) (w_store ?w)"
      using same skip[OF _ x] step[OF _ x] w unfolding stores_def by blast
    moreover have "I ms (w_store ?w)" by (rule final[OF _ calculation]) (simp add: ms)
    ultimately show "case fst (persist_match D rates bm sm totals x w) of
        Inl e \<Rightarrow> stores (I ms) ?w | Inr _ \<Rightarrow> stores (I (pre @ [x])) ?w"
      by (simp add: stores_def split: sum.split)
  qed
qed simp

text \<open>Every fill stays backed by settlements.\<close>

definition clean_match :: "match_result \<Rightarrow> bool" where
  "clean_match m \<longleftrightarrow> mr_buy_order_id m \<noteq> mr_sell_order_id m \<and> grid8 (mr_match_amount m) \<and> 0 \<le> mr_match_amount m"

lemma fills_backed_same: "same_books s s' \<Longrightarrow> fills_backed s \<Longrightarrow> fills_backed s'"
  unfolding fills_backed_def same_books_def booked_def by metis

lemma fills_backed_booked: "booked_match m s s' \<Longrightarrow> clean_match m \<Longrightarrow> fills_backed s \<Longrightarrow> fills_backed s'"
  unfolding booked_match_def clean_match_def by (elim exE conjE) (erule persist_backed[OF fills_backed_same], auto)

lemma triple_matches_backed:
  assumes "list_all clean_match ms"
  shows "triple (stores fills_backed) (persist_matches D rates ms bm sm totals) (\<lambda>r. stores fills_backed)"
  by (rule persist_matches_invariant[where I = "\<lambda>_. fills_backed"])
    (use assms in \<open>auto simp: list_all_iff intro: fills_backed_same fills_backed_booked\<close>)

text \<open>No order gains more than the matches that name it.\<close>

definition names :: "uuid \<Rightarrow> match_result \<Rightarrow> bool" where
  "names i m \<longleftrightarrow> mr_buy_order_id m = i \<or> mr_sell_order_id m = i"

definition gained :: "store \<Rightarrow> match_result list \<Rightarrow> store \<Rightarrow> bool" where
  "gained s0 A s \<longleftrightarrow> distinct (map odb_id (db_orders s)) \<and> (\<forall>r\<in>set (db_orders s). grid8 (filled_of r)) \<and>
     list_all2 (\<lambda>r r'. odb_id r' = odb_id r \<and> filled_of r' \<le> filled_of r + amounts (filter (names (odb_id r)) A))
       (db_orders s0) (db_orders s)"

lemma gained_step:
  assumes "gained s0 A s" "booked_match m s s'" "clean_match m"
  shows "gained s0 (A @ [m]) s'"
proof -
  obtain st lm ev z buyer seller now s1 where b: "same_books s s1"
    "persist_matched_trade st lm ev z buyer seller now s1 = Inr (True, s')"
    "tf_order_id buyer = mr_buy_order_id m" "tf_order_id seller = mr_sell_order_id m"
    "tf_delta buyer = mr_match_amount m" "tf_delta seller = mr_match_amount m"
    using assms(2) unfolding booked_match_def by blast
  have s1: "distinct (map odb_id (db_orders s1))" "\<And>r. r \<in> set (db_orders s1) \<Longrightarrow> grid8 (filled_of r)" "db_orders s1 = db_orders s"
    using assms(1) b(1) by (auto simp: gained_def same_books_def)
  have m: "mr_buy_order_id m \<noteq> mr_sell_order_id m" "grid8 (mr_match_amount m)" using assms(3) by (auto simp: clean_match_def)
  note a = persist_adds[OF s1(1,2) b(2-4) m(1) b(5,6) m(2)]
  have "list_all2 (\<lambda>r r'. odb_id r' = odb_id r \<and> filled_of r' \<le> filled_of r + amounts (filter (names (odb_id r)) (A @ [m])))
      (db_orders s0) (db_orders s')"
  proof (rule list_all2_trans)
    show "list_all2 (\<lambda>r r'. odb_id r' = odb_id r \<and> filled_of r' \<le> filled_of r + amounts (filter (names (odb_id r)) A))
        (db_orders s0) (db_orders s)" using assms(1) by (simp add: gained_def)
    show "list_all2 (trade_adds (mr_buy_order_id m) (mr_sell_order_id m) (mr_match_amount m)) (db_orders s) (db_orders s')"
      using a(1) by (simp add: s1(3))
  qed (auto simp: trade_adds_def names_def)
  then show ?thesis using a(2,3) s1(1) by (simp add: gained_def)
qed

lemma amounts_nonneg: "list_all (\<lambda>m. 0 \<le> mr_match_amount m) ms \<Longrightarrow> 0 \<le> amounts ms"
  by (induction ms) simp_all

lemma amounts_filter_append:
  "list_all clean_match ms \<Longrightarrow> amounts (filter P A) \<le> amounts (filter P (A @ ms))"
  by (simp add: amounts_nonneg list_all_iff clean_match_def)

lemma gained_mono:
  assumes "gained s0 A s" "list_all clean_match B"
  shows "gained s0 (A @ B) s"
  unfolding gained_def
proof (intro conjI)
  show "list_all2 (\<lambda>r r'. odb_id r' = odb_id r \<and> filled_of r' \<le> filled_of r + amounts (filter (names (odb_id r)) (A @ B)))
      (db_orders s0) (db_orders s)"
  proof (rule list_all2_mono)
    show "list_all2 (\<lambda>r r'. odb_id r' = odb_id r \<and> filled_of r' \<le> filled_of r + amounts (filter (names (odb_id r)) A))
        (db_orders s0) (db_orders s)" using assms(1) by (simp add: gained_def)
    fix r r' :: order_row assume "odb_id r' = odb_id r \<and> filled_of r' \<le> filled_of r + amounts (filter (names (odb_id r)) A)"
    then show "odb_id r' = odb_id r \<and> filled_of r' \<le> filled_of r + amounts (filter (names (odb_id r)) (A @ B))"
      using amounts_filter_append[OF assms(2), of "names (odb_id r)" A] by linarith
  qed
qed (use assms(1) in \<open>auto simp: gained_def\<close>)

lemma gained_same: "gained s0 A s \<Longrightarrow> same_books s s' \<Longrightarrow> gained s0 A s'"
  by (simp add: gained_def same_books_def)

lemma triple_matches_gained:
  assumes "list_all clean_match ms"
  shows "triple (stores (gained s0 [])) (persist_matches D rates ms bm sm totals) (\<lambda>r. stores (gained s0 ms))"
proof (rule persist_matches_invariant[where I = "gained s0"])
  fix pre post s assume "ms = pre @ post" "gained s0 pre s"
  then show "gained s0 ms s" using assms gained_mono[of s0 pre s post] by simp
qed (use assms in \<open>auto simp: list_all_iff intro: gained_same gained_step gained_mono[where B = "[_]"]\<close>)

end
