(* ===== verification/Book_Soundness.thy ===== *)
theory Book_Soundness imports Match_Booking begin

text \<open>
  What the two services that match orders share: the orders handed to an engine stand for rows of
  the database, and booking what an engine reports leaves every row within its energy.
\<close>

section \<open>The orders the engine is given\<close>

lemma fast_order_fields:
  assumes "fast_order_of D (i, o') = Some fo"
  shows "fo_id fo = ord_id o'" "fo_user_id fo = ord_user_id o'" "fo_energy_amount fo = ord_energy_amount o'"
    "fo_filled_amount fo = ord_filled_amount o'" "fo_zone_id fo = ord_zone_id o'"
    "fo_time_in_force fo = ord_time_in_force o'" "fp_of_decimal D (ord_price_per_kwh o') = Some (fo_price fo)"
    "i64_ok (fo_created_at_ns fo)"
  using assms by (auto simp: fast_order_of_def bind_eq_Some_conv nanos_def i64_ok_def i64_min_def i64_max_def split: option.splits)

lemma to_fast_orders_mem:
  assumes "to_fast_orders D orders = Some (fast, meta)" "fo \<in> set fast"
  obtains o' i where "o' \<in> set orders" "fast_order_of D (i, o') = Some fo"
proof -
  obtain k where k: "k < length fast" "fo = fast ! k" using assms(2) by (auto simp: in_set_conv_nth)
  let ?kept = "filter (\<lambda>o'. ord_epoch_id o' \<noteq> None) orders"
  have len: "k < length ?kept" using k(1) to_fast_orders_nth(1)[OF assms(1)] by simp
  have "?kept ! k \<in> set ?kept" by (rule nth_mem[OF len])
  then show thesis using that[of "?kept ! k" k] to_fast_orders_nth(3)[OF assms(1) len] k(2) by auto
qed

lemma to_fast_orders_ids:
  assumes "to_fast_orders D orders = Some (fast, meta)"
  shows "map fo_id fast = map ord_id (filter (\<lambda>o'. ord_epoch_id o' \<noteq> None) orders)"
proof (rule nth_equalityI)
  show "length (map fo_id fast) = length (map ord_id (filter (\<lambda>o'. ord_epoch_id o' \<noteq> None) orders))"
    using to_fast_orders_nth(1)[OF assms] by simp
  fix k assume "k < length (map fo_id fast)"
  then show "map fo_id fast ! k = map ord_id (filter (\<lambda>o'. ord_epoch_id o' \<noteq> None) orders) ! k"
    using to_fast_orders_nth(1)[OF assms] fast_order_fields(1)[OF to_fast_orders_nth(3)[OF assms, of k]] by simp
qed

section \<open>Amounts on the database's grid\<close>

lemma grid8_diff: "grid8 x \<Longrightarrow> grid8 y \<Longrightarrow> grid8 (x - y)"
  unfolding grid8_def by (metis diff_divide_distrib of_int_diff)

lemma grid8_min: "grid8 x \<Longrightarrow> grid8 y \<Longrightarrow> grid8 (min x y)"
  by (simp add: min_def)

section \<open>The book and the engine\<close>

definition book_sound :: "store \<Rightarrow> bool" where
  "book_sound s \<longleftrightarrow> distinct (map odb_id (db_orders s)) \<and>
     (\<forall>r\<in>set (db_orders s). 0 \<le> odb_price_per_kwh r \<and> grid8 (filled_of r) \<and> grid8 (odb_energy_amount r) \<and>
        filled_of r \<le> odb_energy_amount r)"

text \<open>An engine order stands for its row.\<close>

definition stands_for :: "order_row \<Rightarrow> fast_order \<Rightarrow> bool" where
  "stands_for r fo \<longleftrightarrow> fo_id fo = odb_id r \<and> fo_energy_amount fo = odb_energy_amount r \<and>
     fo_filled_amount fo = filled_of r \<and> fo_time_in_force fo = odb_time_in_force r"

lemma order_of_row_fields:
  "ord_id (order_of_row r) = odb_id r" "ord_energy_amount (order_of_row r) = odb_energy_amount r"
  "ord_filled_amount (order_of_row r) = filled_of r" "ord_time_in_force (order_of_row r) = odb_time_in_force r" "ord_price_per_kwh (order_of_row r) = odb_price_per_kwh r"
  by (simp_all add: order_of_row_def filled_of_def)

lemma fast_stands:
  assumes "to_fast_orders D (map order_of_row rs) = Some (fast, meta)" "fo \<in> set fast"
  obtains r where "r \<in> set rs" "stands_for r fo" "fp_of_decimal D (odb_price_per_kwh r) = Some (fo_price fo)"
    "i64_ok (fo_created_at_ns fo)"
proof -
  obtain o' i where o': "o' \<in> set (map order_of_row rs)" "fast_order_of D (i, o') = Some fo"
    using assms by (rule to_fast_orders_mem)
  then obtain r where "r \<in> set rs" "o' = order_of_row r" by auto
  then show thesis using that[of r] fast_order_fields[OF o'(2)] by (simp add: order_of_row_fields stands_for_def)
qed

lemma fast_stands_row:
  assumes "to_fast_orders D (map order_of_row (filter P rs)) = Some (fast, meta)" "fo \<in> set fast"
  shows "\<exists>r\<in>set rs. P r \<and> stands_for r fo"
  using assms by (rule fast_stands) auto

lemma fast_asks_ok:
  assumes "dec_laws D" "to_fast_orders D (map order_of_row rs) = Some (fast, meta)"
    and "\<And>r. r \<in> set rs \<Longrightarrow> 0 \<le> odb_price_per_kwh r"
  shows "asks_ok fast"
  unfolding asks_ok_def
proof
  fix fo assume "fo \<in> set fast"
  then obtain r where r: "r \<in> set rs" "fp_of_decimal D (odb_price_per_kwh r) = Some (fo_price fo)"
    "i64_ok (fo_created_at_ns fo)" using assms(2) fast_stands by metis
  then show "fp_ok (fo_price fo) \<and> 0 \<le> raw (fo_price fo) \<and> i64_ok (fo_created_at_ns fo)"
    using fp_of_decimal_of[OF assms(1) assms(3)[OF r(1)] r(2)] by simp
qed

lemma stands_nth:
  assumes "to_fast_orders D (map order_of_row rs) = Some (fast, meta)" "distinct (map odb_id rs)"
  shows "distinct (map fo_id fast)"
  unfolding to_fast_orders_ids[OF assms(1)] using assms(2)
  by (auto simp: distinct_map filter_map comp_def order_of_row_fields intro: inj_on_subset)

section \<open>What an engine reports, measured against the book\<close>

text \<open>The engines are given orders that stand for rows of either side, and report matches between
  them, each counted on both of its orders, that leave no order overfilled.\<close>

lemma engine_of_book:
  assumes s: "book_sound s"
    and Bs: "\<And>fo. fo \<in> set buys \<Longrightarrow> \<exists>r\<in>set (db_orders s). odb_side r = Buy \<and> stands_for r fo"
    and Ls: "\<And>fo. fo \<in> set sells \<Longrightarrow> \<exists>r\<in>set (db_orders s). odb_side r = Sell \<and> stands_for r fo"
    and ms: "\<And>m. m \<in> set ms \<Longrightarrow> \<exists>b\<in>set buys. \<exists>x\<in>set sells. mr_buy_order_id m = fo_id b \<and> mr_sell_order_id m = fo_id x \<and>
        min_trade_amount \<le> mr_match_amount m \<and> grid8 (mr_match_amount m)"
    and outb: "\<And>b. b \<in> set buys \<Longrightarrow> add_fill (amounts (filter (\<lambda>r. mr_buy_order_id r = fo_id b) ms)) b \<in> set outs"
    and outs: "\<And>x. x \<in> set sells \<Longrightarrow> add_fill (amounts (filter (\<lambda>r. mr_sell_order_id r = fo_id x) ms)) x \<in> set outs"
    and cap: "\<And>fo. fo \<in> set outs \<Longrightarrow> fo_filled_amount fo \<le> fo_energy_amount fo"
  shows "list_all clean_match ms"
    and "\<And>r. r \<in> set (db_orders s) \<Longrightarrow> filled_of r + amounts (filter (names (odb_id r)) ms) \<le> odb_energy_amount r"
proof -
  have rows: "distinct (map odb_id (db_orders s))"
    "\<And>r. r \<in> set (db_orders s) \<Longrightarrow> filled_of r \<le> odb_energy_amount r" using s by (auto simp: book_sound_def)
  have same: "r = q" if "r \<in> set (db_orders s)" "q \<in> set (db_orders s)" "odb_id r = odb_id q" for r q
    using rows(1) that unfolding distinct_map by (metis inj_onD)
  have party: "\<exists>rb\<in>set (db_orders s). \<exists>rl\<in>set (db_orders s). odb_side rb = Buy \<and> odb_side rl = Sell \<and>
      mr_buy_order_id m = odb_id rb \<and> mr_sell_order_id m = odb_id rl" if m: "m \<in> set ms" for m
  proof -
    obtain b x where bx: "b \<in> set buys" "x \<in> set sells" "mr_buy_order_id m = fo_id b" "mr_sell_order_id m = fo_id x"
      using ms[OF m] by (elim bexE conjE)
    obtain rb rl where "rb \<in> set (db_orders s)" "odb_side rb = Buy" "stands_for rb b"
      "rl \<in> set (db_orders s)" "odb_side rl = Sell" "stands_for rl x"
      using Bs[OF bx(1)] Ls[OF bx(2)] by (elim bexE conjE)
    then show ?thesis using bx by (intro bexI[of _ rb] bexI[of _ rl]) (simp_all add: stands_for_def)
  qed
  have differ: "odb_id rb \<noteq> odb_id rl" if "rb \<in> set (db_orders s)" "rl \<in> set (db_orders s)" "odb_side rb = Buy" "odb_side rl = Sell" for rb rl
    using that same[of rb rl] by auto
  show "list_all clean_match ms"
    unfolding list_all_iff
  proof
    fix m assume m: "m \<in> set ms"
    obtain rb rl where "rb \<in> set (db_orders s)" "rl \<in> set (db_orders s)" "odb_side rb = Buy" "odb_side rl = Sell"
      "mr_buy_order_id m = odb_id rb" "mr_sell_order_id m = odb_id rl" using party[OF m] by (elim bexE conjE)
    moreover have "min_trade_amount \<le> mr_match_amount m" "grid8 (mr_match_amount m)" using ms[OF m] by blast+
    ultimately show "clean_match m" using differ by (simp add: clean_match_def min_trade_amount_def)
  qed
  have bought: "filter (names (odb_id r)) ms = filter (\<lambda>m. mr_buy_order_id m = odb_id r) ms"
    if "r \<in> set (db_orders s)" "odb_side r = Buy" for r
  proof (rule filter_cong[OF refl])
    fix m assume m: "m \<in> set ms"
    obtain rl where rl: "rl \<in> set (db_orders s)" "odb_side rl = Sell" "mr_sell_order_id m = odb_id rl"
      using party[OF m] by (elim bexE conjE)
    show "names (odb_id r) m = (mr_buy_order_id m = odb_id r)"
      using differ[OF that(1) rl(1) that(2) rl(2)] by (simp add: names_def rl(3) eq_commute)
  qed
  have sold: "filter (names (odb_id r)) ms = filter (\<lambda>m. mr_sell_order_id m = odb_id r) ms"
    if "r \<in> set (db_orders s)" "odb_side r = Sell" for r
  proof (rule filter_cong[OF refl])
    fix m assume m: "m \<in> set ms"
    obtain rb where rb: "rb \<in> set (db_orders s)" "odb_side rb = Buy" "mr_buy_order_id m = odb_id rb"
      using party[OF m] by (elim bexE conjE)
    show "names (odb_id r) m = (mr_sell_order_id m = odb_id r)"
      using differ[OF rb(1) that(1) rb(2) that(2)] by (simp add: names_def rb(3) eq_commute)
  qed
  show "filled_of r + amounts (filter (names (odb_id r)) ms) \<le> odb_energy_amount r" if r: "r \<in> set (db_orders s)" for r
  proof (cases "\<exists>m\<in>set ms. names (odb_id r) m")
    case False
    then have "filter (names (odb_id r)) ms = []" by (simp add: filter_empty_conv)
    then show ?thesis using rows(2)[OF r] by simp
  next
    case True
    then obtain m where m: "m \<in> set ms" "names (odb_id r) m" by blast
    then consider "mr_buy_order_id m = odb_id r" | "mr_sell_order_id m = odb_id r" by (auto simp: names_def)
    then show ?thesis
    proof cases
      case 1
      obtain fo where fo: "fo \<in> set buys" "fo_id fo = odb_id r" using ms[OF m(1)] 1 by metis
      obtain q where q: "q \<in> set (db_orders s)" "odb_side q = Buy" "stands_for q fo" using Bs[OF fo(1)] by blast
      have [simp]: "q = r" using same[of q r] q r fo(2) by (simp add: stands_for_def)
      from cap[OF outb[OF fo(1)]] show ?thesis using bought[of r] q fo(2) by (simp add: add_fill_def stands_for_def)
    next
      case 2
      obtain fo where fo: "fo \<in> set sells" "fo_id fo = odb_id r" using ms[OF m(1)] 2 by metis
      obtain q where q: "q \<in> set (db_orders s)" "odb_side q = Sell" "stands_for q fo" using Ls[OF fo(1)] by blast
      have [simp]: "q = r" using same[of q r] q r fo(2) by (simp add: stands_for_def)
      from cap[OF outs[OF fo(1)]] show ?thesis using sold[of r] q fo(2) by (simp add: add_fill_def stands_for_def)
    qed
  qed
qed

text \<open>The book after the persist stage, and after the remainders were cancelled.\<close>

definition booked_from :: "store \<Rightarrow> store \<Rightarrow> bool" where
  "booked_from s0 s \<longleftrightarrow> book_moves s0 s \<and> book_sound s"

lemma keeps_persist_book: "keeps (stores (book_moves s0)) (persist_matches D rates ms bm sm totals)"
  unfolding persist_matches_def persist_match_def Let_def
  by (intro keeps_intros trade_persist.call keeps_new_v4; erule book_moves_trans) (simp_all add: book_moves_same)

lemma gained_rows: "gained s0 A s \<Longrightarrow> list_all2 (\<lambda>r r'. odb_id r' = odb_id r \<and>
    filled_of r' \<le> filled_of r + amounts (filter (names (odb_id r)) A)) (db_orders s0) (db_orders s)"
  by (simp add: gained_def)

lemma gained_booked_from:
  assumes s0: "book_sound s0" and g: "gained s0 ms s" and mv: "book_moves s0 s"
    and cap: "\<And>r. r \<in> set (db_orders s0) \<Longrightarrow> filled_of r + amounts (filter (names (odb_id r)) ms) \<le> odb_energy_amount r"
  shows "booked_from s0 s"
proof -
  have d: "distinct (map odb_id (db_orders s))" using g by (simp add: gained_def)
  have "0 \<le> odb_price_per_kwh r \<and> grid8 (filled_of r) \<and> grid8 (odb_energy_amount r) \<and> filled_of r \<le> odb_energy_amount r"
    if r: "r \<in> set (db_orders s)" for r
  proof -
    obtain r0 where r0: "r0 \<in> set (db_orders s0)" "odb_id r = odb_id r0"
      "filled_of r \<le> filled_of r0 + amounts (filter (names (odb_id r0)) ms)"
      using list_all2_origin[OF gained_rows[OF g] r] by (elim bexE conjE)
    obtain q where q: "q \<in> set (db_orders s)" "guarded r0 q" using mv r0(1) by (rule book_moves_row)
    have "odb_id q = odb_id r" using q(2) r0(2) by (simp add: guarded_def)
    then have "q = r" using d q(1) r unfolding distinct_map by (metis inj_onD)
    then have "odb_energy_amount r = odb_energy_amount r0" "odb_price_per_kwh r = odb_price_per_kwh r0"
      using q(2) by (auto simp: guarded_def)
    then show ?thesis using s0 r0 cap[OF r0(1)] g r by (auto simp: book_sound_def gained_def)
  qed
  then show ?thesis using d mv by (simp add: booked_from_def book_sound_def)
qed

lemma triple_persist_sound:
  assumes s0: "book_sound s0" and clean: "list_all clean_match ms"
    and cap: "\<And>r. r \<in> set (db_orders s0) \<Longrightarrow> filled_of r + amounts (filter (names (odb_id r)) ms) \<le> odb_energy_amount r"
  shows "triple (\<lambda>w. w_store w = s0) (persist_matches D rates ms bm sm totals) (\<lambda>r. stores (booked_from s0))"
  unfolding triple_def
proof (intro allI impI)
  fix w :: world assume w: "w_store w = s0"
  let ?w = "snd (persist_matches D rates ms bm sm totals w)"
  have "gained s0 [] s0" using s0 by (auto simp: gained_def book_sound_def list_all2_same)
  then have "gained s0 ms (w_store ?w)"
    using triple_matches_gained[OF clean, of s0 D rates bm sm totals] w by (simp add: triple_def stores_def)
  moreover have "book_moves s0 (w_store ?w)"
    using keeps_persist_book[of s0 D rates ms bm sm totals] w book_moves_same[of s0 s0]
    by (simp add: keeps_def stores_def)
  ultimately show "stores (booked_from s0) ?w" using gained_booked_from[OF s0 _ _ cap] by (simp add: stores_def)
qed

lemma triple_keeps: "keeps P m \<Longrightarrow> triple P m (\<lambda>r. P)"
  by (simp add: triple_def keeps_def)

end
