(* ===== verification/Matcher_Service.thy ===== *)
theory Matcher_Service imports Book_Soundness begin

text \<open>
  \<open>trading-logic/src/matcher_service.rs\<close>: one matching cycle over the database.  The open realtime
  orders are read and converted, matched by the engine, every match is booked atomically, and the
  remainders of immediate-or-cancel orders are cancelled.
\<close>

section \<open>The cycle\<close>

definition cancel_one :: "uuid list \<Rightarrow> fast_order \<Rightarrow> unit io" where
  "cancel_one cancellations fo =
     (if fo_id fo \<notin> set cancellations then ok ()
      else db_call (update_filled_amount_with_event (fo_id fo) (fo_filled_amount fo) Order_Cancelled
             (OrderUpdate (fo_id fo) (Some (fo_user_id fo)) (fo_filled_amount fo)
                (order_status_str Order_Cancelled) (fo_zone_id fo))))"

definition cancel_ioc_remainders :: "cycle_stats \<Rightarrow> fast_order list \<Rightarrow> fast_order list \<Rightarrow> unit io" where
  "cancel_ioc_remainders stats fast_buys fast_sells =
     (if cs_ioc_cancellations stats = [] then ok ()
      else for_each (cancel_one (cs_ioc_cancellations stats)) (fast_buys @ fast_sells))"

definition realtime :: "trading_order list \<Rightarrow> trading_order list" where
  "realtime = filter (\<lambda>o'. ord_market_segment o' = Realtime)"

definition run_matching_cycle :: "dec_ops \<Rightarrow> topology \<Rightarrow> static_charge_rates \<Rightarrow> nat io" where
  "run_matching_cycle D topo rates =
     and_then (db_read (\<lambda>_ s. realtime (get_active_buy_orders s))) (\<lambda>buy_orders.
     and_then (db_read (\<lambda>_ s. realtime (get_active_sell_orders s))) (\<lambda>sell_orders.
     if buy_orders = [] \<and> sell_orders = [] then ok 0 else
     and_then (or_panic (to_fast_orders D buy_orders)) (\<lambda>(fast_buys, buy_metadata).
     and_then (or_panic (to_fast_orders D sell_orders)) (\<lambda>(fast_sells, sell_metadata).
     and_then telemetry_now (\<lambda>now.
     and_then (or_panic (Option.bind (fp_of_decimal D 1) (\<lambda>mult.
         match_cycle D fast_buys fast_sells buy_metadata topo mult (nanos now)))) (\<lambda>out.
     and_then (if co_results out = [] then ok ()
               else persist_matches D rates (co_results out) buy_metadata sell_metadata
                      (order_totals buy_orders sell_orders)) (\<lambda>_.
     and_then (cancel_ioc_remainders (co_stats out) (co_buys out) (co_sells out)) (\<lambda>_.
     ok (length (co_results out))))))))))"

section \<open>Amounts on the database's grid\<close>

abbreviation grid_sells :: "cycle_state \<Rightarrow> bool" where
  "grid_sells s \<equiv> \<forall>x\<in>set (cy_sells s). grid8 (remaining_amount x)"

lemma fills_grid:
  assumes "fills env buy s tr buy' s'" "grid8 (remaining_amount buy)" "grid_sells s"
  shows "list_all (\<lambda>r. grid8 (mr_match_amount r)) (map snd tr) \<and> grid_sells s'"
  using assms
proof (induction rule: fills.induct)
  case (fills_Cons buy s c r buy1 s1 tr buy2 s2)
  note i = fill_ok_amount(3)[OF fills_Cons(1)]
  have a: "grid8 (mr_match_amount r)"
    using fill_ok_amount(1)[OF fills_Cons(1)] fills_Cons(5,6) i by (simp add: grid8_min)
  have "grid8 (remaining_amount buy1)"
    using sells_commit(2)[OF fills_Cons(2)] fills_Cons(5) a by (simp add: grid8_diff)
  moreover have "grid_sells s1"
  proof (rule ballI)
    fix x assume "x \<in> set (cy_sells s1)"
    then have "x \<in> insert (add_fill (mr_match_amount r) (cy_sells s ! cd_sell_idx c)) (set (cy_sells s))"
      using sells_commit(1)[OF fills_Cons(2)] set_update_subset_insert by fastforce
    then show "grid8 (remaining_amount x)"
      using fills_Cons(6) nth_mem[OF i] a by (auto simp: grid8_diff)
  qed
  ultimately show ?case using fills_Cons(4) a by simp
qed simp

lemma runs_grid:
  assumes "runs env buys s trs buys' s'" "\<forall>b\<in>set buys. grid8 (remaining_amount b)" "grid_sells s"
  shows "list_all (\<lambda>r. grid8 (mr_match_amount r)) (run_results trs)"
  using assms
proof (induction rule: runs.induct)
  case (runs_Cons buy s tr buy1 s1 buys trs buys' s2)
  then show ?case using fills_grid[OF runs_Cons(1)] by simp
qed simp

lemma cycle_grid:
  assumes "match_cycle D buys sells meta topo m now = Some out" "asks_ok sells" "fp_ok m"
    and "\<forall>x\<in>set (buys @ sells). grid8 (remaining_amount x)"
  shows "list_all (\<lambda>r. grid8 (mr_match_amount r)) (co_results out)"
proof -
  obtain trs s where r: "runs (env_of D meta topo m now) (sort_key buy_priority buys) (init_cycle now sells)
      trs (co_buys out) s" and s: "co_results out = run_results trs"
    using match_cycle_runs[OF assms(1-3)] by metis
  show ?thesis unfolding s by (rule runs_grid[OF r]) (use assms(4) in \<open>auto simp: init_cycle_def\<close>)
qed

lemma match_cycle_ioc: "match_cycle D buys sells meta topo m now = Some out \<Longrightarrow>
    cs_ioc_cancellations (co_stats out) = immediate_leftovers now (co_buys out @ co_sells out)"
  by (auto simp: match_cycle_def Let_def bind_eq_Some_conv)

section \<open>A cycle keeps the book sound\<close>

abbreviation side_rows :: "order_side \<Rightarrow> store \<Rightarrow> order_row list" where
  "side_rows sd s \<equiv> filter (\<lambda>r. odb_side r = sd \<and> open_status (odb_status r) \<and> odb_market_segment r = Realtime) (db_orders s)"

lemma realtime_side:
  "realtime (get_active_buy_orders s) = map order_of_row (side_rows Buy s)"
  "realtime (get_active_sell_orders s) = map order_of_row (side_rows Sell s)"
  by (simp_all add: realtime_def get_active_buy_orders_def get_active_sell_orders_def filter_map comp_def order_of_row_def conj_commute conj_left_commute)

text \<open>What the engine reports, measured against the book it was read from.\<close>

lemma cycle_of_book:
  assumes D: "dec_laws D" and s: "book_sound s"
    and b: "to_fast_orders D (realtime (get_active_buy_orders s)) = Some (buys, bmeta)"
    and l: "to_fast_orders D (realtime (get_active_sell_orders s)) = Some (sells, lmeta)"
    and m: "fp_of_decimal D 1 = Some mu" and out: "match_cycle D buys sells bmeta topo mu now = Some out"
  shows "list_all clean_match (co_results out)"
    and "\<And>r. r \<in> set (db_orders s) \<Longrightarrow> filled_of r + amounts (filter (names (odb_id r)) (co_results out)) \<le> odb_energy_amount r"
    and "\<And>fo. fo \<in> set (co_buys out @ co_sells out) \<Longrightarrow> fo_filled_amount fo \<le> fo_energy_amount fo \<and>
           (\<exists>r\<in>set (db_orders s). odb_id r = fo_id fo \<and> odb_energy_amount r = fo_energy_amount fo \<and>
              odb_time_in_force r = fo_time_in_force fo)"
proof -
  let ?B = "side_rows Buy s" and ?L = "side_rows Sell s" and ?ms = "co_results out" and ?outs = "co_buys out @ co_sells out"
  note b' = b[unfolded realtime_side] and l' = l[unfolded realtime_side]
  have rows: "distinct (map odb_id (db_orders s))"
    "\<And>r. r \<in> set (db_orders s) \<Longrightarrow> 0 \<le> odb_price_per_kwh r \<and> grid8 (filled_of r) \<and> grid8 (odb_energy_amount r) \<and>
       filled_of r \<le> odb_energy_amount r" using s by (auto simp: book_sound_def)
  have Bs: "\<exists>r\<in>set (db_orders s). odb_side r = Buy \<and> stands_for r fo" if fo: "fo \<in> set buys" for fo
    using fast_stands_row[OF b' fo] by blast
  have Ls: "\<exists>r\<in>set (db_orders s). odb_side r = Sell \<and> stands_for r fo" if fo: "fo \<in> set sells" for fo
    using fast_stands_row[OF l' fo] by blast
  have asks: "asks_ok sells" by (rule fast_asks_ok[OF D l']) (use rows(2) in auto)
  have mu: "fp_ok mu" using fp_of_decimal_of[OF D _ m] by simp
  have db: "distinct (map fo_id buys)" by (rule stands_nth[OF b']) (use rows(1) in \<open>simp add: distinct_map_filter\<close>)
  have dl: "distinct (map fo_id sells)" by (rule stands_nth[OF l']) (use rows(1) in \<open>simp add: distinct_map_filter\<close>)
  have origin_row: "\<exists>r\<in>set (db_orders s). stands_for r x" if "x \<in> set (buys @ sells)" for x
    using that Bs[of x] Ls[of x] by auto
  have fit: "fo_filled_amount x \<le> fo_energy_amount x \<and> grid8 (remaining_amount x)" if x: "x \<in> set (buys @ sells)" for x
  proof -
    obtain r where r: "r \<in> set (db_orders s)" "stands_for r x" using origin_row[OF x] by blast
    then show ?thesis using rows(2)[OF r(1)] by (simp add: stands_for_def remaining_amount_def grid8_diff)
  qed
  have grid: "list_all (\<lambda>r. grid8 (mr_match_amount r)) ?ms" by (rule cycle_grid[OF out asks mu]) (use fit in blast)
  have party: "\<exists>b\<in>set buys. \<exists>x\<in>set sells. mr_buy_order_id m = fo_id b \<and> mr_sell_order_id m = fo_id x \<and>
      min_trade_amount \<le> mr_match_amount m \<and> grid8 (mr_match_amount m)" if m: "m \<in> set ?ms" for m
    using cycle_result_legit[OF out asks mu m] grid m unfolding list_all_iff by blast
  have cons: "co_buys out = map (\<lambda>b. add_fill (amounts (filter (\<lambda>r. mr_buy_order_id r = fo_id b) ?ms)) b) (sort_key buy_priority buys)"
    "co_sells out = map (\<lambda>b. add_fill (amounts (filter (\<lambda>r. mr_sell_order_id r = fo_id b) ?ms)) b) sells"
    using cycle_conserves[OF out asks mu db dl] by simp_all
  have cap: "fo_filled_amount fo \<le> fo_energy_amount fo" if "fo \<in> set ?outs" for fo
    using cycle_no_overfill[OF out asks mu] fit that by blast
  show "list_all clean_match ?ms"
    by (rule engine_of_book(1)[where outs = ?outs, OF s Bs Ls party _ _ cap]) (simp_all add: cons)
  show "filled_of r + amounts (filter (names (odb_id r)) ?ms) \<le> odb_energy_amount r" if r: "r \<in> set (db_orders s)" for r
    by (rule engine_of_book(2)[where outs = ?outs, OF s Bs Ls party _ _ cap r]) (simp_all add: cons)
  show "fo_filled_amount fo \<le> fo_energy_amount fo \<and>
      (\<exists>r\<in>set (db_orders s). odb_id r = fo_id fo \<and> odb_energy_amount r = fo_energy_amount fo \<and>
         odb_time_in_force r = fo_time_in_force fo)"
    if fo: "fo \<in> set ?outs" for fo
  proof -
    obtain fo0 a where 0: "fo0 \<in> set (buys @ sells)" "fo = add_fill a fo0"
      using fo unfolding cons set_append by auto
    obtain r where "r \<in> set (db_orders s)" "stands_for r fo0" using origin_row[OF 0(1)] by blast
    then show ?thesis using cap[OF fo] by (auto simp: 0(2) stands_for_def add_fill_def)
  qed
qed

lemma num8_on_grid: "num8 x = Some y \<Longrightarrow> grid8 y"
  unfolding num8_def grid8_def Let_def by (metis option.distinct(1) option.inject)

lemma num8_bounded:
  assumes "num8 x = Some y" "x \<le> e" "grid8 e"
  shows "y \<le> e"
proof -
  obtain k where k: "e = of_int k / 10 ^ 8" using assms(3) by (auto simp: grid8_def)
  have "x * 10 ^ 8 \<le> of_int k" using assms(2) by (simp add: k field_simps)
  then have "round_half_away (x * 10 ^ 8) \<le> k" unfolding round_half_away_def by (auto simp: floor_le_iff ceiling_le_iff)
  then show ?thesis using assms(1) by (auto simp: num8_def k Let_def divide_right_mono split: if_splits)
qed

lemma cancel_one_book:
  assumes s: "booked_from s0 s" and r0: "r0 \<in> set (db_orders s0)" "odb_id r0 = i" "f \<le> odb_energy_amount r0"
    and run: "update_filled_amount_with_event i f st ev now s = Inr (u, s')"
  shows "booked_from s0 s'"
proof -
  have mv: "book_moves s0 s'"
    using s book_moves_trans order_fill_event.moves[OF run] by (auto simp: booked_from_def)
  have rows: "distinct (map odb_id (db_orders s))" "\<And>r. r \<in> set (db_orders s) \<Longrightarrow> 0 \<le> odb_price_per_kwh r \<and>
      grid8 (filled_of r) \<and> grid8 (odb_energy_amount r) \<and> filled_of r \<le> odb_energy_amount r"
    using s by (auto simp: booked_from_def book_sound_def)
  obtain q where q: "q \<in> set (db_orders s)" "guarded r0 q" using s r0(1) by (auto simp: booked_from_def elim: book_moves_row)
  have e: "odb_energy_amount r = odb_energy_amount r0" if "r \<in> set (db_orders s)" "odb_id r = i" for r
  proof -
    have "odb_id r = odb_id q" using q(2) r0(2) that(2) by (simp add: guarded_def)
    then have "r = q" using that(1) q(1) rows(1) unfolding distinct_map by (metis inj_onD)
    then show ?thesis using q(2) by (simp add: guarded_def)
  qed
  consider "s' = s" | y where "num8 f = Some y" "db_orders s' = update_where (\<lambda>r. odb_id r = i \<and> open_status (odb_status r)) (set_fill now y st) (db_orders s)"
    using run by (auto simp: update_filled_amount_with_event_def Let_def dest!: event_orders split: option.splits if_splits sum.splits)
  then have "book_sound s'"
  proof cases
    case (2 y)
    have "y \<le> odb_energy_amount r \<and> grid8 y" if "r \<in> set (db_orders s)" "odb_id r = i" for r
      using num8_bounded[OF 2(1) r0(3)] num8_on_grid[OF 2(1)] e[OF that] rows(2)[OF that(1)] by simp
    then show ?thesis unfolding book_sound_def 2(2) set_update_where
      using rows by (auto simp: set_fill_def filled_of_def)
  qed (use s in \<open>simp add: booked_from_def\<close>)
  then show ?thesis using mv by (simp add: booked_from_def)
qed

lemma keeps_cancel_ioc:
  assumes "\<And>fo. fo \<in> set (buys @ sells) \<Longrightarrow> fo_filled_amount fo \<le> fo_energy_amount fo \<and>
      (\<exists>r\<in>set (db_orders s0). odb_id r = fo_id fo \<and> odb_energy_amount r = fo_energy_amount fo \<and>
         odb_time_in_force r = fo_time_in_force fo)"
  shows "keeps (stores (booked_from s0)) (cancel_ioc_remainders stats buys sells)"
proof -
  have "keeps (stores (booked_from s0)) (cancel_one ids fo)" if fo: "fo \<in> set (buys @ sells)" for ids fo
  proof -
    obtain r0 where r0: "r0 \<in> set (db_orders s0)" "odb_id r0 = fo_id fo" "fo_filled_amount fo \<le> odb_energy_amount r0"
      using assms[OF fo] by auto
    show ?thesis unfolding cancel_one_def
      by (auto intro!: keeps_ok keeps_db_call elim!: cancel_one_book[OF _ r0])
  qed
  then show ?thesis unfolding cancel_ioc_remainders_def by (auto intro!: keeps_intros simp del: set_append)
qed

text \<open>The part of a cycle after the engine has run.\<close>

definition cycle_tail ::
  "dec_ops \<Rightarrow> static_charge_rates \<Rightarrow> cycle_outcome \<Rightarrow> order_metadata list \<Rightarrow> order_metadata list
     \<Rightarrow> (uuid \<Rightarrow> (decimal \<times> decimal \<times> uuid) option) \<Rightarrow> nat io" where
  "cycle_tail D rates out bmeta lmeta totals =
     and_then (if co_results out = [] then ok ()
               else persist_matches D rates (co_results out) bmeta lmeta totals) (\<lambda>_.
     and_then (cancel_ioc_remainders (co_stats out) (co_buys out) (co_sells out)) (\<lambda>_.
     ok (length (co_results out))))"

text \<open>A cycle establishes what its last part establishes.\<close>

lemma cycle_skeleton:
  assumes start: "\<And>w. w_store w = s0 \<Longrightarrow> Q w"
    and tail: "\<And>buys bmeta sells lmeta mu now out totals.
      to_fast_orders D (realtime (get_active_buy_orders s0)) = Some (buys, bmeta) \<Longrightarrow>
      to_fast_orders D (realtime (get_active_sell_orders s0)) = Some (sells, lmeta) \<Longrightarrow>
      fp_of_decimal D 1 = Some mu \<Longrightarrow> match_cycle D buys sells bmeta topo mu now = Some out \<Longrightarrow>
      triple (\<lambda>w. w_store w = s0) (cycle_tail D rates out bmeta lmeta totals) (\<lambda>r. Q)"
  shows "triple (\<lambda>w. w_store w = s0) (run_matching_cycle D topo rates) (\<lambda>r. Q)"
proof -
  let ?P = "\<lambda>w :: world. w_store w = s0"
  show ?thesis unfolding run_matching_cycle_def cycle_tail_def[symmetric]
  proof (intro triple_read start)
    fix now now'
    let ?buys = "realtime (get_active_buy_orders s0)" and ?sells = "realtime (get_active_sell_orders s0)"
    have "triple ?P
       (and_then (or_panic (to_fast_orders D ?buys)) (\<lambda>(fast_buys, buy_metadata).
        and_then (or_panic (to_fast_orders D ?sells)) (\<lambda>(fast_sells, sell_metadata).
        and_then telemetry_now (\<lambda>now.
        and_then (or_panic (Option.bind (fp_of_decimal D 1) (\<lambda>mult.
            match_cycle D fast_buys fast_sells buy_metadata topo mult (nanos now)))) (\<lambda>out.
        cycle_tail D rates out buy_metadata sell_metadata (order_totals ?buys ?sells)))))) (\<lambda>r. Q)"
    proof (intro triple_panic start, split prod.split, intro allI impI, intro triple_panic start,
        split prod.split, intro allI impI, intro triple_clock triple_panic start)
      fix fb fast_buys buy_meta fs fast_sells sell_meta now out
      assume "to_fast_orders D ?buys = Some fb" "fb = (fast_buys, buy_meta)"
        "to_fast_orders D ?sells = Some fs" "fs = (fast_sells, sell_meta)"
      moreover assume "Option.bind (fp_of_decimal D 1) (\<lambda>mult. match_cycle D fast_buys fast_sells buy_meta topo mult (nanos now)) = Some out"
      then obtain mu where "fp_of_decimal D 1 = Some mu" "match_cycle D fast_buys fast_sells buy_meta topo mu (nanos now) = Some out"
        by (auto simp: bind_eq_Some_conv)
      ultimately show "triple ?P
          (cycle_tail D rates out buy_meta sell_meta (order_totals ?buys ?sells)) (\<lambda>r. Q)" by (intro tail) simp_all
    qed
    then show "triple ?P
       (if ?buys = [] \<and> ?sells = [] then ok 0 else
        and_then (or_panic (to_fast_orders D ?buys)) (\<lambda>(fast_buys, buy_metadata).
        and_then (or_panic (to_fast_orders D ?sells)) (\<lambda>(fast_sells, sell_metadata).
        and_then telemetry_now (\<lambda>now.
        and_then (or_panic (Option.bind (fp_of_decimal D 1) (\<lambda>mult.
            match_cycle D fast_buys fast_sells buy_metadata topo mult (nanos now)))) (\<lambda>out.
        cycle_tail D rates out buy_metadata sell_metadata (order_totals ?buys ?sells)))))) (\<lambda>r. Q)" using start by (auto intro: triple_ok)
  qed
qed

lemma cycle_triple:
  assumes D: "dec_laws D" and s0: "book_sound s0"
  shows "triple (\<lambda>w. w_store w = s0) (run_matching_cycle D topo rates) (\<lambda>r. stores (booked_from s0))"
proof (rule cycle_skeleton)
  let ?P = "\<lambda>w :: world. w_store w = s0" and ?Q = "stores (booked_from s0)"
  show start: "?Q w" if "?P w" for w using that s0 by (simp add: stores_def booked_from_def book_moves_same)
  show "triple ?P
      (cycle_tail D rates out bmeta lmeta totals) (\<lambda>r. ?Q)"
    if b: "to_fast_orders D (realtime (get_active_buy_orders s0)) = Some (buys, bmeta)"
    and l: "to_fast_orders D (realtime (get_active_sell_orders s0)) = Some (sells, lmeta)"
    and m: "fp_of_decimal D 1 = Some mu" and out: "match_cycle D buys sells bmeta topo mu now = Some out"
    for buys bmeta sells lmeta mu now out totals
  proof -
    note c = cycle_of_book[OF D s0 b l m out]
    note persist = triple_persist_sound[OF s0 c(1,2), where D = D and rates = rates and bm = bmeta and sm = lmeta and totals = totals]
    have cancel: "keeps ?Q (and_then (cancel_ioc_remainders (co_stats out) (co_buys out) (co_sells out)) (\<lambda>_. ok (length (co_results out))))"
      by (intro keeps_and_then keeps_cancel_ioc keeps_ok c(3))
    have first: "triple ?P (if co_results out = [] then ok ()
        else persist_matches D rates (co_results out) bmeta lmeta totals) (\<lambda>r. ?Q)"
      using persist start by (auto intro: triple_ok)
    show ?thesis unfolding cycle_tail_def
      by (rule triple_and_then[where R = "\<lambda>_. ?Q", OF triple_weaken[OF first] triple_keeps[OF cancel]])
        (auto split: sum.split)
  qed
qed

text \<open>Without immediate orders a cycle is its persist stage, which keeps every fill backed.\<close>

definition all_resting :: "store \<Rightarrow> bool" where
  "all_resting s \<longleftrightarrow> list_all (\<lambda>r. \<not> is_immediate (odb_time_in_force r)) (db_orders s)"

lemma resting_cycle_backed:
  assumes D: "dec_laws D" and s0: "book_sound s0" "fills_backed s0" "all_resting s0"
  shows "triple (\<lambda>w. w_store w = s0) (run_matching_cycle D topo rates) (\<lambda>r. stores fills_backed)"
proof (rule cycle_skeleton)
  let ?P = "\<lambda>w :: world. w_store w = s0" and ?Q = "stores fills_backed"
  show start: "?Q w" if "?P w" for w using that s0(2) by (simp add: stores_def)
  show "triple ?P (cycle_tail D rates out bmeta lmeta totals) (\<lambda>r. ?Q)"
    if b: "to_fast_orders D (realtime (get_active_buy_orders s0)) = Some (buys, bmeta)"
    and l: "to_fast_orders D (realtime (get_active_sell_orders s0)) = Some (sells, lmeta)"
    and m: "fp_of_decimal D 1 = Some mu" and out: "match_cycle D buys sells bmeta topo mu now = Some out"
    for buys bmeta sells lmeta mu now out totals
  proof -
    note c = cycle_of_book[OF D s0(1) b l m out]
    have "\<not> is_immediate (fo_time_in_force fo)" if "fo \<in> set (co_buys out @ co_sells out)" for fo
      using c(3)[OF that] s0(3) by (auto simp: all_resting_def list_all_iff)
    then have "cs_ioc_cancellations (co_stats out) = []"
      using match_cycle_ioc[OF out] by (simp add: immediate_leftovers_def filter_empty_conv)
    then have tail: "cycle_tail D rates out bmeta lmeta totals =
        and_then (if co_results out = [] then ok () else persist_matches D rates (co_results out) bmeta lmeta totals)
          (\<lambda>_. ok (length (co_results out)))" by (simp add: cycle_tail_def cancel_ioc_remainders_def)
    have "triple ?Q (if co_results out = [] then ok () else persist_matches D rates (co_results out) bmeta lmeta totals) (\<lambda>r. ?Q)"
      using triple_matches_backed[OF c(1)] by (auto intro: triple_ok)
    then have "triple ?Q (cycle_tail D rates out bmeta lmeta totals) (\<lambda>r. ?Q)" unfolding tail
      by (rule triple_and_then[where R = "\<lambda>_. ?Q", OF triple_weaken triple_ok]) (auto split: sum.split)
    then show ?thesis by (rule triple_weaken) (use start in auto)
  qed
qed

section \<open>Example data\<close>

text \<open>An immediate-or-cancel buy of five against a sell of two.\<close>

definition ioc_world :: "bool list \<Rightarrow> world" where
  "ioc_world faults = (example_world [])\<lparr>w_faults := faults, w_store :=
     \<lparr>db_orders = [(example_order 21 11 Buy Order_Active None)\<lparr>odb_time_in_force := Ioc, odb_price_per_kwh := 4\<rparr>,
        (example_order 22 12 Sell Order_Active None)\<lparr>odb_energy_amount := 2\<rparr>],
      db_settlements = [], db_matches = [], db_outbox = [], db_epochs = [example_epoch],
      db_rules = [], db_alerts = [], db_ids = [101, 102, 103, 104, 105, 106, 107]\<rparr>\<rparr>"

definition ioc_cycle :: "bool list \<Rightarrow> (failure + nat) \<times> world" where
  "ioc_cycle faults = run_matching_cycle exact_dec demo_grid deployed_rates (ioc_world faults)"

abbreviation fill_state :: "world \<Rightarrow> (uuid \<times> decimal \<times> order_status) list" where
  "fill_state w \<equiv> map (\<lambda>r. (odb_id r, filled_of r, odb_status r)) (db_orders (w_store w))"

lemma ioc_cycle_booked: "fst (ioc_cycle []) = Inr 1 \<and> fill_state (snd (ioc_cycle [])) = [(21, 2, Order_Cancelled), (22, 2, Order_Filled)]
   \<and> map sdb_energy_amount (db_settlements (w_store (snd (ioc_cycle [])))) = [2]"
  by code_simp

lemma ioc_cycle_lost: "fst (ioc_cycle [False, False, True]) = Inr 1 \<and>
   fill_state (snd (ioc_cycle [False, False, True])) = [(21, 2, Order_Cancelled), (22, 0, Order_Active)] \<and>
   db_settlements (w_store (snd (ioc_cycle [False, False, True]))) = []"
  by code_simp

section \<open>Properties\<close>

text \<open>C31: One matching cycle over the database, under any pattern of failing database calls: no order
  is ever filled beyond its energy (the book stays sound), terminal orders are untouched, and the
  identity, energy and price of every order are kept.\<close>

theorem matching_cycle_keeps_book:
  assumes "dec_laws D" and "book_sound (w_store w)"
  shows "book_sound (w_store (snd (run_matching_cycle D topo rates w))) \<and>
    book_moves (w_store w) (w_store (snd (run_matching_cycle D topo rates w)))"
  using cycle_triple[OF assms] by (simp add: triple_def stores_def booked_from_def)

lemma ioc_world_sound: "book_sound (w_store (ioc_world f))" "fills_backed (w_store (ioc_world f))"
proof -
  have g: "grid8 (numeral n)" for n unfolding grid8_def by (rule exI[of _ "numeral n * 10 ^ 8"]) simp
  show "book_sound (w_store (ioc_world f))" "fills_backed (w_store (ioc_world f))"
    by (simp_all add: ioc_world_def example_order_def book_sound_def fills_backed_def booked_def filled_of_def g)
qed

theorem matching_cycle_keeps_book_witness:
  "book_sound (w_store (snd (ioc_cycle []))) \<and> fill_state (snd (ioc_cycle [])) = [(21, 2, Order_Cancelled), (22, 2, Order_Filled)]"
  using matching_cycle_keeps_book[OF dec_laws_exact ioc_world_sound(1)] ioc_cycle_booked unfolding ioc_cycle_def by blast

text \<open>While no immediate-or-cancel or fill-or-kill order is in the book, a matching cycle keeps
  every fill backed by settlements, under any pattern of failing database calls.\<close>

theorem resting_cycle_keeps_fills_backed:
  assumes "dec_laws D" and "book_sound (w_store w)" and "fills_backed (w_store w)" and "all_resting (w_store w)"
  shows "fills_backed (w_store (snd (run_matching_cycle D topo rates w)))"
  using resting_cycle_backed[OF assms] by (simp add: triple_def stores_def)

definition gtc_world :: world where
  "gtc_world = (ioc_world [False, False, True])\<lparr>w_store :=
     (w_store (ioc_world []))\<lparr>db_orders := map (\<lambda>r. r\<lparr>odb_time_in_force := Gtc\<rparr>) (db_orders (w_store (ioc_world [])))\<rparr>\<rparr>"

lemma gtc_world_ok: "book_sound (w_store gtc_world)" "fills_backed (w_store gtc_world)" "all_resting (w_store gtc_world)"
proof -
  have "filled_of (r\<lparr>odb_time_in_force := t\<rparr>) = filled_of r" for r t by (simp add: filled_of_def)
  then show "book_sound (w_store gtc_world)" "fills_backed (w_store gtc_world)"
    using ioc_world_sound[of "[]"] by (simp_all add: gtc_world_def book_sound_def fills_backed_def booked_def image_image comp_def)
  show "all_resting (w_store gtc_world)" by (simp add: all_resting_def gtc_world_def list_all_iff is_immediate_def)
qed

theorem resting_cycle_keeps_fills_backed_witness:
  "fills_backed (w_store (snd (run_matching_cycle exact_dec demo_grid deployed_rates gtc_world))) \<and>
   fill_state gtc_world = [(21, 0, Order_Active), (22, 0, Order_Active)]"
proof
  show "fill_state gtc_world = [(21, 0, Order_Active), (22, 0, Order_Active)]" by code_simp
qed (rule resting_cycle_keeps_fills_backed[OF dec_laws_exact gtc_world_ok])


end
