(* ===== verification/Clearing_Service.thy ===== *)
theory Clearing_Service imports Book_Soundness begin

text \<open>
  \<open>trading-logic/src/clearing.rs\<close>: the interval market over the database.  The orders of an epoch are
  read, cleared at one price per zone by the uniform auction, and the matches are booked like those
  of the continuous matcher; then the epoch is closed.
\<close>

section \<open>The service\<close>

record clearing_summary =
  cl_epoch_id :: uuid
  cl_zones_cleared :: nat
  cl_matches :: nat
  cl_total_volume :: decimal
  cl_zone_prices :: "(zone \<times> decimal) list"

definition empty_summary :: "uuid \<Rightarrow> clearing_summary" where
  "empty_summary epoch = \<lparr>cl_epoch_id = epoch, cl_zones_cleared = 0, cl_matches = 0, cl_total_volume = 0, cl_zone_prices = []\<rparr>"

definition interval_of :: "uuid \<Rightarrow> trading_order list \<Rightarrow> trading_order list" where
  "interval_of epoch = filter (\<lambda>o'. ord_market_segment o' = Interval \<and> ord_epoch_id o' = Some epoch)"

definition summary_of :: "uuid \<Rightarrow> auction_state \<Rightarrow> clearing_summary" where
  "summary_of epoch a =
     \<lparr>cl_epoch_id = epoch, cl_zones_cleared = length (au_zones a), cl_matches = cs_matches_created (au_stats a),
      cl_total_volume = cs_total_volume (au_stats a),
      cl_zone_prices = map (\<lambda>z. (zn_zone_id z, zn_clearing_price z)) (au_zones a)\<rparr>"

definition run_epoch_clearing :: "dec_ops \<Rightarrow> topology \<Rightarrow> static_charge_rates \<Rightarrow> uuid \<Rightarrow> clearing_summary io" where
  "run_epoch_clearing D topo rates epoch =
     and_then (db_read (\<lambda>_ s. interval_of epoch (get_active_buy_orders s))) (\<lambda>buy_orders.
     and_then (db_read (\<lambda>_ s. interval_of epoch (get_active_sell_orders s))) (\<lambda>sell_orders.
     if buy_orders = [] \<or> sell_orders = [] then ok (empty_summary epoch) else
     and_then (or_panic (to_fast_orders D buy_orders)) (\<lambda>(fast_buys, buy_metadata).
     and_then (or_panic (to_fast_orders D sell_orders)) (\<lambda>(fast_sells, sell_metadata).
     and_then telemetry_now (\<lambda>now.
     and_then (or_panic (clear_cycle D fast_buys fast_sells buy_metadata topo (nanos now))) (\<lambda>a.
     let all_matches = concat (map zn_matches (au_zones a)) in
     if all_matches = [] then ok (empty_summary epoch) else
     and_then (persist_matches D rates all_matches buy_metadata sell_metadata (order_totals buy_orders sell_orders)) (\<lambda>_.
     ok (summary_of epoch a))))))))"

fun for_map :: "('x \<Rightarrow> 'y io) \<Rightarrow> 'x list \<Rightarrow> 'y list io" where
  "for_map f [] = ok []"
| "for_map f (x # xs) = and_then (f x) (\<lambda>y. and_then (for_map f xs) (\<lambda>ys. ok (y # ys)))"

definition single_price :: "(zone \<times> decimal) list \<Rightarrow> decimal option" where
  "single_price prices = (case prices of [(_, price)] \<Rightarrow> Some price | _ \<Rightarrow> None)"

definition clear_due_epoch :: "dec_ops \<Rightarrow> topology \<Rightarrow> static_charge_rates \<Rightarrow> uuid \<Rightarrow> clearing_summary io" where
  "clear_due_epoch D topo rates epoch =
     and_then (run_epoch_clearing D topo rates epoch) (\<lambda>summary.
     and_then (db_call (mark_epoch_cleared epoch (single_price (cl_zone_prices summary)) (cl_total_volume summary)
        (unwrap_or (i64_try_from (int (cl_matches summary))) i64_max))) (\<lambda>_.
     ok summary))"

definition clear_due_epochs :: "dec_ops \<Rightarrow> topology \<Rightarrow> static_charge_rates \<Rightarrow> clearing_summary list io" where
  "clear_due_epochs D topo rates =
     and_then (db_read get_epochs_due_for_clearing) (\<lambda>due. for_map (clear_due_epoch D topo rates) due)"

section \<open>Amounts on the grid\<close>

abbreviation grid_orders :: "fast_order list \<Rightarrow> bool" where
  "grid_orders os \<equiv> \<forall>x\<in>set os. grid8 (remaining_amount x)"

definition grid_sweep :: "sweep_state \<Rightarrow> bool" where
  "grid_sweep st \<longleftrightarrow> grid_orders (sw_buys st) \<and> grid_orders (sw_sells st) \<and> (\<forall>(b, s, a)\<in>set (sw_fills st). grid8 a)"

lemma grid_orders_update:
  assumes "grid_orders os" "i < length os" "grid8 a"
  shows "grid_orders (os[i := add_fill a (os ! i)])"
proof
  fix x assume "x \<in> set (os[i := add_fill a (os ! i)])"
  then have "x \<in> insert (add_fill a (os ! i)) (set os)" using set_update_subset_insert by fastforce
  then show "grid8 (remaining_amount x)" using assms by (auto simp: grid8_diff)
qed

lemma sweep_fill_parts:
  "sw_buys (sweep_fill b s a st) = (sw_buys st)[b := add_fill a (sw_buys st ! b)]"
  "sw_sells (sweep_fill b s a st) = (sw_sells st)[s := add_fill a (sw_sells st ! s)]"
  "sw_fills (sweep_fill b s a st) = sw_fills st @ [(b, s, a)]"
  by (simp_all add: sweep_fill_def)

lemma grid_sweep_fill:
  assumes "grid_sweep st" "b < length (sw_buys st)" "s < length (sw_sells st)" "grid8 a"
  shows "grid_sweep (sweep_fill b s a st)"
proof -
  have g: "grid_orders (sw_buys st)" "grid_orders (sw_sells st)" "\<forall>(b, s, a)\<in>set (sw_fills st). grid8 a"
    using assms(1) unfolding grid_sweep_def by blast+
  have "\<forall>(b, s, a)\<in>set (sw_fills st @ [(b, s, a)]). grid8 a" using g(3) assms(4) by auto
  then show ?thesis
    unfolding grid_sweep_def sweep_fill_parts
    using grid_orders_update[OF g(1) assms(2,4)] grid_orders_update[OF g(2) assms(3,4)] by blast
qed

lemma grid_sweep_amount:
  "grid_sweep st \<Longrightarrow> b < length (sw_buys st) \<Longrightarrow> s < length (sw_sells st) \<Longrightarrow>
     grid8 (min (remaining_amount (sw_buys st ! b)) (remaining_amount (sw_sells st ! s)))"
  unfolding grid_sweep_def by (intro grid8_min) simp_all

lemma sweep_grid:
  "\<lbrakk>\<forall>b\<in>set bs. b < length (sw_buys st); \<forall>s\<in>set ss. s < length (sw_sells st); grid_sweep st\<rbrakk> \<Longrightarrow>
     grid_sweep (sweep bs ss st)"
proof (induction bs ss st rule: sweep.induct)
  case (3 b bs s ss st)
  let ?buy = "sw_buys st ! b" and ?sell = "sw_sells st ! s"
  let ?a = "min (remaining_amount ?buy) (remaining_amount ?sell)"
  let ?bs = "if remaining_amount (add_fill ?a ?buy) < min_trade_amount then bs else b # bs"
  let ?ss = "if remaining_amount (add_fill ?a ?sell) < min_trade_amount then ss else s # ss"
  have bound: "\<forall>x\<in>set bs. x < length (sw_buys st)" "\<forall>x\<in>set ss. x < length (sw_sells st)"
    "b < length (sw_buys st)" "s < length (sw_sells st)" and g: "grid_sweep st"
    using "3.prems" by auto
  consider (stop) "fo_price ?buy < fo_price ?sell"
    | (self) "\<not> fo_price ?buy < fo_price ?sell" "fo_user_id ?buy = fo_user_id ?sell"
    | (dust_buy) "\<not> fo_price ?buy < fo_price ?sell" "fo_user_id ?buy \<noteq> fo_user_id ?sell"
        "remaining_amount ?buy < min_trade_amount"
    | (dust_sell) "\<not> fo_price ?buy < fo_price ?sell" "fo_user_id ?buy \<noteq> fo_user_id ?sell"
        "\<not> remaining_amount ?buy < min_trade_amount" "remaining_amount ?sell < min_trade_amount"
    | (fill) "\<not> fo_price ?buy < fo_price ?sell" "fo_user_id ?buy \<noteq> fo_user_id ?sell"
        "\<not> remaining_amount ?buy < min_trade_amount" "\<not> remaining_amount ?sell < min_trade_amount"
    by blast
  then show ?case
  proof cases
    case self
    then show ?thesis using "3.IH"(1)[OF refl refl] "3.prems" by simp
  next
    case dust_buy
    then show ?thesis using "3.IH"(2)[OF refl refl _ _ refl refl] "3.prems" by simp
  next
    case dust_sell
    then show ?thesis using "3.IH"(3)[OF refl refl _ _ refl refl] "3.prems" by simp
  next
    case fill
    have step: "sweep (b # bs) (s # ss) st = sweep ?bs ?ss (sweep_fill b s ?a st)"
      using fill by (simp add: Let_def)
    have "grid_sweep (sweep ?bs ?ss (sweep_fill b s ?a st))"
      using "3.IH"(4)[OF refl refl _ _ refl refl _ _ refl] fill bound grid_sweep_fill[OF g bound(3,4) grid_sweep_amount[OF g bound(3,4)]]
      by (auto simp: sweep_fill_def)
    then show ?thesis unfolding step .
  qed (simp add: g)
qed simp_all

abbreviation grid_matches :: "match_result list \<Rightarrow> bool" where
  "grid_matches ms \<equiv> \<forall>m\<in>set ms. grid8 (mr_match_amount m)"

lemma settle_fills_grid:
  assumes "settle_fills D z F p buys sells meta topo = Some c" "\<forall>(b, s, a)\<in>set F. grid8 a"
  shows "grid_matches (zn_matches c)"
proof
  fix m assume "m \<in> set (zn_matches c)"
  then obtain f where f: "f \<in> set F" "records_fill meta buys sells (fp_to_decimal p) f m"
    using list_all2_origin settle_fills_records[OF assms(1)] by metis
  then show "grid8 (mr_match_amount m)" using assms(2) by (cases f) (auto simp: records_fill_def)
qed

lemma clear_zone_grid:
  assumes cz: "clear_zone D z bs ss buys sells meta topo = Some (zc, buys', sells')"
    and idx: "\<forall>b\<in>set bs. b < length buys" "\<forall>s\<in>set ss. s < length sells"
    and g: "grid_orders buys" "grid_orders sells"
  shows "grid_orders buys' \<and> grid_orders sells' \<and> length buys' = length buys \<and> length sells' = length sells \<and>
    (case zc of None \<Rightarrow> True | Some c \<Rightarrow> grid_matches (zn_matches c))"
proof -
  let ?st = "\<lparr>sw_buys = buys, sw_sells = sells, sw_fills = [], sw_marginal = None\<rparr>"
  let ?bs = "sort_key (\<lambda>i. auction_buy_key (buys ! i)) bs" and ?ss = "sort_key (\<lambda>i. sell_key (sells ! i)) ss"
  define st where "st = sweep ?bs ?ss ?st"
  have gs: "grid_sweep st" unfolding st_def
    by (rule sweep_grid) (use idx g in \<open>auto simp: grid_sweep_def\<close>)
  obtain F where sw: "swept ?bs ?ss ?st F st" using sweep_swept[of ?bs ?st ?ss] idx by (auto simp: st_def)
  have len: "length (sw_buys st) = length buys" "length (sw_sells st) = length sells" using sw by (simp_all add: swept_def)
  have "buys' = sw_buys st \<and> sells' = sw_sells st \<and>
     (zc = None \<or> (\<exists>c p. zc = Some c \<and> settle_fills D z (sw_fills st) p (sw_buys st) (sw_sells st) meta topo = Some c))"
    using cz unfolding clear_zone_def Let_def st_def[symmetric]
    by (auto simp: bind_eq_Some_conv split: option.splits prod.splits if_splits)
  then show ?thesis using gs len settle_fills_grid unfolding grid_sweep_def by (auto split: option.splits)
qed

definition grid_auction :: "fast_order list \<Rightarrow> fast_order list \<Rightarrow> auction_state \<Rightarrow> bool" where
  "grid_auction buys sells a \<longleftrightarrow> grid_orders (au_buys a) \<and> grid_orders (au_sells a) \<and>
     length (au_buys a) = length buys \<and> length (au_sells a) = length sells \<and> grid_matches (auction_results a)"

lemma clear_step_grid:
  assumes a: "grid_auction buys sells a" and bs: "bt_get (partition_by_zone buys now) z = Some bs"
    and step: "clear_step D (partition_by_zone sells now) meta topo (z, bs) a = Some a'"
  shows "grid_auction buys sells a'"
proof (cases "bt_get (partition_by_zone sells now) z")
  case None
  then show ?thesis using a step by (simp add: clear_step_def)
next
  case (Some ss)
  obtain zc buys' sells' where cz: "clear_zone D z bs ss (au_buys a) (au_sells a) meta topo = Some (zc, buys', sells')"
    and e: "a' = (case zc of None \<Rightarrow> a\<lparr>au_buys := buys', au_sells := sells'\<rparr>
           | Some c \<Rightarrow> a\<lparr>au_buys := buys', au_sells := sells', au_zones := au_zones a @ [c],
                        au_stats := (au_stats a)\<lparr>cs_matches_created := cs_matches_created (au_stats a) + length (zn_matches c),
                                                 cs_total_volume := cs_total_volume (au_stats a) + zn_cleared_volume c\<rparr>\<rparr>)"
    using step Some by (auto simp: clear_step_def bind_eq_Some_conv)
  have a': "au_buys a' = buys'" "au_sells a' = sells'"
    "auction_results a' = auction_results a @ (case zc of None \<Rightarrow> [] | Some c \<Rightarrow> zn_matches c)"
    by (simp_all add: e auction_results_def split: option.split)
  have g: "grid_orders (au_buys a)" "grid_orders (au_sells a)" "length (au_buys a) = length buys"
    "length (au_sells a) = length sells" "grid_matches (auction_results a)"
    using a unfolding grid_auction_def by blast+
  have "\<forall>b\<in>set bs. b < length (au_buys a)" "\<forall>s\<in>set ss. s < length (au_sells a)"
    using partition_index[OF bs] partition_index[OF Some] g(3,4) by (auto simp: zone_index_ok_def)
  from clear_zone_grid[OF cz this g(1,2)] show ?thesis
    using g(3-5) unfolding grid_auction_def a' by (cases zc) auto
qed

lemma clear_cycle_grid:
  assumes run: "clear_cycle D buys sells meta topo now = Some a" and g: "grid_orders buys" "grid_orders sells"
  shows "grid_matches (auction_results a)"
proof -
  have "grid_auction buys sells a"
  proof (rule fold_opt_invariant[where P = "grid_auction buys sells"])
    show "fold_opt (clear_step D (partition_by_zone sells now) meta topo) (partition_by_zone buys now)
        \<lparr>au_buys = buys, au_sells = sells, au_zones = [],
         au_stats = \<lparr>cs_matches_created = 0, cs_total_volume = 0, cs_ioc_cancellations = []\<rparr>\<rparr> = Some a"
      using run by (simp add: clear_cycle_def)
    show "grid_auction buys sells \<lparr>au_buys = buys, au_sells = sells, au_zones = [],
         au_stats = \<lparr>cs_matches_created = 0, cs_total_volume = 0, cs_ioc_cancellations = []\<rparr>\<rparr>"
      using g by (simp add: grid_auction_def auction_results_def)
    fix e s s' assume e: "e \<in> set (partition_by_zone buys now)" and s: "grid_auction buys sells s"
      and step: "clear_step D (partition_by_zone sells now) meta topo e s = Some s'"
    obtain z bs where zb: "e = (z, bs)" by (cases e)
    have "bt_get (partition_by_zone buys now) z = Some bs" using e bt.mem_iter[OF partition_ok] by (simp add: zb)
    then show "grid_auction buys sells s'" using clear_step_grid[OF s] step by (simp add: zb)
  qed
  then show ?thesis by (simp add: grid_auction_def)
qed

section \<open>Clearing keeps the book sound and every fill backed\<close>

abbreviation epoch_rows :: "uuid \<Rightarrow> order_side \<Rightarrow> store \<Rightarrow> order_row list" where
  "epoch_rows epoch sd s \<equiv> filter (\<lambda>r. odb_side r = sd \<and> open_status (odb_status r) \<and>
     odb_market_segment r = Interval \<and> odb_epoch_id r = Some epoch) (db_orders s)"

lemma interval_side:
  "interval_of epoch (get_active_buy_orders s) = map order_of_row (epoch_rows epoch Buy s)"
  "interval_of epoch (get_active_sell_orders s) = map order_of_row (epoch_rows epoch Sell s)"
  by (simp_all add: interval_of_def get_active_buy_orders_def get_active_sell_orders_def filter_map comp_def
      order_of_row_def conj_commute conj_left_commute)

lemma auction_of_book:
  assumes s: "book_sound s"
    and b: "to_fast_orders D (interval_of epoch (get_active_buy_orders s)) = Some (buys, bmeta)"
    and l: "to_fast_orders D (interval_of epoch (get_active_sell_orders s)) = Some (sells, lmeta)"
    and out: "clear_cycle D buys sells bmeta topo now = Some a"
  shows "list_all clean_match (auction_results a)"
    and "\<And>r. r \<in> set (db_orders s) \<Longrightarrow> filled_of r + amounts (filter (names (odb_id r)) (auction_results a)) \<le> odb_energy_amount r"
proof -
  let ?ms = "auction_results a" and ?outs = "au_buys a @ au_sells a"
  note b' = b[unfolded interval_side] and l' = l[unfolded interval_side]
  have rows: "distinct (map odb_id (db_orders s))"
    "\<And>r. r \<in> set (db_orders s) \<Longrightarrow> grid8 (filled_of r) \<and> grid8 (odb_energy_amount r) \<and> filled_of r \<le> odb_energy_amount r"
    using s by (auto simp: book_sound_def)
  have Bs: "\<exists>r\<in>set (db_orders s). odb_side r = Buy \<and> stands_for r fo" if fo: "fo \<in> set buys" for fo
    using fast_stands_row[OF b' fo] by blast
  have Ls: "\<exists>r\<in>set (db_orders s). odb_side r = Sell \<and> stands_for r fo" if fo: "fo \<in> set sells" for fo
    using fast_stands_row[OF l' fo] by blast
  have db: "distinct (map fo_id buys)" by (rule stands_nth[OF b']) (use rows(1) in \<open>simp add: distinct_map_filter\<close>)
  have dl: "distinct (map fo_id sells)" by (rule stands_nth[OF l']) (use rows(1) in \<open>simp add: distinct_map_filter\<close>)
  have fit: "0 \<le> remaining_amount x \<and> grid8 (remaining_amount x)" if x: "x \<in> set (buys @ sells)" for x
  proof -
    obtain r where r: "r \<in> set (db_orders s)" "stands_for r x" using x Bs[of x] Ls[of x] by auto
    then show ?thesis using rows(2)[OF r(1)] by (simp add: stands_for_def remaining_amount_def grid8_diff)
  qed
  have grid: "grid_matches ?ms" by (rule clear_cycle_grid[OF out]) (use fit in auto)
  note cons = auction_conserves[OF out db dl]
  have party: "\<exists>b\<in>set buys. \<exists>x\<in>set sells. mr_buy_order_id m = fo_id b \<and> mr_sell_order_id m = fo_id x \<and>
      min_trade_amount \<le> mr_match_amount m \<and> grid8 (mr_match_amount m)" if m: "m \<in> set ?ms" for m
  proof -
    obtain c where "c \<in> set (au_zones a)" "m \<in> set (zn_matches c)" using m by (auto simp: auction_results_def)
    from auction_match_legit[OF out this] grid m show ?thesis by blast
  qed
  have "list_all (\<lambda>ord. 0 \<le> remaining_amount ord) (buys @ sells)" using fit by (simp add: list_all_iff)
  then have "list_all (\<lambda>ord. 0 \<le> remaining_amount ord) ?outs" using cons by blast
  then have cap: "fo_filled_amount fo \<le> fo_energy_amount fo" if "fo \<in> set ?outs" for fo
    using that by (auto simp: list_all_iff remaining_amount_def)
  have o': "add_fill (amounts (filter (\<lambda>r. mr_buy_order_id r = fo_id b) ?ms)) b \<in> set ?outs" if "b \<in> set buys" for b
    using that cons by (metis (no_types, lifting) UnCI image_eqI set_append set_map)
  have o'': "add_fill (amounts (filter (\<lambda>r. mr_sell_order_id r = fo_id x) ?ms)) x \<in> set ?outs" if "x \<in> set sells" for x
    using that cons by (metis (no_types, lifting) UnCI image_eqI set_append set_map)
  show "list_all clean_match ?ms" by (rule engine_of_book(1)[OF s Bs Ls party o' o'' cap])
  show "filled_of r + amounts (filter (names (odb_id r)) ?ms) \<le> odb_energy_amount r" if r: "r \<in> set (db_orders s)" for r
    by (rule engine_of_book(2)[OF s Bs Ls party o' o'' cap r])
qed

text \<open>What a step of the service may do to the book.\<close>

definition book_kept :: "store \<Rightarrow> store \<Rightarrow> bool" where
  "book_kept s0 s \<longleftrightarrow> booked_from s0 s \<and> (fills_backed s0 \<longrightarrow> fills_backed s)"

lemma book_kept_refl: "book_sound s \<Longrightarrow> book_kept s s"
  by (simp add: book_kept_def booked_from_def book_moves_same)

lemma book_kept_trans: "book_kept s0 s1 \<Longrightarrow> book_kept s1 s2 \<Longrightarrow> book_kept s0 s2"
  unfolding book_kept_def booked_from_def using book_moves_trans by blast

lemma book_kept_same:
  "book_kept s0 s \<Longrightarrow> db_orders s' = db_orders s \<Longrightarrow> db_settlements s' = db_settlements s \<Longrightarrow> book_kept s0 s'"
  unfolding book_kept_def booked_from_def
  using book_moves_trans book_moves_same fills_backed_same by (auto simp: book_sound_def same_books_def)

lemma triple_persist_kept:
  assumes s0: "book_sound s0" and clean: "list_all clean_match ms"
    and cap: "\<And>r. r \<in> set (db_orders s0) \<Longrightarrow> filled_of r + amounts (filter (names (odb_id r)) ms) \<le> odb_energy_amount r"
  shows "triple (\<lambda>w. w_store w = s0) (persist_matches D rates ms bm sm totals) (\<lambda>r. stores (book_kept s0))"
  unfolding triple_def
proof (intro allI impI)
  fix w :: world assume w: "w_store w = s0"
  let ?r = "persist_matches D rates ms bm sm totals w"
  have "stores (booked_from s0) (snd ?r)"
    using triple_persist_sound[OF assms, where D = D and rates = rates] w unfolding triple_def by blast
  moreover have "stores fills_backed (snd ?r)" if "fills_backed s0"
    using triple_matches_backed[OF clean, where D = D and rates = rates] w that unfolding triple_def stores_def by metis
  ultimately show "stores (book_kept s0) (snd ?r)" by (simp add: stores_def book_kept_def)
qed

lemma epoch_clearing_kept:
  assumes s0: "book_sound s0"
  shows "triple (\<lambda>w. w_store w = s0) (run_epoch_clearing D topo rates epoch) (\<lambda>r. stores (book_kept s0))"
proof -
  let ?P = "\<lambda>w :: world. w_store w = s0" and ?Q = "stores (book_kept s0)"
  have start: "?Q w" if "?P w" for w using that book_kept_refl[OF s0] by (simp add: stores_def)
  let ?buys = "interval_of epoch (get_active_buy_orders s0)" and ?sells = "interval_of epoch (get_active_sell_orders s0)"
  have go: "triple ?P
     (and_then (or_panic (to_fast_orders D ?buys)) (\<lambda>(fast_buys, buy_metadata).
      and_then (or_panic (to_fast_orders D ?sells)) (\<lambda>(fast_sells, sell_metadata).
      and_then telemetry_now (\<lambda>now.
      and_then (or_panic (clear_cycle D fast_buys fast_sells buy_metadata topo (nanos now))) (\<lambda>a.
      let all_matches = concat (map zn_matches (au_zones a)) in
      if all_matches = [] then ok (empty_summary epoch) else
      and_then (persist_matches D rates all_matches buy_metadata sell_metadata (order_totals ?buys ?sells)) (\<lambda>_.
      ok (summary_of epoch a))))))) (\<lambda>r. ?Q)"
  proof (intro triple_panic start, split prod.split, intro allI impI, intro triple_panic start,
      split prod.split, intro allI impI, intro triple_clock triple_panic start)
    fix fb fast_buys buy_meta fs fast_sells sell_meta now a
    assume l: "to_fast_orders D ?buys = Some fb" "fb = (fast_buys, buy_meta)"
      "to_fast_orders D ?sells = Some fs" "fs = (fast_sells, sell_meta)"
      and a: "clear_cycle D fast_buys fast_sells buy_meta topo (nanos now) = Some a"
    note c = auction_of_book[OF s0 l(1)[unfolded l(2)] l(3)[unfolded l(4)] a, unfolded auction_results_def]
    have "triple ?P (and_then (persist_matches D rates (concat (map zn_matches (au_zones a))) buy_meta sell_meta (order_totals ?buys ?sells))
        (\<lambda>_. ok (summary_of epoch a))) (\<lambda>r. ?Q)"
      by (rule triple_and_then[where R = "\<lambda>_. ?Q", OF triple_weaken[OF triple_persist_kept[OF s0 c]] triple_ok])
        (auto split: sum.split)
    then show "triple ?P (let all_matches = concat (map zn_matches (au_zones a)) in
        if all_matches = [] then ok (empty_summary epoch) else
        and_then (persist_matches D rates all_matches buy_meta sell_meta (order_totals ?buys ?sells))
          (\<lambda>_. ok (summary_of epoch a))) (\<lambda>r. ?Q)"
      using start by (auto simp: Let_def intro: triple_ok)
  qed
  show ?thesis unfolding run_epoch_clearing_def
    by (intro triple_read start) (use go start in \<open>auto intro: triple_ok\<close>)
qed

lemma keeps_epoch_clearing: "keeps (stores (book_kept s0)) (run_epoch_clearing D topo rates epoch)"
  unfolding keeps_def
proof (intro allI impI)
  fix w assume w: "stores (book_kept s0) w"
  then have "book_sound (w_store w)" by (simp add: stores_def book_kept_def booked_from_def)
  then have "stores (book_kept (w_store w)) (snd (run_epoch_clearing D topo rates epoch w))"
    using epoch_clearing_kept unfolding triple_def by blast
  then show "stores (book_kept s0) (snd (run_epoch_clearing D topo rates epoch w))"
    using w book_kept_trans unfolding stores_def by blast
qed

lemma keeps_for_map: "(\<And>x. keeps P (f x)) \<Longrightarrow> keeps P (for_map f xs)"
  by (induction xs) (auto intro!: keeps_intros)

lemma keeps_due_epochs: "keeps (stores (book_kept s0)) (clear_due_epochs D topo rates)"
  unfolding clear_due_epochs_def clear_due_epoch_def
  by (intro keeps_intros keeps_for_map keeps_epoch_clearing keeps_db_call)
    (auto simp: mark_epoch_cleared_def split: option.splits elim: book_kept_same)

section \<open>Clearing closes the epochs that are due, and no others\<close>

definition epoch_closed :: "uuid list \<Rightarrow> market_epoch \<Rightarrow> market_epoch \<Rightarrow> bool" where
  "epoch_closed due e e' \<longleftrightarrow> e' = e \<or>
     ep_id e \<in> set due \<and> ep_status e = Epoch_Active \<and> ep_status e' = Epoch_Cleared \<and> ep_id e' = ep_id e \<and>
     ep_end_time e' = ep_end_time e"

definition closing :: "uuid list \<Rightarrow> market_epoch list \<Rightarrow> uuid list \<Rightarrow> store \<Rightarrow> bool" where
  "closing due E shut s \<longleftrightarrow> list_all2 (epoch_closed due) E (db_epochs s) \<and>
     list_all (\<lambda>e. ep_id e \<in> set shut \<longrightarrow> ep_status e \<noteq> Epoch_Active) (db_epochs s)"

lemma persist_epochs:
  assumes "persist_matched_trade st m ev z buyer seller now s = Inr (b, s')"
  shows "db_epochs s' = db_epochs s"
proof (cases b)
  case False
  then have "s' = s" using assms persist_False by simp
  then show ?thesis by simp
next
  case True
  then obtain s1 s2 s3 s4 where p: "insert_settlement st now s = Inr ((), s1)"
    "insert_match m (Some (st_id st)) z now s1 = Inr ((), s2)" "insert_event_in_tx now ev s2 = Inr s3"
    "fill_side now buyer s3 = Inr (Some s4)" "fill_side now seller s4 = Inr (Some s')"
    using assms persist_True by metis
  have "db_epochs s1 = db_epochs s" "db_epochs s2 = db_epochs s1"
    using p(1,2) by (auto simp: insert_settlement_def insert_match_def split: option.splits if_splits)
  moreover have "db_epochs s4 = db_epochs s3" "db_epochs s' = db_epochs s4"
    using p(4,5) by (elim fill_side_done, simp)+
  ultimately show ?thesis using event_row(5)[OF p(3)] by simp
qed

lemma keeps_epoch_rows: "keeps (stores (\<lambda>s. Q (db_epochs s))) (run_epoch_clearing D topo rates epoch)"
proof -
  have p: "keeps (stores (\<lambda>s. Q (db_epochs s))) (persist_matches D rates ms bm sm totals)" for ms bm sm totals
    unfolding persist_matches_def persist_match_def Let_def
    by (intro keeps_intros keeps_new_v4 keeps_db_call) (simp_all add: persist_epochs)
  have "keeps (stores (\<lambda>s. Q (db_epochs s))) (case x of (a, b) \<Rightarrow> f a b)"
    if "\<And>a b. keeps (stores (\<lambda>s. Q (db_epochs s))) (f a b)" for x and f :: "'a \<Rightarrow> 'b \<Rightarrow> 'c io" using that by (cases x) simp
  note pair = this
  show ?thesis unfolding run_epoch_clearing_def Let_def
    by (auto intro!: keeps_intros p pair)
qed

lemma mark_closes:
  assumes c: "closing due E shut s" and due: "epoch \<in> set due"
    and run: "mark_epoch_cleared epoch p v n now s = Inr (u, s')"
  shows "closing due E (shut @ [epoch]) s'" and "closing due E shut s'"
proof -
  obtain p' v' where s': "db_epochs s' = update_where (\<lambda>e. ep_id e = epoch \<and> ep_status e = Epoch_Active)
      (\<lambda>e. e\<lparr>ep_status := Epoch_Cleared, ep_clearing_price := p', ep_total_volume := Some v', ep_matched_orders := Some n\<rparr>) (db_epochs s)"
    using run by (auto simp: mark_epoch_cleared_def split: option.splits)
  have "list_all2 (epoch_closed due) E (db_epochs s')"
    unfolding s' update_where_def list_all2_map2
    by (rule list_all2_mono[of "epoch_closed due" E "db_epochs s"])
      (use c due in \<open>auto simp: closing_def epoch_closed_def\<close>)
  then show "closing due E (shut @ [epoch]) s'" "closing due E shut s'"
    using c by (auto simp: closing_def s' update_where_def list_all_iff)
qed

text \<open>What the value of a call is.\<close>

definition gives :: "'a io \<Rightarrow> ('a \<Rightarrow> bool) \<Rightarrow> bool" where
  "gives m F \<longleftrightarrow> (\<forall>w x. fst (m w) = Inr x \<longrightarrow> F x)"

lemma gives_ok: "F x \<Longrightarrow> gives (ok x) F"
  by (simp add: gives_def ok_def)

lemma gives_and_then: "(\<And>x. gives (k x) F) \<Longrightarrow> gives (and_then m k) F"
  by (auto simp: gives_def and_then_def split: prod.splits sum.splits)

lemma epoch_summary: "gives (run_epoch_clearing D topo rates epoch) (\<lambda>x. cl_epoch_id x = epoch)"
  unfolding run_epoch_clearing_def Let_def
  by (auto intro!: gives_and_then gives_ok simp: empty_summary_def summary_of_def split: prod.split)

lemma triple_due_epoch:
  assumes "epoch \<in> set due"
  shows "triple (stores (closing due E shut)) (clear_due_epoch D topo rates epoch)
     (\<lambda>r w. case r of Inl _ \<Rightarrow> stores (closing due E shut) w
        | Inr x \<Rightarrow> cl_epoch_id x = epoch \<and> stores (closing due E (shut @ [epoch])) w)"
proof -
  let ?Q = "\<lambda>r w. case r of Inl _ \<Rightarrow> stores (closing due E shut) w
        | Inr x \<Rightarrow> cl_epoch_id x = epoch \<and> stores (closing due E (shut @ [epoch])) w"
  have k: "keeps (stores (closing due E shut)) (run_epoch_clearing D topo rates epoch)"
    using keeps_epoch_rows[of "\<lambda>e. list_all2 (epoch_closed due) E e \<and> list_all (\<lambda>e. ep_id e \<in> set shut \<longrightarrow> ep_status e \<noteq> Epoch_Active) e"]
    by (simp add: closing_def[abs_def])
  show ?thesis unfolding clear_due_epoch_def
  proof (rule triple_and_then[where R = "\<lambda>x w. cl_epoch_id x = epoch \<and> stores (closing due E shut) w"])
    show "triple (stores (closing due E shut)) (run_epoch_clearing D topo rates epoch)
        (\<lambda>r w. case r of Inl e \<Rightarrow> ?Q (Inl e) w | Inr x \<Rightarrow> cl_epoch_id x = epoch \<and> stores (closing due E shut) w)"
      using k epoch_summary by (auto simp: triple_def keeps_def gives_def split: sum.split)
    fix x :: clearing_summary
    let ?mark = "mark_epoch_cleared epoch (single_price (cl_zone_prices x)) (cl_total_volume x)
        (unwrap_or (i64_try_from (int (cl_matches x))) i64_max)"
    have "triple (stores (closing due E shut)) (db_call ?mark)
        (\<lambda>r w. case r of Inl _ \<Rightarrow> stores (closing due E shut) w | Inr _ \<Rightarrow> stores (closing due E (shut @ [epoch])) w)"
      unfolding triple_def db_call_def stores_def
      by (auto split: list.split bool.split sum.split dest: mark_closes(1)[OF _ assms])
    then show "triple (\<lambda>w. cl_epoch_id x = epoch \<and> stores (closing due E shut) w) (and_then (db_call ?mark) (\<lambda>_. ok x)) ?Q"
      by (cases "cl_epoch_id x = epoch")
        (auto simp: triple_def and_then_def ok_def split: prod.split sum.split)
  qed
qed

lemma triple_due_epochs:
  "set es \<subseteq> set due \<Longrightarrow> triple (stores (closing due E shut)) (for_map (clear_due_epoch D topo rates) es)
     (\<lambda>r w. case r of Inl _ \<Rightarrow> list_all2 (epoch_closed due) E (db_epochs (w_store w))
        | Inr xs \<Rightarrow> map cl_epoch_id xs = es \<and> stores (closing due E (shut @ es)) w)"
proof (induction es arbitrary: shut)
  case Nil
  show ?case by (auto intro: triple_ok)
next
  case (Cons e es)
  let ?fail = "\<lambda>w. list_all2 (epoch_closed due) E (db_epochs (w_store w))"
  have rest: "triple (stores (closing due E (shut @ [e]))) (and_then (for_map (clear_due_epoch D topo rates) es) (\<lambda>ys. ok (x # ys)))
      (\<lambda>r w. case r of Inl _ \<Rightarrow> ?fail w | Inr xs \<Rightarrow> map cl_epoch_id xs = e # es \<and> stores (closing due E (shut @ e # es)) w)"
    if x: "cl_epoch_id x = e" for x
  proof (rule triple_and_then[where R = "\<lambda>ys w. map cl_epoch_id ys = es \<and> stores (closing due E (shut @ e # es)) w"])
    show "triple (stores (closing due E (shut @ [e]))) (for_map (clear_due_epoch D topo rates) es)
        (\<lambda>r w. case r of Inl y \<Rightarrow> case Inl y of Inl _ \<Rightarrow> ?fail w | Inr xs \<Rightarrow> map cl_epoch_id xs = e # es \<and> stores (closing due E (shut @ e # es)) w
           | Inr ys \<Rightarrow> map cl_epoch_id ys = es \<and> stores (closing due E (shut @ e # es)) w)"
      using Cons.IH[of "shut @ [e]"] Cons.prems by (fastforce simp: triple_def split: sum.splits)
  qed (use x in \<open>auto intro: triple_ok simp: triple_def ok_def\<close>)
  show ?case unfolding for_map.simps
  proof (rule triple_and_then[where R = "\<lambda>x w. cl_epoch_id x = e \<and> stores (closing due E (shut @ [e])) w"])
    show "triple (stores (closing due E shut)) (clear_due_epoch D topo rates e)
        (\<lambda>r w. case r of Inl y \<Rightarrow> case Inl y of Inl _ \<Rightarrow> ?fail w | Inr xs \<Rightarrow> map cl_epoch_id xs = e # es \<and> stores (closing due E (shut @ e # es)) w
           | Inr x \<Rightarrow> cl_epoch_id x = e \<and> stores (closing due E (shut @ [e])) w)"
      using triple_due_epoch[of e due E shut D topo rates] Cons.prems
      by (auto simp: triple_def stores_def closing_def split: sum.splits)
    fix x :: clearing_summary
    show "triple (\<lambda>w. cl_epoch_id x = e \<and> stores (closing due E (shut @ [e])) w)
        (and_then (for_map (clear_due_epoch D topo rates) es) (\<lambda>ys. ok (x # ys)))
        (\<lambda>r w. case r of Inl _ \<Rightarrow> ?fail w | Inr xs \<Rightarrow> map cl_epoch_id xs = e # es \<and> stores (closing due E (shut @ e # es)) w)"
      using rest[of x] by (cases "cl_epoch_id x = e") (auto simp: triple_def)
  qed
qed

section \<open>Example data\<close>

text \<open>Epoch 9 is over; a buy of five at 4 meets a sell of two at 3 in its zone.\<close>

definition epoch_world :: "bool list \<Rightarrow> world" where
  "epoch_world faults = (example_world [])\<lparr>w_faults := faults, w_db_now := 1000, w_store :=
     \<lparr>db_orders = [(example_order 21 11 Buy Order_Active None)\<lparr>odb_market_segment := Interval, odb_price_per_kwh := 4\<rparr>,
        (example_order 22 12 Sell Order_Active None)\<lparr>odb_market_segment := Interval, odb_energy_amount := 2\<rparr>],
      db_settlements = [], db_matches = [], db_outbox = [], db_epochs = [example_epoch],
      db_rules = [], db_alerts = [], db_ids = [101, 102, 103, 104, 105, 106, 107]\<rparr>\<rparr>"

definition epoch_tick :: "bool list \<Rightarrow> (failure + clearing_summary list) \<times> world" where
  "epoch_tick faults = clear_due_epochs exact_dec demo_grid deployed_rates (epoch_world faults)"

abbreviation epoch_state :: "world \<Rightarrow> (uuid \<times> epoch_status \<times> decimal option \<times> decimal option) list" where
  "epoch_state w \<equiv> map (\<lambda>e. (ep_id e, ep_status e, ep_clearing_price e, ep_total_volume e)) (db_epochs (w_store w))"

lemma epoch_tick_booked:
  "map_sum id (map cl_epoch_id) (fst (epoch_tick [])) = Inr [9] \<and>
   epoch_state (snd (epoch_tick [])) = [(9, Epoch_Cleared, Some (7 / 2), Some 2)] \<and>
   map filled_of (db_orders (w_store (snd (epoch_tick [])))) = [2, 2] \<and>
   map sdb_price_per_kwh (db_settlements (w_store (snd (epoch_tick [])))) = [7 / 2]"
  by code_simp

lemma epoch_tick_lost:
  "epoch_state (snd (epoch_tick [False, False, False, True])) = [(9, Epoch_Cleared, Some (7 / 2), Some 2)] \<and>
   map (\<lambda>r. (filled_of r, odb_status r)) (db_orders (w_store (snd (epoch_tick [False, False, False, True])))) =
     [(0, Order_Active), (0, Order_Active)] \<and>
   db_settlements (w_store (snd (epoch_tick [False, False, False, True]))) = [] \<and>
   fst (clear_due_epochs exact_dec demo_grid deployed_rates (snd (epoch_tick [False, False, False, True]))) = Inr []"
  by code_simp

section \<open>Properties\<close>

lemma epoch_world_sound: "book_sound (w_store (epoch_world f))" "fills_backed (w_store (epoch_world f))"
proof -
  have g: "grid8 (numeral n)" for n unfolding grid8_def by (rule exI[of _ "numeral n * 10 ^ 8"]) simp
  show "book_sound (w_store (epoch_world f))" "fills_backed (w_store (epoch_world f))"
    by (simp_all add: epoch_world_def example_order_def book_sound_def fills_backed_def booked_def filled_of_def g)
qed

text \<open>C33: Clearing the due epochs, under any pattern of failing database calls: no order is filled
  beyond its energy, terminal orders are untouched, and every fill stays backed by settlements.\<close>

theorem clearing_keeps_book:
  assumes "book_sound (w_store w)" and "fills_backed (w_store w)"
  shows "book_sound (w_store (snd (clear_due_epochs D topo rates w))) \<and>
    fills_backed (w_store (snd (clear_due_epochs D topo rates w))) \<and>
    book_moves (w_store w) (w_store (snd (clear_due_epochs D topo rates w)))"
  using keeps_due_epochs[of "w_store w" D topo rates] book_kept_refl[OF assms(1)] assms(2)
  by (simp add: keeps_def stores_def book_kept_def booked_from_def)

theorem clearing_keeps_book_witness:
  "fills_backed (w_store (snd (epoch_tick []))) \<and> map filled_of (db_orders (w_store (snd (epoch_tick [])))) = [2, 2]"
  using clearing_keeps_book[OF epoch_world_sound] epoch_tick_booked unfolding epoch_tick_def by blast

text \<open>Closing is exact.  Whatever fails, an epoch is changed only if it was active and due, and
  then it is cleared; when the run succeeds it has one summary per due epoch, in their order, and no
  due epoch is active any more, also when nothing matched in it.\<close>

theorem clear_due_epochs_closes:
  assumes "clear_due_epochs D topo rates w = (r, w')"
  shows "list_all2 (epoch_closed (get_epochs_due_for_clearing (w_db_now w) (w_store w)))
      (db_epochs (w_store w)) (db_epochs (w_store w')) \<and>
    (case r of Inl _ \<Rightarrow> True | Inr summaries \<Rightarrow>
       map cl_epoch_id summaries = get_epochs_due_for_clearing (w_db_now w) (w_store w) \<and>
       list_all (\<lambda>e. ep_id e \<in> cl_epoch_id ` set summaries \<longrightarrow> ep_status e \<noteq> Epoch_Active) (db_epochs (w_store w')))"
proof -
  let ?due = "get_epochs_due_for_clearing (w_db_now w) (w_store w)" and ?E = "db_epochs (w_store w)"
  have refl: "closing ?due ?E [] s" if "db_epochs s = ?E" for s
    using that by (simp add: closing_def list_all2_same epoch_closed_def list_all_iff)
  obtain q w1 where read: "db_read get_epochs_due_for_clearing w = (q, w1)" by fastforce
  have w1: "w_store w1 = w_store w" and q: "q = Inr ?due \<or> (\<exists>e. q = Inl e)"
    using read by (auto simp: db_read_def db_call_def split: list.splits bool.splits)
  show ?thesis
  proof (cases q)
    case (Inl e)
    then have "r = Inl e" "w' = w1" using assms read by (auto simp: clear_due_epochs_def and_then_def)
    then show ?thesis using refl[of "w_store w1"] w1 by (simp add: closing_def)
  next
    case (Inr d)
    then have "for_map (clear_due_epoch D topo rates) ?due w1 = (r, w')"
      using assms read q by (auto simp: clear_due_epochs_def and_then_def)
    moreover have "stores (closing ?due ?E []) w1" using refl w1 by (simp add: stores_def)
    ultimately have post: "case r of Inl _ \<Rightarrow> list_all2 (epoch_closed ?due) ?E (db_epochs (w_store w'))
        | Inr xs \<Rightarrow> map cl_epoch_id xs = ?due \<and> stores (closing ?due ?E ([] @ ?due)) w'"
      using tripleD[OF triple_due_epochs[OF subset_refl]] by blast
    show ?thesis
    proof (cases r)
      case (Inr xs)
      then have xs: "map cl_epoch_id xs = ?due" "closing ?due ?E ?due (w_store w')"
        using post by (simp_all add: stores_def)
      have "cl_epoch_id ` set xs = set ?due" using xs(1) by (metis set_map)
      then show ?thesis using xs by (simp add: Inr closing_def)
    qed (use post in simp)
  qed
qed

theorem clear_due_epochs_closes_witness:
  "\<exists>x w'. epoch_tick [] = (Inr [x], w') \<and> cl_epoch_id x = 9 \<and>
     list_all2 (epoch_closed [9]) [example_epoch] (db_epochs (w_store w'))"
proof -
  obtain r w' where run: "epoch_tick [] = (r, w')" by fastforce
  then obtain x where x: "r = Inr [x]" "cl_epoch_id x = 9" using epoch_tick_booked by (cases r) auto
  have "get_epochs_due_for_clearing (w_db_now (epoch_world [])) (w_store (epoch_world [])) = [9]"
    "db_epochs (w_store (epoch_world [])) = [example_epoch]" by code_simp+
  with clear_due_epochs_closes[OF run[unfolded epoch_tick_def]] run x show ?thesis by auto
qed

text \<open>A cleared epoch can lose its trades.  The write that books the match of the epoch fails, which
  is only logged; the epoch is still closed with the clearing price and the volume of that match.  No
  fill and no settlement exists, both orders stay live, and since the epoch is no longer due they
  will never be cleared.\<close>

theorem cleared_epoch_loses_trade:
  "epoch_state (snd (epoch_tick [False, False, False, True])) = [(9, Epoch_Cleared, Some (7 / 2), Some 2)] \<and>
   map (\<lambda>r. (filled_of r, odb_status r)) (db_orders (w_store (snd (epoch_tick [False, False, False, True])))) =
     [(0, Order_Active), (0, Order_Active)] \<and>
   db_settlements (w_store (snd (epoch_tick [False, False, False, True]))) = [] \<and>
   fst (clear_due_epochs exact_dec demo_grid deployed_rates (snd (epoch_tick [False, False, False, True]))) = Inr []"
  by (rule epoch_tick_lost)

end
