(* ===== verification/Outbox.thy ===== *)
theory Outbox imports Order_Store begin

text \<open>
  The transactional outbox: the repository \<open>trading-persistence/src/repositories/outbox.rs\<close> and the
  relay \<open>trading-infra/src/events/outbox_worker.rs\<close> that publishes the pending events in batches and
  marks each row by what the event bus answered.  The bus is a parameter: it sees every attempt made
  so far and the event, and accepts or refuses.
\<close>

section \<open>The repository\<close>

definition insert_event :: "event \<Rightarrow> datetime \<Rightarrow> store \<Rightarrow> api_error + (unit \<times> store)" where
  "insert_event ev now s = (case insert_event_in_tx now ev s of Inl e \<Rightarrow> Inl e | Inr s' \<Rightarrow> Inr ((), s'))"

definition get_pending_events :: "nat \<Rightarrow> store \<Rightarrow> outbox_row list" where
  "get_pending_events limit s =
     take limit (sort_key obx_created_at (filter (\<lambda>r. obx_status r = Outbox_Pending) (db_outbox s)))"

definition mark_processed :: "uuid \<Rightarrow> datetime \<Rightarrow> store \<Rightarrow> api_error + (unit \<times> store)" where
  "mark_processed i now s = Inr ((), s\<lparr>db_outbox := update_where (\<lambda>r. obx_id r = i)
     (\<lambda>r. r\<lparr>obx_status := Outbox_Processed, obx_last_attempt_at := Some now\<rparr>) (db_outbox s)\<rparr>)"

definition mark_failed :: "uuid \<Rightarrow> datetime \<Rightarrow> store \<Rightarrow> api_error + (unit \<times> store)" where
  "mark_failed i now s = Inr ((), s\<lparr>db_outbox := update_where (\<lambda>r. obx_id r = i)
     (\<lambda>r. r\<lparr>obx_status := Outbox_Failed, obx_attempts := obx_attempts r + 1, obx_last_attempt_at := Some now\<rparr>)
     (db_outbox s)\<rparr>)"

definition cleanup_processed :: "datetime \<Rightarrow> datetime \<Rightarrow> store \<Rightarrow> api_error + (nat \<times> store)" where
  "cleanup_processed before now s =
     (let gone = (\<lambda>r. obx_status r = Outbox_Processed \<and> obx_created_at r < before)
      in Inr (rows_affected gone (db_outbox s), s\<lparr>db_outbox := filter (\<lambda>r. \<not> gone r) (db_outbox s)\<rparr>))"

text \<open>The status column as the row mapping reads it.\<close>

definition outbox_status_of :: "string \<Rightarrow> outbox_status" where
  "outbox_status_of st = (if st = ''PENDING'' \<or> st = ''pending'' then Outbox_Pending
     else if st = ''PROCESSED'' \<or> st = ''processed'' then Outbox_Processed else Outbox_Failed)"

section \<open>The relay\<close>

record bus =
  bus_world :: world
  bus_attempts :: "(event \<times> bool) list" \<comment> \<open>what was handed to the event bus, and whether it took it\<close>

definition batch_size :: nat where "batch_size = 100"

text \<open>The rows of a batch: publish, then mark; a failing mark ends the batch.\<close>

fun relay :: "((event \<times> bool) list \<Rightarrow> event \<Rightarrow> bool) \<Rightarrow> outbox_row list \<Rightarrow> bus \<Rightarrow> (failure + unit) \<times> bus" where
  "relay accept [] b = (Inr (), b)"
| "relay accept (r # rs) b =
     (let taken = accept (bus_attempts b) (obx_payload r);
          attempts = bus_attempts b @ [(obx_payload r, taken)]
      in case db_call (if taken then mark_processed (obx_id r) else mark_failed (obx_id r)) (bus_world b) of
           (Inl e, w) \<Rightarrow> (Inl e, \<lparr>bus_world = w, bus_attempts = attempts\<rparr>)
         | (Inr _, w) \<Rightarrow> relay accept rs \<lparr>bus_world = w, bus_attempts = attempts\<rparr>)"

definition process_batch :: "((event \<times> bool) list \<Rightarrow> event \<Rightarrow> bool) \<Rightarrow> bus \<Rightarrow> (failure + nat) \<times> bus" where
  "process_batch accept b =
     (case db_read (\<lambda>_ s. get_pending_events batch_size s) (bus_world b) of
        (Inl e, w) \<Rightarrow> (Inl e, b\<lparr>bus_world := w\<rparr>)
      | (Inr events, w) \<Rightarrow>
          (case relay accept events (b\<lparr>bus_world := w\<rparr>) of
             (Inl e, b') \<Rightarrow> (Inl e, b')
           | (Inr _, b') \<Rightarrow> (Inr (length events), b')))"

abbreviation outbox :: "bus \<Rightarrow> outbox_row list" where
  "outbox b \<equiv> db_outbox (w_store (bus_world b))"

section \<open>One mark\<close>

text \<open>A mark fails and changes nothing, or rewrites the row it names.\<close>

definition resolution :: "bool \<Rightarrow> outbox_status" where
  "resolution taken = (if taken then Outbox_Processed else Outbox_Failed)"

definition resolves :: "uuid \<Rightarrow> bool \<Rightarrow> outbox_row \<Rightarrow> outbox_row \<Rightarrow> bool" where
  "resolves i taken r r' \<longleftrightarrow> obx_id r' = obx_id r \<and> obx_payload r' = obx_payload r \<and>
     (if obx_id r = i then obx_status r' = resolution taken else r' = r)"

lemma mark_resolves:
  assumes "db_call (if taken then mark_processed i else mark_failed i) w = (q, w')"
  shows "(q = Inr () \<and> list_all2 (resolves i taken) (db_outbox (w_store w)) (db_outbox (w_store w'))) \<or>
    ((\<exists>e. q = Inl e) \<and> w_store w' = w_store w)"
  using assms
  by (auto simp: db_call_def mark_processed_def mark_failed_def update_where_def list_all2_map2 list_all2_same
      resolves_def resolution_def split: list.splits bool.splits if_splits)

lemma mark_healthy:
  assumes "db_call (if taken then mark_processed i else mark_failed i) w = (q, w')" "healthy w"
  shows "q = Inr () \<and> healthy w'"
  using assms healthy_tl[OF assms(2)]
  by (auto simp: db_call_healthy mark_processed_def mark_failed_def healthy_def split: if_splits)

section \<open>What the relay keeps\<close>

text \<open>Each row's status agrees with what the bus was sent.\<close>

definition honest :: "bus \<Rightarrow> bool" where
  "honest b \<longleftrightarrow> distinct (map obx_id (outbox b)) \<and>
     (\<forall>r\<in>set (outbox b). obx_status r = Outbox_Processed \<longrightarrow> (obx_payload r, True) \<in> set (bus_attempts b))"

definition untouched :: "bus \<Rightarrow> bus \<Rightarrow> bool" where
  "untouched b b' \<longleftrightarrow> list_all2 (\<lambda>r r'. obx_id r' = obx_id r \<and> obx_payload r' = obx_payload r \<and>
     (obx_status r \<noteq> Outbox_Pending \<longrightarrow> r' = r)) (outbox b) (outbox b')"

lemma resolves_ids: "list_all2 (resolves i t) rs qs \<Longrightarrow> map obx_id qs = map obx_id rs"
  by (induction rule: list_all2_induct) (auto simp: resolves_def)

text \<open>The row a batch is about to send is still the pending row of the table.\<close>

definition awaits :: "outbox_row list \<Rightarrow> outbox_row \<Rightarrow> bool" where
  "awaits box r \<longleftrightarrow> r \<in> set box \<and> obx_status r = Outbox_Pending"

lemma awaits_resolves:
  assumes "awaits box r" "list_all2 (resolves i t) box box'" "obx_id r \<noteq> i"
  shows "awaits box' r"
proof -
  have "\<exists>q\<in>set box'. resolves i t r q" using list_all2_image[OF assms(2)] assms(1) by (simp add: awaits_def)
  then show ?thesis using assms(1,3) by (auto simp: awaits_def resolves_def)
qed

lemma honest_step:
  assumes h: "honest b" and r: "awaits (outbox b) r"
    and box: "list_all2 (resolves (obx_id r) taken) (outbox b) (db_outbox (w_store w))"
  shows "honest \<lparr>bus_world = w, bus_attempts = bus_attempts b @ [(obx_payload r, taken)]\<rparr>"
proof -
  have d: "distinct (map obx_id (outbox b))" using h by (simp add: honest_def)
  have "(obx_payload q', True) \<in> set (bus_attempts b @ [(obx_payload r, taken)])"
    if q': "q' \<in> set (db_outbox (w_store w))" "obx_status q' = Outbox_Processed" for q'
  proof -
    obtain q where q: "q \<in> set (outbox b)" "resolves (obx_id r) taken q q'"
      using list_all2_origin[OF box q'(1)] by blast
    show ?thesis
    proof (cases "obx_id q = obx_id r")
      case True
      then have "q = r" using d q(1) r unfolding distinct_map awaits_def by (metis inj_onD)
      then show ?thesis using q(2) q'(2) by (auto simp: resolves_def resolution_def split: if_splits)
    next
      case False
      then show ?thesis using q q'(2) h by (auto simp: resolves_def honest_def)
    qed
  qed
  then show ?thesis using d resolves_ids[OF box] by (simp add: honest_def)
qed

lemma untouched_refl: "untouched b b"
  by (simp add: untouched_def list_all2_same)

lemma untouched_same: "outbox b' = outbox b \<Longrightarrow> untouched b b'"
  by (simp add: untouched_def list_all2_same)

lemma untouched_trans: "untouched a b \<Longrightarrow> untouched b c \<Longrightarrow> untouched a c"
  unfolding untouched_def by (rule list_all2_trans[of _ _ _ "outbox a" "outbox b"]) auto

lemma untouched_step:
  assumes d: "distinct (map obx_id (outbox b))" and r: "awaits (outbox b) r"
    and box: "list_all2 (resolves (obx_id r) taken) (outbox b) (outbox b')"
  shows "untouched b b'"
  unfolding untouched_def
proof (rule list.rel_mono_strong[OF box])
  fix q q' assume q: "q \<in> set (outbox b)" "resolves (obx_id r) taken q q'"
  have "q = r" if "obx_id q = obx_id r" using d q(1) r that unfolding distinct_map awaits_def by (metis inj_onD)
  then show "obx_id q' = obx_id q \<and> obx_payload q' = obx_payload q \<and> (obx_status q \<noteq> Outbox_Pending \<longrightarrow> q' = q)"
    using q(2) r by (auto simp: resolves_def awaits_def split: if_splits)
qed

text \<open>A row with its outcome in the table.\<close>

definition settled_as :: "outbox_row list \<Rightarrow> outbox_row \<Rightarrow> event \<times> bool \<Rightarrow> bool" where
  "settled_as box r x \<longleftrightarrow> fst x = obx_payload r \<and>
     (\<exists>q\<in>set box. obx_id q = obx_id r \<and> obx_payload q = obx_payload r \<and> obx_status q = resolution (snd x))"

lemma settled_as_untouched:
  assumes "settled_as (outbox b) r x" "untouched b b'"
  shows "settled_as (outbox b') r x"
proof -
  obtain q where q: "q \<in> set (outbox b)" "obx_id q = obx_id r" "obx_payload q = obx_payload r" "obx_status q = resolution (snd x)"
    using assms(1) by (auto simp: settled_as_def)
  obtain q' where "q' \<in> set (outbox b')" "obx_status q \<noteq> Outbox_Pending \<longrightarrow> q' = q"
    using list_all2_image[OF assms(2)[unfolded untouched_def] q(1)] by blast
  then have "q \<in> set (outbox b')" using q(4) by (auto simp: resolution_def split: if_splits)
  then show ?thesis using q assms(1) by (auto simp: settled_as_def)
qed

definition relayed :: "outbox_row list \<Rightarrow> bus \<Rightarrow> failure + unit \<Rightarrow> bus \<Rightarrow> bool" where
  "relayed rs b q b' \<longleftrightarrow> honest b' \<and> untouched b b' \<and>
     (\<exists>xs. bus_attempts b' = bus_attempts b @ xs \<and> map fst xs = map obx_payload (take (length xs) rs) \<and>
        (q = Inr () \<longrightarrow> list_all2 (settled_as (outbox b')) rs xs))"

lemma relay_relayed:
  "\<lbrakk>relay accept rs b = (q, b'); honest b; distinct (map obx_id rs); \<forall>r\<in>set rs. awaits (outbox b) r\<rbrakk>
     \<Longrightarrow> relayed rs b q b' \<and> (healthy (bus_world b) \<longrightarrow> q = Inr () \<and> healthy (bus_world b'))"
proof (induction rs arbitrary: b)
  case Nil
  then show ?case by (auto simp: relayed_def untouched_refl)
next
  case (Cons r rs)
  define taken where "taken = accept (bus_attempts b) (obx_payload r)"
  let ?call = "db_call (if taken then mark_processed (obx_id r) else mark_failed (obx_id r))"
  obtain p w where call: "?call (bus_world b) = (p, w)" by fastforce
  define b1 where "b1 = \<lparr>bus_world = w, bus_attempts = bus_attempts b @ [(obx_payload r, taken)]\<rparr>"
  have r: "awaits (outbox b) r" using Cons.prems(4) by simp
  have d: "distinct (map obx_id (outbox b))" using Cons.prems(2) by (simp add: honest_def)
  have run: "relay accept (r # rs) b = (case p of Inl e \<Rightarrow> (Inl e, b1) | Inr _ \<Rightarrow> relay accept rs b1)"
    by (simp add: Let_def taken_def[symmetric] call b1_def split: sum.split)
  from mark_resolves[OF call] consider (marked) "p = Inr ()" "list_all2 (resolves (obx_id r) taken) (outbox b) (db_outbox (w_store w))"
    | (failed) e where "p = Inl e" "w_store w = w_store (bus_world b)" by blast
  then show ?case
  proof cases
    case failed
    have "honest b1" using Cons.prems(2) by (auto simp: honest_def b1_def failed(2))
    moreover have "untouched b b1" by (rule untouched_same) (simp add: b1_def failed(2))
    ultimately have "relayed (r # rs) b (Inl e) b1"
      unfolding relayed_def by (intro conjI exI[of _ "[(obx_payload r, taken)]"]) (simp_all add: b1_def)
    moreover have "q = Inl e" "b' = b1" using Cons.prems(1) run failed(1) by simp_all
    ultimately show ?thesis using mark_healthy[OF call] failed(1) by auto
  next
    case marked
    have box: "list_all2 (resolves (obx_id r) taken) (outbox b) (outbox b1)" using marked(2) by (simp add: b1_def)
    have h1: "honest b1" using honest_step[OF Cons.prems(2) r marked(2)] by (simp add: b1_def)
    have u1: "untouched b b1" by (rule untouched_step[OF d r box])
    have aw: "\<forall>x\<in>set rs. awaits (outbox b1) x"
    proof
      fix x assume x: "x \<in> set rs"
      then have "obx_id x \<noteq> obx_id r" using Cons.prems(3) by (auto simp: rev_image_eqI)
      then show "awaits (outbox b1) x" using awaits_resolves[OF _ box] Cons.prems(4) x by auto
    qed
    have "relay accept rs b1 = (q, b')" using Cons.prems(1) run marked(1) by simp
    from Cons.IH[OF this h1 _ aw] Cons.prems(3) have ih: "relayed rs b1 q b'"
      "healthy (bus_world b1) \<longrightarrow> q = Inr () \<and> healthy (bus_world b')" by auto
    then obtain xs where xs: "honest b'" "untouched b1 b'" "bus_attempts b' = bus_attempts b1 @ xs"
      "map fst xs = map obx_payload (take (length xs) rs)" "q = Inr () \<longrightarrow> list_all2 (settled_as (outbox b')) rs xs"
      by (auto simp: relayed_def)
    have "\<exists>q\<in>set (outbox b1). resolves (obx_id r) taken r q"
      using list_all2_image[OF box, of r] r unfolding awaits_def by blast
    then have "settled_as (outbox b1) r (obx_payload r, taken)" by (auto simp: settled_as_def resolves_def)
    then have "settled_as (outbox b') r (obx_payload r, taken)" by (rule settled_as_untouched[OF _ xs(2)])
    then have "relayed (r # rs) b q b'" unfolding relayed_def
      using xs untouched_trans[OF u1 xs(2)] by (intro conjI exI[of _ "(obx_payload r, taken) # xs"]) (simp_all add: b1_def)
    then show ?thesis using ih(2) mark_healthy[OF call] by (auto simp: b1_def)
  qed
qed

lemma pending_batch:
  assumes "distinct (map obx_id (db_outbox s))"
  shows "distinct (map obx_id (get_pending_events n s))" "\<forall>r\<in>set (get_pending_events n s). awaits (db_outbox s) r"
proof -
  let ?p = "sort_key obx_created_at (filter (\<lambda>r. obx_status r = Outbox_Pending) (db_outbox s))"
  have "distinct (map obx_id ?p)" using assms by (auto simp: distinct_map inj_on_def)
  then show "distinct (map obx_id (get_pending_events n s))"
    unfolding get_pending_events_def by (metis distinct_take take_map)
  show "\<forall>r\<in>set (get_pending_events n s). awaits (db_outbox s) r"
    by (auto simp: get_pending_events_def awaits_def dest: in_set_takeD)
qed

lemma batch_relayed:
  assumes run: "process_batch accept b = (r, b')" and h: "honest b"
  defines "batch \<equiv> get_pending_events batch_size (w_store (bus_world b))"
  shows "(\<exists>q. relayed batch b q b' \<and> ((\<exists>n. r = Inr n) \<longrightarrow> q = Inr () \<and> r = Inr (length batch))) \<or> (\<exists>e. r = Inl e) \<and> honest b' \<and> untouched b b' \<and> bus_attempts b' = bus_attempts b"
    and "healthy (bus_world b) \<Longrightarrow> r = Inr (length batch)"
proof -
  obtain q w where read: "db_read (\<lambda>_ s. get_pending_events batch_size s) (bus_world b) = (q, w)" by fastforce
  have w: "w_store w = w_store (bus_world b)" "q = Inr batch \<or> (\<exists>e. q = Inl e)" "healthy (bus_world b) \<Longrightarrow> q = Inr batch \<and> healthy w"
    using read healthy_tl by (auto simp: db_read_def db_call_def batch_def healthy_def split: list.splits bool.splits)
  let ?b = "b\<lparr>bus_world := w\<rparr>"
  have b: "honest ?b" "outbox ?b = outbox b" "untouched b ?b" using h w(1) by (simp_all add: honest_def untouched_same)
  note pb = pending_batch[of "w_store (bus_world b)" batch_size, folded batch_def]
  have d: "distinct (map obx_id (outbox b))" using h by (simp add: honest_def)
  obtain q2 b2 where rl: "relay accept batch ?b = (q2, b2)" by fastforce
  have rel: "relayed batch ?b q2 b2 \<and> (healthy w \<longrightarrow> q2 = Inr ())"
    using relay_relayed[OF rl b(1)] pb[OF d] b(2) by simp
  then have rel': "relayed batch b q2 b2" using untouched_trans[OF b(3)] by (auto simp: relayed_def)
  have "r = (case q of Inl e \<Rightarrow> Inl e | Inr _ \<Rightarrow> (case q2 of Inl e \<Rightarrow> Inl e | Inr _ \<Rightarrow> Inr (length batch)))"
    "b' = (case q of Inl e \<Rightarrow> ?b | Inr _ \<Rightarrow> b2)"
    using run w(2) rl by (auto simp: process_batch_def read split: sum.splits)
  note rb = this
  show "(\<exists>q. relayed batch b q b' \<and> ((\<exists>n. r = Inr n) \<longrightarrow> q = Inr () \<and> r = Inr (length batch))) \<or> (\<exists>e. r = Inl e) \<and> honest b' \<and> untouched b b' \<and> bus_attempts b' = bus_attempts b"
    using w(2) rel' b rb by (auto split: sum.splits)
  show "healthy (bus_world b) \<Longrightarrow> r = Inr (length batch)" using w(3) rel rb by auto
qed

section \<open>Example data\<close>

definition example_event :: "nat \<Rightarrow> event" where
  "example_event n = OrderUpdate (of_nat n) None 0 ''active'' None"

definition outbox_bus :: "bool list \<Rightarrow> bus" where
  "outbox_bus faults = \<lparr>bus_world = \<lparr>w_store = \<lparr>db_orders = [], db_settlements = [], db_matches = [],
       db_outbox = map (\<lambda>n. \<lparr>obx_id = of_nat n, obx_event_type = ''OrderUpdate'', obx_payload = example_event n,
         obx_status = Outbox_Pending, obx_attempts = 0, obx_last_attempt_at = None, obx_created_at = int (10 - n)\<rparr>) [1, 2], db_epochs = [], db_rules = [], db_alerts = [],
       db_ids = []\<rparr>,
     w_faults = faults, w_now = 50, w_db_now = 50, w_audit = [], w_sent = [], w_wake = False\<rparr>, bus_attempts = []\<rparr>"

text \<open>A bus that is down for its first delivery only.\<close>

definition hiccup :: "(event \<times> bool) list \<Rightarrow> event \<Rightarrow> bool" where
  "hiccup attempts ev \<longleftrightarrow> attempts \<noteq> []"

lemma outbox_bus_honest: "honest (outbox_bus f)"
  by (simp add: honest_def outbox_bus_def)

lemma hiccup_batch:
  "process_batch hiccup (outbox_bus []) = (Inr 2, snd (process_batch hiccup (outbox_bus []))) \<and>
   map (\<lambda>r. (obx_id r, obx_status r)) (outbox (snd (process_batch hiccup (outbox_bus [])))) = [(1, Outbox_Processed), (2, Outbox_Failed)] \<and>
   bus_attempts (snd (process_batch hiccup (outbox_bus []))) = [(example_event 2, False), (example_event 1, True)]"
  by (simp add: process_batch_def outbox_bus_def db_read_def db_call_def get_pending_events_def batch_size_def
      hiccup_def mark_processed_def mark_failed_def Let_def)

section \<open>Properties\<close>



lemma batch_untouched: "honest b \<Longrightarrow> honest (snd (process_batch accept b)) \<and> untouched b (snd (process_batch accept b))"
  using batch_relayed(1)[of accept b] by (cases "process_batch accept b") (auto simp: relayed_def)

text \<open>An event that the bus refused once is lost: its row stays \<open>FAILED\<close> through any number of
  later batches, whatever the bus would answer, and is not sent again.\<close>

theorem refused_event_never_resent:
  assumes "honest b" and "r \<in> set (outbox b)" and "obx_status r = Outbox_Failed"
  shows "r \<in> set (outbox (fold (\<lambda>accept b. snd (process_batch accept b)) buses b)) \<and>
    (\<forall>n. r \<notin> set (get_pending_events n (w_store (bus_world (fold (\<lambda>accept b. snd (process_batch accept b)) buses b)))))"
proof -
  have "honest (fold (\<lambda>accept b. snd (process_batch accept b)) buses b) \<and>
      r \<in> set (outbox (fold (\<lambda>accept b. snd (process_batch accept b)) buses b))" using assms
  proof (induction buses arbitrary: b)
    case (Cons accept buses)
    let ?b = "snd (process_batch accept b)"
    have "honest ?b" "untouched b ?b" using batch_untouched[OF Cons.prems(1)] by auto
    moreover have "r \<in> set (outbox ?b)"
      using list_all2_image[OF calculation(2)[unfolded untouched_def] Cons.prems(2)] Cons.prems(3) by auto
    ultimately show ?case using Cons.IH[of ?b] Cons.prems(3) by simp
  qed simp
  then show ?thesis using assms(3) by (auto simp: get_pending_events_def dest: in_set_takeD)
qed

theorem refused_event_never_resent_witness:
  "\<exists>r. obx_id r = 2 \<and> obx_payload r = example_event 2 \<and>
     r \<in> set (outbox (fold (\<lambda>accept b. snd (process_batch accept b)) [\<lambda>_ _. True, \<lambda>_ _. True] (snd (process_batch hiccup (outbox_bus [])))))"
proof -
  let ?b = "snd (process_batch hiccup (outbox_bus []))"
  have "(2, Outbox_Failed) \<in> set (map (\<lambda>r. (obx_id r, obx_status r)) (outbox ?b))" using hiccup_batch by simp
  then obtain r where r: "r \<in> set (outbox ?b)" "obx_id r = 2" "obx_status r = Outbox_Failed" by auto
  obtain q where q: "q \<in> set (outbox (outbox_bus []))" "obx_id r = obx_id q" "obx_payload r = obx_payload q"
    using list_all2_origin[OF conjunct2[OF batch_untouched[OF outbox_bus_honest], unfolded untouched_def] r(1)]
    by (elim bexE conjE)
  then have "obx_payload r = example_event 2" using r(2) by (auto simp: outbox_bus_def)
  then show ?thesis using refused_event_never_resent[OF _ r(1,3)] batch_untouched[OF outbox_bus_honest] r(2) by blast
qed

end
