(* ===== verification/Recurring_Orders.thy ===== *)
theory Recurring_Orders imports Order_Ledger Recurring_Schedule "HOL-Library.Sublist" begin

text \<open>
  Recurring orders: the repository \<open>trading-persistence/src/repositories/recurring.rs\<close>, and the
  evaluator \<open>trading-logic/src/recurring_evaluator.rs\<close> that turns the rules that are due into orders,
  advances their schedule and wakes the matcher.
\<close>

section \<open>The repository\<close>

definition get_due_recurring_orders :: "datetime \<Rightarrow> store \<Rightarrow> recurring_order list" where
  "get_due_recurring_orders t s = filter (\<lambda>r. rec_status r = Recurring_Active \<and> rec_next_execution_at r \<le> t) (db_rules s)"

definition advance_rule :: "datetime \<Rightarrow> datetime \<Rightarrow> int \<Rightarrow> recurring_order \<Rightarrow> recurring_order" where
  "advance_rule now next_at executions r =
     r\<lparr>rec_next_execution_at := next_at, rec_total_executions := executions, rec_last_executed_at := Some now,
       rec_updated_at := now,
       rec_status := (case rec_max_executions r of
           None \<Rightarrow> rec_status r
         | Some m \<Rightarrow> if m \<le> executions then Recurring_Completed else rec_status r)\<rparr>"

definition update_after_execution :: "uuid \<Rightarrow> datetime \<Rightarrow> int \<Rightarrow> datetime \<Rightarrow> store \<Rightarrow> api_error + (unit \<times> store)" where
  "update_after_execution i next_at executions now s =
     Inr ((), s\<lparr>db_rules := update_where (\<lambda>r. rec_id r = i) (advance_rule now next_at executions) (db_rules s)\<rparr>)"

text \<open>The insert, with the table's defaults and its constraints: identifier, exact columns, the cadence
  check and the length of the name.\<close>

definition create_recurring_order ::
  "new_recurring_order \<Rightarrow> datetime \<Rightarrow> store \<Rightarrow> api_error + (recurring_order \<times> store)" where
  "create_recurring_order inp now s =
     (case draw_id s of (i, s') \<Rightarrow>
      case (num8 (nro_energy_amount inp), num8_opt (nro_max_price_per_kwh inp), num8_opt (nro_min_price_per_kwh inp)) of
        (Some energy, Some max_price, Some min_price) \<Rightarrow>
          if i \<in> rec_id ` set (db_rules s') then Inl (Database ''recurring_orders_pkey'')
          else if nro_interval_value inp \<le> 0 then Inl (Database ''recurring_orders_interval_value_check'')
          else if (case nro_name inp of None \<Rightarrow> False | Some n \<Rightarrow> 100 < length n)
            then Inl (Database ''value too long for type character varying(100)'')
          else (let r = \<lparr>rec_id = i, rec_user_id = nro_user_id inp, rec_side = nro_side inp, rec_energy_amount = energy,
                  rec_max_price_per_kwh = max_price, rec_min_price_per_kwh = min_price,
                  rec_interval_type = nro_interval_type inp, rec_interval_value = nro_interval_value inp,
                  rec_next_execution_at = nro_next_execution_at inp, rec_last_executed_at = None,
                  rec_status = Recurring_Active, rec_total_executions = 0,
                  rec_max_executions = nro_max_executions inp, rec_name = nro_name inp,
                  rec_description = nro_description inp, rec_created_at = now, rec_updated_at = now\<rparr>
                in Inr (r, s'\<lparr>db_rules := db_rules s' @ [r]\<rparr>))
      | _ \<Rightarrow> Inl (Database ''numeric field overflow''))"

definition list_recurring_orders_for_user :: "uuid \<Rightarrow> store \<Rightarrow> recurring_order list" where
  "list_recurring_orders_for_user u s = sort_key (\<lambda>r. - rec_created_at r) (filter (\<lambda>r. rec_user_id r = u) (db_rules s))"

definition get_recurring_order :: "uuid \<Rightarrow> uuid \<Rightarrow> store \<Rightarrow> recurring_order option" where
  "get_recurring_order i u s = find (\<lambda>r. rec_id r = i \<and> rec_user_id r = u) (db_rules s)"

definition delete_recurring_order :: "uuid \<Rightarrow> uuid \<Rightarrow> datetime \<Rightarrow> store \<Rightarrow> api_error + (bool \<times> store)" where
  "delete_recurring_order i u now s =
     (let hit = (\<lambda>r. rec_id r = i \<and> rec_user_id r = u)
      in Inr (rows_affected hit (db_rules s) > 0, s\<lparr>db_rules := filter (\<lambda>r. \<not> hit r) (db_rules s)\<rparr>))"

definition set_recurring_status ::
  "uuid \<Rightarrow> uuid \<Rightarrow> recurring_status \<Rightarrow> datetime \<Rightarrow> store \<Rightarrow> api_error + (bool \<times> store)" where
  "set_recurring_status i u st now s =
     (let hit = (\<lambda>r. rec_id r = i \<and> rec_user_id r = u)
      in Inr (rows_affected hit (db_rules s) > 0,
           s\<lparr>db_rules := update_where hit (\<lambda>r. r\<lparr>rec_status := st, rec_updated_at := now\<rparr>) (db_rules s)\<rparr>))"

section \<open>The evaluator\<close>

definition hours_24 :: int where "hours_24 = 24 * 3600 * nanos"

text \<open>An \<open>i32\<close> sum wraps in the release profile.\<close>

definition i32_add :: "int \<Rightarrow> int \<Rightarrow> int" where
  "i32_add a b = (a + b + 2 ^ 31) mod 2 ^ 32 - 2 ^ 31"

definition recurring_trading_order :: "recurring_order \<Rightarrow> decimal \<Rightarrow> uuid \<Rightarrow> uuid \<Rightarrow> datetime \<Rightarrow> datetime \<Rightarrow> trading_order" where
  "recurring_trading_order rule price epoch i expires now =
     \<lparr>ord_id = i, ord_user_id = rec_user_id rule, ord_order_type = Limit, ord_side = rec_side rule,
      ord_energy_amount = rec_energy_amount rule, ord_price_per_kwh = price, ord_filled_amount = 0,
      ord_status = Order_Pending, ord_expires_at = Some expires, ord_created_at = Some now, ord_filled_at = None,
      ord_epoch_id = Some epoch, ord_zone_id = None, ord_meter_id = None, ord_refund_tx_signature = None,
      ord_order_pda = None, ord_order_index = None, ord_session_token = None, ord_blockchain_status = None,
      ord_blockchain_tx_hash = None, ord_blockchain_error = None, ord_retry_count = 0,
      ord_time_in_force = Gtc, ord_market_segment = Realtime\<rparr>"

definition order_created_event :: "trading_order \<Rightarrow> event" where
  "order_created_event o' = OrderCreated
     \<lparr>ocp_id = ord_id o', ocp_user_id = ord_user_id o', ocp_order_type = order_type_str (ord_order_type o'),
      ocp_side = order_side_str (ord_side o'), ocp_energy_amount = ord_energy_amount o',
      ocp_price_per_kwh = ord_price_per_kwh o', ocp_status = order_status_str (ord_status o'),
      ocp_zone_id = ord_zone_id o', ocp_created_at = ord_created_at o'\<rparr>"

definition place_order :: "clock_range \<Rightarrow> recurring_order \<Rightarrow> decimal \<Rightarrow> uuid \<Rightarrow> unit io" where
  "place_order C rule price epoch =
     and_then new_v4 (\<lambda>i.
     and_then telemetry_now (\<lambda>t.
     and_then (or_panic (checked_add_signed C t hours_24)) (\<lambda>expires.
     and_then telemetry_now (\<lambda>now.
     let o' = recurring_trading_order rule price epoch i expires now in
     db_call (insert_order_with_event o' (order_created_event o'))))))"

definition rule_price :: "recurring_order \<Rightarrow> decimal option" where
  "rule_price rule = (case rec_side rule of Buy \<Rightarrow> rec_max_price_per_kwh rule | Sell \<Rightarrow> rec_min_price_per_kwh rule)"

text \<open>One rule of the batch; the accumulator is \<open>(placed, committed)\<close>.\<close>

definition recurring_step ::
  "clock_range \<Rightarrow> (datetime \<Rightarrow> int \<Rightarrow> datetime option) \<Rightarrow> datetime \<Rightarrow> uuid \<Rightarrow> recurring_order
     \<Rightarrow> nat \<times> bool \<Rightarrow> (nat \<times> bool) io" where
  "recurring_step C add_months now epoch rule = (\<lambda>(placed, committed).
     case rule_price rule of
       None \<Rightarrow> ok (placed, committed)
     | Some price \<Rightarrow>
         and_then (attempt (place_order C rule price epoch)) (\<lambda>r. case r of
             Inl _ \<Rightarrow> ok (placed, committed)
           | Inr _ \<Rightarrow>
               and_then (or_panic (next_execution_at C add_months now (rec_interval_type rule) (rec_interval_value rule))) (\<lambda>next_at.
               and_then (attempt (db_call (update_after_execution (rec_id rule) next_at
                          (i32_add (rec_total_executions rule) 1)))) (\<lambda>u.
               ok (case u of Inl _ \<Rightarrow> (placed, True) | Inr _ \<Rightarrow> (Suc placed, True))))))"

fun io_fold :: "('x \<Rightarrow> 'a \<Rightarrow> 'a io) \<Rightarrow> 'x list \<Rightarrow> 'a \<Rightarrow> 'a io" where
  "io_fold f [] a = ok a"
| "io_fold f (x # xs) a = and_then (f x a) (io_fold f xs)"

text \<open>\<open>notify_one\<close>: a permit is stored; a second one changes nothing.\<close>

definition request_cycle :: "unit io" where
  "request_cycle w = (Inr (), w\<lparr>w_wake := True\<rparr>)"

definition recurring_cycle :: "clock_range \<Rightarrow> (datetime \<Rightarrow> int \<Rightarrow> datetime option) \<Rightarrow> nat io" where
  "recurring_cycle C add_months =
     and_then telemetry_now (\<lambda>now.
     and_then (db_read (\<lambda>_ s. get_due_recurring_orders now s)) (\<lambda>due.
     if due = [] then ok 0 else
     and_then (db_call get_or_create_active_epoch) (\<lambda>epoch.
     and_then (io_fold (recurring_step C add_months now epoch) due (0, False)) (\<lambda>(placed, committed).
     and_then (if committed then request_cycle else ok ()) (\<lambda>_.
     ok placed)))))"

section \<open>What a cycle does\<close>

text \<open>The rule after its execution, and the order placed for it.\<close>

definition executed_rule ::
  "clock_range \<Rightarrow> (datetime \<Rightarrow> int \<Rightarrow> datetime option) \<Rightarrow> datetime \<Rightarrow> datetime \<Rightarrow> recurring_order \<Rightarrow> recurring_order" where
  "executed_rule C add_months now db_now r =
     advance_rule db_now (the (next_execution_at C add_months now (rec_interval_type r) (rec_interval_value r)))
       (i32_add (rec_total_executions r) 1) r"

definition placed_for :: "recurring_order \<Rightarrow> order_row \<Rightarrow> bool" where
  "placed_for r row \<longleftrightarrow> odb_user_id row = rec_user_id r \<and> odb_side row = rec_side r \<and> odb_status row = Order_Pending \<and>
     num8 (rec_energy_amount r) = Some (odb_energy_amount row) \<and>
     (\<exists>p. rule_price r = Some p \<and> num8 p = Some (odb_price_per_kwh row))"

text \<open>The world after the rules \<open>L\<close> were executed.\<close>

definition executed ::
  "clock_range \<Rightarrow> (datetime \<Rightarrow> int \<Rightarrow> datetime option) \<Rightarrow> datetime \<Rightarrow> world \<Rightarrow> recurring_order list \<Rightarrow> world \<Rightarrow> bool" where
  "executed C add_months now w0 L w \<longleftrightarrow> healthy w \<and> w_db_now w = w_db_now w0 \<and> w_wake w = w_wake w0 \<and>
     db_rules (w_store w) = map (\<lambda>r. if r \<in> set L then executed_rule C add_months now (w_db_now w0) r else r) (db_rules (w_store w0)) \<and>
     (\<exists>news. db_orders (w_store w) = db_orders (w_store w0) @ news \<and> list_all2 placed_for L news)"

lemma executed_calls:
  "executed C am now w0 L w \<Longrightarrow> executed C am now w0 L (w\<lparr>w_faults := tl (w_faults w)\<rparr>)"
  using healthy_tl by (simp add: executed_def)

lemma place_order_placed:
  assumes e: "executed C am now w0 L w" and run: "place_order C rule price epoch w = (q, w')"
    and price: "rule_price rule = Some price"
  shows "case q of Inl _ \<Rightarrow> executed C am now w0 L w'
    | Inr _ \<Rightarrow> healthy w' \<and> w_db_now w' = w_db_now w0 \<and> w_wake w' = w_wake w0 \<and> db_rules (w_store w') = db_rules (w_store w) \<and>
        (\<exists>row. db_orders (w_store w') = db_orders (w_store w) @ [row] \<and> placed_for rule row)"
proof -
  obtain i s1 where i: "draw_id (w_store w) = (i, s1)" by fastforce
  have s1: "db_rules s1 = db_rules (w_store w)" "db_orders s1 = db_orders (w_store w)"
    using i by (auto simp: draw_id_def split: list.splits)
  let ?w1 = "w\<lparr>w_store := s1\<rparr>"
  have h: "healthy ?w1" and e1: "executed C am now w0 L ?w1" using e s1 by (simp_all add: executed_def healthy_def)
  note e2 = executed_calls[OF e1]
  show ?thesis
  proof (cases "checked_add_signed C (w_now w) hours_24")
    case None
    then have "q = Inl Panicked" "w' = ?w1"
      using run by (simp_all add: place_order_def and_then_def new_v4_def i telemetry_now_def or_panic_def)
    then show ?thesis using e1 by simp
  next
    case (Some expires)
    define o' where "o' = recurring_trading_order rule price epoch i expires (w_now w)"
    have q: "(q, w') = db_call (insert_order_with_event o' (order_created_event o')) ?w1"
      using run by (simp add: place_order_def and_then_def new_v4_def i telemetry_now_def or_panic_def Some Let_def o'_def)
    show ?thesis
    proof (cases "insert_order_with_event o' (order_created_event o') (w_db_now w) s1")
      case (Inl x)
      then have "q = Inl (Error x)" "w' = ?w1\<lparr>w_faults := tl (w_faults w)\<rparr>" using q h by (simp_all add: db_call_healthy)
      then show ?thesis using e2 by simp
    next
      case (Inr us)
      obtain u s2 where us: "us = (u, s2)" by (cases us)
      have w': "q = Inr u" "w' = ?w1\<lparr>w_faults := tl (w_faults w), w_store := s2\<rparr>"
        using q h Inr by (simp_all add: db_call_healthy us)
      obtain s3 where s3: "insert_order o' (w_db_now w) s1 = Inr ((), s3)" "insert_event_in_tx (w_db_now w) (order_created_event o') s3 = Inr s2"
        using Inr by (auto simp: insert_order_with_event_def us split: sum.splits)
      obtain en pr where "num8 (ord_energy_amount o') = Some en" "num8 (ord_price_per_kwh o') = Some pr"
        "s3 = s1\<lparr>db_orders := db_orders s1 @ [new_order_row (w_db_now w) o' en pr]\<rparr>"
        using s3(1) by (auto simp: insert_order_def split: option.splits if_splits)
      moreover have "db_orders s2 = db_orders s3" "db_rules s2 = db_rules s3"
        using s3(2) by (auto simp: insert_event_in_tx_def draw_id_def split: list.splits if_splits)
      ultimately show ?thesis using w' e2 s1 price
        by (auto simp: executed_def placed_for_def o'_def recurring_trading_order_def new_order_row_def healthy_def)
    qed
  qed
qed

lemma step_executed:
  assumes e: "executed C am now w0 L w" and d: "distinct (map rec_id (db_rules (w_store w0)))"
    and rule: "rule \<in> set (db_rules (w_store w0))" "rule \<notin> set L" and L: "set L \<subseteq> set (db_rules (w_store w0))"
    and run: "recurring_step C am now epoch rule (length L, L \<noteq> []) w = (Inr acc, w')"
  shows "\<exists>L'. (L' = L \<or> L' = L @ [rule]) \<and> acc = (length L', L' \<noteq> []) \<and> executed C am now w0 L' w'"
proof (cases "rule_price rule")
  case None
  then show ?thesis using e run by (auto simp: recurring_step_def ok_def)
next
  case (Some price)
  obtain q w1 where pl: "place_order C rule price epoch w = (q, w1)" by fastforce
  note p = place_order_placed[OF e pl Some]
  show ?thesis
  proof (cases q)
    case (Inl x)
    then have "acc = (length L, L \<noteq> [])" "w' = w1"
      using run by (auto simp: recurring_step_def Some and_then_def attempt_def pl ok_def split: failure.splits)
    then show ?thesis using p Inl by auto
  next
    case (Inr u)
    then obtain row where w1: "healthy w1" "w_db_now w1 = w_db_now w0" "w_wake w1 = w_wake w0"
      "db_rules (w_store w1) = db_rules (w_store w)" "db_orders (w_store w1) = db_orders (w_store w) @ [row]" "placed_for rule row"
      using p by auto
    obtain t where t: "next_execution_at C am now (rec_interval_type rule) (rec_interval_value rule) = Some t"
      using run by (cases "next_execution_at C am now (rec_interval_type rule) (rec_interval_value rule)")
        (auto simp: recurring_step_def Some and_then_def attempt_def pl Inr or_panic_def)
    let ?f = "\<lambda>r. if r \<in> set L then executed_rule C am now (w_db_now w0) r else r"
    let ?g = "\<lambda>r. if r \<in> set (L @ [rule]) then executed_rule C am now (w_db_now w0) r else r"
    have acc: "acc = (Suc (length L), True)"
      and w': "w' = w1\<lparr>w_faults := tl (w_faults w1), w_store := (w_store w1)\<lparr>db_rules :=
          update_where (\<lambda>r. rec_id r = rec_id rule) (advance_rule (w_db_now w1) t (i32_add (rec_total_executions rule) 1))
            (db_rules (w_store w1))\<rparr>\<rparr>"
      using run w1(1) by (simp_all add: recurring_step_def Some and_then_def attempt_def pl Inr or_panic_def t
          db_call_healthy update_after_execution_def ok_def)
    have "update_where (\<lambda>r. rec_id r = rec_id rule) (advance_rule (w_db_now w0) t (i32_add (rec_total_executions rule) 1))
        (map ?f (db_rules (w_store w0))) = map ?g (db_rules (w_store w0))"
      unfolding update_where_def map_map comp_def
    proof (rule map_cong[OF refl])
      fix r assume r: "r \<in> set (db_rules (w_store w0))"
      have id: "rec_id (?f r) = rec_id r" by (simp add: executed_rule_def advance_rule_def)
      have "r = rule" if "rec_id r = rec_id rule" using d r rule(1) that unfolding distinct_map by (metis inj_onD)
      then show "(if rec_id (?f r) = rec_id rule then advance_rule (w_db_now w0) t (i32_add (rec_total_executions rule) 1) (?f r) else ?f r) = ?g r"
        unfolding id using rule(2) by (auto simp: executed_rule_def t)
    qed
    moreover have "db_rules (w_store w) = map ?f (db_rules (w_store w0))" using e by (simp add: executed_def)
    ultimately have "db_rules (w_store w') = map ?g (db_rules (w_store w0))" by (simp add: w' w1)
    moreover obtain news where "db_orders (w_store w) = db_orders (w_store w0) @ news" "list_all2 placed_for L news"
      using e by (auto simp: executed_def)
    ultimately have "executed C am now w0 (L @ [rule]) w'"
      unfolding executed_def using w1 healthy_tl[OF w1(1)]
      by (intro conjI exI[of _ "news @ [row]"]) (simp_all add: w' healthy_def list_all2_appendI)
    then show ?thesis using acc by (intro exI[of _ "L @ [rule]"]) simp
  qed
qed

lemma fold_executed:
  "\<lbrakk>io_fold (recurring_step C am now epoch) rs (length L, L \<noteq> []) w = (Inr acc, w'); executed C am now w0 L w;
    distinct (map rec_id (db_rules (w_store w0))); set (L @ rs) \<subseteq> set (db_rules (w_store w0)); distinct (L @ rs)\<rbrakk>
   \<Longrightarrow> \<exists>M. subseq M rs \<and> acc = (length (L @ M), L @ M \<noteq> []) \<and> executed C am now w0 (L @ M) w'"
proof (induction rs arbitrary: L w)
  case Nil
  then show ?case by (auto simp: ok_def)
next
  case (Cons r rs)
  obtain a w1 where s: "recurring_step C am now epoch r (length L, L \<noteq> []) w = (Inr a, w1)"
    "io_fold (recurring_step C am now epoch) rs a w1 = (Inr acc, w')"
    using Cons.prems(1) by (auto simp: and_then_def split: prod.splits sum.splits)
  obtain L' where L': "L' = L \<or> L' = L @ [r]" "a = (length L', L' \<noteq> [])" "executed C am now w0 L' w1"
    using step_executed[OF Cons.prems(2,3) _ _ _ s(1)] Cons.prems(4,5) by auto
  have "set (L' @ rs) \<subseteq> set (db_rules (w_store w0))" "distinct (L' @ rs)" using L'(1) Cons.prems(4,5) by auto
  from Cons.IH[OF s(2)[unfolded L'(2)] L'(3) Cons.prems(3) this]
  obtain M where "subseq M rs" "acc = (length (L' @ M), L' @ M \<noteq> [])" "executed C am now w0 (L' @ M) w'" by blast
  then show ?case using L'(1) by (elim disjE) (auto intro: exI[of _ M] exI[of _ "r # M"])
qed

section \<open>Example data\<close>

definition example_rule :: "uuid \<Rightarrow> decimal option \<Rightarrow> recurring_order" where
  "example_rule i price = \<lparr>rec_id = i, rec_user_id = 11, rec_side = Buy, rec_energy_amount = 5, rec_max_price_per_kwh = price,
     rec_min_price_per_kwh = None, rec_interval_type = Hourly, rec_interval_value = 2, rec_next_execution_at = 0,
     rec_last_executed_at = None, rec_status = Recurring_Active, rec_total_executions = 0, rec_max_executions = Some 1,
     rec_name = None, rec_description = None, rec_created_at = 0, rec_updated_at = 0\<rparr>"

text \<open>Two due rules, of which the first has no price for its side.\<close>

definition rules_world :: "bool list \<Rightarrow> world" where
  "rules_world faults = (example_world [])\<lparr>w_faults := faults, w_store :=
     \<lparr>db_orders = [], db_settlements = [], db_matches = [], db_outbox = [], db_epochs = [example_epoch],
      db_rules = [example_rule 71 None, example_rule 72 (Some 3)], db_alerts = [], db_ids = [101, 102, 103, 104]\<rparr>\<rparr>"

abbreviation hourly_cycle :: "nat io" where
  "hourly_cycle \<equiv> recurring_cycle chrono_utc (\<lambda>_ _. None)"

lemma rules_cycle:
  "fst (hourly_cycle (rules_world [])) = Inr 1"
  "map (\<lambda>r. (rec_id r, rec_total_executions r, rec_status r, rec_next_execution_at r)) (db_rules (w_store (snd (hourly_cycle (rules_world [])))))
     = [(71, 0, Recurring_Active, 0), (72, 1, Recurring_Completed, 7200000000000)]"
  "map odb_id (db_orders (w_store (snd (hourly_cycle (rules_world []))))) = [101]"
  by code_simp+

section \<open>Properties\<close>

text \<open>A cycle of recurring orders, with a healthy database: exactly the rules it reports were
  executed, each of them was due, has a price and got one pending order of its user, side, energy
  and price, in order; each was advanced to its next execution time with one more execution, and
  completed when that reaches its maximum; every other rule is unchanged; and the matcher is woken
  when an order was placed.\<close>

theorem recurring_cycle_exact:
  assumes "healthy w" and d: "distinct (map rec_id (db_rules (w_store w)))"
    and run: "recurring_cycle C add_months w = (Inr n, w')"
  shows "\<exists>done_rules news. n = length done_rules \<and> subseq done_rules (get_due_recurring_orders (w_now w) (w_store w)) \<and>
    db_orders (w_store w') = db_orders (w_store w) @ news \<and> list_all2 placed_for done_rules news \<and>
    db_rules (w_store w') = map (\<lambda>r. if r \<in> set done_rules
       then executed_rule C add_months (w_now w) (w_db_now w) r else r) (db_rules (w_store w)) \<and>
    w_wake w' = (w_wake w \<or> n \<noteq> 0)"
proof -
  let ?due = "get_due_recurring_orders (w_now w) (w_store w)"
  let ?w1 = "w\<lparr>w_faults := tl (w_faults w)\<rparr>"
  have h1: "healthy ?w1" by (rule healthy_tl[OF assms(1)])
  have start: "executed C add_months (w_now w) w [] w" using assms(1) by (simp add: executed_def)
  have read: "db_read (\<lambda>_ s. get_due_recurring_orders (w_now w) s) w = (Inr ?due, ?w1)"
    using assms(1) by (simp add: db_read_def db_call_healthy)
  show ?thesis
  proof (cases "?due = []")
    case True
    then have "n = 0" "w' = ?w1" using run read by (simp_all add: recurring_cycle_def and_then_def telemetry_now_def ok_def)
    then show ?thesis by (intro exI[of _ "[]"]) simp
  next
    case False
    obtain q w2 where ep: "db_call get_or_create_active_epoch ?w1 = (q, w2)" by fastforce
    obtain epoch where q: "q = Inr epoch"
      using run False read ep by (cases q) (auto simp: recurring_cycle_def and_then_def telemetry_now_def)
    have w2: "executed C add_months (w_now w) w [] w2"
      using ep q h1 healthy_tl[OF h1]
      by (auto simp: executed_def db_call_healthy get_or_create_active_epoch_def draw_id_def healthy_def split: sum.splits list.splits if_splits)
    obtain p c w3 where fold: "io_fold (recurring_step C add_months (w_now w) epoch) ?due (0, False) w2 = (Inr (p, c), w3)"
      and end_: "n = p" "w' = (if c then w3\<lparr>w_wake := True\<rparr> else w3)"
      using run False read ep q
      by (auto simp: recurring_cycle_def and_then_def telemetry_now_def ok_def request_cycle_def split: prod.splits sum.splits if_splits)
    have "distinct ?due" using d by (simp add: get_due_recurring_orders_def distinct_map)
    moreover have "set ?due \<subseteq> set (db_rules (w_store w))" by (auto simp: get_due_recurring_orders_def)
    ultimately have "\<exists>M. subseq M ?due \<and> (p, c) = (length ([] @ M), [] @ M \<noteq> []) \<and> executed C add_months (w_now w) w ([] @ M) w3"
      using fold_executed[OF _ w2 d, of epoch ?due "(p, c)" w3] fold by simp
    then obtain M where M: "subseq M ?due" "(p, c) = (length M, M \<noteq> [])" "executed C add_months (w_now w) w M w3" by auto
    then show ?thesis using end_ by (intro exI[of _ M]) (auto simp: executed_def)
  qed
qed

theorem recurring_cycle_exact_witness:
  "\<exists>done_rules row. subseq done_rules (get_due_recurring_orders 0 (w_store (rules_world []))) \<and> length done_rules = 1 \<and>
     db_orders (w_store (snd (hourly_cycle (rules_world [])))) = [row] \<and> w_wake (snd (hourly_cycle (rules_world [])))"
proof -
  let ?w' = "snd (hourly_cycle (rules_world []))"
  have run: "hourly_cycle (rules_world []) = (Inr 1, ?w')" using rules_cycle(1) by (metis prod.collapse)
  have w: "healthy (rules_world [])" "distinct (map rec_id (db_rules (w_store (rules_world []))))"
    "w_now (rules_world []) = 0" "db_orders (w_store (rules_world [])) = []"
    by (simp_all add: healthy_def rules_world_def example_rule_def example_world_def)
  obtain L news where L: "1 = length L" "subseq L (get_due_recurring_orders 0 (w_store (rules_world [])))"
    "db_orders (w_store ?w') = news" "list_all2 placed_for L news" "w_wake ?w'"
    using recurring_cycle_exact[OF w(1,2) run] w(3,4) by auto
  then obtain row where "news = [row]" using list_all2_lengthD[OF L(4)] by (cases news) auto
  then show ?thesis using L by (intro exI[of _ L] exI[of _ row]) simp
qed

text \<open>A rule limited to one execution places two orders: the order and the advance of the rule are
  separate writes, and when the second fails the rule stays due, so the next cycle places it again.\<close>

theorem recurring_limit_exceeded:
  "let w = snd (hourly_cycle (snd (hourly_cycle (rules_world [False, False, False, True]))))
   in map rec_max_executions (db_rules (w_store w)) = [Some 1, Some 1] \<and>
      map (\<lambda>r. (odb_user_id r, odb_energy_amount r)) (db_orders (w_store w)) = [(11, 5), (11, 5)]"
  by code_simp

end
