(* ===== verification/Price_Alerts.thy ===== *)
theory Price_Alerts imports Order_Ledger "HOL-Library.Sublist" begin

text \<open>
  Price alerts: the repository \<open>trading-persistence/src/repositories/price_alert.rs\<close> and the evaluator
  \<open>trading-logic/src/trigger_evaluator.rs\<close>, which compares the midpoint of the live book with the
  target of every active alert and records each firing together with its event.
\<close>

section \<open>The repository\<close>

definition create_price_alert :: "new_price_alert \<Rightarrow> datetime \<Rightarrow> store \<Rightarrow> api_error + (price_alert \<times> store)" where
  "create_price_alert inp now s =
     (case draw_id s of (i, s') \<Rightarrow>
      case num8 (npa_target_price inp) of
        None \<Rightarrow> Inl (Database ''numeric field overflow'')
      | Some target \<Rightarrow>
          if i \<in> al_id ` set (db_alerts s') then Inl (Database ''price_alerts_pkey'')
          else if (case npa_note inp of None \<Rightarrow> False | Some n \<Rightarrow> 200 < length n)
            then Inl (Database ''value too long for type character varying(200)'')
          else (let a = \<lparr>al_id = i, al_user_id = npa_user_id inp, al_target_price = target, al_condition = npa_condition inp,
                  al_status = Alert_Active, al_triggered_at = None, al_triggered_price = None, al_repeat = False,
                  al_note = npa_note inp, al_created_at = now, al_updated_at = Some now\<rparr>
                in Inr (a, s'\<lparr>db_alerts := db_alerts s' @ [a]\<rparr>)))"

definition list_price_alerts_for_user :: "uuid \<Rightarrow> store \<Rightarrow> price_alert list" where
  "list_price_alerts_for_user u s = sort_key (\<lambda>a. - al_created_at a) (filter (\<lambda>a. al_user_id a = u) (db_alerts s))"

definition delete_price_alert :: "uuid \<Rightarrow> uuid \<Rightarrow> datetime \<Rightarrow> store \<Rightarrow> api_error + (bool \<times> store)" where
  "delete_price_alert i u now s =
     (let hit = (\<lambda>a. al_id a = i \<and> al_user_id a = u)
      in Inr (rows_affected hit (db_alerts s) > 0, s\<lparr>db_alerts := filter (\<lambda>a. \<not> hit a) (db_alerts s)\<rparr>))"

definition get_active_alerts :: "store \<Rightarrow> price_alert list" where
  "get_active_alerts s = sort_key al_created_at (filter (\<lambda>a. al_status a = Alert_Active) (db_alerts s))"

text \<open>\<open>MARK_TRIGGERED_SQL\<close> on a row.\<close>

definition fire_alert :: "datetime \<Rightarrow> decimal \<Rightarrow> price_alert \<Rightarrow> price_alert" where
  "fire_alert now price a =
     a\<lparr>al_triggered_at := Some now, al_triggered_price := Some price,
       al_status := (if al_repeat a then al_status a else Alert_Triggered), al_updated_at := Some now\<rparr>"

definition mark_triggered :: "uuid \<Rightarrow> decimal \<Rightarrow> datetime \<Rightarrow> store \<Rightarrow> api_error + (unit \<times> store)" where
  "mark_triggered i price now s =
     (case num8 price of
        None \<Rightarrow> Inl (Database ''numeric field overflow'')
      | Some p \<Rightarrow> Inr ((), s\<lparr>db_alerts := update_where (\<lambda>a. al_id a = i) (fire_alert now p) (db_alerts s)\<rparr>))"

definition mark_triggered_with_event ::
  "uuid \<Rightarrow> decimal \<Rightarrow> event \<Rightarrow> datetime \<Rightarrow> store \<Rightarrow> api_error + (unit \<times> store)" where
  "mark_triggered_with_event i price ev now s =
     (case mark_triggered i price now s of
        Inl e \<Rightarrow> Inl e
      | Inr (_, s') \<Rightarrow> (case insert_event_in_tx now ev s' of Inl e \<Rightarrow> Inl e | Inr s'' \<Rightarrow> Inr ((), s'')))"

section \<open>The evaluator\<close>

definition cross_band :: decimal where "cross_band = 1 / 1000"

definition condition_met :: "dec_ops \<Rightarrow> alert_condition \<Rightarrow> decimal \<Rightarrow> decimal \<Rightarrow> bool option" where
  "condition_met D c price target =
     (case c of
        Above \<Rightarrow> Some (target \<le> price)
      | Below \<Rightarrow> Some (price \<le> target)
      | Crosses \<Rightarrow> map_option (\<lambda>band. \<bar>price - target\<bar> \<le> band) (dmul D \<bar>target\<bar> cross_band))"

text \<open>The loop over the book: best bid and best ask.\<close>

definition best_step :: "order_book_entry \<Rightarrow> decimal option \<times> decimal option \<Rightarrow> decimal option \<times> decimal option" where
  "best_step e = (\<lambda>(bid, ask).
     case obe_side e of
       Buy \<Rightarrow> (Some (case bid of None \<Rightarrow> obe_price_per_kwh e | Some b \<Rightarrow> max b (obe_price_per_kwh e)), ask)
     | Sell \<Rightarrow> (bid, Some (case ask of None \<Rightarrow> obe_price_per_kwh e | Some a \<Rightarrow> min a (obe_price_per_kwh e))))"

definition market_price :: "dec_ops \<Rightarrow> order_book_entry list \<Rightarrow> decimal option option" where
  "market_price D book =
     (case fold best_step book (None, None) of
        (Some b, Some a) \<Rightarrow> map_option Some (ddiv D (b + a) 2)
      | (Some b, None) \<Rightarrow> Some (Some b)
      | (None, Some a) \<Rightarrow> Some (Some a)
      | (None, None) \<Rightarrow> Some None)"

definition alert_event :: "price_alert \<Rightarrow> decimal \<Rightarrow> datetime \<Rightarrow> event" where
  "alert_event a price now = PriceAlertTriggered
     \<lparr>pap_alert_id = al_id a, pap_user_id = al_user_id a, pap_target_price = al_target_price a,
      pap_triggered_price = price, pap_condition = alert_condition_str (al_condition a), pap_triggered_at = now\<rparr>"

definition alert_step :: "dec_ops \<Rightarrow> decimal \<Rightarrow> price_alert \<Rightarrow> nat \<Rightarrow> nat io" where
  "alert_step D price a fired =
     and_then (or_panic (condition_met D (al_condition a) price (al_target_price a))) (\<lambda>met.
     if \<not> met then ok fired else
     and_then telemetry_now (\<lambda>now.
     and_then (attempt (db_call (mark_triggered_with_event (al_id a) price (alert_event a price now)))) (\<lambda>r.
     ok (case r of Inl _ \<Rightarrow> fired | Inr _ \<Rightarrow> Suc fired))))"

fun alert_loop :: "dec_ops \<Rightarrow> decimal \<Rightarrow> price_alert list \<Rightarrow> nat \<Rightarrow> nat io" where
  "alert_loop D price [] fired = ok fired"
| "alert_loop D price (a # as) fired = and_then (alert_step D price a fired) (alert_loop D price as)"

definition trigger_cycle :: "dec_ops \<Rightarrow> nat io" where
  "trigger_cycle D =
     and_then (db_read get_all_active_orders) (\<lambda>book.
     and_then (or_panic (market_price D book)) (\<lambda>p.
     case p of
       None \<Rightarrow> ok 0
     | Some price \<Rightarrow> and_then (db_read (\<lambda>_ s. get_active_alerts s)) (\<lambda>alerts. alert_loop D price alerts 0)))"

section \<open>The market price\<close>

definition bids :: "order_book_entry list \<Rightarrow> decimal list" where
  "bids book = map obe_price_per_kwh (filter (\<lambda>e. obe_side e = Buy) book)"

definition asks :: "order_book_entry list \<Rightarrow> decimal list" where
  "asks book = map obe_price_per_kwh (filter (\<lambda>e. obe_side e = Sell) book)"

lemma best_fold:
  "fold best_step book (bid, ask) =
     ((case bid of None \<Rightarrow> if bids book = [] then None else Some (Max (set (bids book)))
        | Some b \<Rightarrow> Some (Max (insert b (set (bids book))))),
      (case ask of None \<Rightarrow> if asks book = [] then None else Some (Min (set (asks book)))
        | Some a \<Rightarrow> Some (Min (insert a (set (asks book))))))"
proof (induction book arbitrary: bid ask)
  case Nil
  then show ?case by (simp add: bids_def asks_def split: option.split)
next
  case (Cons e book)
  have b: "bids (e # book) = (if obe_side e = Buy then [obe_price_per_kwh e] else []) @ bids book"
    "asks (e # book) = (if obe_side e = Sell then [obe_price_per_kwh e] else []) @ asks book" by (simp_all add: bids_def asks_def)
  have M: "Max (insert (max x y) S) = Max (insert x (insert y S))" "Min (insert (min x y) S) = Min (insert x (insert y S))"
    if "finite S" for x y :: decimal and S using that by (cases "S = {}"; simp add: max.assoc min.assoc)+
  show ?case unfolding fold_simps comp_apply b
    by (cases "obe_side e") (auto simp: best_step_def Cons.IH M split: option.split)
qed

lemma market_price_midpoint:
  "market_price D book =
     (case (bids book, asks book) of
        ([], []) \<Rightarrow> Some None
      | ([], _) \<Rightarrow> Some (Some (Min (set (asks book))))
      | (_, []) \<Rightarrow> Some (Some (Max (set (bids book))))
      | _ \<Rightarrow> map_option Some (ddiv D (Max (set (bids book)) + Min (set (asks book))) 2))"
  unfolding market_price_def best_fold by (simp split: list.split)

section \<open>What a cycle fires\<close>

text \<open>Identifiers for \<open>n\<close> outbox rows.\<close>

definition fresh_ids :: "nat \<Rightarrow> store \<Rightarrow> bool" where
  "fresh_ids n s \<longleftrightarrow> n \<le> length (db_ids s) \<and> distinct (db_ids s) \<and> set (db_ids s) \<inter> obx_id ` set (db_outbox s) = {}"

text \<open>The world after the alerts \<open>L\<close> fired at a price.\<close>

definition fired_from :: "world \<Rightarrow> decimal \<Rightarrow> price_alert list \<Rightarrow> world \<Rightarrow> bool" where
  "fired_from w0 price L w \<longleftrightarrow> w_now w = w_now w0 \<and> w_db_now w = w_db_now w0 \<and>
     map obx_payload (db_outbox (w_store w)) = map obx_payload (db_outbox (w_store w0)) @ map (\<lambda>a. alert_event a price (w_now w0)) L \<and>
     db_alerts (w_store w) = map (\<lambda>a. if a \<in> set L then fire_alert (w_db_now w0) (the (num8 price)) a else a) (db_alerts (w_store w0))"

definition meets :: "dec_ops \<Rightarrow> decimal \<Rightarrow> price_alert \<Rightarrow> bool" where
  "meets D price a \<longleftrightarrow> condition_met D (al_condition a) price (al_target_price a) = Some True"

lemma mark_fires:
  assumes run: "mark_triggered_with_event (al_id a) price (alert_event a price (w_now w0)) (w_db_now w) (w_store w) = Inr ((), s')"
    and f: "fired_from w0 price L w" and d: "distinct (map al_id (db_alerts (w_store w0)))"
    and a: "a \<in> set (db_alerts (w_store w0))" "a \<notin> set L"
  shows "fired_from w0 price (L @ [a]) (w\<lparr>w_faults := fs, w_store := s'\<rparr>)" and "fresh_ids (Suc n) (w_store w) \<Longrightarrow> fresh_ids n s'"
proof -
  obtain p where p: "num8 price = Some p" using run by (auto simp: mark_triggered_with_event_def mark_triggered_def split: option.splits)
  let ?s = "(w_store w)\<lparr>db_alerts := update_where (\<lambda>x. al_id x = al_id a) (fire_alert (w_db_now w) p) (db_alerts (w_store w))\<rparr>"
  have ev: "insert_event_in_tx (w_db_now w) (alert_event a price (w_now w0)) ?s = Inr s'"
    using run by (auto simp: mark_triggered_with_event_def mark_triggered_def p split: sum.splits)
  have alerts: "db_alerts s' = db_alerts ?s" using ev by (auto simp: insert_event_in_tx_def draw_id_def split: list.splits if_splits)
  let ?f = "\<lambda>x. if x \<in> set L then fire_alert (w_db_now w0) p x else x"
  let ?g = "\<lambda>x. if x \<in> set (L @ [a]) then fire_alert (w_db_now w0) p x else x"
  have "update_where (\<lambda>x. al_id x = al_id a) (fire_alert (w_db_now w0) p) (map ?f (db_alerts (w_store w0))) = map ?g (db_alerts (w_store w0))"
    unfolding update_where_def map_map comp_def
  proof (rule map_cong[OF refl])
    fix x assume x: "x \<in> set (db_alerts (w_store w0))"
    have id: "al_id (?f x) = al_id x" by (simp add: fire_alert_def)
    have "x = a" if "al_id x = al_id a" using d x a(1) that unfolding distinct_map by (metis inj_onD)
    then show "(if al_id (?f x) = al_id a then fire_alert (w_db_now w0) p (?f x) else ?f x) = ?g x"
      unfolding id using a(2) by auto
  qed
  then show "fired_from w0 price (L @ [a]) (w\<lparr>w_faults := fs, w_store := s'\<rparr>)"
    using f event_row(1)[OF ev] unfolding fired_from_def p option.sel by (simp add: alerts)
  show "fresh_ids n s'" if "fresh_ids (Suc n) (w_store w)"
    using that ev by (auto simp: fresh_ids_def insert_event_in_tx_def draw_id_def split: list.splits if_splits) blast
qed

lemma mark_total:
  assumes "num8 price \<noteq> None" "fresh_ids (Suc n) s"
  shows "\<exists>s'. mark_triggered_with_event i price ev now s = Inr ((), s')"
  using assms by (auto simp: mark_triggered_with_event_def mark_triggered_def insert_event_in_tx_def draw_id_def fresh_ids_def
      split: list.splits option.splits)

lemma alert_step_fires:
  assumes run: "alert_step D price a (length L) w = (r, w')" and f: "fired_from w0 price L w"
    and d: "distinct (map al_id (db_alerts (w_store w0)))" and a: "a \<in> set (db_alerts (w_store w0))" "a \<notin> set L"
  shows "\<exists>M. (M = [] \<or> M = [a] \<and> meets D price a) \<and> fired_from w0 price (L @ M) w' \<and> (\<forall>n. r = Inr n \<longrightarrow> n = length (L @ M)) \<and>
    (healthy w \<and> num8 price \<noteq> None \<and> fresh_ids (Suc n) (w_store w) \<and> condition_met D (al_condition a) price (al_target_price a) \<noteq> None \<longrightarrow>
       M = filter (meets D price) [a] \<and> (\<exists>n. r = Inr n) \<and> healthy w' \<and> fresh_ids n (w_store w'))"
proof (cases "condition_met D (al_condition a) price (al_target_price a)")
  case None
  then have "r = Inl Panicked" "w' = w" using run by (simp_all add: alert_step_def and_then_def or_panic_def)
  then show ?thesis using f None by (intro exI[of _ "[]"]) simp
next
  case (Some met)
  show ?thesis
  proof (cases met)
    case False
    then have "r = Inr (length L)" "w' = w" "\<not> meets D price a"
      using run by (simp_all add: alert_step_def and_then_def or_panic_def Some ok_def meets_def)
    then show ?thesis using f by (intro exI[of _ "[]"]) (auto simp: fresh_ids_def)
  next
    case True
    let ?mark = "mark_triggered_with_event (al_id a) price (alert_event a price (w_now w0))"
    have now: "w_now w = w_now w0" using f by (simp add: fired_from_def)
    obtain q w1 where call: "db_call ?mark w = (q, w1)" by fastforce
    have r: "w' = w1 \<and> r = (case q of Inr _ \<Rightarrow> Inr (Suc (length L)) | Inl (Error _) \<Rightarrow> Inr (length L) | Inl Panicked \<Rightarrow> Inl Panicked)"
      using run True now by (auto simp: alert_step_def and_then_def or_panic_def Some telemetry_now_def attempt_def call ok_def
          split: sum.splits failure.splits)
    have cases: "(\<exists>e. q = Inl (Error e)) \<and> w_store w1 = w_store w \<and> w_now w1 = w_now w \<and> w_db_now w1 = w_db_now w \<or>
        q = Inr () \<and> (\<exists>s'. ?mark (w_db_now w) (w_store w) = Inr ((), s') \<and> w1 = w\<lparr>w_faults := tl (w_faults w), w_store := s'\<rparr>)"
      using call by (auto simp: db_call_def split: list.splits bool.splits sum.splits)
    have live: "\<exists>s'. q = Inr () \<and> ?mark (w_db_now w) (w_store w) = Inr ((), s') \<and> w1 = w\<lparr>w_faults := tl (w_faults w), w_store := s'\<rparr>"
      if h: "healthy w" and p: "num8 price \<noteq> None" and i: "fresh_ids (Suc n) (w_store w)"
    proof -
      obtain s' where "?mark (w_db_now w) (w_store w) = Inr ((), s')" using mark_total[OF p i] by metis
      then show ?thesis using call db_call_healthy[OF h, of ?mark] by auto
    qed
    have m: "meets D price a" using Some True by (simp add: meets_def)
    from cases show ?thesis
    proof (elim disjE conjE exE)
      fix e assume q: "q = Inl (Error e)" "w_store w1 = w_store w" "w_now w1 = w_now w" "w_db_now w1 = w_db_now w"
      have "fired_from w0 price L w1" using f q by (simp add: fired_from_def)
      moreover have "\<not> (healthy w \<and> num8 price \<noteq> None \<and> fresh_ids (Suc n) (w_store w))" using live q(1) by auto
      ultimately show ?thesis using r q(1) by (intro exI[of _ "[]"]) auto
    next
      fix s' assume q: "q = Inr ()" "?mark (w_db_now w) (w_store w) = Inr ((), s')" "w1 = w\<lparr>w_faults := tl (w_faults w), w_store := s'\<rparr>"
      note mf = mark_fires[OF q(2) f d a]
      have h: "healthy w \<Longrightarrow> healthy w1" using healthy_tl[of w] by (simp add: q(3) healthy_def)
      show ?thesis using r q mf m h by (intro exI[of _ "[a]"]) auto
    qed
  qed
qed

lemma alert_loop_fires:
  "\<lbrakk>alert_loop D price as (length L) w = (r, w'); fired_from w0 price L w; distinct (map al_id (db_alerts (w_store w0)));
    set (L @ as) \<subseteq> set (db_alerts (w_store w0)); distinct (L @ as)\<rbrakk> \<Longrightarrow>
   \<exists>M. subseq M (filter (meets D price) as) \<and> fired_from w0 price (L @ M) w' \<and> (\<forall>n. r = Inr n \<longrightarrow> n = length (L @ M)) \<and>
     (healthy w \<and> num8 price \<noteq> None \<and> fresh_ids (length as) (w_store w) \<and>
        list_all (\<lambda>a. condition_met D (al_condition a) price (al_target_price a) \<noteq> None) as \<longrightarrow>
        M = filter (meets D price) as \<and> (\<exists>n. r = Inr n))"
proof (induction as arbitrary: L w)
  case Nil
  then show ?case by (auto simp: ok_def)
next
  case (Cons a as)
  obtain q w1 where step: "alert_step D price a (length L) w = (q, w1)" by fastforce
  have mem: "a \<in> set (db_alerts (w_store w0))" "a \<notin> set L" using Cons.prems(4,5) by auto
  obtain K where K: "K = [] \<or> K = [a] \<and> meets D price a" "fired_from w0 price (L @ K) w1" "\<forall>n. q = Inr n \<longrightarrow> n = length (L @ K)"
    "healthy w \<and> num8 price \<noteq> None \<and> fresh_ids (Suc (length as)) (w_store w) \<and> condition_met D (al_condition a) price (al_target_price a) \<noteq> None \<longrightarrow>
       K = filter (meets D price) [a] \<and> (\<exists>n. q = Inr n) \<and> healthy w1 \<and> fresh_ids (length as) (w_store w1)"
    using alert_step_fires[OF step Cons.prems(2,3) mem, of "length as"] by metis
  have sub: "subseq K (filter (meets D price) [a])" using K(1) by auto
  have split: "filter (meets D price) (a # as) = filter (meets D price) [a] @ filter (meets D price) as" by simp
  show ?case
  proof (cases q)
    case (Inl e)
    then have "r = Inl e" "w' = w1" using Cons.prems(1) by (simp_all add: and_then_def step)
    moreover have "subseq K (filter (meets D price) (a # as))" unfolding split using sub by (rule subseq_order.trans) simp
    ultimately show ?thesis using K Inl by (intro exI[of _ K]) auto
  next
    case (Inr n)
    then have run: "alert_loop D price as (length (L @ K)) w1 = (r, w')"
      using Cons.prems(1) K(3) by (simp add: and_then_def step)
    have "set ((L @ K) @ as) \<subseteq> set (db_alerts (w_store w0))" "distinct ((L @ K) @ as)" using K(1) Cons.prems(4,5) by auto
    from Cons.IH[OF run K(2) Cons.prems(3) this]
    obtain M where M: "subseq M (filter (meets D price) as)" "fired_from w0 price ((L @ K) @ M) w'" "\<forall>n. r = Inr n \<longrightarrow> n = length ((L @ K) @ M)"
      "healthy w1 \<and> num8 price \<noteq> None \<and> fresh_ids (length as) (w_store w1) \<and>
        list_all (\<lambda>a. condition_met D (al_condition a) price (al_target_price a) \<noteq> None) as \<longrightarrow>
        M = filter (meets D price) as \<and> (\<exists>n. r = Inr n)" by blast
    have "subseq (K @ M) (filter (meets D price) (a # as))" unfolding split by (rule list_emb_append_mono[OF sub M(1)])
    then show ?thesis using M(2-4) K(4) unfolding split
      by (intro exI[of _ "K @ M"]) (simp only: append_assoc list.pred_inject length_Cons, blast)
  qed
qed

section \<open>Example data\<close>

definition example_alert :: "uuid \<Rightarrow> alert_condition \<Rightarrow> decimal \<Rightarrow> price_alert" where
  "example_alert i c target = \<lparr>al_id = i, al_user_id = 11, al_target_price = target, al_condition = c, al_status = Alert_Active,
     al_triggered_at = None, al_triggered_price = None, al_repeat = False, al_note = None, al_created_at = 0, al_updated_at = None\<rparr>"

text \<open>A bid of 3 and an ask of 5, so a price of 4; the first two of the three alerts are met.\<close>

definition alerts_world :: world where
  "alerts_world = (example_world [])\<lparr>w_store :=
     \<lparr>db_orders = [example_order 21 11 Buy Order_Active None, (example_order 22 12 Sell Order_Active None)\<lparr>odb_price_per_kwh := 5\<rparr>],
      db_settlements = [], db_matches = [], db_outbox = [], db_epochs = [], db_rules = [],
      db_alerts = [example_alert 81 Above 4, example_alert 82 Crosses 4, example_alert 83 Below 3], db_ids = [101, 102, 103, 104]\<rparr>\<rparr>"

section \<open>Properties\<close>

text \<open>A notification is sent exactly for the alerts that fired.  Under any pattern of failing
  database calls the events a cycle appends to the outbox are those of a sublist of the active
  alerts whose condition the market price meets, in order; the same alerts are recorded as fired (a
  one-shot alert is no longer active), all others are unchanged, and the count is theirs.  With a
  healthy database and a price the column holds, every alert that is met fires.\<close>

theorem trigger_cycle_exact:
  assumes run: "trigger_cycle D w = (r, w')" and d: "distinct (map al_id (db_alerts (w_store w)))"
    and price: "market_price D (get_all_active_orders (w_db_now w) (w_store w)) = Some (Some price)"
  shows "\<exists>L. subseq L (filter (meets D price) (get_active_alerts (w_store w))) \<and> fired_from w price L w' \<and>
    (\<forall>n. r = Inr n \<longrightarrow> n = length L) \<and>
    (healthy w \<and> num8 price \<noteq> None \<and> fresh_ids (length (get_active_alerts (w_store w))) (w_store w) \<and>
       list_all (\<lambda>a. condition_met D (al_condition a) price (al_target_price a) \<noteq> None) (get_active_alerts (w_store w)) \<longrightarrow>
       L = filter (meets D price) (get_active_alerts (w_store w)) \<and> r = Inr (length L))"
proof -
  let ?as = "get_active_alerts (w_store w)"
  have start: "fired_from w price [] w1" if "w_store w1 = w_store w" "w_now w1 = w_now w" "w_db_now w1 = w_db_now w" for w1
    using that by (simp add: fired_from_def)
  have read: "(\<exists>e. q = Inl e) \<or> q = Inr (f (w_db_now v) (w_store v))" "w_store v' = w_store v" "w_now v' = w_now v"
    "w_db_now v' = w_db_now v" "healthy v \<Longrightarrow> q = Inr (f (w_db_now v) (w_store v)) \<and> healthy v'"
    if "db_read f v = (q, v')" for f :: "datetime \<Rightarrow> store \<Rightarrow> 'z" and v q v'
    using that by (auto simp: db_read_def db_call_def healthy_def split: list.splits bool.splits)
  obtain q1 w1 where r1: "db_read get_all_active_orders w = (q1, w1)" by fastforce
  obtain q2 w2 where r2: "db_read (\<lambda>_ s. get_active_alerts s) w1 = (q2, w2)" by fastforce
  note R1 = read[OF r1] and R2 = read[OF r2]
  consider (fail) e where "r = Inl e" "w' = w1 \<or> w' = w2" "\<not> healthy w"
    | (go) "alert_loop D price ?as 0 w2 = (r, w')" "healthy w \<longrightarrow> healthy w2"
    using run price R1 R2 by (auto simp: trigger_cycle_def and_then_def or_panic_def r1 r2 split: sum.splits)
  then show ?thesis
  proof cases
    case fail
    then have "fired_from w price [] w'" using start R1(2-4) R2(2-4) by auto
    then show ?thesis using fail by (intro exI[of _ "[]"]) auto
  next
    case go
    have "fired_from w price [] w2" using start R1(2-4) R2(2-4) by simp
    moreover have "set ([] @ ?as) \<subseteq> set (db_alerts (w_store w))" "distinct ([] @ ?as)"
      using d by (auto simp: get_active_alerts_def distinct_map)
    ultimately have "\<exists>M. subseq M (filter (meets D price) ?as) \<and> fired_from w price ([] @ M) w' \<and>
        (\<forall>n. r = Inr n \<longrightarrow> n = length ([] @ M)) \<and>
        (healthy w2 \<and> num8 price \<noteq> None \<and> fresh_ids (length ?as) (w_store w2) \<and>
          list_all (\<lambda>a. condition_met D (al_condition a) price (al_target_price a) \<noteq> None) ?as \<longrightarrow>
          M = filter (meets D price) ?as \<and> (\<exists>n. r = Inr n))"
      using go(1) by (intro alert_loop_fires[OF _ _ d]) simp_all
    then obtain M where M: "subseq M (filter (meets D price) ?as)" "fired_from w price ([] @ M) w'"
      "\<forall>n. r = Inr n \<longrightarrow> n = length ([] @ M)"
      "healthy w2 \<and> num8 price \<noteq> None \<and> fresh_ids (length ?as) (w_store w2) \<and>
        list_all (\<lambda>a. condition_met D (al_condition a) price (al_target_price a) \<noteq> None) ?as \<longrightarrow>
        M = filter (meets D price) ?as \<and> (\<exists>n. r = Inr n)"
      by (elim exE conjE)
    have "w_store w2 = w_store w" using R1(2) R2(2) by simp
    with M go(2) show ?thesis by (intro exI[of _ M]) auto
  qed
qed

theorem trigger_cycle_exact_witness:
  "\<exists>w'. trigger_cycle exact_dec alerts_world = (Inr 2, w') \<and>
     fired_from alerts_world 4 [example_alert 81 Above 4, example_alert 82 Crosses 4] w'"
proof -
  have p: "market_price exact_dec (get_all_active_orders (w_db_now alerts_world) (w_store alerts_world)) = Some (Some 4)"
    "num8 4 \<noteq> None" "fresh_ids (length (get_active_alerts (w_store alerts_world))) (w_store alerts_world)"
    "list_all (\<lambda>a. condition_met exact_dec (al_condition a) 4 (al_target_price a) \<noteq> None) (get_active_alerts (w_store alerts_world))"
    "filter (meets exact_dec 4) (get_active_alerts (w_store alerts_world)) = [example_alert 81 Above 4, example_alert 82 Crosses 4]"
    "distinct (map al_id (db_alerts (w_store alerts_world)))" by code_simp+
  have h: "healthy alerts_world" by (simp add: healthy_def alerts_world_def example_world_def)
  obtain r w' where run: "trigger_cycle exact_dec alerts_world = (r, w')" by fastforce
  obtain L where L: "fired_from alerts_world 4 L w'" "L = filter (meets exact_dec 4) (get_active_alerts (w_store alerts_world))"
    "r = Inr (length L)" using trigger_cycle_exact[OF run p(6,1)] h p(2-4) by blast
  have "r = Inr 2" unfolding L(3) L(2) p(5) by simp
  then show ?thesis using run L(1)[unfolded L(2) p(5)] by (intro exI[of _ w'] conjI) simp_all
qed

end
