(* ===== verification/Reconciliation.thy ===== *)
theory Reconciliation imports Clearing_Service begin

text \<open>
  \<open>trading-logic/src/workers/reconciliation.rs\<close>: the audit of the settlement ledger against the tariff,
  and the comparison of the charges it booked with what the collector accounts received, measured
  from a baseline.  The chain's answers are parameters of a pass.
\<close>

section \<open>The audit\<close>

definition audit_batch :: nat where "audit_batch = 500"

record audit_outcome =
  ao_examined :: nat
  ao_broken_identity :: nat
  ao_off_tariff :: nat

definition rates_known :: "static_charge_rates \<Rightarrow> bool" where
  "rates_known rates \<longleftrightarrow> scr_wheeling_rate_per_kwh rates \<noteq> 0 \<or> scr_fee_bps rates \<noteq> 0 \<or> scr_loss_bps rates \<noteq> 0"

definition count_discrepancy :: "bool \<Rightarrow> ledger_discrepancy \<Rightarrow> audit_outcome \<Rightarrow> audit_outcome" where
  "count_discrepancy known d o' =
     (case d of
        DoesNotSumToGross _ _ \<Rightarrow> o'\<lparr>ao_broken_identity := Suc (ao_broken_identity o')\<rparr>
      | ChargeOffTariff _ _ _ \<Rightarrow> if known then o'\<lparr>ao_off_tariff := Suc (ao_off_tariff o')\<rparr> else o')"

definition audit_row :: "dec_ops \<Rightarrow> static_charge_rates \<Rightarrow> settlement \<Rightarrow> audit_outcome \<Rightarrow> audit_outcome option" where
  "audit_row D rates s o' = do {
     found \<leftarrow> reconcile_charges D (st_total_amount s) (st_energy_amount s) (st_fee_amount s)
       (unwrap_or (st_wheeling_charge s) 0) (unwrap_or (st_loss_cost s) 0) (st_net_amount s) rates;
     Some (fold (count_discrepancy (rates_known rates)) found o') }"

definition audit_rows :: "dec_ops \<Rightarrow> settlement list \<Rightarrow> static_charge_rates \<Rightarrow> audit_outcome option" where
  "audit_rows D rs rates =
     fold_opt (audit_row D rates) rs \<lparr>ao_examined = length rs, ao_broken_identity = 0, ao_off_tariff = 0\<rparr>"

section \<open>The cross-check\<close>

record cross_check_outcome =
  cc_baselined :: bool
  cc_collisions :: nat
  cc_mismatches :: nat

text \<open>What the collector source answers on one pass.\<close>

record collector_reads =
  cr_addresses :: "api_error + string list" \<comment> \<open>fee, wheeling, loss\<close>
  cr_balances :: "api_error + charge_totals"

definition collisions :: "string list \<Rightarrow> nat" where
  "collisions addrs = length (filter (\<lambda>(a, b). addrs ! a = addrs ! b) [(0, 1), (0, 2), (1, 2)])"

definition mismatches :: "charge_totals \<Rightarrow> charge_totals \<Rightarrow> nat" where
  "mismatches b r = length (filter (\<lambda>((_, x), (_, y)). x \<noteq> y) (zip (ct_labelled b) (ct_labelled r)))"

type_synonym baseline = "(charge_totals \<times> charge_totals) option"

text \<open>The comparison of totals that both sides answered; it sets the baseline or measures from it.\<close>

definition compare_totals :: "charge_totals \<Rightarrow> charge_totals \<Rightarrow> nat \<Rightarrow> baseline \<Rightarrow> cross_check_outcome \<times> baseline" where
  "compare_totals ledger chain coll base =
     (case base of
        None \<Rightarrow> (\<lparr>cc_baselined = True, cc_collisions = coll, cc_mismatches = 0\<rparr>, Some (ledger, chain))
      | Some (base_ledger, base_chain) \<Rightarrow>
          (\<lparr>cc_baselined = False, cc_collisions = coll,
             cc_mismatches = mismatches (ct_minus ledger base_ledger) (ct_minus chain base_chain)\<rparr>, base))"

definition cross_check_collectors :: "collector_reads option \<Rightarrow> baseline \<Rightarrow> (cross_check_outcome \<times> baseline) io" where
  "cross_check_collectors src base =
     (case src of
        None \<Rightarrow> ok (\<lparr>cc_baselined = False, cc_collisions = 0, cc_mismatches = 0\<rparr>, base)
      | Some reads \<Rightarrow>
          (let coll = (case cr_addresses reads of Inl _ \<Rightarrow> 0 | Inr addrs \<Rightarrow> collisions addrs) in
           and_then (attempt (db_read (\<lambda>_ s. completed_charge_totals s))) (\<lambda>ledger.
           ok (case (ledger, cr_balances reads) of
                 (Inr l, Inr c) \<Rightarrow> compare_totals l c coll base
               | _ \<Rightarrow> (\<lparr>cc_baselined = False, cc_collisions = coll, cc_mismatches = 0\<rparr>, base)))))"

definition audit_once ::
  "dec_ops \<Rightarrow> static_charge_rates \<Rightarrow> collector_reads option \<Rightarrow> baseline
     \<Rightarrow> (audit_outcome \<times> cross_check_outcome \<times> baseline) io" where
  "audit_once D rates src base =
     and_then (db_read (\<lambda>_ s. recent_completed_settlements audit_batch s)) (\<lambda>rs.
     and_then (or_panic (audit_rows D rs rates)) (\<lambda>outcome.
     and_then (cross_check_collectors src base) (\<lambda>(cc, base').
     ok (outcome, cc, base'))))"

section \<open>What an audit counts\<close>

definition sums_to_gross :: "settlement \<Rightarrow> bool" where
  "sums_to_gross s \<longleftrightarrow> st_fee_amount s + unwrap_or (st_wheeling_charge s) 0 + unwrap_or (st_loss_cost s) 0 + st_net_amount s
     = st_total_amount s"

text \<open>The number of charge columns that are off the tariff \<open>c\<close>.\<close>

definition off_columns :: "settlement_charges \<Rightarrow> settlement \<Rightarrow> nat" where
  "off_columns c s = of_bool (st_fee_amount s \<noteq> ch_fee c) + of_bool (unwrap_or (st_wheeling_charge s) 0 \<noteq> ch_wheeling c) +
     of_bool (unwrap_or (st_loss_cost s) 0 \<noteq> ch_loss c) + of_bool (st_net_amount s \<noteq> ch_net c)"

lemma count_off_tariff:
  "fold (count_discrepancy k) (concat (map (\<lambda>(f, b, w). if b \<noteq> w then [ChargeOffTariff f b w] else []) xs)) o' =
     o'\<lparr>ao_off_tariff := ao_off_tariff o' + (if k then length (filter (\<lambda>(f, b, w). b \<noteq> w) xs) else 0)\<rparr>"
  by (induction xs arbitrary: o') (auto simp: count_discrepancy_def)

lemma audit_row_counts:
  assumes "audit_row D rates s o' = Some q"
  shows "\<exists>c. compute_charges D (st_total_amount s) (st_energy_amount s) rates = Some c \<and>
    q = \<lparr>ao_examined = ao_examined o', ao_broken_identity = ao_broken_identity o' + of_bool (\<not> sums_to_gross s),
        ao_off_tariff = ao_off_tariff o' + (if rates_known rates then off_columns c s else 0)\<rparr>"
proof -
  let ?ck = "fold (count_discrepancy (rates_known rates))"
  have "compute_charges D (st_total_amount s) (st_energy_amount s) rates \<noteq> None"
  proof
    assume n: "compute_charges D (st_total_amount s) (st_energy_amount s) rates = None"
    have "audit_row D rates s o' = None"
      unfolding audit_row_def reconcile_charges_def Let_def n by (simp only: Option.bind.bind_lzero)
    then show False using assms by simp
  qed
  then obtain c where c: "compute_charges D (st_total_amount s) (st_energy_amount s) rates = Some c" by blast
  let ?cols = "[(''fee_amount'', st_fee_amount s, ch_fee c), (''wheeling_charge'', unwrap_or (st_wheeling_charge s) 0, ch_wheeling c),
     (''loss_cost'', unwrap_or (st_loss_cost s) 0, ch_loss c), (''net_amount'', st_net_amount s, ch_net c)]"
  let ?o1 = "o'\<lparr>ao_broken_identity := ao_broken_identity o' + of_bool (\<not> sums_to_gross s)\<rparr>"
  let ?cat = "concat (map (\<lambda>(f, b, w). if b \<noteq> w then [ChargeOffTariff f b w] else []) ?cols)"
  let ?acc = "st_fee_amount s + unwrap_or (st_wheeling_charge s) 0 + unwrap_or (st_loss_cost s) 0 + st_net_amount s"
  have "reconcile_charges D (st_total_amount s) (st_energy_amount s) (st_fee_amount s)
       (unwrap_or (st_wheeling_charge s) 0) (unwrap_or (st_loss_cost s) 0) (st_net_amount s) rates =
     Some ((if \<not> sums_to_gross s then [DoesNotSumToGross ?acc (st_total_amount s)] else []) @ ?cat)"
    unfolding reconcile_charges_def Let_def c sums_to_gross_def Option.bind.bind_lunit by (rule refl)
  then have "q = ?ck ((if \<not> sums_to_gross s then [DoesNotSumToGross ?acc (st_total_amount s)] else []) @ ?cat) o'"
    using assms unfolding audit_row_def by (simp only: Option.bind.bind_lunit option.inject)
  then have "q = ?ck ?cat (?ck (if \<not> sums_to_gross s then [DoesNotSumToGross ?acc (st_total_amount s)] else []) o')"
    by (simp only: fold_append comp_apply)
  also have "?ck (if \<not> sums_to_gross s then [DoesNotSumToGross ?acc (st_total_amount s)] else []) o' = ?o1"
    by (simp add: count_discrepancy_def)
  finally have "q = ?ck ?cat ?o1" .
  then have "q = ?o1\<lparr>ao_off_tariff := ao_off_tariff ?o1 +
      (if rates_known rates then length (filter (\<lambda>(f, b, w). b \<noteq> w) ?cols) else 0)\<rparr>"
    unfolding count_off_tariff .
  moreover have "length (filter (\<lambda>(f, b, w). b \<noteq> w) ?cols) = off_columns c s" by (simp add: off_columns_def)
  ultimately show ?thesis using c by simp
qed

text \<open>Every row of the audited batch with its tariff.\<close>

definition tariff_of :: "dec_ops \<Rightarrow> static_charge_rates \<Rightarrow> settlement \<Rightarrow> settlement_charges" where
  "tariff_of D rates s = the (compute_charges D (st_total_amount s) (st_energy_amount s) rates)"

lemma audit_fold_counts:
  "fold_opt (audit_row D rates) rs o' = Some q \<Longrightarrow>
     q = \<lparr>ao_examined = ao_examined o', ao_broken_identity = ao_broken_identity o' + length (filter (\<lambda>s. \<not> sums_to_gross s) rs),
        ao_off_tariff = ao_off_tariff o' + (if rates_known rates then sum_list (map (\<lambda>s. off_columns (tariff_of D rates s) s) rs) else 0)\<rparr>"
proof (induction rs arbitrary: o')
  case (Cons s rs)
  then obtain q1 where q1: "audit_row D rates s o' = Some q1" "fold_opt (audit_row D rates) rs q1 = Some q"
    by (auto simp: bind_eq_Some_conv)
  obtain c where c: "compute_charges D (st_total_amount s) (st_energy_amount s) rates = Some c"
    "q1 = \<lparr>ao_examined = ao_examined o', ao_broken_identity = ao_broken_identity o' + of_bool (\<not> sums_to_gross s),
        ao_off_tariff = ao_off_tariff o' + (if rates_known rates then off_columns c s else 0)\<rparr>"
    using audit_row_counts[OF q1(1)] by blast
  have "tariff_of D rates s = c" by (simp add: tariff_of_def c(1))
  then show ?case using Cons.IH[OF q1(2)] by (simp add: c(2))
qed simp

section \<open>Example data\<close>

text \<open>An epoch whose bid and ask differ by the smallest price step, so that the midpoint has nine places.\<close>

definition rounding_world :: world where
  "rounding_world = (epoch_world [])\<lparr>w_store := (w_store (epoch_world []))\<lparr>db_orders :=
     [(example_order 21 11 Buy Order_Active None)\<lparr>odb_market_segment := Interval, odb_energy_amount := 1, odb_price_per_kwh := 60000001 / 10 ^ 8\<rparr>,
      (example_order 22 12 Sell Order_Active None)\<lparr>odb_market_segment := Interval, odb_energy_amount := 1, odb_price_per_kwh := 6 / 10\<rparr>]\<rparr>\<rparr>"

definition rounded_ledger :: "settlement list" where
  "rounded_ledger = map settlement_of_row (db_settlements (w_store (snd (clear_due_epochs exact_dec demo_grid deployed_rates rounding_world))))"

definition honest_row :: settlement where
  "honest_row = (settlement_of_row (example_settlement 1 ''completed'' 0))\<lparr>st_total_amount := 12, st_energy_amount := 3,
     st_fee_amount := 3 / 100, st_wheeling_charge := Some (3 / 10), st_loss_cost := Some (6 / 1000), st_net_amount := 11664 / 1000\<rparr>"

section \<open>Properties\<close>

text \<open>The audit is exact: it examines every row it is given, counts as broken exactly the rows
  whose fee, wheeling, loss and net do not sum to the gross, and counts every charge column that
  differs from the live tariff, or none while the rates are unknown.\<close>

theorem audit_rows_exact:
  assumes "audit_rows D rs rates = Some q"
  shows "ao_examined q = length rs \<and> ao_broken_identity q = length (filter (\<lambda>s. \<not> sums_to_gross s) rs) \<and>
    ao_off_tariff q = (if rates_known rates then sum_list (map (\<lambda>s. off_columns (tariff_of D rates s) s) rs) else 0)"
  using audit_fold_counts[OF assms[unfolded audit_rows_def]] by simp

theorem audit_rows_exact_witness:
  "\<exists>q. audit_rows exact_dec [honest_row, honest_row\<lparr>st_net_amount := 12\<rparr>] deployed_rates = Some q \<and> ao_examined q = 2 \<and>
     ao_broken_identity q = 1 \<and> ao_off_tariff q = 1"
proof -
  let ?rs = "[honest_row, honest_row\<lparr>st_net_amount := 12\<rparr>]"
  have "audit_rows exact_dec ?rs deployed_rates \<noteq> None" by code_simp
  then obtain q where q: "audit_rows exact_dec ?rs deployed_rates = Some q" by blast
  have c: "length (filter (\<lambda>s. \<not> sums_to_gross s) ?rs) = 1" "rates_known deployed_rates"
    "sum_list (map (\<lambda>s. off_columns (tariff_of exact_dec deployed_rates s) s) ?rs) = 1" by code_simp+
  from audit_rows_exact[OF q] c q show ?thesis by (intro exI[of _ q]) simp
qed

text \<open>The cross-check detects: once a baseline is set, a pass reports no mismatch exactly when what
  the collectors received since then is, charge by charge, what the ledger booked since then.\<close>

theorem cross_check_detects:
  "cc_mismatches (fst (compare_totals ledger chain coll (Some (l0, c0)))) = 0 \<longleftrightarrow> ct_minus ledger l0 = ct_minus chain c0"
  by (auto simp: compare_totals_def mismatches_def ct_labelled_def filter_empty_conv ct_minus_def)

text \<open>The audit reports faults in an honest ledger.  A trade of one kWh at the midpoint price
  0.600000005 is booked with charges that add up, but its columns hold eight places, each rounded on
  its own: the stored charges sum to 0.60000000 of a gross of 0.60000001, so the row is reported as
  not adding up, and as off the tariff that priced it.\<close>

theorem rounded_row_reported_broken:
  "map (\<lambda>s. (st_total_amount s, st_fee_amount s + the (st_wheeling_charge s) + the (st_loss_cost s) + st_net_amount s)) rounded_ledger
     = [(60000001 / 10 ^ 8, 6 / 10)] \<and>
   map_option (\<lambda>q. (ao_broken_identity q, ao_off_tariff q \<noteq> 0)) (audit_rows exact_dec rounded_ledger deployed_rates) = Some (1, True)"
  by code_simp

end
