(* ===== verification/Read_Model.thy ===== *)
theory Read_Model imports Store begin

text \<open>
  The local mirrors of other services' tables: \<open>trading-persistence/src/repositories/read_model.rs\<close> and
  the feed \<open>trading-logic/src/workers/read_model_feed.rs\<close> that projects wallet and meter events into
  them.  Decoding JSON belongs to \<open>serde\<close>, so a payload is an abstract value and the decoders of the
  typed structs are parameters; the routing and the projection are modelled.
\<close>

section \<open>Rows and records\<close>

record wallet_record =
  wr_user_id :: uuid
  wr_wallet_address :: string
  wr_is_primary :: bool
  wr_blockchain_registered :: bool
  wr_user_account_pda :: "string option"
  wr_shard_id :: "int option"

record wallet_row = wallet_record +
  wr_updated_at :: datetime

record meter_record =
  me_serial_number :: string
  me_meter_id :: uuid
  me_user_id :: uuid
  me_zone_id :: zone
  me_status :: "string option"
  me_is_verified :: bool

record meter_row = meter_record +
  me_updated_at :: datetime

record read_model =
  rm_wallets :: "wallet_row list"
  rm_meters :: "meter_row list"

section \<open>The wallet repository\<close>

definition wallet_key :: "'a wallet_record_scheme \<Rightarrow> uuid \<times> string" where
  "wallet_key r = (wr_user_id r, wr_wallet_address r)"

definition row_of_record :: "datetime \<Rightarrow> wallet_record \<Rightarrow> wallet_row" where
  "row_of_record now r = \<lparr>wr_user_id = wr_user_id r, wr_wallet_address = wr_wallet_address r, wr_is_primary = wr_is_primary r,
     wr_blockchain_registered = wr_blockchain_registered r, wr_user_account_pda = wr_user_account_pda r,
     wr_shard_id = wr_shard_id r, wr_updated_at = now\<rparr>"

text \<open>The partial unique index: one primary wallet per user.\<close>

definition primary_unique :: "wallet_row list \<Rightarrow> bool" where
  "primary_unique ws \<longleftrightarrow> distinct (map wr_user_id (filter wr_is_primary ws))"

text \<open>The columns are \<open>varchar(64)\<close> and \<open>varchar(88)\<close>.\<close>

definition wallet_fits :: "wallet_record \<Rightarrow> bool" where
  "wallet_fits r \<longleftrightarrow> length (wr_wallet_address r) \<le> 64 \<and> (case wr_user_account_pda r of None \<Rightarrow> True | Some p \<Rightarrow> length p \<le> 88)"

definition index_checked :: "wallet_row list \<Rightarrow> api_error + wallet_row list" where
  "index_checked ws = (if primary_unique ws then Inr ws else Inl (Database ''uq_iam_wallet_read_model_primary''))"

text \<open>\<open>WALLET_UPSERT\<close>: insert, or update the row of the key unless it carries a later stamp.\<close>

definition wallet_upsert :: "wallet_record \<Rightarrow> datetime \<Rightarrow> wallet_row list \<Rightarrow> api_error + wallet_row list" where
  "wallet_upsert rec now ws =
     (if \<not> wallet_fits rec then Inl (Database ''value too long'')
      else if wallet_key rec \<in> wallet_key ` set ws
      then index_checked (update_where (\<lambda>r. wallet_key r = wallet_key rec \<and> wr_updated_at r \<le> now) (\<lambda>_. row_of_record now rec) ws)
      else index_checked (ws @ [row_of_record now rec]))"

text \<open>\<open>WALLET_DEMOTE_SIBLINGS\<close>.\<close>

definition demote_siblings :: "uuid \<Rightarrow> string \<Rightarrow> datetime \<Rightarrow> wallet_row list \<Rightarrow> wallet_row list" where
  "demote_siblings u a now = update_where (\<lambda>r. wr_user_id r = u \<and> wr_is_primary r \<and> wr_wallet_address r \<noteq> a)
     (\<lambda>r. r\<lparr>wr_is_primary := False, wr_updated_at := now\<rparr>)"

definition upsert_wallet :: "wallet_record \<Rightarrow> datetime \<Rightarrow> read_model \<Rightarrow> api_error + read_model" where
  "upsert_wallet rec now m =
     (case wallet_upsert rec now (if wr_is_primary rec
          then demote_siblings (wr_user_id rec) (wr_wallet_address rec) now (rm_wallets m) else rm_wallets m) of
        Inl e \<Rightarrow> Inl e
      | Inr ws \<Rightarrow> Inr (m\<lparr>rm_wallets := ws\<rparr>))"

definition set_wallet_primary :: "uuid \<Rightarrow> string \<Rightarrow> bool \<Rightarrow> datetime \<Rightarrow> read_model \<Rightarrow> api_error + read_model" where
  "set_wallet_primary u a prim now m =
     (case index_checked (update_where (\<lambda>r. wallet_key r = (u, a)) (\<lambda>r. r\<lparr>wr_is_primary := prim, wr_updated_at := now\<rparr>)
          (if prim then demote_siblings u a now (rm_wallets m) else rm_wallets m)) of
        Inl e \<Rightarrow> Inl e
      | Inr ws \<Rightarrow> Inr (m\<lparr>rm_wallets := ws\<rparr>))"

definition delete_wallet :: "uuid \<Rightarrow> string \<Rightarrow> datetime \<Rightarrow> read_model \<Rightarrow> api_error + read_model" where
  "delete_wallet u a now m = Inr (m\<lparr>rm_wallets := filter (\<lambda>r. wallet_key r \<noteq> (u, a)) (rm_wallets m)\<rparr>)"

text \<open>The boot snapshot: rows that are already there are left alone.\<close>

definition backfill_one :: "datetime \<Rightarrow> wallet_record \<Rightarrow> wallet_row list \<times> nat \<Rightarrow> (api_error + (wallet_row list \<times> nat))" where
  "backfill_one now rec = (\<lambda>(ws, n).
     if \<not> wallet_fits rec then Inl (Database ''value too long'')
     else if wallet_key rec \<in> wallet_key ` set ws then Inr (ws, n)
     else (case index_checked (ws @ [row_of_record now rec]) of Inl e \<Rightarrow> Inl e | Inr ws' \<Rightarrow> Inr (ws', Suc n)))"

fun backfill_rows :: "datetime \<Rightarrow> wallet_record list \<Rightarrow> wallet_row list \<times> nat \<Rightarrow> wallet_row list \<times> (api_error + nat)" where
  "backfill_rows now [] (ws, n) = (ws, Inr n)"
| "backfill_rows now (r # rs) (ws, n) =
     (case backfill_one now r (ws, n) of Inl e \<Rightarrow> (ws, Inl e) | Inr acc \<Rightarrow> backfill_rows now rs acc)"

text \<open>With a pool on the source each row is a statement of its own; without one, the local table, when it
  is there, is copied by one statement, which a bad row undoes.\<close>

definition backfill_wallets ::
  "wallet_record list option \<Rightarrow> wallet_record list option \<Rightarrow> datetime \<Rightarrow> read_model \<Rightarrow> read_model \<times> (api_error + nat)" where
  "backfill_wallets pool local_table now m =
     (case pool of
        Some source \<Rightarrow>
          (case backfill_rows now source (rm_wallets m, 0) of (ws, r) \<Rightarrow> (m\<lparr>rm_wallets := ws\<rparr>, r))
      | None \<Rightarrow>
          (case local_table of
             None \<Rightarrow> (m, Inr 0)
           | Some source \<Rightarrow>
               (case backfill_rows now source (rm_wallets m, 0) of
                  (_, Inl e) \<Rightarrow> (m, Inl e)
                | (ws, Inr n) \<Rightarrow> (m\<lparr>rm_wallets := ws\<rparr>, Inr n))))"

definition primary_wallet :: "uuid \<Rightarrow> read_model \<Rightarrow> string option" where
  "primary_wallet u m = map_option wr_wallet_address (find (\<lambda>r. wr_user_id r = u \<and> wr_is_primary r) (rm_wallets m))"

fun upsert_all :: "wallet_record list \<Rightarrow> datetime \<Rightarrow> read_model \<Rightarrow> read_model \<times> (api_error + unit)" where
  "upsert_all [] now m = (m, Inr ())"
| "upsert_all (r # rs) now m = (case upsert_wallet r now m of Inl e \<Rightarrow> (m, Inl e) | Inr m' \<Rightarrow> upsert_all rs now m')"

definition backfill_wallet_for ::
  "wallet_record list option \<Rightarrow> wallet_record list option \<Rightarrow> uuid \<Rightarrow> datetime \<Rightarrow> read_model
     \<Rightarrow> read_model \<times> (api_error + string option)" where
  "backfill_wallet_for pool local_table u now m =
     (case (case pool of Some source \<Rightarrow> Some source | None \<Rightarrow> local_table) of
        None \<Rightarrow> (m, Inr None)
      | Some source \<Rightarrow>
          (case upsert_all (filter (\<lambda>r. wr_user_id r = u) source) now m of
             (m', Inl e) \<Rightarrow> (m', Inl e)
           | (m', Inr _) \<Rightarrow> (m', Inr (primary_wallet u m'))))"

section \<open>The meter repository\<close>

definition meter_row_of :: "datetime \<Rightarrow> meter_record \<Rightarrow> meter_row" where
  "meter_row_of now r = \<lparr>me_serial_number = me_serial_number r, me_meter_id = me_meter_id r, me_user_id = me_user_id r,
     me_zone_id = me_zone_id r, me_status = me_status r, me_is_verified = me_is_verified r, me_updated_at = now\<rparr>"

definition meter_fits :: "meter_record \<Rightarrow> bool" where
  "meter_fits r \<longleftrightarrow> length (me_serial_number r) \<le> 100 \<and> (case me_status r of None \<Rightarrow> True | Some s \<Rightarrow> length s \<le> 50)"

definition upsert_meter :: "meter_record \<Rightarrow> datetime \<Rightarrow> read_model \<Rightarrow> api_error + read_model" where
  "upsert_meter rec now m =
     (if \<not> meter_fits rec then Inl (Database ''value too long'')
      else Inr (m\<lparr>rm_meters :=
     (if me_serial_number rec \<in> me_serial_number ` set (rm_meters m)
      then update_where (\<lambda>r. me_serial_number r = me_serial_number rec \<and> me_updated_at r \<le> now) (\<lambda>_. meter_row_of now rec) (rm_meters m)
      else rm_meters m @ [meter_row_of now rec])\<rparr>))"

fun backfill_meter_rows :: "datetime \<Rightarrow> meter_record list \<Rightarrow> meter_row list \<times> nat \<Rightarrow> meter_row list \<times> (api_error + nat)" where
  "backfill_meter_rows now [] (ms, n) = (ms, Inr n)"
| "backfill_meter_rows now (r # rs) (ms, n) =
     (if \<not> meter_fits r then (ms, Inl (Database ''value too long''))
      else if me_serial_number r \<in> me_serial_number ` set ms then backfill_meter_rows now rs (ms, n)
      else backfill_meter_rows now rs (ms @ [meter_row_of now r], Suc n))"

definition backfill_meters ::
  "meter_record list option \<Rightarrow> meter_record list option \<Rightarrow> datetime \<Rightarrow> read_model \<Rightarrow> read_model \<times> (api_error + nat)" where
  "backfill_meters pool local_table now m =
     (case pool of
        Some source \<Rightarrow>
          (case backfill_meter_rows now source (rm_meters m, 0) of (ms, r) \<Rightarrow> (m\<lparr>rm_meters := ms\<rparr>, r))
      | None \<Rightarrow>
          (case local_table of
             None \<Rightarrow> (m, Inr 0)
           | Some source \<Rightarrow>
               (case backfill_meter_rows now source (rm_meters m, 0) of
                  (_, Inl e) \<Rightarrow> (m, Inl e)
                | (ms, Inr n) \<Rightarrow> (m\<lparr>rm_meters := ms\<rparr>, Inr n))))"

section \<open>The feed\<close>

record 'j feed_event =
  fe_event_type :: string
  fe_data :: 'j

record wallet_primary_changed_data =
  wpc_user_id :: uuid
  wpc_wallet_address :: string
  wpc_is_primary :: bool

record wallet_unlinked_data =
  wud_user_id :: uuid
  wud_wallet_address :: string

record meter_data =
  mda_serial_number :: string
  mda_meter_id :: uuid
  mda_user_id :: uuid
  mda_zone_id :: zone
  mda_status :: "string option"
  mda_is_verified :: "bool option"

text \<open>\<open>WalletLinkedData\<close> has the fields of the record, absent flags read as \<open>true\<close>: the decoder gives it
  filled in.\<close>

record 'j decoders =
  dec_wallet_linked :: "'j \<Rightarrow> string + wallet_record"
  dec_primary_changed :: "'j \<Rightarrow> string + wallet_primary_changed_data"
  dec_unlinked :: "'j \<Rightarrow> string + wallet_unlinked_data"
  dec_meter :: "'j \<Rightarrow> string + meter_data"

definition ascii_lower :: "char \<Rightarrow> char" where
  "ascii_lower c = (let n = of_char c :: nat in if 65 \<le> n \<and> n \<le> 90 then char_of (n + 32) else c)"

definition eq_ignore_ascii_case :: "string \<Rightarrow> string \<Rightarrow> bool" where
  "eq_ignore_ascii_case a b \<longleftrightarrow> map ascii_lower a = map ascii_lower b"

definition meter_verified :: "meter_data \<Rightarrow> bool" where
  "meter_verified d = (case mda_is_verified d of
       Some v \<Rightarrow> v
     | None \<Rightarrow> (case mda_status d of None \<Rightarrow> False | Some s \<Rightarrow> eq_ignore_ascii_case s ''verified''))"

datatype feed_action =
    UpsertWallet wallet_record
  | SetWalletPrimary uuid string bool
  | DeleteWallet uuid string
  | UpsertMeter meter_record
  | BadPayload string string
  | Skip string

definition classify :: "'j decoders \<Rightarrow> 'j feed_event \<Rightarrow> feed_action" where
  "classify dec ev =
     (let t = fe_event_type ev; data = fe_data ev in
      if t = ''UserWalletLinked'' \<or> t = ''UserOnboarded'' then
        (case dec_wallet_linked dec data of Inl e \<Rightarrow> BadPayload t e | Inr d \<Rightarrow> UpsertWallet d)
      else if t = ''UserWalletPrimaryChanged'' then
        (case dec_primary_changed dec data of Inl e \<Rightarrow> BadPayload t e
         | Inr d \<Rightarrow> SetWalletPrimary (wpc_user_id d) (wpc_wallet_address d) (wpc_is_primary d))
      else if t = ''UserWalletUnlinked'' then
        (case dec_unlinked dec data of Inl e \<Rightarrow> BadPayload t e | Inr d \<Rightarrow> DeleteWallet (wud_user_id d) (wud_wallet_address d))
      else if t = ''MeterRegistered'' \<or> t = ''MeterUpdated'' then
        (case dec_meter dec data of Inl e \<Rightarrow> BadPayload t e
         | Inr d \<Rightarrow> UpsertMeter \<lparr>me_serial_number = mda_serial_number d, me_meter_id = mda_meter_id d,
             me_user_id = mda_user_id d, me_zone_id = mda_zone_id d, me_status = mda_status d,
             me_is_verified = meter_verified d\<rparr>)
      else Skip t)"

text \<open>The repository call of an action; an error is logged and the row set is as it was.\<close>

definition apply_action :: "datetime \<Rightarrow> feed_action \<Rightarrow> read_model \<Rightarrow> api_error + read_model" where
  "apply_action now act m =
     (case act of
        UpsertWallet rec \<Rightarrow> upsert_wallet rec now m
      | SetWalletPrimary u a prim \<Rightarrow> set_wallet_primary u a prim now m
      | DeleteWallet u a \<Rightarrow> delete_wallet u a now m
      | UpsertMeter rec \<Rightarrow> upsert_meter rec now m
      | BadPayload _ _ \<Rightarrow> Inr m
      | Skip _ \<Rightarrow> Inr m)"

definition handle_payload ::
  "('p \<Rightarrow> string + 'j feed_event) \<Rightarrow> 'j decoders \<Rightarrow> datetime \<Rightarrow> 'p \<Rightarrow> read_model \<Rightarrow> read_model" where
  "handle_payload envelope dec now payload m =
     (case envelope payload of
        Inl _ \<Rightarrow> m
      | Inr ev \<Rightarrow> (case apply_action now (classify dec ev) m of Inl _ \<Rightarrow> m | Inr m' \<Rightarrow> m'))"

section \<open>The tables stay well formed\<close>

definition one_primary :: "wallet_row list \<Rightarrow> bool" where
  "one_primary ws \<longleftrightarrow> (\<forall>r\<in>set ws. \<forall>s\<in>set ws.
     wr_is_primary r \<and> wr_is_primary s \<and> wr_user_id r = wr_user_id s \<longrightarrow> wr_wallet_address r = wr_wallet_address s)"

definition wallets_wf :: "wallet_row list \<Rightarrow> bool" where
  "wallets_wf ws \<longleftrightarrow> distinct (map wallet_key ws) \<and> primary_unique ws"

definition read_model_wf :: "read_model \<Rightarrow> bool" where
  "read_model_wf m \<longleftrightarrow> wallets_wf (rm_wallets m) \<and> distinct (map me_serial_number (rm_meters m))"

lemma one_primaryD:
  "one_primary ws \<Longrightarrow> r \<in> set ws \<Longrightarrow> s \<in> set ws \<Longrightarrow> wr_is_primary r \<Longrightarrow> wr_is_primary s \<Longrightarrow> wr_user_id r = wr_user_id s
   \<Longrightarrow> wr_wallet_address r = wr_wallet_address s"
  unfolding one_primary_def by blast

lemma primary_unique_iff:
  assumes "distinct (map wallet_key ws)"
  shows "primary_unique ws \<longleftrightarrow> one_primary ws"
proof -
  have d: "distinct ws" and i: "inj_on wallet_key (set ws)"
    using assms by (simp_all add: distinct_map)
  have "primary_unique ws \<longleftrightarrow> inj_on wr_user_id (set (filter wr_is_primary ws))"
    using d by (simp add: primary_unique_def distinct_map)
  also have "\<dots> \<longleftrightarrow> one_primary ws"
    using i by (fastforce simp: inj_on_def one_primary_def wallet_key_def)
  finally show ?thesis .
qed

lemma wallets_wf_iff: "wallets_wf ws \<longleftrightarrow> distinct (map wallet_key ws) \<and> one_primary ws"
  by (auto simp: wallets_wf_def primary_unique_iff)

lemma key_row_of_record [simp]: "wallet_key (row_of_record now r) = wallet_key r"
  by (simp add: wallet_key_def row_of_record_def)

lemma serial_meter_row_of [simp]: "me_serial_number (meter_row_of now r) = me_serial_number r"
  by (simp add: meter_row_of_def)

lemma key_demoted [simp]: "wallet_key (r\<lparr>wr_is_primary := p, wr_updated_at := now\<rparr>) = wallet_key r" for r :: wallet_row
  by (simp add: wallet_key_def)

lemma demote_keys [simp]: "map wallet_key (demote_siblings u a now ws) = map wallet_key ws"
  by (simp add: demote_siblings_def)

lemma demote_wf: "wallets_wf ws \<Longrightarrow> wallets_wf (demote_siblings u a now ws)"
  by (fastforce simp: wallets_wf_iff one_primary_def demote_siblings_def set_update_where)

lemma demoted_siblings:
  "r \<in> set (demote_siblings u a now ws) \<Longrightarrow> wr_is_primary r \<Longrightarrow> wr_user_id r = u \<Longrightarrow> wr_wallet_address r = a"
proof -
  assume r: "r \<in> set (demote_siblings u a now ws)" and p: "wr_is_primary r" and u: "wr_user_id r = u"
  from r obtain s where s: "r = (if wr_user_id s = u \<and> wr_is_primary s \<and> wr_wallet_address s \<noteq> a
      then s\<lparr>wr_is_primary := False, wr_updated_at := now\<rparr> else s)"
    unfolding demote_siblings_def set_update_where by (rule imageE)
  have "\<not> (wr_user_id s = u \<and> wr_is_primary s \<and> wr_wallet_address s \<noteq> a)"
  proof
    assume c: "wr_user_id s = u \<and> wr_is_primary s \<and> wr_wallet_address s \<noteq> a"
    from s have "r = s\<lparr>wr_is_primary := False, wr_updated_at := now\<rparr>" unfolding if_P[OF c] .
    with p show False by simp
  qed
  note n = this
  from s have "r = s" unfolding if_not_P[OF n] .
  with p u n show "wr_wallet_address r = a" by blast
qed

text \<open>After the demotion no other row of the user is primary, so the index accepts the promotion.\<close>

lemma promote_wf:
  assumes wf: "wallets_wf ws"
    and sib: "p \<Longrightarrow> (\<And>r. r \<in> set ws \<Longrightarrow> wr_is_primary r \<Longrightarrow> wr_user_id r = u \<Longrightarrow> wr_wallet_address r = a)"
    and key: "\<And>r. P r \<Longrightarrow> wallet_key r = (u, a) \<and> wallet_key (f r) = (u, a) \<and> wr_is_primary (f r) = p"
  shows "wallets_wf (update_where P f ws)"
proof -
  have "map wallet_key (update_where P f ws) = map wallet_key ws"
    using key by (intro map_update_where) metis
  moreover have "one_primary (update_where P f ws)"
    unfolding one_primary_def
  proof (intro ballI impI)
    fix r s
    assume r: "r \<in> set (update_where P f ws)" and s: "s \<in> set (update_where P f ws)"
      and ps: "wr_is_primary r \<and> wr_is_primary s \<and> wr_user_id r = wr_user_id s"
    from r s obtain r' s' where m: "r' \<in> set ws" "r = (if P r' then f r' else r')" "s' \<in> set ws" "s = (if P s' then f s' else s')"
      by (auto simp: set_update_where)
    have k: "P x \<Longrightarrow> wr_user_id (f x) = u \<and> wr_wallet_address (f x) = a \<and> wr_is_primary (f x) = p" for x
      using key[of x] by (simp add: wallet_key_def)
    show "wr_wallet_address r = wr_wallet_address s"
    proof (cases "P r' \<or> P s'")
      case True
      then show ?thesis
        using m ps k sib by (cases "P r'"; cases "P s'") auto
    next
      case False
      then have "r = r'" "s = s'" using m(2,4) by (simp_all only: de_Morgan_disj if_False)
      then show ?thesis
        using one_primaryD[of ws r' s'] m(1,3) ps wf by (simp only: wallets_wf_iff simp_thms)
    qed
  qed
  ultimately show ?thesis
    using wf by (simp add: wallets_wf_iff)
qed

lemma insert_wf:
  assumes wf: "wallets_wf ws" and new: "wallet_key rec \<notin> wallet_key ` set ws"
    and sib: "wr_is_primary rec \<Longrightarrow>
      (\<And>r. r \<in> set ws \<Longrightarrow> wr_is_primary r \<Longrightarrow> wr_user_id r = wr_user_id rec \<Longrightarrow> wr_wallet_address r = wr_wallet_address rec)"
  shows "wallets_wf (ws @ [row_of_record now rec])"
proof -
  have f: "wr_user_id (row_of_record now rec) = wr_user_id rec" "wr_wallet_address (row_of_record now rec) = wr_wallet_address rec"
    "wr_is_primary (row_of_record now rec) = wr_is_primary rec"
    by (simp_all add: row_of_record_def)
  have one: "one_primary ws" using wf by (simp add: wallets_wf_iff)
  have "one_primary (ws @ [row_of_record now rec])"
    unfolding one_primary_def
  proof (intro ballI impI)
    fix r s
    assume r: "r \<in> set (ws @ [row_of_record now rec])" and s: "s \<in> set (ws @ [row_of_record now rec])"
      and ps: "wr_is_primary r \<and> wr_is_primary s \<and> wr_user_id r = wr_user_id s"
    consider "r \<in> set ws" "s \<in> set ws" | "r \<in> set ws" "s = row_of_record now rec"
      | "r = row_of_record now rec" "s \<in> set ws" | "r = row_of_record now rec" "s = row_of_record now rec"
      using r s by fastforce
    then show "wr_wallet_address r = wr_wallet_address s"
    proof cases
      case 1
      then show ?thesis using one_primaryD[OF one, of r s] ps by blast
    next
      case 2
      then show ?thesis using sib[of r] ps f by simp
    next
      case 3
      then show ?thesis using sib[of s] ps f by simp
    next
      case 4
      then show ?thesis by simp
    qed
  qed
  then show ?thesis
    using wf new by (auto simp: wallets_wf_iff)
qed

lemma index_checked_wf [simp]: "wallets_wf ws \<Longrightarrow> index_checked ws = Inr ws"
  by (simp add: index_checked_def wallets_wf_def)

lemma wallet_upsert_ok:
  assumes "wallets_wf ws" "wallet_fits rec"
    and "wr_is_primary rec \<Longrightarrow>
      (\<And>r. r \<in> set ws \<Longrightarrow> wr_is_primary r \<Longrightarrow> wr_user_id r = wr_user_id rec \<Longrightarrow> wr_wallet_address r = wr_wallet_address rec)"
  shows "\<exists>ws'. wallet_upsert rec now ws = Inr ws' \<and> wallets_wf ws'"
proof (cases "wallet_key rec \<in> wallet_key ` set ws")
  case True
  have "wallets_wf (update_where (\<lambda>r. wallet_key r = wallet_key rec \<and> wr_updated_at r \<le> now) (\<lambda>_. row_of_record now rec) ws)"
    by (rule promote_wf[where p = "wr_is_primary rec" and u = "wr_user_id rec" and a = "wr_wallet_address rec"])
       (use assms in \<open>auto simp: wallet_key_def row_of_record_def\<close>)
  then show ?thesis using True assms(2) by (simp add: wallet_upsert_def)
next
  case False
  have "wallets_wf (ws @ [row_of_record now rec])" by (rule insert_wf[OF assms(1) False assms(3)])
  then show ?thesis using assms(2) False by (simp add: wallet_upsert_def)
qed

lemma upsert_wallet_ok:
  assumes "read_model_wf m" "wallet_fits rec"
  shows "\<exists>m'. upsert_wallet rec now m = Inr m' \<and> read_model_wf m'"
proof -
  let ?ws = "if wr_is_primary rec then demote_siblings (wr_user_id rec) (wr_wallet_address rec) now (rm_wallets m) else rm_wallets m"
  have "wallets_wf ?ws" using assms(1) by (simp add: read_model_wf_def demote_wf)
  then obtain ws' where "wallet_upsert rec now ?ws = Inr ws'" "wallets_wf ws'"
    using wallet_upsert_ok[of ?ws rec now] assms(2) demoted_siblings by (auto split: if_splits)
  then show ?thesis using assms(1) by (simp add: upsert_wallet_def read_model_wf_def)
qed

lemma set_wallet_primary_ok:
  assumes "read_model_wf m"
  shows "\<exists>m'. set_wallet_primary u a p now m = Inr m' \<and> read_model_wf m'"
proof -
  let ?ws = "if p then demote_siblings u a now (rm_wallets m) else rm_wallets m"
  have "wallets_wf ?ws" using assms by (simp add: read_model_wf_def demote_wf)
  then have "wallets_wf (update_where (\<lambda>r. wallet_key r = (u, a)) (\<lambda>r. r\<lparr>wr_is_primary := p, wr_updated_at := now\<rparr>) ?ws)"
    by (rule promote_wf[where p = p and u = u and a = a]) (auto dest: demoted_siblings)
  then show ?thesis using assms by (simp add: set_wallet_primary_def read_model_wf_def)
qed

lemma delete_wallet_ok:
  assumes "read_model_wf m"
  shows "\<exists>m'. delete_wallet u a now m = Inr m' \<and> read_model_wf m'"
proof -
  have "one_primary (filter (\<lambda>r. wallet_key r \<noteq> (u, a)) (rm_wallets m))"
    using assms unfolding read_model_wf_def wallets_wf_iff one_primary_def by auto
  then show ?thesis
    using assms by (simp add: delete_wallet_def read_model_wf_def wallets_wf_iff distinct_map_filter)
qed

lemma upsert_meter_ok:
  assumes "read_model_wf m" "meter_fits rec"
  shows "\<exists>m'. upsert_meter rec now m = Inr m' \<and> read_model_wf m'"
proof -
  have "map me_serial_number (update_where (\<lambda>r. me_serial_number r = me_serial_number rec \<and> me_updated_at r \<le> now)
      (\<lambda>_. meter_row_of now rec) (rm_meters m)) = map me_serial_number (rm_meters m)"
    by (rule map_update_where) simp
  then show ?thesis
    using assms by (simp add: upsert_meter_def read_model_wf_def)
qed

fun action_fits :: "feed_action \<Rightarrow> bool" where
  "action_fits (UpsertWallet r) = wallet_fits r"
| "action_fits (UpsertMeter r) = meter_fits r"
| "action_fits _ = True"

lemma apply_action_ok:
  assumes "read_model_wf m"
  shows "if action_fits act then \<exists>m'. apply_action now act m = Inr m' \<and> read_model_wf m'
         else apply_action now act m = Inl (Database ''value too long'')"
  using upsert_wallet_ok[OF assms, of _ now] set_wallet_primary_ok[OF assms] delete_wallet_ok[OF assms] upsert_meter_ok[OF assms, of _ now] assms
  by (cases act) (simp_all add: apply_action_def upsert_wallet_def wallet_upsert_def upsert_meter_def)

section \<open>What a key shows\<close>

text \<open>The link of a key as its readers see it: everything but the time of the write.\<close>

definition wallet_at :: "wallet_row list \<Rightarrow> uuid \<times> string \<Rightarrow> wallet_row option" where
  "wallet_at ws k = find (\<lambda>r. wallet_key r = k) ws"

definition wallet_view :: "read_model \<Rightarrow> uuid \<times> string \<Rightarrow> wallet_record option" where
  "wallet_view m k = map_option wallet_record.truncate (wallet_at (rm_wallets m) k)"

lemma wallet_at_update:
  "(\<And>r. P r \<Longrightarrow> wallet_key (f r) = wallet_key r) \<Longrightarrow>
   wallet_at (update_where P f ws) k = map_option (\<lambda>r. if P r then f r else r) (wallet_at ws k)"
  by (induction ws) (auto simp: wallet_at_def)

lemma wallet_at_append: "wallet_at (ws @ [r]) k = (case wallet_at ws k of Some x \<Rightarrow> Some x | None \<Rightarrow> if wallet_key r = k then Some r else None)"
  by (induction ws) (auto simp: wallet_at_def)

lemma wallet_at_filter: "wallet_at (filter (\<lambda>r. wallet_key r \<noteq> k') ws) k = (if k = k' then None else wallet_at ws k)"
  by (induction ws) (auto simp: wallet_at_def)

lemma wallet_at_None: "wallet_at ws k = None \<longleftrightarrow> k \<notin> wallet_key ` set ws"
  by (induction ws) (auto simp: wallet_at_def)

lemma wallet_at_Some: "wallet_at ws k = Some r \<Longrightarrow> r \<in> set ws \<and> wallet_key r = k"
  by (induction ws) (auto simp: wallet_at_def split: if_splits)

text \<open>Each event as a map on the links: a link sets its key, the primary flag of one key is set, the
  siblings of a promoted wallet lose theirs, an unlink empties its key.\<close>

definition demote_links :: "uuid \<Rightarrow> string \<Rightarrow> (uuid \<times> string \<Rightarrow> wallet_record option) \<Rightarrow> uuid \<times> string \<Rightarrow> wallet_record option" where
  "demote_links u a links = (\<lambda>k. if fst k = u \<and> snd k \<noteq> a then map_option (wr_is_primary_update (\<lambda>_. False)) (links k) else links k)"

fun link_effect :: "feed_action \<Rightarrow> (uuid \<times> string \<Rightarrow> wallet_record option) \<Rightarrow> uuid \<times> string \<Rightarrow> wallet_record option" where
  "link_effect (UpsertWallet r) links =
     (if wallet_fits r
      then (if wr_is_primary r then demote_links (wr_user_id r) (wr_wallet_address r) links else links)(wallet_key r \<mapsto> r)
      else links)"
| "link_effect (SetWalletPrimary u a p) links =
     (let links' = (if p then demote_links u a links else links)
      in links'((u, a) := map_option (wr_is_primary_update (\<lambda>_. p)) (links (u, a))))"
| "link_effect (DeleteWallet u a) links = links((u, a) := None)"
| "link_effect _ links = links"

lemma truncate_row [simp]: "wallet_record.truncate (row_of_record now r) = r"
  by (simp add: row_of_record_def wallet_record.defs)

lemma truncate_flag: "wallet_record.truncate (r\<lparr>wr_is_primary := p, wr_updated_at := now\<rparr>)
    = (wallet_record.truncate r)\<lparr>wr_is_primary := p\<rparr>" for r :: wallet_row
  by (simp add: wallet_record.defs)

lemma flag_id: "\<not> wr_is_primary r \<Longrightarrow> r\<lparr>wr_is_primary := False\<rparr> = r" for r :: wallet_record
  by (cases r) simp

lemma truncate_primary [simp]: "wr_is_primary (wallet_record.truncate r) = wr_is_primary r"
  by (simp add: wallet_record.defs)

definition stamps_until :: "datetime \<Rightarrow> wallet_row list \<Rightarrow> bool" where
  "stamps_until now ws \<longleftrightarrow> (\<forall>r\<in>set ws. wr_updated_at r \<le> now)"

lemma view_demote:
  "map_option wallet_record.truncate (wallet_at (demote_siblings u a now ws) k)
   = demote_links u a (\<lambda>k. map_option wallet_record.truncate (wallet_at ws k)) k"
proof (cases "wallet_at ws k")
  case None
  then show ?thesis by (simp add: demote_siblings_def wallet_at_update demote_links_def)
next
  case (Some r)
  then have k: "wr_user_id r = fst k" "wr_wallet_address r = snd k"
    using wallet_at_Some[OF Some] by (auto simp: wallet_key_def)
  show ?thesis
    by (cases "wr_is_primary r")
       (simp_all add: demote_siblings_def wallet_at_update demote_links_def Some k truncate_flag flag_id)
qed

lemma demote_stamps: "stamps_until now ws \<Longrightarrow> stamps_until now (demote_siblings u a now ws)"
  by (auto simp: stamps_until_def demote_siblings_def set_update_where)

lemma view_upsert:
  assumes "wallet_upsert rec now ws = Inr ws'" "stamps_until now ws"
  shows "map_option wallet_record.truncate (wallet_at ws' k)
    = ((\<lambda>k. map_option wallet_record.truncate (wallet_at ws k))(wallet_key rec \<mapsto> rec)) k"
proof (cases "wallet_key rec \<in> wallet_key ` set ws")
  case True
  then have ws': "ws' = update_where (\<lambda>r. wallet_key r = wallet_key rec \<and> wr_updated_at r \<le> now) (\<lambda>_. row_of_record now rec) ws"
    using assms(1) by (auto simp: wallet_upsert_def index_checked_def split: if_splits)
  obtain r where r: "wallet_at ws (wallet_key rec) = Some r"
    using True wallet_at_None by fastforce
  have "wallet_key r = wallet_key rec" "wr_updated_at r \<le> now"
    using wallet_at_Some[OF r] assms(2) by (auto simp: stamps_until_def)
  moreover have "wallet_at ws' k = map_option (\<lambda>r. if wallet_key r = wallet_key rec \<and> wr_updated_at r \<le> now then row_of_record now rec else r) (wallet_at ws k)"
    unfolding ws' by (rule wallet_at_update) simp
  moreover have "wallet_at ws k = Some x \<Longrightarrow> wallet_key x = k" for x
    using wallet_at_Some by blast
  ultimately show ?thesis
    using r by (cases "wallet_at ws k") auto
next
  case False
  then have "ws' = ws @ [row_of_record now rec]" "wallet_at ws (wallet_key rec) = None"
    using assms(1) by (auto simp: wallet_upsert_def index_checked_def wallet_at_None split: if_splits)
  then show ?thesis
    by (auto simp: wallet_at_append split: option.split)
qed

lemma wallet_view_abs: "wallet_view m = (\<lambda>k. map_option wallet_record.truncate (wallet_at (rm_wallets m) k))"
  by (rule ext) (simp add: wallet_view_def)

lemma upsert_wallet_view:
  assumes "upsert_wallet rec now m = Inr m'" "stamps_until now (rm_wallets m)" "wallet_fits rec"
  shows "wallet_view m' = link_effect (UpsertWallet rec) (wallet_view m)"
proof -
  let ?ws = "if wr_is_primary rec then demote_siblings (wr_user_id rec) (wr_wallet_address rec) now (rm_wallets m) else rm_wallets m"
  obtain ws' where ws': "wallet_upsert rec now ?ws = Inr ws'" and m': "m' = m\<lparr>rm_wallets := ws'\<rparr>"
    using assms(1) by (auto simp: upsert_wallet_def split: sum.splits)
  have "stamps_until now ?ws" using assms(2) by (simp add: demote_stamps)
  note v = view_upsert[OF ws' this]
  show ?thesis
    using v assms(3) by (auto simp: wallet_view_abs m' view_demote fun_eq_iff)
qed

lemma set_wallet_primary_view:
  assumes "set_wallet_primary u a p now m = Inr m'"
  shows "wallet_view m' = link_effect (SetWalletPrimary u a p) (wallet_view m)"
proof -
  let ?ws = "if p then demote_siblings u a now (rm_wallets m) else rm_wallets m"
  let ?f = "\<lambda>r::wallet_row. r\<lparr>wr_is_primary := p, wr_updated_at := now\<rparr>"
  have m': "m' = m\<lparr>rm_wallets := update_where (\<lambda>r. wallet_key r = (u, a)) ?f ?ws\<rparr>"
    using assms by (auto simp: set_wallet_primary_def index_checked_def split: if_splits)
  have "map_option wallet_record.truncate (wallet_at (update_where (\<lambda>r. wallet_key r = (u, a)) ?f ?ws) k)
      = (if k = (u, a) then map_option (wr_is_primary_update (\<lambda>_. p)) else id) (map_option wallet_record.truncate (wallet_at ?ws k))" for k
  proof (cases "wallet_at ?ws k")
    case None
    then show ?thesis by (simp add: wallet_at_update)
  next
    case (Some r)
    then have "wallet_key r = k" using wallet_at_Some by blast
    then show ?thesis by (simp add: wallet_at_update Some truncate_flag)
  qed
  then show ?thesis
    by (auto simp: wallet_view_abs m' view_demote demote_links_def fun_eq_iff Let_def)
qed

lemma apply_action_view:
  assumes "apply_action now act m = Inr m'" "stamps_until now (rm_wallets m)"
  shows "wallet_view m' = link_effect act (wallet_view m)"
proof (cases act)
  case (UpsertWallet rec)
  then have "wallet_fits rec"
    using assms(1) by (auto simp: apply_action_def upsert_wallet_def wallet_upsert_def split: if_splits)
  then show ?thesis using UpsertWallet assms upsert_wallet_view by (simp add: apply_action_def)
next
  case (SetWalletPrimary u a p)
  then show ?thesis using assms set_wallet_primary_view by (simp add: apply_action_def)
next
  case (DeleteWallet u a)
  then have "m' = m\<lparr>rm_wallets := filter (\<lambda>r. wallet_key r \<noteq> (u, a)) (rm_wallets m)\<rparr>"
    using assms(1) by (simp add: apply_action_def delete_wallet_def)
  then show ?thesis using DeleteWallet by (auto simp: wallet_view_def wallet_at_filter fun_eq_iff)
next
  case (UpsertMeter rec)
  then have "rm_wallets m' = rm_wallets m"
    using assms(1) by (auto simp: apply_action_def upsert_meter_def split: if_splits)
  then show ?thesis using UpsertMeter by (simp add: wallet_view_def fun_eq_iff)
qed (use assms in \<open>simp_all add: apply_action_def\<close>)

lemma unfit_effect: "\<not> action_fits act \<Longrightarrow> link_effect act links = links"
  by (cases act) simp_all

text \<open>The stamps of the rows stay behind the clock.\<close>

lemma stamps_mono: "stamps_until t ws \<Longrightarrow> t \<le> now \<Longrightarrow> stamps_until now ws"
  unfolding stamps_until_def by fastforce

lemma stamps_update: "stamps_until now ws \<Longrightarrow> (\<And>r. P r \<Longrightarrow> wr_updated_at (f r) \<le> now) \<Longrightarrow> stamps_until now (update_where P f ws)"
  by (auto simp: stamps_until_def set_update_where)

lemma wallet_upsert_stamps:
  assumes "wallet_upsert rec now ws = Inr ws'" "stamps_until now ws"
  shows "stamps_until now ws'"
proof -
  have r: "wr_updated_at (row_of_record now rec) = now" by (simp add: row_of_record_def)
  consider "ws' = update_where (\<lambda>r. wallet_key r = wallet_key rec \<and> wr_updated_at r \<le> now) (\<lambda>_. row_of_record now rec) ws"
    | "ws' = ws @ [row_of_record now rec]"
    using assms(1) by (auto simp: wallet_upsert_def index_checked_def split: if_splits)
  then show ?thesis
  proof cases
    case 1
    then show ?thesis using assms(2) by (auto intro!: stamps_update simp: r)
  next
    case 2
    then show ?thesis using assms(2) by (auto simp: stamps_until_def r)
  qed
qed

lemma apply_action_stamps:
  assumes "apply_action now act m = Inr m'" "stamps_until now (rm_wallets m)"
  shows "stamps_until now (rm_wallets m')"
proof (cases act)
  case (UpsertWallet rec)
  then show ?thesis
    using assms wallet_upsert_stamps demote_stamps
    by (fastforce simp: apply_action_def upsert_wallet_def split: sum.splits if_splits)
next
  case (SetWalletPrimary u a p)
  then have "rm_wallets m' = update_where (\<lambda>r. wallet_key r = (u, a)) (\<lambda>r. r\<lparr>wr_is_primary := p, wr_updated_at := now\<rparr>)
      (if p then demote_siblings u a now (rm_wallets m) else rm_wallets m)"
    using assms(1) by (auto simp: apply_action_def set_wallet_primary_def index_checked_def split: if_splits)
  then show ?thesis using assms(2) by (auto intro!: stamps_update simp: demote_stamps)
next
  case (DeleteWallet u a)
  then show ?thesis using assms by (auto simp: apply_action_def delete_wallet_def stamps_until_def)
next
  case (UpsertMeter rec)
  then show ?thesis using assms by (auto simp: apply_action_def upsert_meter_def split: if_splits)
qed (use assms in \<open>simp_all add: apply_action_def\<close>)

section \<open>The feed refines the links\<close>

definition action_of :: "('p \<Rightarrow> string + 'j feed_event) \<Rightarrow> 'j decoders \<Rightarrow> 'p \<Rightarrow> feed_action" where
  "action_of envelope dec p = (case envelope p of Inl _ \<Rightarrow> Skip [] | Inr ev \<Rightarrow> classify dec ev)"

fun feed_run ::
  "('p \<Rightarrow> string + 'j feed_event) \<Rightarrow> 'j decoders \<Rightarrow> (datetime \<times> 'p) list \<Rightarrow> read_model \<Rightarrow> read_model" where
  "feed_run envelope dec [] m = m"
| "feed_run envelope dec ((now, p) # es) m = feed_run envelope dec es (handle_payload envelope dec now p m)"

lemma handle_payload_action:
  "handle_payload envelope dec now p m
   = (case apply_action now (action_of envelope dec p) m of Inl _ \<Rightarrow> m | Inr m' \<Rightarrow> m')"
  by (simp add: handle_payload_def action_of_def apply_action_def split: sum.splits)

lemma handle_payload_step:
  assumes "read_model_wf m" "stamps_until now (rm_wallets m)"
  shows "read_model_wf (handle_payload envelope dec now p m)
    \<and> stamps_until now (rm_wallets (handle_payload envelope dec now p m))
    \<and> wallet_view (handle_payload envelope dec now p m) = link_effect (action_of envelope dec p) (wallet_view m)"
proof (cases "action_fits (action_of envelope dec p)")
  case True
  then obtain m' where "apply_action now (action_of envelope dec p) m = Inr m'" "read_model_wf m'"
    using apply_action_ok[OF assms(1), of "action_of envelope dec p" now] by auto
  then show ?thesis
    using apply_action_view apply_action_stamps assms(2) by (simp add: handle_payload_action)
next
  case False
  then show ?thesis
    using apply_action_ok[OF assms(1), of "action_of envelope dec p" now] assms
    by (simp add: handle_payload_action unfit_effect)
qed

lemma feed_run_view:
  assumes "read_model_wf m" "stamps_until t (rm_wallets m)" "sorted (t # map fst es)"
  shows "read_model_wf (feed_run envelope dec es m)
    \<and> wallet_view (feed_run envelope dec es m) = fold link_effect (map (action_of envelope dec \<circ> snd) es) (wallet_view m)"
  using assms
proof (induction es arbitrary: t m)
  case Nil
  then show ?case by simp
next
  case (Cons e es)
  obtain now p where e: "e = (now, p)" by (cases e)
  have s: "stamps_until now (rm_wallets m)"
    using Cons.prems(2,3) stamps_mono by (simp add: e)
  note h = handle_payload_step[OF Cons.prems(1) s, of envelope dec p]
  have "sorted (now # map fst es)" using Cons.prems(3) by (simp add: e)
  then show ?case
    using Cons.IH[of "handle_payload envelope dec now p m" now] h by (simp add: e)
qed

section \<open>Replay and interleaving\<close>

text \<open>IAM keys its events by user, so a partition keeps the order of one user's events while those of
  different users interleave freely, and a rewound consumer reads a stretch of them again.\<close>

fun action_user :: "feed_action \<Rightarrow> uuid option" where
  "action_user (UpsertWallet r) = Some (wr_user_id r)"
| "action_user (SetWalletPrimary u a p) = Some u"
| "action_user (DeleteWallet u a) = Some u"
| "action_user _ = None"

definition user_events :: "('p \<Rightarrow> string + 'j feed_event) \<Rightarrow> 'j decoders \<Rightarrow> uuid \<Rightarrow> (datetime \<times> 'p) list \<Rightarrow> feed_action list" where
  "user_events envelope dec u es = filter (\<lambda>act. action_user act = Some u) (map (action_of envelope dec \<circ> snd) es)"

text \<open>What an event does to the link of one key.\<close>

fun key_effect :: "uuid \<times> string \<Rightarrow> feed_action \<Rightarrow> wallet_record option \<Rightarrow> wallet_record option" where
  "key_effect k (UpsertWallet r) =
     (if \<not> wallet_fits r then id
      else if k = wallet_key r then (\<lambda>_. Some r)
      else if wr_is_primary r \<and> fst k = wr_user_id r then map_option (wr_is_primary_update (\<lambda>_. False))
      else id)"
| "key_effect k (SetWalletPrimary u a p) =
     (if k = (u, a) then map_option (wr_is_primary_update (\<lambda>_. p))
      else if p \<and> fst k = u then map_option (wr_is_primary_update (\<lambda>_. False))
      else id)"
| "key_effect k (DeleteWallet u a) = (if k = (u, a) then (\<lambda>_. None) else id)"
| "key_effect k _ = id"

lemma link_effect_at: "link_effect act links k = key_effect k act (links k)"
  by (cases act; cases k) (auto simp: demote_links_def wallet_key_def Let_def)

lemma fold_link_at: "fold link_effect acts links k = fold (key_effect k) acts (links k)"
  by (induction acts arbitrary: links) (simp_all add: link_effect_at)

lemma key_effect_other: "action_user act \<noteq> Some (fst k) \<Longrightarrow> key_effect k act = id"
  by (cases act) (auto simp: wallet_key_def)

lemma fold_key_user: "fold (key_effect k) acts = fold (key_effect k) (filter (\<lambda>act. action_user act = Some (fst k)) acts)"
  by (induction acts) (auto simp: key_effect_other)

text \<open>An event sets the link, sets its flag or leaves it: what a stretch of events does, it does once.\<close>

definition settles :: "(wallet_record option \<Rightarrow> wallet_record option) \<Rightarrow> bool" where
  "settles f \<longleftrightarrow> f = id \<or> (\<exists>c. f = (\<lambda>_. c)) \<or> (\<exists>p. f = map_option (wr_is_primary_update (\<lambda>_. p)))"

lemma settles_id [simp]: "settles id"
  by (simp add: settles_def)

lemma settles_const [simp]: "settles (\<lambda>_. c)"
  by (auto simp: settles_def)

lemma settles_flag [simp]: "settles (map_option (wr_is_primary_update (\<lambda>_. p)))"
  by (auto simp: settles_def)

lemma key_effect_settles: "settles (key_effect k act)"
  by (cases act) simp_all

lemma flag_flag: "map_option (wr_is_primary_update (\<lambda>_. p)) \<circ> map_option (wr_is_primary_update (\<lambda>_. q))
    = map_option (wr_is_primary_update (\<lambda>_. p))"
  by (simp add: option.map_comp fun_eq_iff option.map_id0 comp_def)

lemma settles_comp:
  assumes "settles f" "settles g"
  shows "settles (f \<circ> g)"
  using assms(1)[unfolded settles_def]
proof (elim disjE exE)
  assume "f = id" then show ?thesis using assms(2) by simp
next
  fix c assume "f = (\<lambda>_. c)" then show ?thesis by (simp add: comp_def)
next
  fix p assume f: "f = map_option (wr_is_primary_update (\<lambda>_. p))"
  show ?thesis
    using assms(2)[unfolded settles_def]
  proof (elim disjE exE)
    assume "g = id" then show ?thesis using assms(1) by simp
  next
    fix c assume "g = (\<lambda>_. c)" then show ?thesis by (simp add: comp_def)
  next
    fix q assume "g = map_option (wr_is_primary_update (\<lambda>_. q))"
    then show ?thesis by (simp add: f flag_flag)
  qed
qed

lemma settles_twice: "settles f \<Longrightarrow> f (f x) = f x"
  by (cases x) (auto simp: settles_def)

lemma fold_settles: "settles (fold (key_effect k) acts)"
proof (induction acts)
  case Nil
  show ?case using settles_id by (simp add: id_def)
next
  case (Cons act acts)
  show ?case using settles_comp[OF Cons key_effect_settles, of k act] by (simp add: comp_def)
qed

lemma fold_replay: "fold (key_effect k) (ps @ qs @ qs @ rs) x = fold (key_effect k) (ps @ qs @ rs) x"
  using settles_twice[OF fold_settles] by simp

lemma backfill_rows_wf: "backfill_rows now src (ws, n) = (ws', r) \<Longrightarrow> wallets_wf ws \<Longrightarrow> wallets_wf ws'"
proof (induction src arbitrary: ws n)
  case Nil
  then show ?case by simp
next
  case (Cons rec src)
  show ?case
  proof (cases "backfill_one now rec (ws, n)")
    case (Inl e)
    then show ?thesis using Cons.prems by simp
  next
    case (Inr acc)
    obtain ws1 n1 where acc: "acc = (ws1, n1)" by (cases acc)
    have "wallets_wf ws1"
      using Inr Cons.prems(2) unfolding acc backfill_one_def
      by (auto simp: index_checked_def wallets_wf_def split: if_splits)
    then show ?thesis using Cons.IH Cons.prems(1) Inr acc by simp
  qed
qed

lemma upsert_all_wf: "upsert_all src now m = (m', r) \<Longrightarrow> read_model_wf m \<Longrightarrow> read_model_wf m'"
proof (induction src arbitrary: m)
  case Nil
  then show ?case by simp
next
  case (Cons rec src)
  show ?case
  proof (cases "wallet_fits rec")
    case True
    then obtain m1 where "upsert_wallet rec now m = Inr m1" "read_model_wf m1"
      using upsert_wallet_ok Cons.prems(2) by blast
    then show ?thesis using Cons by simp
  next
    case False
    then have "upsert_wallet rec now m = Inl (Database ''value too long'')"
      by (simp add: upsert_wallet_def wallet_upsert_def)
    then show ?thesis using Cons.prems by simp
  qed
qed

lemma backfill_meter_rows_wf:
  "backfill_meter_rows now src (ms, n) = (ms', r) \<Longrightarrow> distinct (map me_serial_number ms) \<Longrightarrow> distinct (map me_serial_number ms')"
  by (induction src arbitrary: ms n) (auto split: if_splits)

text \<open>C35: The read-model tables stay well formed: one row per wallet key, at most one primary wallet per
  user, one row per meter, through every feed event, the boot snapshot and the lazy repair of one user.
  The unique index on primaries never rejects an event: the repository call of an action fails only on a
  value too long for its column.\<close>

theorem feed_keeps_tables:
  assumes "read_model_wf m"
  shows "read_model_wf (handle_payload envelope dec now p m)
    \<and> (\<exists>e. apply_action now act m = Inl e) = (\<not> action_fits act)
    \<and> read_model_wf (fst (backfill_wallets pool local_table now m))
    \<and> read_model_wf (fst (backfill_wallet_for pool local_table u now m))
    \<and> read_model_wf (fst (backfill_meters mpool mlocal now m))"
proof (intro conjI)
  show "read_model_wf (handle_payload envelope dec now p m)"
    using apply_action_ok[OF assms, of "action_of envelope dec p" now] assms
    by (auto simp: handle_payload_action split: if_splits)
  show "(\<exists>e. apply_action now act m = Inl e) = (\<not> action_fits act)"
    using apply_action_ok[OF assms, of act now] by (auto split: if_splits)
  have w: "wallets_wf (fst (backfill_rows now src (rm_wallets m, 0)))" for src
    using backfill_rows_wf assms by (metis prod.collapse read_model_wf_def)
  show "read_model_wf (fst (backfill_wallets pool local_table now m))"
    using w assms by (auto simp: backfill_wallets_def read_model_wf_def split: option.split prod.split sum.split)
      (metis fst_conv)+
  have u: "read_model_wf (fst (upsert_all src now m))" for src
    using upsert_all_wf assms by (metis prod.collapse)
  show "read_model_wf (fst (backfill_wallet_for pool local_table u now m))"
    using u assms by (auto simp: backfill_wallet_for_def split: option.split prod.split sum.split) (metis fst_conv)+
  have d: "distinct (map me_serial_number (fst (backfill_meter_rows now src (rm_meters m, 0))))" for src
    using backfill_meter_rows_wf assms by (metis prod.collapse read_model_wf_def)
  show "read_model_wf (fst (backfill_meters mpool mlocal now m))"
    using d assms by (auto simp: backfill_meters_def read_model_wf_def split: option.split prod.split sum.split)
      (metis fst_conv)+
qed


section \<open>Runs\<close>

definition demo_wallet :: "uuid \<Rightarrow> string \<Rightarrow> bool \<Rightarrow> wallet_record" where
  "demo_wallet u a p = \<lparr>wr_user_id = u, wr_wallet_address = a, wr_is_primary = p, wr_blockchain_registered = True,
     wr_user_account_pda = None, wr_shard_id = Some 3\<rparr>"

definition demo_decoders :: "(wallet_record + wallet_primary_changed_data) decoders" where
  "demo_decoders = \<lparr>dec_wallet_linked = (\<lambda>j. case j of Inl r \<Rightarrow> Inr r | Inr _ \<Rightarrow> Inl ''missing field''),
     dec_primary_changed = (\<lambda>j. case j of Inl _ \<Rightarrow> Inl ''missing field'' | Inr d \<Rightarrow> Inr d),
     dec_unlinked = (\<lambda>_. Inl ''missing field''), dec_meter = (\<lambda>_. Inl ''missing field'')\<rparr>"

definition linked_event :: "uuid \<Rightarrow> string \<Rightarrow> (wallet_record + wallet_primary_changed_data) feed_event" where
  "linked_event u a = \<lparr>fe_event_type = ''UserWalletLinked'', fe_data = Inl (demo_wallet u a True)\<rparr>"

definition promoted_event :: "uuid \<Rightarrow> string \<Rightarrow> (wallet_record + wallet_primary_changed_data) feed_event" where
  "promoted_event u a = \<lparr>fe_event_type = ''UserWalletPrimaryChanged'',
     fe_data = Inr \<lparr>wpc_user_id = u, wpc_wallet_address = a, wpc_is_primary = True\<rparr>\<rparr>"

definition demo_feed :: "(datetime \<times> (wallet_record + wallet_primary_changed_data) feed_event) list" where
  "demo_feed = [(1, linked_event 1 ''A''), (2, linked_event 2 ''C''), (3, linked_event 1 ''B''), (4, promoted_event 1 ''A'')]"

definition rewound_feed :: "(datetime \<times> (wallet_record + wallet_primary_changed_data) feed_event) list" where
  "rewound_feed = [(1, linked_event 1 ''A''), (2, linked_event 1 ''B''), (3, promoted_event 1 ''A''),
     (4, linked_event 1 ''B''), (5, promoted_event 1 ''A''), (6, linked_event 2 ''C'')]"

lemmas demo_feed_defs = demo_wallet_def demo_decoders_def linked_event_def promoted_event_def demo_feed_def rewound_feed_def

definition empty_model :: read_model where
  "empty_model = \<lparr>rm_wallets = [], rm_meters = []\<rparr>"

lemma empty_model_wf: "read_model_wf empty_model"
  by (simp add: empty_model_def read_model_wf_def wallets_wf_def primary_unique_def)

lemma demo_redelivered: "\<exists>ps qs rs. user_events Inr demo_decoders u demo_feed = ps @ qs @ rs
    \<and> user_events Inr demo_decoders u rewound_feed = ps @ qs @ qs @ rs"
proof -
  consider "u = 1" | "u = 2" | "u \<noteq> 1 \<and> u \<noteq> 2" by blast
  then show ?thesis
  proof cases
    case 1
    show ?thesis
      by (rule exI[of _ "[UpsertWallet (demo_wallet 1 ''A'' True)]"],
          rule exI[of _ "[UpsertWallet (demo_wallet 1 ''B'' True), SetWalletPrimary 1 ''A'' True]"], rule exI[of _ "[]"])
         (simp add: 1 user_events_def action_of_def classify_def demo_feed_defs)
  next
    case 2
    show ?thesis
      by (rule exI[of _ "[UpsertWallet (demo_wallet 2 ''C'' True)]"], rule exI[of _ "[]"], rule exI[of _ "[]"])
         (simp add: 2 user_events_def action_of_def classify_def demo_feed_defs)
  next
    case 3
    have "user_events Inr demo_decoders u demo_feed = []" "user_events Inr demo_decoders u rewound_feed = []"
      using 3 by (simp_all add: user_events_def action_of_def classify_def demo_feed_defs)
    then show ?thesis by simp
  qed
qed


theorem feed_keeps_tables_witness:
  "read_model_wf (handle_payload Inr demo_decoders 5 (linked_event 1 ''B'') (feed_run Inr demo_decoders demo_feed empty_model))"
proof -
  have "read_model_wf (feed_run Inr demo_decoders demo_feed empty_model)"
    by (rule conjunct1[OF feed_run_view[OF empty_model_wf, of 0]]) (simp_all add: empty_model_def stamps_until_def demo_feed_def)
  then show ?thesis
    by (rule conjunct1[OF feed_keeps_tables])
qed

text \<open>The snapshot alone is not protected: a row of the source whose user already has another primary here
  stops the loop at the unique index, and the rows after it are not copied.\<close>

lemma backfill_stops_at_moved_primary:
  "backfill_wallets (Some [demo_wallet 1 ''B'' True, demo_wallet 2 ''C'' True]) None 9 (feed_run Inr demo_decoders [(1, linked_event 1 ''A'')] empty_model)
   = (feed_run Inr demo_decoders [(1, linked_event 1 ''A'')] empty_model, Inl (Database ''uq_iam_wallet_read_model_primary''))"
  by code_simp

end
