(* ===== verification/Matcher_Worker.thy ===== *)
theory Matcher_Worker imports Store begin

text \<open>
  The loop of \<open>trading-logic/src/workers/matcher.rs\<close> around \<open>MatcherService\<close>'s wake-up (\<open>matcher_service.rs\<close>,
  \<open>request_cycle\<close> and \<open>cycle_requested\<close>): a step relation whose steps interleave with the arrivals of
  orders and the passing of time.  A cycle reads the book where it begins; its body is
  \<open>run_matching_cycle\<close> of \<open>Matcher_Service\<close>.  \<open>Notify\<close> is one permit; the ticker is \<open>tokio\<close>'s interval
  with \<open>MissedTickBehavior::Delay\<close>.  Times are milliseconds.
\<close>

section \<open>The worker\<close>

record matcher_worker =
  mk_interval :: nat
  mk_debounce :: "nat option"

datatype phase = Waiting | Debouncing nat | Matching

text \<open>The last five fields only record what happened: the arrivals no cycle has read yet, the arrivals and
  the consumed permits, the end of the last cycle and the starts of the cycles, latest first.\<close>

record matcher_loop =
  ml_phase :: phase
  ml_permit :: bool
  ml_next_tick :: nat
  ml_now :: nat
  ml_unseen :: nat
  ml_arrivals :: nat
  ml_wakes :: nat
  ml_idle_since :: nat
  ml_starts :: "nat list"

definition loop_start :: matcher_loop where
  "loop_start = \<lparr>ml_phase = Waiting, ml_permit = False, ml_next_tick = 0, ml_now = 0, ml_unseen = 0,
     ml_arrivals = 0, ml_wakes = 0, ml_idle_since = 0, ml_starts = []\<rparr>"

text \<open>\<open>Delay\<close>: a tick that is more than five milliseconds late re-bases the schedule.\<close>

definition next_tick :: "matcher_worker \<Rightarrow> nat \<Rightarrow> nat \<Rightarrow> nat" where
  "next_tick wk timeout now = (if timeout + 5 < now then now + mk_interval wk else timeout + mk_interval wk)"

definition cycle_begins :: "matcher_loop \<Rightarrow> matcher_loop" where
  "cycle_begins s = s\<lparr>ml_phase := Matching, ml_unseen := 0, ml_starts := ml_now s # ml_starts s\<rparr>"

definition order_arrives :: "matcher_loop \<Rightarrow> matcher_loop" where
  "order_arrives s = s\<lparr>ml_permit := True, ml_unseen := Suc (ml_unseen s), ml_arrivals := Suc (ml_arrivals s)\<rparr>"

definition woken :: "nat \<Rightarrow> matcher_loop \<Rightarrow> matcher_loop" where
  "woken d s = (let s' = s\<lparr>ml_permit := False, ml_wakes := Suc (ml_wakes s)\<rparr>
     in if d = 0 then cycle_begins s' else s'\<lparr>ml_phase := Debouncing (ml_now s + d)\<rparr>)"

text \<open>The select is biased: the tick branch is taken when no permit is there.\<close>

inductive matcher_step :: "matcher_worker \<Rightarrow> matcher_loop \<Rightarrow> matcher_loop \<Rightarrow> bool" for wk where
  arrives: "matcher_step wk s (order_arrives s)"
| passes: "ml_now s \<le> t \<Longrightarrow> matcher_step wk s (s\<lparr>ml_now := t\<rparr>)"
| wakes: "ml_phase s = Waiting \<Longrightarrow> mk_debounce wk = Some d \<Longrightarrow> ml_permit s \<Longrightarrow> matcher_step wk s (woken d s)"
| sleeps: "ml_phase s = Debouncing t \<Longrightarrow> t \<le> ml_now s \<Longrightarrow> matcher_step wk s (cycle_begins s)"
| ticks: "ml_phase s = Waiting \<Longrightarrow> mk_debounce wk = None \<or> \<not> ml_permit s \<Longrightarrow> ml_next_tick s \<le> ml_now s \<Longrightarrow>
    matcher_step wk s (cycle_begins (s\<lparr>ml_next_tick := next_tick wk (ml_next_tick s) (ml_now s)\<rparr>))"
| finishes: "ml_phase s = Matching \<Longrightarrow> matcher_step wk s (s\<lparr>ml_phase := Waiting, ml_idle_since := ml_now s\<rparr>)"

inductive_cases matcher_stepE: "matcher_step wk s s'"

inductive matcher_reach :: "matcher_worker \<Rightarrow> matcher_loop \<Rightarrow> bool" for wk where
  boot: "matcher_reach wk loop_start"
| step: "matcher_reach wk s \<Longrightarrow> matcher_step wk s s' \<Longrightarrow> matcher_reach wk s'"

section \<open>No wake-up is lost\<close>

definition loop_inv :: "matcher_worker \<Rightarrow> matcher_loop \<Rightarrow> bool" where
  "loop_inv wk s \<longleftrightarrow>
     (0 < ml_unseen s \<longrightarrow> ml_permit s \<or> (\<exists>t. ml_phase s = Debouncing t)) \<and>
     ml_wakes s + (if ml_permit s then 1 else 0) \<le> ml_arrivals s \<and>
     ml_idle_since s \<le> ml_now s \<and>
     (\<forall>t. ml_phase s = Debouncing t \<longrightarrow> (\<exists>d. mk_debounce wk = Some d \<and> ml_idle_since s + d \<le> t))"

lemma loop_inv_start: "loop_inv wk loop_start"
  by (simp add: loop_inv_def loop_start_def)

lemma loop_inv_step: "matcher_step wk s s' \<Longrightarrow> loop_inv wk s \<Longrightarrow> loop_inv wk s'"
proof (induction rule: matcher_step.induct)
  case (wakes s d)
  then show ?case by (auto simp: loop_inv_def woken_def cycle_begins_def Let_def)
next
  case (ticks s)
  then show ?case by (auto simp: loop_inv_def cycle_begins_def)
qed (auto simp: loop_inv_def order_arrives_def cycle_begins_def split: if_splits)

lemma reach_inv: "matcher_reach wk s \<Longrightarrow> loop_inv wk s"
  by (induction rule: matcher_reach.induct) (auto simp: loop_inv_start loop_inv_step)

text \<open>The steps the loop itself takes, and how far its next cycle is.\<close>

inductive loop_moves :: "matcher_worker \<Rightarrow> matcher_loop \<Rightarrow> matcher_loop \<Rightarrow> bool" for wk where
  move: "matcher_step wk s s' \<Longrightarrow> ml_phase s' \<noteq> ml_phase s \<Longrightarrow> loop_moves wk s s'"

fun phases_left :: "phase \<Rightarrow> nat" where
  "phases_left Matching = 3"
| "phases_left Waiting = 2"
| "phases_left (Debouncing t) = 1"

lemma move_serves:
  assumes "loop_moves wk s s'"
  shows "(ml_unseen s' = 0 \<and> ml_starts s' = ml_now s # ml_starts s)
    \<or> (phases_left (ml_phase s') < phases_left (ml_phase s) \<and> ml_starts s' = ml_starts s)"
  using assms(1)
proof cases
  case move
  from move(1) show ?thesis
    by cases (use move(2) in \<open>auto simp: order_arrives_def cycle_begins_def woken_def Let_def\<close>)
qed

text \<open>A loop with an unseen arrival is never waiting for the ticker: it can move as soon as its clock has
  passed the end of the debounce.\<close>

lemma unseen_can_move:
  assumes "loop_inv wk s" "0 < ml_unseen s" "mk_debounce wk = Some d"
    and "\<And>t. ml_phase s = Debouncing t \<Longrightarrow> t \<le> ml_now s"
  shows "\<exists>s'. loop_moves wk s s'"
proof (cases "ml_phase s")
  case Waiting
  then have "ml_permit s" using assms(1,2) by (simp add: loop_inv_def)
  then show ?thesis
    using matcher_step.wakes[OF Waiting assms(3)] Waiting
    by (intro exI[of _ "woken d s"] loop_moves.move) (simp_all add: woken_def cycle_begins_def Let_def)
next
  case (Debouncing t)
  then show ?thesis
    using matcher_step.sleeps[OF Debouncing assms(4)]
    by (intro exI[of _ "cycle_begins s"] loop_moves.move) (simp_all add: cycle_begins_def)
next
  case Matching
  then show ?thesis
    using matcher_step.finishes[OF Matching, of wk]
    by (intro exI[of _ "s\<lparr>ml_phase := Waiting, ml_idle_since := ml_now s\<rparr>"] loop_moves.move) simp_all
qed

lemma quiet_keeps:
  assumes "matcher_step wk s s'" "ml_phase s' = ml_phase s"
  shows "ml_starts s' = ml_starts s"
  using assms by cases (auto simp: order_arrives_def cycle_begins_def woken_def Let_def split: if_splits)

text \<open>A stretch of a run, with the number of steps in it that the loop took.\<close>

inductive loop_run :: "matcher_worker \<Rightarrow> matcher_loop \<Rightarrow> nat \<Rightarrow> matcher_loop \<Rightarrow> bool" for wk s where
  here: "loop_run wk s 0 s"
| quiet: "loop_run wk s k s' \<Longrightarrow> matcher_step wk s' s'' \<Longrightarrow> ml_phase s'' = ml_phase s' \<Longrightarrow> loop_run wk s k s''"
| moved: "loop_run wk s k s' \<Longrightarrow> loop_moves wk s' s'' \<Longrightarrow> loop_run wk s (Suc k) s''"

lemma loop_run_progress:
  "loop_run wk s k s' \<Longrightarrow> length (ml_starts s) < length (ml_starts s')
     \<or> (ml_starts s' = ml_starts s \<and> k + phases_left (ml_phase s') \<le> phases_left (ml_phase s))"
proof (induction rule: loop_run.induct)
  case here
  then show ?case by simp
next
  case (quiet k s' s'')
  then show ?case using quiet_keeps[OF quiet.hyps(2,3)] by simp
next
  case (moved k s' s'')
  then show ?case using move_serves[OF moved.hyps(2)] by auto
qed

lemma phases_left_pos: "0 < phases_left ph \<and> phases_left ph \<le> 3"
  by (cases ph) simp_all


text \<open>An arrival is served without the fallback tick.  In realtime mode a reachable loop with an
  unseen arrival can take a step of its own whenever the debounce is over, whatever the ticker shows, and
  any three steps of the loop from a state include the start of a cycle, which reads the book with every
  order that had arrived by then.\<close>

theorem arrival_served:
  assumes "matcher_reach wk s" "0 < ml_unseen s" "mk_debounce wk = Some d"
    and "\<And>t. ml_phase s = Debouncing t \<Longrightarrow> t \<le> ml_now s"
  shows "(\<exists>s'. loop_moves wk s s') \<and> (\<forall>k\<ge>3. \<forall>s'. loop_run wk s k s' \<longrightarrow> length (ml_starts s) < length (ml_starts s'))"
proof (intro conjI allI impI)
  show "\<exists>s'. loop_moves wk s s'"
    by (rule unseen_can_move[OF reach_inv[OF assms(1)] assms(2,3,4)])
next
  fix k s' assume "3 \<le> k" "loop_run wk s k s'"
  then show "length (ml_starts s) < length (ml_starts s')"
    using loop_run_progress[of wk s k s'] phases_left_pos[of "ml_phase s"] phases_left_pos[of "ml_phase s'"] by auto
qed

section \<open>A run with two starts closer than the debounce\<close>

text \<open>The configuration's defaults.\<close>

definition default_worker :: matcher_worker where
  "default_worker = \<lparr>mk_interval = 1000, mk_debounce = Some 5\<rparr>"

definition loop_state :: "phase \<Rightarrow> bool \<Rightarrow> nat \<Rightarrow> nat \<Rightarrow> nat \<Rightarrow> nat \<Rightarrow> nat \<Rightarrow> nat \<Rightarrow> nat list \<Rightarrow> matcher_loop" where
  "loop_state ph p nt now u a k i ss = \<lparr>ml_phase = ph, ml_permit = p, ml_next_tick = nt, ml_now = now, ml_unseen = u,
     ml_arrivals = a, ml_wakes = k, ml_idle_since = i, ml_starts = ss\<rparr>"

lemmas loop_run_defs = loop_state_def loop_start_def default_worker_def order_arrives_def woken_def cycle_begins_def
  next_tick_def Let_def

lemma reach_at:
  assumes "matcher_reach wk s" "matcher_step wk s s'" "s' = s''"
  shows "matcher_reach wk s''"
  using assms matcher_reach.step by simp

lemma first_tick: "matcher_reach default_worker (loop_state Waiting False 1000 1 0 0 0 1 [0])"
proof -
  have a: "matcher_reach default_worker (loop_state Matching False 1000 0 0 0 0 0 [0])"
    by (rule reach_at[OF matcher_reach.boot matcher_step.ticks]) (simp_all add: loop_run_defs)
  have b: "matcher_reach default_worker (loop_state Matching False 1000 1 0 0 0 0 [0])"
    by (rule reach_at[OF a matcher_step.passes[where t = 1]]) (simp_all add: loop_run_defs)
  show ?thesis
    by (rule reach_at[OF b matcher_step.finishes]) (simp_all add: loop_run_defs)
qed

lemma arrival_waits: "matcher_reach default_worker (loop_state Waiting True 1000 992 1 1 0 1 [0])"
proof -
  have a: "matcher_reach default_worker (loop_state Waiting False 1000 992 0 0 0 1 [0])"
    by (rule reach_at[OF first_tick matcher_step.passes[where t = 992]]) (simp_all add: loop_run_defs)
  show ?thesis
    by (rule reach_at[OF a matcher_step.arrives]) (simp_all add: loop_run_defs)
qed

lemma woken_cycle: "matcher_reach default_worker (loop_state Matching False 1000 997 0 1 1 1 [997, 0])"
proof -
  have a: "matcher_reach default_worker (loop_state (Debouncing 997) False 1000 992 1 1 1 1 [0])"
    by (rule reach_at[OF arrival_waits matcher_step.wakes[where d = 5]]) (simp_all add: loop_run_defs)
  have b: "matcher_reach default_worker (loop_state (Debouncing 997) False 1000 997 1 1 1 1 [0])"
    by (rule reach_at[OF a matcher_step.passes[where t = 997]]) (simp_all add: loop_run_defs)
  show ?thesis
    by (rule reach_at[OF b matcher_step.sleeps[where t = 997]]) (simp_all add: loop_run_defs)
qed

text \<open>The debounce is no floor on the rate of cycles: the tick is not held back by it.  With the
  default configuration a wake-up's cycle can start at 997 and the tick's next one at 1000.\<close>

theorem tick_breaks_cycle_floor:
  "\<exists>s b a rest. matcher_reach default_worker s \<and> ml_starts s = b # a # rest
     \<and> mk_debounce default_worker = Some 5 \<and> b < a + 5"
proof -
  have a: "matcher_reach default_worker (loop_state Matching False 1000 998 0 1 1 1 [997, 0])"
    by (rule reach_at[OF woken_cycle matcher_step.passes[where t = 998]]) (simp_all add: loop_run_defs)
  have b: "matcher_reach default_worker (loop_state Waiting False 1000 998 0 1 1 998 [997, 0])"
    by (rule reach_at[OF a matcher_step.finishes]) (simp_all add: loop_run_defs)
  have c: "matcher_reach default_worker (loop_state Waiting False 1000 1000 0 1 1 998 [997, 0])"
    by (rule reach_at[OF b matcher_step.passes[where t = 1000]]) (simp_all add: loop_run_defs)
  have d: "matcher_reach default_worker (loop_state Matching False 2000 1000 0 1 1 998 [1000, 997, 0])"
    by (rule reach_at[OF c matcher_step.ticks]) (simp_all add: loop_run_defs)
  show ?thesis
    by (rule exI[of _ "loop_state Matching False 2000 1000 0 1 1 998 [1000, 997, 0]"], rule exI[of _ 1000],
        rule exI[of _ 997], rule exI[of _ "[0]"], intro conjI, rule d) (simp_all add: loop_state_def default_worker_def)
qed


theorem arrival_served_witness:
  "\<exists>s'. loop_moves default_worker (loop_state Waiting True 1000 992 1 1 0 1 [0]) s'"
  by (rule conjunct1[OF arrival_served[OF arrival_waits, where d = 5]]) (simp_all add: loop_state_def default_worker_def)

end
