(* ===== verification/Background_Workers.thy ===== *)
theory Background_Workers imports Charges Order_Ledger begin

text \<open>
  The periodic workers whose own logic is a counter of failures: \<open>trading-logic/src/workers/reaper.rs\<close>,
  \<open>charge_rates.rs\<close> and \<open>supply_sync.rs\<close>.  A run is the list of the outcomes of its ticks.
\<close>

section \<open>Durations\<close>

text \<open>\<open>std::time::Duration\<close> in nanoseconds: 64 bits of seconds.\<close>

type_synonym duration = nat

definition std_duration_max :: duration where
  "std_duration_max = (2 ^ 64 - 1) * 1000000000 + 999999999"

definition secs :: "nat \<Rightarrow> duration" where
  "secs n = n * 1000000000"

definition duration_checked_mul :: "duration \<Rightarrow> 32 word \<Rightarrow> duration option" where
  "duration_checked_mul d k = (if d * unat k \<le> std_duration_max then Some (d * unat k) else None)"

definition duration_saturating_mul :: "duration \<Rightarrow> 32 word \<Rightarrow> duration" where
  "duration_saturating_mul d k = (case duration_checked_mul d k of Some x \<Rightarrow> x | None \<Rightarrow> std_duration_max)"

definition max_backoff :: duration where
  "max_backoff = secs (30 * 60)"

lemma saturating_mul_min: "d \<le> std_duration_max \<Longrightarrow> duration_saturating_mul d k = min (d * unat k) std_duration_max"
  by (simp add: duration_saturating_mul_def duration_checked_mul_def)

lemma max_backoff_fits: "max_backoff \<le> std_duration_max"
  by (simp add: max_backoff_def std_duration_max_def secs_def)

section \<open>The reaper\<close>

definition stall_escalation_threshold :: "32 word" where
  "stall_escalation_threshold = 3"

definition u32_saturating_add :: "32 word \<Rightarrow> 32 word \<Rightarrow> 32 word" where
  "u32_saturating_add a b = (if a + b < a then - 1 else a + b)"

record reaper =
  rp_store :: store
  rp_failures :: "32 word"

text \<open>A tick may outlive its deadline, twice the interval: the call is dropped, before its commit or after.\<close>

datatype deadline = In_Time | Cut_Before_Commit | Cut_After_Commit

datatype reaper_log = Reaped "uuid list" | Reap_Error | Reap_Stalled

definition reaper_deadline :: "duration \<Rightarrow> duration" where
  "reaper_deadline interval = duration_saturating_mul interval 2"

definition reap_outcome :: "datetime \<Rightarrow> datetime \<Rightarrow> deadline \<Rightarrow> store \<Rightarrow> (unit + uuid list) \<times> store" where
  "reap_outcome now db_now dl s =
     (case (dl, expire_stale_orders now db_now s) of
        (In_Time, Inl _) \<Rightarrow> (Inl (), s)
      | (In_Time, Inr (ids, s')) \<Rightarrow> (Inr ids, s')
      | (Cut_After_Commit, Inr (_, s')) \<Rightarrow> (Inl (), s')
      | _ \<Rightarrow> (Inl (), s))"

definition reaper_tick :: "datetime \<Rightarrow> datetime \<Rightarrow> deadline \<Rightarrow> reaper \<Rightarrow> reaper \<times> reaper_log" where
  "reaper_tick now db_now dl r =
     (case reap_outcome now db_now dl (rp_store r) of
        (Inr ids, s') \<Rightarrow> (\<lparr>rp_store = s', rp_failures = 0\<rparr>, Reaped ids)
      | (Inl _, s') \<Rightarrow>
          (let n = u32_saturating_add (rp_failures r) 1
           in (\<lparr>rp_store = s', rp_failures = n\<rparr>,
               if stall_escalation_threshold \<le> n then Reap_Stalled else Reap_Error)))"

fun reaper_run :: "(datetime \<times> datetime \<times> deadline) list \<Rightarrow> reaper \<Rightarrow> reaper \<times> reaper_log list" where
  "reaper_run [] r = (r, [])"
| "reaper_run ((now, db_now, dl) # ts) r =
     (case reaper_tick now db_now dl r of (r', l) \<Rightarrow>
        case reaper_run ts r' of (r'', ls) \<Rightarrow> (r'', l # ls))"

section \<open>The charge rates\<close>

record charge_worker =
  cw_rates :: refreshing_charge_rates
  cw_failures :: "32 word"

definition refresh_once ::
  "api_error + static_charge_rates \<Rightarrow> refreshing_charge_rates \<Rightarrow> (api_error + unit) \<times> refreshing_charge_rates" where
  "refresh_once read rates =
     (case read of
        Inl e \<Rightarrow> (Inl e, rates)
      | Inr next_rates \<Rightarrow> (Inr (), fst (rcr_store rates next_rates)))"

text \<open>A turn of the loop and the sleep that ends it; the counter is incremented in release arithmetic.\<close>

definition charge_turn :: "duration \<Rightarrow> api_error + static_charge_rates \<Rightarrow> charge_worker \<Rightarrow> charge_worker \<times> duration" where
  "charge_turn interval read w =
     (case refresh_once read (cw_rates w) of
        (Inr _, rates) \<Rightarrow> (\<lparr>cw_rates = rates, cw_failures = 0\<rparr>, interval)
      | (Inl _, rates) \<Rightarrow>
          (let n = cw_failures w + 1
           in (\<lparr>cw_rates = rates, cw_failures = n\<rparr>,
               min (duration_saturating_mul interval (push_bit (unat (min n 5)) 1)) max_backoff)))"

fun charge_run :: "duration \<Rightarrow> (api_error + static_charge_rates) list \<Rightarrow> charge_worker \<Rightarrow> charge_worker \<times> duration list" where
  "charge_run interval [] w = (w, [])"
| "charge_run interval (x # xs) w =
     (case charge_turn interval x w of (w', d) \<Rightarrow>
        case charge_run interval xs w' of (w'', ds) \<Rightarrow> (w'', d # ds))"

section \<open>The supply\<close>

definition u32_saturating_sub :: "32 word \<Rightarrow> 32 word \<Rightarrow> 32 word" where
  "u32_saturating_sub a b = (if b \<le> a then a - b else 0)"

definition backoff_delay :: "duration \<Rightarrow> 32 word \<Rightarrow> duration" where
  "backoff_delay interval n =
     (let shift = min (u32_saturating_sub n 1) 16 in
      min (case duration_checked_mul interval (push_bit (unat shift) 1) of Some d \<Rightarrow> d | None \<Rightarrow> max_backoff) max_backoff)"

definition supply_turn :: "duration \<Rightarrow> api_error + string \<Rightarrow> 32 word \<Rightarrow> 32 word \<times> duration" where
  "supply_turn interval synced n =
     (case synced of
        Inr _ \<Rightarrow> (0, interval)
      | Inl _ \<Rightarrow> (let n' = n + 1 in (n', backoff_delay interval n')))"

section \<open>The reaper's alarm\<close>

definition failed :: "reaper_log \<Rightarrow> bool" where
  "failed l \<longleftrightarrow> (case l of Reaped _ \<Rightarrow> False | _ \<Rightarrow> True)"

definition failing :: "reaper_log list \<Rightarrow> nat" where
  "failing ls = length (takeWhile failed (rev ls))"

lemma failing_snoc: "failing (ls @ [l]) = (if failed l then Suc (failing ls) else 0)"
  by (simp add: failing_def)

lemma failing_Nil [simp]: "failing [] = 0"
  by (simp add: failing_def)

lemma reaper_run_snoc:
  "reaper_run (ts @ [(now, db_now, dl)]) r =
     (case reaper_run ts r of (r', ls) \<Rightarrow> case reaper_tick now db_now dl r' of (r'', l) \<Rightarrow> (r'', ls @ [l]))"
  by (induction ts arbitrary: r) (auto split: prod.splits)

definition saturated :: "nat \<Rightarrow> 32 word" where
  "saturated n = of_nat (min n (2 ^ 32 - 1))"

lemma unat_saturated: "unat (saturated n) = min n (2 ^ 32 - 1)"
  by (simp add: saturated_def unat_of_nat)

lemma saturated_Suc: "u32_saturating_add (saturated n) 1 = saturated (Suc n)"
proof (cases "n < 2 ^ 32 - 1")
  case True
  then have "saturated n + 1 = saturated (Suc n)"
    by (simp add: saturated_def min_def)
  moreover have "\<not> saturated (Suc n) < saturated n"
    using True by (simp add: word_less_nat_alt unat_saturated)
  ultimately show ?thesis by (simp add: u32_saturating_add_def)
next
  case False
  then have "saturated n = - 1" "saturated (Suc n) = - 1"
    by (simp_all add: saturated_def min_def)
  moreover have "(0 :: 32 word) < - 1" by code_simp
  ultimately show ?thesis by (simp add: u32_saturating_add_def)
qed

lemma stalled_iff: "stall_escalation_threshold \<le> saturated n \<longleftrightarrow> 3 \<le> n"
  by (auto simp: stall_escalation_threshold_def word_le_nat_alt unat_saturated)

lemma reaper_tick_log:
  assumes "reaper_tick now db_now dl r = (r', l)" "rp_failures r = saturated (failing ls)"
  shows "rp_failures r' = saturated (failing (ls @ [l])) \<and> (l = Reap_Stalled) = (3 \<le> failing (ls @ [l]))"
  using assms unfolding reaper_tick_def
  by (auto simp: failing_snoc failed_def saturated_Suc stalled_iff Let_def saturated_def[of 0] split: prod.splits sum.splits if_splits)

lemma reaper_tick_reaps:
  assumes "reaper_tick now db_now dl r = (r', Reaped ids)"
  shows "expire_stale_orders now db_now (rp_store r) = Inr (ids, rp_store r')"
  using assms
  by (auto simp: reaper_tick_def reap_outcome_def Let_def split: prod.splits sum.splits deadline.splits if_splits)

lemma reaper_run_log:
  assumes "reaper_run ts \<lparr>rp_store = s, rp_failures = 0\<rparr> = (r, ls)"
  shows "rp_failures r = saturated (failing ls) \<and> length ls = length ts \<and>
    (\<forall>i<length ls. (ls ! i = Reap_Stalled) = (3 \<le> failing (take (Suc i) ls)))"
  using assms
proof (induction ts arbitrary: r ls rule: rev_induct)
  case Nil
  then show ?case by (auto simp: saturated_def)
next
  case (snoc t ts)
  obtain now db_now dl where t: "t = (now, db_now, dl)" by (cases t)
  obtain r1 ls1 where 1: "reaper_run ts \<lparr>rp_store = s, rp_failures = 0\<rparr> = (r1, ls1)" by (cases "reaper_run ts \<lparr>rp_store = s, rp_failures = 0\<rparr>")
  obtain r2 l where 2: "reaper_tick now db_now dl r1 = (r2, l)" by (cases "reaper_tick now db_now dl r1")
  have e: "r = r2" "ls = ls1 @ [l]" using snoc.prems 1 2 by (simp_all add: t reaper_run_snoc)
  note IH = snoc.IH[OF 1]
  note tick = reaper_tick_log[OF 2, of ls1]
  show ?case
    using IH tick unfolding e by (auto simp: nth_append less_Suc_eq)
qed

text \<open>The reaper's alarm is exact: in a run from start-up a tick escalates if and only if it and the two
  ticks before it failed, the counter is the length of the run of failures, saturated, and after a tick
  that reports success no live order is past the expiry the tick was given.\<close>

theorem reaper_alarm_exact:
  assumes "reaper_run (ts @ [(now, db_now, dl)]) \<lparr>rp_store = s, rp_failures = 0\<rparr> = (r, ls @ [l])"
  shows "rp_failures r = of_nat (min (failing (ls @ [l])) (2 ^ 32 - 1))
    \<and> (l = Reap_Stalled) = (3 \<le> failing (ls @ [l]))
    \<and> ((\<exists>ids. l = Reaped ids) \<longrightarrow> list_all (\<lambda>o'. \<not> stale now o') (db_orders (rp_store r)))"
proof (intro conjI impI)
  note log = reaper_run_log[OF assms]
  show "rp_failures r = of_nat (min (failing (ls @ [l])) (2 ^ 32 - 1))" using log by (simp add: saturated_def)
  show "(l = Reap_Stalled) = (3 \<le> failing (ls @ [l]))"
    using conjunct2[OF conjunct2[OF log], rule_format, of "length ls"] by simp
next
  assume "\<exists>ids. l = Reaped ids"
  then obtain ids where l: "l = Reaped ids" by blast
  obtain r1 ls1 where 1: "reaper_run ts \<lparr>rp_store = s, rp_failures = 0\<rparr> = (r1, ls1)" by (cases "reaper_run ts \<lparr>rp_store = s, rp_failures = 0\<rparr>")
  obtain r2 l2 where 2: "reaper_tick now db_now dl r1 = (r2, l2)" by (cases "reaper_tick now db_now dl r1")
  have "r = r2" "l2 = l" using assms 1 2 by (simp_all add: reaper_run_snoc)
  then show "list_all (\<lambda>o'. \<not> stale now o') (db_orders (rp_store r))"
    using expire_leaves_none[OF reaper_tick_reaps] 2 l by blast
qed

section \<open>The rates in force and the backoffs\<close>

definition last_read :: "static_charge_rates \<Rightarrow> (api_error + static_charge_rates) list \<Rightarrow> static_charge_rates" where
  "last_read r0 xs = fold (\<lambda>x r. case x of Inl _ \<Rightarrow> r | Inr r' \<Rightarrow> r') xs r0"

lemma snapshot_store [simp]: "rcr_snapshot (fst (rcr_store rates r)) = r"
  by (simp add: rcr_snapshot_def rcr_store_def lk_read_def unwrap_into_inner_def Let_def)

lemma charge_run_Cons:
  "fst (charge_run interval (x # xs) w) = fst (charge_run interval xs (fst (charge_turn interval x w)))"
  "snd (charge_run interval (x # xs) w) = snd (charge_turn interval x w) # snd (charge_run interval xs (fst (charge_turn interval x w)))"
  by (simp_all split: prod.split)

declare charge_run.simps(2) [simp del]

lemma charge_run_rates: "rcr_snapshot (cw_rates (fst (charge_run interval xs w))) = last_read (rcr_snapshot (cw_rates w)) xs"
  by (induction xs arbitrary: w)
     (auto simp: last_read_def charge_run_Cons charge_turn_def refresh_once_def Let_def split: sum.splits)

text \<open>How long the worker sleeps after each turn, by the failures in a row so far.\<close>

fun expected_sleeps :: "duration \<Rightarrow> nat \<Rightarrow> (api_error + static_charge_rates) list \<Rightarrow> duration list" where
  "expected_sleeps interval k [] = []"
| "expected_sleeps interval k (Inr _ # xs) = interval # expected_sleeps interval 0 xs"
| "expected_sleeps interval k (Inl _ # xs) =
     min (interval * 2 ^ min (Suc k) 5) max_backoff # expected_sleeps interval (Suc k) xs"

lemma unat_shifted: "k < 32 \<Longrightarrow> unat (push_bit k (1 :: 32 word)) = 2 ^ k"
  using unat_of_nat[where 'a = 32 and x = "2 ^ k"] power_strict_increasing[of k 32 "2 :: nat"] by simp

lemma unat_small: "k < 2 ^ 32 \<Longrightarrow> unat (of_nat k :: 32 word) = k"
  by (simp add: unat_of_nat)

lemma unat_min_word: "unat (min a b) = min (unat a) (unat (b :: 32 word))"
  by (simp add: min_def word_le_nat_alt)

lemma charge_run_sleeps:
  assumes "interval \<le> std_duration_max" "cw_failures w = of_nat k" "k + length xs < 2 ^ 32"
  shows "snd (charge_run interval xs w) = expected_sleeps interval k xs"
  using assms(2,3)
proof (induction xs arbitrary: w k)
  case (Cons x xs)
  show ?case
  proof (cases x)
    case (Inr r)
    then show ?thesis
      using Cons.IH[of "\<lparr>cw_rates = fst (rcr_store (cw_rates w) r), cw_failures = 0\<rparr>" 0] Cons.prems(2)
      by (simp add: charge_run_Cons charge_turn_def refresh_once_def)
  next
    case (Inl e)
    have n: "cw_failures w + 1 = of_nat (Suc k)" using Cons.prems(1) by (simp add: add.commute)
    have u: "unat (of_nat (Suc k) :: 32 word) = Suc k" using Cons.prems(2) by (intro unat_small) simp
    have "unat (push_bit (min (Suc k) 5) (1 :: 32 word)) = 2 ^ min (Suc k) 5" by (rule unat_shifted) simp
    then have "min (duration_saturating_mul interval (push_bit (unat (min (of_nat (Suc k) :: 32 word) 5)) 1)) max_backoff
        = min (interval * 2 ^ min (Suc k) 5) max_backoff"
      unfolding unat_min_word u saturating_mul_min[OF assms(1)] using max_backoff_fits by (simp add: min.assoc min.absorb2)
    then show ?thesis
      using Cons.IH[of "\<lparr>cw_rates = cw_rates w, cw_failures = of_nat (Suc k)\<rparr>" "Suc k"] Cons.prems(2)
      unfolding Inl charge_run_Cons charge_turn_def refresh_once_def by (simp add: n Let_def del: of_nat_Suc)
  qed
qed simp

text \<open>The tariff worker serves the last schedule it read, and a failed read changes nothing: through any
  sequence of polls the rates in force are those of the last success, or of the boot when there was none,
  and the sleep after a failure is the interval doubled per failure in a row, five times at most and half
  an hour at most.\<close>

theorem charge_rates_last_read:
  assumes "interval \<le> std_duration_max" "length xs < 2 ^ 32"
  shows "rcr_snapshot (cw_rates (fst (charge_run interval xs \<lparr>cw_rates = rcr_new r0, cw_failures = 0\<rparr>))) = last_read r0 xs
    \<and> snd (charge_run interval xs \<lparr>cw_rates = rcr_new r0, cw_failures = 0\<rparr>) = expected_sleeps interval 0 xs"
  unfolding charge_run_rates
  using charge_run_sleeps[OF assms(1), of "\<lparr>cw_rates = rcr_new r0, cw_failures = 0\<rparr>" 0 xs] assms(2)
  by (simp add: rcr_new_def rcr_snapshot_def lk_read_def unwrap_into_inner_def)

lemma backoff_delay_clamped:
  assumes "interval \<le> std_duration_max"
  shows "backoff_delay interval n = min (interval * 2 ^ min (unat n - 1) 16) max_backoff"
proof -
  have s: "unat (u32_saturating_sub n 1) = unat n - 1"
    by (auto simp: u32_saturating_sub_def word_le_nat_alt unat_sub)
  have "unat (push_bit (unat (min (u32_saturating_sub n 1) 16)) (1 :: 32 word)) = 2 ^ min (unat n - 1) 16"
    unfolding unat_min_word s by (subst unat_shifted) simp_all
  then show ?thesis
    using max_backoff_fits by (auto simp: backoff_delay_def duration_checked_mul_def Let_def min_def)
qed

text \<open>The supply worker's backoff is the documented one: with an interval of whole seconds the wait after
  the \<open>n\<close>th failure in a row is the interval times \<open>2\<^sup>n\<^sup>-\<^sup>1\<close>, half an hour at most, however long the
  outage: neither the clamped exponent nor the overflow of the product shows.\<close>

theorem supply_backoff_formula:
  assumes "k < 2 ^ 64"
  shows "backoff_delay (secs k) n = min (secs k * 2 ^ (unat n - 1)) max_backoff"
proof -
  have fits: "secs k \<le> std_duration_max"
    using assms by (simp add: secs_def std_duration_max_def)
  show ?thesis
  proof (cases "k = 0 \<or> unat n - 1 \<le> 16")
    case True
    then have "secs k * 2 ^ min (unat n - 1) 16 = secs k * 2 ^ (unat n - 1)" by (auto simp: secs_def min_def)
    then show ?thesis by (simp only: backoff_delay_clamped[OF fits])
  next
    case False
    then have "secs 1 * 2 ^ 16 \<le> secs k * 2 ^ 16" by (simp add: secs_def)
    then have a: "max_backoff \<le> secs k * 2 ^ 16" by (simp add: max_backoff_def secs_def)
    also have "\<dots> \<le> secs k * 2 ^ (unat n - 1)" using False by (intro mult_left_mono power_increasing) auto
    finally show ?thesis using False a by (simp add: backoff_delay_clamped[OF fits] min_def)
  qed
qed

section \<open>Runs\<close>

theorem reaper_alarm_exact_witness:
  "\<exists>r l ls. reaper_run ([(60, 60, Cut_Before_Commit), (60, 60, Cut_Before_Commit)] @ [(60, 60, Cut_After_Commit)])
       \<lparr>rp_store = example_book, rp_failures = 0\<rparr> = (r, ls @ [l])
     \<and> l = Reap_Stalled \<and> rp_failures r = 3 \<and> (l = Reap_Stalled) = (3 \<le> failing (ls @ [l]))"
proof -
  let ?ts = "[(60, 60, Cut_Before_Commit), (60, 60, Cut_Before_Commit)]"
  let ?s = "\<lparr>rp_store = example_book, rp_failures = 0\<rparr>"
  obtain r ls where run: "reaper_run (?ts @ [(60, 60, Cut_After_Commit)]) ?s = (r, ls)"
    by (cases "reaper_run (?ts @ [(60, 60, Cut_After_Commit)]) ?s")
  have "length ls = 3" using reaper_run_log[OF run] by simp
  then obtain ls' l where ls: "ls = ls' @ [l]" by (cases ls rule: rev_cases) auto
  have "snd (reaper_run (?ts @ [(60, 60, Cut_After_Commit)]) ?s) = [Reap_Error, Reap_Error, Reap_Stalled]"
    by code_simp
  then have l: "l = Reap_Stalled" "ls = [Reap_Error, Reap_Error, Reap_Stalled]" using run ls by simp_all
  note t = reaper_alarm_exact[OF run[unfolded ls]]
  have "failing (ls' @ [l]) = 3" using l ls by (simp add: failing_def failed_def)
  then show ?thesis using run ls l t by (intro exI[of _ r] exI[of _ l] exI[of _ ls']) simp
qed

definition raised_rates :: static_charge_rates where
  "raised_rates = \<lparr>scr_fee_bps = 25, scr_wheeling_rate_per_kwh = 250000, scr_loss_bps = 5\<rparr>"

theorem charge_rates_last_read_witness:
  "rcr_snapshot (cw_rates (fst (charge_run (secs 60) [Inl (Database ''down''), Inr raised_rates, Inl (Database ''down''), Inl (Database ''down'')]
       \<lparr>cw_rates = rcr_new scr_ZERO, cw_failures = 0\<rparr>))) = raised_rates
   \<and> snd (charge_run (secs 60) [Inl (Database ''down''), Inr raised_rates, Inl (Database ''down''), Inl (Database ''down'')]
       \<lparr>cw_rates = rcr_new scr_ZERO, cw_failures = 0\<rparr>) = [secs 120, secs 60, secs 120, secs 240]"
  using charge_rates_last_read[of "secs 60" "[Inl (Database ''down''), Inr raised_rates, Inl (Database ''down''), Inl (Database ''down'')]" scr_ZERO]
  by (simp add: secs_def std_duration_max_def last_read_def max_backoff_def)

theorem supply_backoff_formula_witness:
  "backoff_delay (secs 60) 3 = secs 240 \<and> backoff_delay (secs 60) 50 = max_backoff"
  using supply_backoff_formula[of 60 3] supply_backoff_formula[of 60 50] by (simp add: secs_def max_backoff_def)

end
