(* ===== verification/Order_Gates.thy ===== *)
theory Order_Gates imports Recurring_Orders Read_Model Order_Policy Charges Offchain_Payload begin

text \<open>
  What the two order edges share: \<open>trading-persistence/src/repositories/meter.rs\<close> (the sell gate's
  lookups in the mirrored meters), \<open>trading-api/src/order_signature.rs\<close>, the parsing of a request's
  words and the gates of \<open>rest/orders.rs\<close> and \<open>handlers.rs\<close>.  A gate is a call that may refuse; the
  reason is a value that each edge renders in its own status and text.  The answers of the chain,
  decimal parsing, Base58 and the Ed25519 check are parameters.
\<close>

section \<open>Meters\<close>

definition identity_of :: "meter_row \<Rightarrow> meter_identity" where
  "identity_of r = \<lparr>mi_meter_id = me_meter_id r, mi_user_id = me_user_id r, mi_is_verified = me_is_verified r\<rparr>"

definition lookup_by_serial :: "string \<Rightarrow> meter_row list \<Rightarrow> meter_identity option" where
  "lookup_by_serial serial ms = map_option identity_of (find (\<lambda>r. me_serial_number r = serial) ms)"

definition lookup_by_id :: "uuid \<Rightarrow> meter_row list \<Rightarrow> meter_identity option" where
  "lookup_by_id i ms = map_option identity_of (find (\<lambda>r. me_meter_id r = i) ms)"

definition has_verified_meter :: "uuid \<Rightarrow> meter_row list \<Rightarrow> bool" where
  "has_verified_meter u ms \<longleftrightarrow> list_ex (\<lambda>r. me_user_id r = u \<and> me_is_verified r) ms"

section \<open>Wallet signatures\<close>

datatype order_signature_error =
    BadWallet string
  | WalletNotEd25519
  | BadSignatureEncoding string
  | SignatureWrongLength
  | VerificationFailed

record signatures =
  sg_base58 :: "string \<Rightarrow> string + byte list"
  sg_is_key :: "byte list \<Rightarrow> bool"
  sg_verify_strict :: "byte list \<Rightarrow> byte list \<Rightarrow> byte list \<Rightarrow> bool"  \<comment> \<open>key, message, signature\<close>

definition verify_order_signature ::
  "signatures \<Rightarrow> string \<Rightarrow> string \<Rightarrow> byte list \<Rightarrow> order_signature_error + unit" where
  "verify_order_signature G wallet_base58 signature_base58 message =
     (case sg_base58 G wallet_base58 of
        Inl e \<Rightarrow> Inl (BadWallet e)
      | Inr wallet \<Rightarrow>
          if length wallet \<noteq> 32 \<or> \<not> sg_is_key G wallet then Inl WalletNotEd25519
          else (case sg_base58 G signature_base58 of
              Inl e \<Rightarrow> Inl (BadSignatureEncoding e)
            | Inr sig_bytes \<Rightarrow>
                if length sig_bytes \<noteq> 64 then Inl SignatureWrongLength
                else if sg_verify_strict G wallet message sig_bytes then Inr ()
                else Inl VerificationFailed))"

section \<open>Gates\<close>

datatype refusal =
    RoleRefused string
  | BadUserId string
  | BadOrderId string
  | BadSettlementId string
  | MissingZone
  | UnknownOrder
  | BatchFailed api_error
  | DatabaseFailed api_error
  | BadAmount string
  | BadSide
  | BadTimeInForce string
  | BadPrice string
  | PriceRefused order_price_error
  | BadSegment string
  | IntervalImmediate
  | MeterDatabase api_error
  | UnknownSerial string
  | UnknownMeter uuid
  | BadMeterId string
  | SellRefused sell_eligibility_error
  | FloorRefused sell_price_floor_error
  | FundingRefused buy_funding_error
  | MissingOrderId
  | MissingWalletSignature
  | MissingSignedExpiry
  | WalletLookupFailed api_error
  | NoLinkedWallet
  | WalletNotKey
  | EnergyOutOfRange
  | PriceOutOfRange
  | SignatureRefused order_signature_error
  | BadExpiry string
  | ExpiryRefused order_expiry_error
  | PlacementRefused string
  | EpochFailed api_error
  | InsertFailed api_error
  | SignatureNotStored api_error

type_synonym 'a gate = "(refusal + 'a) io"

definition pass :: "'a \<Rightarrow> 'a gate" where
  "pass x = ok (Inr x)"

definition refuse :: "refusal \<Rightarrow> 'a gate" where
  "refuse e = ok (Inl e)"

definition gate_bind :: "'a gate \<Rightarrow> ('a \<Rightarrow> 'b gate) \<Rightarrow> 'b gate" where
  "gate_bind g k = and_then g (\<lambda>r. case r of Inl e \<Rightarrow> refuse e | Inr x \<Rightarrow> k x)"

text \<open>\<open>call.await.map_err(e)?\<close> and \<open>result.map_err(e)?\<close>.\<close>

definition or_refuse :: "(api_error \<Rightarrow> refusal) \<Rightarrow> 'a io \<Rightarrow> 'a gate" where
  "or_refuse e m = and_then (attempt m) (\<lambda>r. case r of Inl x \<Rightarrow> refuse (e x) | Inr x \<Rightarrow> pass x)"

definition of_result :: "('e \<Rightarrow> refusal) \<Rightarrow> 'e + 'a \<Rightarrow> 'a gate" where
  "of_result e r = (case r of Inl x \<Rightarrow> refuse (e x) | Inr x \<Rightarrow> pass x)"

definition of_option :: "refusal \<Rightarrow> 'a option \<Rightarrow> 'a gate" where
  "of_option e r = (case r of None \<Rightarrow> refuse e | Some x \<Rightarrow> pass x)"

section \<open>Words of a request\<close>

definition to_lowercase :: "string \<Rightarrow> string" where
  "to_lowercase = map ascii_lower"

definition parse_side :: "string \<Rightarrow> refusal + order_side" where
  "parse_side s = (let t = to_lowercase s in
     if t = ''buy'' then Inr Buy else if t = ''sell'' then Inr Sell else Inl BadSide)"

definition parse_order_type :: "string \<Rightarrow> order_type" where
  "parse_order_type s = (if to_lowercase s = ''market'' then Market else Limit)"

definition parse_time_in_force :: "order_type \<Rightarrow> string option \<Rightarrow> refusal + time_in_force" where
  "parse_time_in_force ty raw =
     (case map_option to_lowercase raw of
        None \<Rightarrow> Inr (case ty of Market \<Rightarrow> Ioc | Limit \<Rightarrow> Gtc)
      | Some t \<Rightarrow>
          if t = ''gtc'' then Inr Gtc else if t = ''ioc'' then Inr Ioc else if t = ''fok'' then Inr Fok
          else Inl (BadTimeInForce t))"

definition parse_segment :: "string option \<Rightarrow> refusal + market_segment" where
  "parse_segment raw =
     (case map_option to_lowercase raw of
        None \<Rightarrow> Inr Realtime
      | Some t \<Rightarrow> if t = ''realtime'' then Inr Realtime else if t = ''interval'' then Inr Interval
          else Inl (BadSegment t))"

definition interval_gate :: "market_segment \<Rightarrow> time_in_force \<Rightarrow> unit gate" where
  "interval_gate seg tif = (if seg = Interval \<and> tif \<noteq> Gtc then refuse IntervalImmediate else pass ())"

section \<open>The service as a gate sees it\<close>

record service_config =
  cf_trade_settlement :: bool
  cf_per_user_escrow :: bool
  cf_min_price :: decimal
  cf_default_ttl :: int
  cf_max_ttl :: int

text \<open>What is outside the program, as its calls answer one request in turn.\<close>

record edge =
  ed_parse_decimal :: "string \<Rightarrow> string + decimal"
  ed_meters :: "meter_row list"
  ed_wallet :: "api_error + string option"
  ed_balance :: "string \<Rightarrow> api_error + int"
  ed_signer_wallet :: "api_error + string option"
  ed_signatures :: signatures
  ed_place :: "uuid \<Rightarrow> bool \<Rightarrow> decimal \<Rightarrow> decimal \<Rightarrow> int \<Rightarrow> int \<Rightarrow> int \<Rightarrow> api_error + (string \<times> string)"

definition sell_gate :: "edge \<Rightarrow> uuid \<Rightarrow> order_side \<Rightarrow> meter_identity option \<Rightarrow> unit gate" where
  "sell_gate E user side meter =
     gate_bind (if needs_any_verified_meter_lookup side meter
                then or_refuse MeterDatabase (db_read (\<lambda>_ _. has_verified_meter user (ed_meters E)))
                else pass False) (\<lambda>verified.
     of_result SellRefused (check_sell_eligibility user side meter verified))"

definition floor_gate ::
  "dec_ops \<Rightarrow> service_config \<Rightarrow> static_charge_rates \<Rightarrow> order_side \<Rightarrow> decimal \<Rightarrow> unit gate" where
  "floor_gate D cfg rates side price =
     and_then (or_panic (min_settleable_price_per_kwh D rates)) (\<lambda>floor'.
     of_result FloorRefused (check_sell_price_floor side price (cf_min_price cfg) floor'))"

text \<open>The gate fails open when the wallet or its balance cannot be read.\<close>

definition funding_gate ::
  "dec_ops \<Rightarrow> edge \<Rightarrow> order_side \<Rightarrow> order_type \<Rightarrow> decimal option \<Rightarrow> decimal \<Rightarrow> decimal \<Rightarrow> unit gate" where
  "funding_gate D E side ty price_input price amount =
     (let funding = required_buy_funding D side ty price_input price amount in
      if funding = Fund_None then pass ()
      else (case ed_wallet E of
          Inr None \<Rightarrow> refuse (FundingRefused NoWallet)
        | Inr (Some wallet) \<Rightarrow>
            (case ed_balance E wallet of
               Inr available \<Rightarrow> of_result FundingRefused (check_buy_funding funding available)
             | Inl _ \<Rightarrow> pass ())
        | Inl _ \<Rightarrow> pass ()))"

section \<open>What a gate establishes\<close>

text \<open>A gate keeps a predicate of the world whatever it answers, and what it passes has a property.\<close>

definition gates :: "(world \<Rightarrow> bool) \<Rightarrow> 'a gate \<Rightarrow> ('a \<Rightarrow> bool) \<Rightarrow> bool" where
  "gates S g Q \<longleftrightarrow> (\<forall>w. S w \<longrightarrow> S (snd (g w)) \<and> (\<forall>x. fst (g w) = Inr (Inr x) \<longrightarrow> Q x))"

named_theorems gates_intros

lemma gates_pass [gates_intros]: "Q x \<Longrightarrow> gates S (pass x) Q"
  by (simp add: gates_def pass_def ok_def)

lemma gates_refuse [gates_intros]: "gates S (refuse e) Q"
  by (simp add: gates_def refuse_def ok_def)

lemma gates_bind: "gates S g Q \<Longrightarrow> (\<And>x. Q x \<Longrightarrow> gates S (k x) R) \<Longrightarrow> gates S (gate_bind g k) R"
  unfolding gates_def gate_bind_def and_then_def refuse_def ok_def
  by (auto split: prod.splits sum.splits)

lemma gates_of_result [gates_intros]: "(\<And>x. r = Inr x \<Longrightarrow> Q x) \<Longrightarrow> gates S (of_result e r) Q"
  by (cases r) (auto simp: of_result_def intro: gates_intros)

lemma gates_of_option [gates_intros]: "(\<And>x. r = Some x \<Longrightarrow> Q x) \<Longrightarrow> gates S (of_option e r) Q"
  by (cases r) (auto simp: of_option_def intro: gates_intros)

lemma gates_read: "keeps S m \<Longrightarrow> (\<And>w x. fst (m w) = Inr x \<Longrightarrow> Q x) \<Longrightarrow> gates S (or_refuse e m) Q"
  unfolding gates_def or_refuse_def keeps_def and_then_def attempt_def refuse_def pass_def ok_def
  by (auto split: prod.splits sum.splits failure.splits) (metis fst_conv snd_conv)+

lemma gates_weaken: "gates S g Q \<Longrightarrow> (\<And>x. Q x \<Longrightarrow> R x) \<Longrightarrow> gates S g R"
  by (auto simp: gates_def)

lemma db_read_value: "fst (db_read (\<lambda>_ _. v) w) = Inr x \<Longrightarrow> x = v"
  by (auto simp: db_read_def db_call_def split: list.splits bool.splits)

lemma gates_panic: "(\<And>x. v = Some x \<Longrightarrow> gates S (k x) Q) \<Longrightarrow> gates S (and_then (or_panic v) k) Q"
  by (cases v) (auto simp: gates_def and_then_def or_panic_def)

text \<open>The parts of the world that reading does not touch.\<close>

definition unsent :: "store \<Rightarrow> bool \<Rightarrow> datetime \<Rightarrow> datetime \<Rightarrow> world \<Rightarrow> bool" where
  "unsent s wk t db w \<longleftrightarrow> w_store w = s \<and> w_wake w = wk \<and> w_now w = t \<and> w_db_now w = db"

lemma keeps_unsent_read: "keeps (unsent s wk t db) (db_read f)"
  by (auto simp: keeps_def unsent_def db_read_def db_call_def split: list.splits bool.splits)

definition may_sell :: "edge \<Rightarrow> uuid \<Rightarrow> meter_identity option \<Rightarrow> bool" where
  "may_sell E user meter \<longleftrightarrow>
     (case meter of
        Some m \<Rightarrow> mi_user_id m = user \<and> mi_is_verified m
      | None \<Rightarrow> (\<exists>r\<in>set (ed_meters E). me_user_id r = user \<and> me_is_verified r))"

lemma sell_gate_gates: "gates (unsent s wk t db) (sell_gate E user side meter) (\<lambda>_. side = Sell \<longrightarrow> may_sell E user meter)"
  unfolding sell_gate_def
proof (rule gates_bind[where Q = "\<lambda>v. needs_any_verified_meter_lookup side meter \<longrightarrow> v = has_verified_meter user (ed_meters E)"])
  show "gates (unsent s wk t db) (if needs_any_verified_meter_lookup side meter
      then or_refuse MeterDatabase (db_read (\<lambda>_ _. has_verified_meter user (ed_meters E))) else pass False)
      (\<lambda>v. needs_any_verified_meter_lookup side meter \<longrightarrow> v = has_verified_meter user (ed_meters E))"
    by (auto intro!: gates_read gates_pass keeps_unsent_read dest: db_read_value)
next
  fix v assume v: "needs_any_verified_meter_lookup side meter \<longrightarrow> v = has_verified_meter user (ed_meters E)"
  show "gates (unsent s wk t db) (of_result SellRefused (check_sell_eligibility user side meter v))
      (\<lambda>_. side = Sell \<longrightarrow> may_sell E user meter)"
    using v by (intro gates_of_result)
      (auto simp: check_sell_eligibility_def may_sell_def needs_any_verified_meter_lookup_def has_verified_meter_def
        list_ex_iff split: option.splits if_splits)
qed

definition settleable :: "dec_ops \<Rightarrow> service_config \<Rightarrow> static_charge_rates \<Rightarrow> decimal \<Rightarrow> bool" where
  "settleable D cfg rates price \<longleftrightarrow> cf_min_price cfg \<le> price \<and>
     (\<exists>f. min_settleable_price_per_kwh D rates = Some (Some f) \<and> f \<le> price)"

lemma floor_gate_gates: "gates S (floor_gate D cfg rates side price) (\<lambda>_. side = Sell \<longrightarrow> settleable D cfg rates price)"
  unfolding floor_gate_def
  by (rule gates_panic, rule gates_of_result)
     (auto simp: check_sell_price_floor_def settleable_def split: if_splits option.splits)

definition funded :: "dec_ops \<Rightarrow> edge \<Rightarrow> order_type \<Rightarrow> decimal option \<Rightarrow> decimal \<Rightarrow> decimal \<Rightarrow> bool" where
  "funded D E ty price_input price amount \<longleftrightarrow> ed_wallet E \<noteq> Inr None \<and>
     (\<forall>wallet b. ed_wallet E = Inr (Some wallet) \<longrightarrow> ed_balance E wallet = Inr b \<longrightarrow>
        check_buy_funding (required_buy_funding D Buy ty price_input price amount) b = Inr ())"

lemma funding_gate_gates:
  "gates S (funding_gate D E side ty price_input price amount) (\<lambda>_. side = Buy \<longrightarrow> funded D E ty price_input price amount)"
proof (cases "side = Buy")
  case True
  have n: "required_buy_funding D Buy ty price_input price amount \<noteq> Fund_None" by (simp add: required_buy_funding_def)
  show ?thesis
    using n by (auto simp: funding_gate_def Let_def True funded_def split: sum.split option.split
        intro!: gates_intros)
next
  case False
  then have "funding_gate D E side ty price_input price amount = pass ()"
    by (simp add: funding_gate_def required_buy_funding_def)
  then show ?thesis using False by (simp add: gates_pass)
qed

end
