(* ===== verification/Order_Submission.thy ===== *)
theory Order_Submission imports Order_Gates Order_Ledger begin

text \<open>
  \<open>trading-api/src/rest/orders.rs\<close>: the submission and the cancellation of an order over HTTP, with
  their guards in the order the handlers have them.  A refusal comes with the status the handler
  answers; the clock, the faults of the database and the answers of the chain are as in \<open>Order_Gates\<close>.
\<close>

section \<open>The request\<close>

record submit_order_request =
  sr_side :: string
  sr_order_type :: string
  sr_energy_amount_kwh :: string
  sr_price_per_kwh :: "string option"
  sr_zone_id :: int
  sr_meter_id :: "uuid option"
  sr_meter_serial :: "string option"
  sr_custodial_sign :: "bool option"
  sr_time_in_force :: "string option"
  sr_market_segment :: "string option"
  sr_expires_at :: "datetime option"
  sr_expires_in_secs :: "int option"
  sr_order_id :: "uuid option"
  sr_wallet_signature :: "string option"
  sr_signed_expires_at :: "int option"

record submit_order_response =
  so_id :: uuid
  so_status :: string
  so_created_at :: datetime

record order_terms =
  ot_amount :: decimal
  ot_side :: order_side
  ot_type :: order_type
  ot_tif :: time_in_force
  ot_price_input :: "decimal option"
  ot_price :: decimal
  ot_segment :: market_segment

definition parse_price_input :: "edge \<Rightarrow> string option \<Rightarrow> refusal + decimal option" where
  "parse_price_input E raw =
     (case raw of
        None \<Rightarrow> Inr None
      | Some s \<Rightarrow> (case ed_parse_decimal E s of Inl e \<Rightarrow> Inl (BadPrice e) | Inr d \<Rightarrow> Inr (Some d)))"

definition read_terms :: "edge \<Rightarrow> submit_order_request \<Rightarrow> order_terms gate" where
  "read_terms E req =
     gate_bind (of_result BadAmount (ed_parse_decimal E (sr_energy_amount_kwh req))) (\<lambda>amount.
     gate_bind (of_result id (parse_side (sr_side req))) (\<lambda>side.
     let ty = parse_order_type (sr_order_type req) in
     gate_bind (of_result id (parse_time_in_force ty (sr_time_in_force req))) (\<lambda>tif.
     gate_bind (of_result id (parse_price_input E (sr_price_per_kwh req))) (\<lambda>price_input.
     gate_bind (of_result PriceRefused (resolve_order_price ty side tif price_input)) (\<lambda>price.
     gate_bind (of_result id (parse_segment (sr_market_segment req))) (\<lambda>seg.
     gate_bind (interval_gate seg tif) (\<lambda>_.
     pass \<lparr>ot_amount = amount, ot_side = side, ot_type = ty, ot_tif = tif, ot_price_input = price_input,
           ot_price = price, ot_segment = seg\<rparr>)))))))"

text \<open>A serial takes precedence over an identifier; either must name a mirrored meter.\<close>

definition name_meter :: "edge \<Rightarrow> submit_order_request \<Rightarrow> meter_identity option gate" where
  "name_meter E req =
     (case sr_meter_serial req of
        Some serial \<Rightarrow>
          gate_bind (or_refuse MeterDatabase (db_read (\<lambda>_ _. lookup_by_serial serial (ed_meters E)))) (\<lambda>found.
          gate_bind (of_option (UnknownSerial serial) found) (\<lambda>m. pass (Some m)))
      | None \<Rightarrow>
          (case sr_meter_id req of
             Some i \<Rightarrow>
               gate_bind (or_refuse MeterDatabase (db_read (\<lambda>_ _. lookup_by_id i (ed_meters E)))) (\<lambda>found.
               gate_bind (of_option (UnknownMeter i) found) (\<lambda>m. pass (Some m)))
           | None \<Rightarrow> pass None))"

section \<open>The wallet signature\<close>

text \<open>\<open>Uuid::as_bytes\<close> is big-endian.\<close>

definition uuid_bytes :: "uuid \<Rightarrow> byte list" where
  "uuid_bytes i = rev (to_le_bytes i)"

definition u32_of_zone :: "int \<Rightarrow> 32 word" where
  "u32_of_zone z = (if 0 \<le> z then word_of_int z else 0)"

definition signed_message :: "uuid \<Rightarrow> byte list \<Rightarrow> int \<Rightarrow> int \<Rightarrow> order_side \<Rightarrow> int \<Rightarrow> int \<Rightarrow> byte list" where
  "signed_message i wallet_bytes energy_base price_base side zone expires_at =
     message_for (uuid_bytes i) wallet_bytes (word_of_int energy_base) (word_of_int price_base)
       (case side of Buy \<Rightarrow> side_buy | Sell \<Rightarrow> side_sell) (u32_of_zone zone) (word_of_int expires_at)"

definition wallet_key_bytes :: "signatures \<Rightarrow> string \<Rightarrow> byte list option" where
  "wallet_key_bytes G wallet = (case sg_base58 G wallet of Inl _ \<Rightarrow> None
     | Inr bs \<Rightarrow> if length bs = 32 then Some bs else None)"

definition sign_gate ::
  "dec_ops \<Rightarrow> service_config \<Rightarrow> edge \<Rightarrow> submit_order_request \<Rightarrow> order_terms \<Rightarrow> (uuid \<times> string \<times> int) option gate" where
  "sign_gate D cfg E req terms =
     (if \<not> cf_per_user_escrow cfg then pass None
      else
        gate_bind (of_option MissingOrderId (sr_order_id req)) (\<lambda>i.
        gate_bind (of_option MissingWalletSignature (sr_wallet_signature req)) (\<lambda>signature.
        gate_bind (of_option MissingSignedExpiry (sr_signed_expires_at req)) (\<lambda>expires_at.
        gate_bind (of_result WalletLookupFailed (ed_signer_wallet E)) (\<lambda>linked.
        gate_bind (of_option NoLinkedWallet linked) (\<lambda>wallet.
        gate_bind (of_option WalletNotKey (wallet_key_bytes (ed_signatures E) wallet)) (\<lambda>wallet_bytes.
        gate_bind (of_option EnergyOutOfRange (energy_to_base_units D (ot_amount terms))) (\<lambda>energy_base.
        gate_bind (of_option PriceOutOfRange (currency_to_base_units D (ot_price terms))) (\<lambda>price_base.
        gate_bind (of_result SignatureRefused (verify_order_signature (ed_signatures E) wallet signature
                     (signed_message i wallet_bytes energy_base price_base (ot_side terms) (sr_zone_id req) expires_at)))
          (\<lambda>_. pass (Some (i, signature, expires_at))))))))))))"

definition expiry_gate ::
  "clock_range \<Rightarrow> service_config \<Rightarrow> submit_order_request \<Rightarrow> (uuid \<times> string \<times> int) option \<Rightarrow> datetime gate" where
  "expiry_gate C cfg req auth =
     and_then telemetry_now (\<lambda>now.
     of_result ExpiryRefused (resolve_expires_at C now (sr_expires_at req) (sr_expires_in_secs req)
       (map_option (\<lambda>(_, _, expires_at). expires_at) auth) (cf_default_ttl cfg) (cf_max_ttl cfg)))"

section \<open>Placement and the row\<close>

definition rest_order ::
  "uuid \<Rightarrow> submit_order_request \<Rightarrow> order_terms \<Rightarrow> meter_identity option \<Rightarrow> uuid \<Rightarrow> datetime \<Rightarrow> datetime \<Rightarrow> trading_order" where
  "rest_order user req terms meter i expires now =
     \<lparr>ord_id = i, ord_user_id = user, ord_order_type = ot_type terms, ord_side = ot_side terms,
      ord_energy_amount = ot_amount terms, ord_price_per_kwh = ot_price terms, ord_filled_amount = 0,
      ord_status = Order_Pending, ord_expires_at = Some expires, ord_created_at = Some now, ord_filled_at = None,
      ord_epoch_id = None, ord_zone_id = Some (sr_zone_id req), ord_meter_id = map_option mi_meter_id meter,
      ord_refund_tx_signature = None, ord_order_pda = None, ord_order_index = None, ord_session_token = None,
      ord_blockchain_status = None, ord_blockchain_tx_hash = None, ord_blockchain_error = None,
      ord_retry_count = 0, ord_time_in_force = ot_tif terms, ord_market_segment = ot_segment terms\<rparr>"

text \<open>The little-endian value of the identifier's first eight bytes.\<close>

definition order_seed :: "uuid \<Rightarrow> int" where
  "order_seed i = foldr (\<lambda>b acc. uint b + 256 * acc) (take 8 (uuid_bytes i)) 0"

definition place_gate :: "service_config \<Rightarrow> edge \<Rightarrow> submit_order_request \<Rightarrow> trading_order \<Rightarrow> trading_order gate" where
  "place_gate cfg E req o' =
     (if \<not> cf_per_user_escrow cfg \<and> (cf_trade_settlement cfg \<or> unwrap_or (sr_custodial_sign req) False) then
        (let seed = order_seed (ord_id o') in
         case ed_place E (ord_user_id o') (ord_side o' = Buy) (ord_energy_amount o') (ord_price_per_kwh o')
                (sr_zone_id req) seed (case ord_expires_at o' of None \<Rightarrow> 0 | Some t \<Rightarrow> t div nanos) of
           Inr (signature, pda) \<Rightarrow>
             pass (o'\<lparr>ord_order_pda := Some pda, ord_order_index := Some (unwrap_or (i64_try_from seed) i64_max),
                      ord_blockchain_status := Some ''confirmed'', ord_blockchain_tx_hash := Some signature\<rparr>)
         | Inl e \<Rightarrow>
             if is_deterministic_chain_rejection (api_error_str e) then refuse (PlacementRefused (api_error_str e))
             else pass o')
      else pass o')"

definition store_signature :: "(uuid \<times> string \<times> int) option \<Rightarrow> uuid \<Rightarrow> unit gate" where
  "store_signature auth i =
     (case auth of
        None \<Rightarrow> pass ()
      | Some (_, signature, _) \<Rightarrow> or_refuse SignatureNotStored (db_call (set_wallet_signature i signature)))"

definition wake_for :: "trading_order \<Rightarrow> unit gate" where
  "wake_for o' = and_then (if ord_market_segment o' = Realtime then request_cycle else ok ()) (\<lambda>_. pass ())"

section \<open>The handler\<close>

type_synonym admission = "order_terms \<times> meter_identity option \<times> (uuid \<times> string \<times> int) option \<times> datetime"

definition admit ::
  "clock_range \<Rightarrow> dec_ops \<Rightarrow> service_config \<Rightarrow> static_charge_rates \<Rightarrow> edge \<Rightarrow> string + unit \<Rightarrow> uuid
     \<Rightarrow> submit_order_request \<Rightarrow> admission gate" where
  "admit C D cfg rates E role user req =
     gate_bind (of_result RoleRefused role) (\<lambda>_.
     gate_bind (read_terms E req) (\<lambda>terms.
     gate_bind (name_meter E req) (\<lambda>meter.
     gate_bind (sell_gate E user (ot_side terms) meter) (\<lambda>_.
     gate_bind (floor_gate D cfg rates (ot_side terms) (ot_price terms)) (\<lambda>_.
     gate_bind (funding_gate D E (ot_side terms) (ot_type terms) (ot_price_input terms) (ot_price terms) (ot_amount terms)) (\<lambda>_.
     gate_bind (sign_gate D cfg E req terms) (\<lambda>auth.
     gate_bind (expiry_gate C cfg req auth) (\<lambda>expires.
     pass (terms, meter, auth, expires)))))))))"

definition record_order ::
  "service_config \<Rightarrow> edge \<Rightarrow> uuid \<Rightarrow> submit_order_request \<Rightarrow> admission \<Rightarrow> submit_order_response gate" where
  "record_order cfg E user req = (\<lambda>(terms, meter, auth, expires).
     and_then (case auth of Some (i, _, _) \<Rightarrow> ok i | None \<Rightarrow> new_v4) (\<lambda>i.
     and_then telemetry_now (\<lambda>now.
     gate_bind (place_gate cfg E req (rest_order user req terms meter i expires now)) (\<lambda>placed.
     gate_bind (or_refuse EpochFailed (db_call get_or_create_active_epoch)) (\<lambda>epoch.
     let o' = placed\<lparr>ord_epoch_id := Some epoch\<rparr> in
     gate_bind (or_refuse InsertFailed (db_call (insert_order_with_event o' (order_created_event o')))) (\<lambda>_.
     gate_bind (store_signature auth (ord_id o')) (\<lambda>_.
     gate_bind (wake_for o') (\<lambda>_.
     pass \<lparr>so_id = ord_id o', so_status = ''open'', so_created_at = unwrap_or (ord_created_at o') now\<rparr>))))))))"

definition submit_order ::
  "clock_range \<Rightarrow> dec_ops \<Rightarrow> service_config \<Rightarrow> static_charge_rates \<Rightarrow> edge \<Rightarrow> string + unit \<Rightarrow> uuid
     \<Rightarrow> submit_order_request \<Rightarrow> submit_order_response gate" where
  "submit_order C D cfg rates E role user req =
     gate_bind (admit C D cfg rates E role user req) (record_order cfg E user req)"

text \<open>The statuses of the refusals.\<close>

fun rest_status :: "refusal \<Rightarrow> nat" where
  "rest_status (RoleRefused _) = 403"
| "rest_status (SellRefused _) = 403"
| "rest_status (FundingRefused NoWallet) = 403"
| "rest_status (FundingRefused (InsufficientFunds _ _)) = 402"
| "rest_status (MeterDatabase _) = 500"
| "rest_status (WalletLookupFailed _) = 500"
| "rest_status WalletNotKey = 500"
| "rest_status (PlacementRefused _) = 422"
| "rest_status (EpochFailed _) = 500"
| "rest_status (InsertFailed _) = 500"
| "rest_status (SignatureNotStored _) = 500"
| "rest_status (DatabaseFailed _) = 500"
| "rest_status UnknownOrder = 404"
| "rest_status _ = 400"

text \<open>Cancelling: whether a row was cancelled is not looked at.\<close>

definition rest_cancel_order :: "string + unit \<Rightarrow> uuid \<Rightarrow> uuid \<Rightarrow> uuid gate" where
  "rest_cancel_order role user i =
     gate_bind (of_result RoleRefused role) (\<lambda>_.
     gate_bind (or_refuse DatabaseFailed (db_call (cancel_order i user))) (\<lambda>_.
     pass i))"

section \<open>What is admitted\<close>

text \<open>The promise of the handler for the order a request turns into.\<close>

definition signed_by :: "dec_ops \<Rightarrow> edge \<Rightarrow> submit_order_request \<Rightarrow> order_terms \<Rightarrow> uuid \<times> string \<times> int \<Rightarrow> bool" where
  "signed_by D E req terms = (\<lambda>(i, signature, expires_at).
     sr_order_id req = Some i \<and> sr_wallet_signature req = Some signature \<and> sr_signed_expires_at req = Some expires_at \<and>
     (\<exists>wallet wallet_bytes energy_base price_base.
        ed_signer_wallet E = Inr (Some wallet) \<and> wallet_key_bytes (ed_signatures E) wallet = Some wallet_bytes \<and>
        energy_to_base_units D (ot_amount terms) = Some energy_base \<and>
        currency_to_base_units D (ot_price terms) = Some price_base \<and>
        verify_order_signature (ed_signatures E) wallet signature
          (signed_message i wallet_bytes energy_base price_base (ot_side terms) (sr_zone_id req) expires_at) = Inr ()))"

definition good_terms :: "submit_order_request \<Rightarrow> edge \<Rightarrow> order_terms \<Rightarrow> bool" where
  "good_terms req E terms \<longleftrightarrow>
     ed_parse_decimal E (sr_energy_amount_kwh req) = Inr (ot_amount terms) \<and>
     parse_price_input E (sr_price_per_kwh req) = Inr (ot_price_input terms) \<and>
     resolve_order_price (ot_type terms) (ot_side terms) (ot_tif terms) (ot_price_input terms) = Inr (ot_price terms) \<and>
     (ot_segment terms = Interval \<longrightarrow> ot_tif terms = Gtc)"

definition admissible ::
  "clock_range \<Rightarrow> dec_ops \<Rightarrow> service_config \<Rightarrow> static_charge_rates \<Rightarrow> edge \<Rightarrow> uuid \<Rightarrow> submit_order_request \<Rightarrow> datetime
     \<Rightarrow> admission \<Rightarrow> bool" where
  "admissible C D cfg rates E user req now = (\<lambda>(terms, meter, auth, expires).
     good_terms req E terms \<and>
     (ot_side terms = Sell \<longrightarrow> may_sell E user meter \<and> settleable D cfg rates (ot_price terms)) \<and>
     (ot_side terms = Buy \<longrightarrow> funded D E (ot_type terms) (ot_price_input terms) (ot_price terms) (ot_amount terms)) \<and>
     (case auth of None \<Rightarrow> \<not> cf_per_user_escrow cfg | Some a \<Rightarrow> cf_per_user_escrow cfg \<and> signed_by D E req terms a) \<and>
     resolve_expires_at C now (sr_expires_at req) (sr_expires_in_secs req)
       (map_option (\<lambda>(_, _, expires_at). expires_at) auth) (cf_default_ttl cfg) (cf_max_ttl cfg) = Inr expires)"

lemma read_terms_gates: "gates S (read_terms E req) (good_terms req E)"
  unfolding read_terms_def Let_def
  apply (rule gates_bind[where Q = "\<lambda>x. ed_parse_decimal E (sr_energy_amount_kwh req) = Inr x"], rule gates_of_result, assumption)
  apply (rule gates_bind[where Q = "\<lambda>_. True"], simp add: gates_of_result)
  apply (rule gates_bind[where Q = "\<lambda>_. True"], simp add: gates_of_result)
  apply (rule gates_bind[where Q = "\<lambda>x. parse_price_input E (sr_price_per_kwh req) = Inr x"], rule gates_of_result, assumption)
  subgoal for amount side tif price_input
    by (intro gates_bind[where Q = "\<lambda>price. resolve_order_price (parse_order_type (sr_order_type req)) side tif price_input = Inr price"]
          gates_bind[where Q = "\<lambda>_. True" and g = "of_result id _"]
          gates_bind[where Q = "\<lambda>_. _ = Interval \<longrightarrow> _ = Gtc" and g = "interval_gate _ _"] gates_intros)
       (auto simp: interval_gate_def good_terms_def intro!: gates_intros)
  done

lemma name_meter_gates: "gates (unsent s wk t db) (name_meter E req) (\<lambda>_. True)"
  unfolding name_meter_def
  by (auto split: option.split intro!: gates_bind[where Q = "\<lambda>_. True"] gates_read gates_intros keeps_unsent_read)

lemma sign_gate_gates:
  "gates S (sign_gate D cfg E req terms)
     (\<lambda>auth. case auth of None \<Rightarrow> \<not> cf_per_user_escrow cfg | Some a \<Rightarrow> cf_per_user_escrow cfg \<and> signed_by D E req terms a)"
proof (cases "cf_per_user_escrow cfg")
  case False
  then show ?thesis by (simp add: sign_gate_def gates_pass)
next
  case True
  show ?thesis
    unfolding sign_gate_def
    apply (simp only: True not_True_eq_False if_False)
    apply (rule gates_bind[where Q = "\<lambda>i. sr_order_id req = Some i"], rule gates_of_option, assumption)
    apply (rule gates_bind[where Q = "\<lambda>x. sr_wallet_signature req = Some x"], rule gates_of_option, assumption)
    apply (rule gates_bind[where Q = "\<lambda>x. sr_signed_expires_at req = Some x"], rule gates_of_option, assumption)
    apply (rule gates_bind[where Q = "\<lambda>x. ed_signer_wallet E = Inr x"], rule gates_of_result, assumption)
    apply (rule gates_bind[where Q = "\<lambda>x. ed_signer_wallet E = Inr (Some x)"], rule gates_of_option, simp)
    apply (rule gates_bind[where Q = "\<lambda>x. wallet_key_bytes (ed_signatures E) _ = Some x"], rule gates_of_option, assumption)
    apply (rule gates_bind[where Q = "\<lambda>x. energy_to_base_units D (ot_amount terms) = Some x"], rule gates_of_option, assumption)
    apply (rule gates_bind[where Q = "\<lambda>x. currency_to_base_units D (ot_price terms) = Some x"], rule gates_of_option, assumption)
    subgoal for i signature expires_at linked wallet wallet_bytes energy_base price_base
      by (rule gates_bind[where Q = "\<lambda>_. verify_order_signature (ed_signatures E) wallet signature
            (signed_message i wallet_bytes energy_base price_base (ot_side terms) (sr_zone_id req) expires_at) = Inr ()"])
         (auto simp: True signed_by_def intro!: gates_intros)
    done
qed

lemma expiry_gate_gates:
  "gates (unsent s wk t db) (expiry_gate C cfg req auth)
     (\<lambda>expires. resolve_expires_at C t (sr_expires_at req) (sr_expires_in_secs req)
        (map_option (\<lambda>(_, _, expires_at). expires_at) auth) (cf_default_ttl cfg) (cf_max_ttl cfg) = Inr expires)"
  by (auto simp: gates_def expiry_gate_def and_then_def telemetry_now_def unsent_def of_result_def refuse_def pass_def ok_def
      split: sum.splits)

lemma admit_gates:
  "gates (unsent s wk t db) (admit C D cfg rates E role user req) (admissible C D cfg rates E user req t)"
  unfolding admit_def
  apply (rule gates_bind[where Q = "\<lambda>_. True"], simp add: gates_of_result)
  apply (rule gates_bind[OF read_terms_gates])
  apply (rule gates_bind[OF name_meter_gates])
  apply (rule gates_bind[OF sell_gate_gates])
  apply (rule gates_bind[OF floor_gate_gates])
  apply (rule gates_bind[OF funding_gate_gates])
  apply (rule gates_bind[OF sign_gate_gates])
  apply (rule gates_bind[OF expiry_gate_gates])
  apply (rule gates_pass)
  apply (simp add: admissible_def)
  done

section \<open>What is recorded\<close>

definition row_for ::
  "uuid \<Rightarrow> submit_order_request \<Rightarrow> order_terms \<Rightarrow> meter_identity option \<Rightarrow> datetime \<Rightarrow> order_row \<Rightarrow> bool" where
  "row_for user req terms meter expires row \<longleftrightarrow>
     odb_user_id row = user \<and> odb_side row = ot_side terms \<and> odb_order_type row = ot_type terms \<and>
     odb_time_in_force row = ot_tif terms \<and> odb_market_segment row = ot_segment terms \<and>
     odb_status row = Order_Pending \<and> odb_filled_amount row = Some 0 \<and>
     num8 (ot_amount terms) = Some (odb_energy_amount row) \<and> 0 < odb_energy_amount row \<and>
     num8 (ot_price terms) = Some (odb_price_per_kwh row) \<and> 0 < odb_price_per_kwh row \<and>
     odb_expires_at row = Some expires \<and> odb_zone_id row = Some (sr_zone_id req) \<and>
     odb_meter_id row = map_option mi_meter_id meter"

definition appended :: "world \<Rightarrow> world \<Rightarrow> order_row \<Rightarrow> bool" where
  "appended w w' row \<longleftrightarrow> db_orders (w_store w') = db_orders (w_store w) @ [row] \<and>
     odb_id row \<notin> odb_id ` set (db_orders (w_store w)) \<and>
     (\<exists>p. map obx_payload (db_outbox (w_store w')) = map obx_payload (db_outbox (w_store w)) @ [OrderCreated p] \<and>
          ocp_id p = odb_id row \<and> ocp_user_id p = odb_user_id row)"

definition unrecorded :: "world \<Rightarrow> world \<Rightarrow> bool" where
  "unrecorded w w' \<longleftrightarrow> db_orders (w_store w') = db_orders (w_store w) \<and>
     map obx_payload (db_outbox (w_store w')) = map obx_payload (db_outbox (w_store w)) \<and>
     w_wake w' = w_wake w \<and> w_now w' = w_now w"

lemma unrecorded_refl [simp]: "unrecorded w w"
  by (simp add: unrecorded_def)

lemma unrecorded_trans: "unrecorded w1 w2 \<Longrightarrow> unrecorded w2 w3 \<Longrightarrow> unrecorded w1 w3"
  by (simp add: unrecorded_def)

lemma appended_after: "unrecorded w1 w2 \<Longrightarrow> appended w2 w3 row \<Longrightarrow> appended w1 w3 row"
  by (simp add: unrecorded_def appended_def)

lemma gate_bind_cases:
  assumes "gate_bind g k w = (r, w')"
  obtains (panic) f where "g w = (Inl f, w')" "r = Inl f"
    | (refused) e where "g w = (Inr (Inl e), w')" "r = Inr (Inl e)"
    | (passed) x w1 where "g w = (Inr (Inr x), w1)" "k x w1 = (r, w')"
  using assms by (auto simp: gate_bind_def and_then_def refuse_def ok_def split: prod.splits sum.splits)

lemma or_refuse_call:
  assumes "or_refuse e (db_call f) w = (r, w')"
  obtains (failed) x where "r = Inr (Inl (e x))" "unrecorded w w'"
    | (committed) x s' where "f (w_db_now w) (w_store w) = Inr (x, s')" "r = Inr (Inr x)" "w_store w' = s'"
        "w_wake w' = w_wake w" "w_now w' = w_now w"
  using assms
  by (auto simp: or_refuse_def and_then_def attempt_def db_call_def refuse_def pass_def ok_def unrecorded_def
      split: list.splits bool.splits sum.splits prod.splits)

lemma epoch_keeps_books:
  "get_or_create_active_epoch now s = Inr (i, s') \<Longrightarrow> db_orders s' = db_orders s \<and> db_outbox s' = db_outbox s"
  by (auto simp: get_or_create_active_epoch_def draw_id_def split: list.splits if_splits)

lemma insert_appends:
  assumes "insert_order_with_event o' (OrderCreated p) now s = Inr (x, s')"
  obtains energy price where "num8 (ord_energy_amount o') = Some energy" "num8 (ord_price_per_kwh o') = Some price"
    "0 < energy" "0 < price" "ord_id o' \<notin> odb_id ` set (db_orders s)"
    "db_orders s' = db_orders s @ [new_order_row now o' energy price]"
    "map obx_payload (db_outbox s') = map obx_payload (db_outbox s) @ [OrderCreated p]"
  using assms
  by (auto simp: insert_order_with_event_def insert_order_def insert_event_in_tx_def draw_id_def
      split: option.splits if_splits sum.splits prod.splits list.splits)

lemma place_gate_cases:
  assumes "place_gate cfg E req o' w = (r, w')"
  shows "w' = w \<and> ((\<exists>e. r = Inr (Inl (PlacementRefused e))) \<or>
    (\<exists>pda idx st tx. r = Inr (Inr (o'\<lparr>ord_order_pda := pda, ord_order_index := idx, ord_blockchain_status := st, ord_blockchain_tx_hash := tx\<rparr>))
       \<and> (cf_per_user_escrow cfg \<longrightarrow> pda = ord_order_pda o')))"
proof -
  let ?on = "\<not> cf_per_user_escrow cfg \<and> (cf_trade_settlement cfg \<or> unwrap_or (sr_custodial_sign req) False)"
  let ?seed = "order_seed (ord_id o')"
  let ?call = "ed_place E (ord_user_id o') (ord_side o' = Buy) (ord_energy_amount o') (ord_price_per_kwh o')
                (sr_zone_id req) ?seed (case ord_expires_at o' of None \<Rightarrow> 0 | Some t \<Rightarrow> t div nanos)"
  have keep: "place_gate cfg E req o' w = (Inr (Inr o'), w) \<Longrightarrow> ?thesis"
    using assms
    by (intro conjI disjI2 exI[of _ "ord_order_pda o'"] exI[of _ "ord_order_index o'"] exI[of _ "ord_blockchain_status o'"]
        exI[of _ "ord_blockchain_tx_hash o'"]) simp_all
  show ?thesis
  proof (cases ?on)
    case False
    then have "place_gate cfg E req o' w = (Inr (Inr o'), w)"
      unfolding place_gate_def by (simp only: if_False pass_def ok_def)
    then show ?thesis by (rule keep)
  next
    case True
    have on: "place_gate cfg E req o' w = (case ?call of
        Inr (signature, pda) \<Rightarrow> pass (o'\<lparr>ord_order_pda := Some pda, ord_order_index := Some (unwrap_or (i64_try_from ?seed) i64_max),
            ord_blockchain_status := Some ''confirmed'', ord_blockchain_tx_hash := Some signature\<rparr>)
      | Inl e \<Rightarrow> if is_deterministic_chain_rejection (api_error_str e) then refuse (PlacementRefused (api_error_str e)) else pass o') w"
      unfolding place_gate_def if_P[OF True] Let_def ..
    show ?thesis
    proof (cases ?call)
      case (Inl e)
      show ?thesis
      proof (cases "is_deterministic_chain_rejection (api_error_str e)")
        case False
        then have "place_gate cfg E req o' w = (Inr (Inr o'), w)" unfolding on Inl by (simp add: pass_def ok_def)
        then show ?thesis by (rule keep)
      next
        case t: True
        then have "place_gate cfg E req o' w = (Inr (Inl (PlacementRefused (api_error_str e))), w)"
          unfolding on Inl by (simp add: refuse_def ok_def)
        then show ?thesis using assms by simp
      qed
    next
      case (Inr answer)
      obtain sig pda where a: "answer = (sig, pda)" by (cases answer)
      have "place_gate cfg E req o' w = (Inr (Inr (o'\<lparr>ord_order_pda := Some pda, ord_order_index := Some (unwrap_or (i64_try_from ?seed) i64_max),
            ord_blockchain_status := Some ''confirmed'', ord_blockchain_tx_hash := Some sig\<rparr>)), w)"
        unfolding on Inr a by (simp add: pass_def ok_def)
      then show ?thesis
        using assms True
        by (intro conjI disjI2 exI[of _ "Some pda"] exI[of _ "Some (unwrap_or (i64_try_from ?seed) i64_max)"]
            exI[of _ "Some ''confirmed''"] exI[of _ "Some sig"]) simp_all
    qed
  qed
qed

lemma draw_order_id:
  assumes "and_then (case auth of Some (i, _, _) \<Rightarrow> ok i | None \<Rightarrow> new_v4) k w = (r, w')"
  obtains i w1 where "unrecorded w w1" "k i w1 = (r, w')" "\<forall>j \<in> fst ` set_option auth. i = j"
proof -
  have "\<exists>i w1. (case auth of Some (i, _, _) \<Rightarrow> ok i | None \<Rightarrow> new_v4) w = (Inr i, w1) \<and> unrecorded w w1
      \<and> (\<forall>j \<in> fst ` set_option auth. i = j)"
    by (auto simp: ok_def new_v4_def draw_id_def unrecorded_def split: option.split prod.split list.split)
  then obtain i w1 where i: "(case auth of Some (i, _, _) \<Rightarrow> ok i | None \<Rightarrow> new_v4) w = (Inr i, w1)" "unrecorded w w1"
      "\<forall>j \<in> fst ` set_option auth. i = j"
    by blast
  have "k i w1 = (r, w')" using assms unfolding and_then_def i(1) by simp
  then show thesis using that i(2,3) by blast
qed

lemma signed_row_only:
  assumes "set_wallet_signature i sig now s = Inr (x, s')" "db_orders s = os @ [row]" "odb_id row = i" "i \<notin> odb_id ` set os"
  shows "db_orders s' = os @ [row\<lparr>odb_signature := Some sig\<rparr>] \<and> db_outbox s' = db_outbox s"
proof -
  have "update_where (\<lambda>r. odb_id r = i) (\<lambda>r. r\<lparr>odb_signature := Some sig\<rparr>) os = os"
    using assms(4) by (intro update_where_id) auto
  then show ?thesis
    using assms(1-3) by (auto simp: set_wallet_signature_def update_where_def split: if_splits)
qed

lemma row_for_signature [simp]:
  "row_for user req terms meter expires (row\<lparr>odb_signature := sig\<rparr>) = row_for user req terms meter expires row"
  by (simp add: row_for_def)

definition finishes ::
  "service_config \<Rightarrow> uuid \<Rightarrow> submit_order_request \<Rightarrow> admission \<Rightarrow> world \<Rightarrow> failure + (refusal + submit_order_response) \<Rightarrow> world \<Rightarrow> bool" where
  "finishes cfg user req adm w r w' \<longleftrightarrow> (case adm of (terms, meter, auth, expires) \<Rightarrow>
     (case r of
        Inr (Inr resp) \<Rightarrow> (\<exists>row. row_for user req terms meter expires row \<and> appended w w' row \<and> so_id resp = odb_id row \<and>
            odb_signature row = map_option (\<lambda>(_, signature, _). signature) auth \<and>
            (\<forall>i \<in> fst ` set_option auth. odb_id row = i) \<and>
            (cf_per_user_escrow cfg \<longrightarrow> odb_order_pda row = None) \<and>
            w_wake w' = (w_wake w \<or> ot_segment terms = Realtime))
      | Inr (Inl (SignatureNotStored _)) \<Rightarrow> (\<exists>row. cf_per_user_escrow cfg \<and> row_for user req terms meter expires row \<and>
            appended w w' row \<and> odb_signature row = None \<and> w_wake w' = w_wake w)
      | _ \<Rightarrow> unrecorded w w'))"

lemma finishes_refused: "unrecorded w w' \<Longrightarrow> (\<And>e. r \<noteq> Inr (Inl (SignatureNotStored e))) \<Longrightarrow> (\<And>x. r \<noteq> Inr (Inr x)) \<Longrightarrow>
    finishes cfg user req adm w r w'"
  by (auto simp: finishes_def split: prod.split sum.split refusal.split)

text \<open>The last part, from the insert on.\<close>

lemma record_tail:
  assumes run: "gate_bind (or_refuse InsertFailed (db_call (insert_order_with_event o' (order_created_event o')))) (\<lambda>_.
         gate_bind (store_signature auth (ord_id o')) (\<lambda>_.
         gate_bind (wake_for o') (\<lambda>_.
         pass \<lparr>so_id = ord_id o', so_status = ''open'', so_created_at = made_at\<rparr>))) w3 = (r, w')"
    and u3: "unrecorded w w3"
    and o': "o' = (rest_order user req terms meter i expires now)\<lparr>ord_order_pda := pda, ord_order_index := idx,
        ord_blockchain_status := st, ord_blockchain_tx_hash := tx, ord_epoch_id := Some epoch\<rparr>"
    and pda: "cf_per_user_escrow cfg \<longrightarrow> pda = None" and escrow: "auth \<noteq> None \<longleftrightarrow> cf_per_user_escrow cfg"
    and own: "\<forall>j \<in> fst ` set_option auth. i = j"
  shows "finishes cfg user req (terms, meter, auth, expires) w r w'"
  using run
proof (cases rule: gate_bind_cases)
  case (panic f)
  from panic(1) show ?thesis by (rule or_refuse_call) simp_all
next
  case (refused e)
  from refused(1) show ?thesis
    by (rule or_refuse_call) (use refused(2) u3 in \<open>auto intro!: finishes_refused intro: unrecorded_trans\<close>)
next
  case (passed x w4)
  obtain p where p: "order_created_event o' = OrderCreated p" "ocp_id p = ord_id o'" "ocp_user_id p = ord_user_id o'"
    by (simp add: order_created_event_def)
  from passed(1) obtain y where ins: "insert_order_with_event o' (OrderCreated p) (w_db_now w3) (w_store w3) = Inr (y, w_store w4)"
      and w4: "w_wake w4 = w_wake w3" "w_now w4 = w_now w3"
    by (rule or_refuse_call) (auto simp: p)
  from ins obtain energy price where e: "num8 (ord_energy_amount o') = Some energy" "num8 (ord_price_per_kwh o') = Some price"
      "0 < energy" "0 < price" "ord_id o' \<notin> odb_id ` set (db_orders (w_store w3))"
      "db_orders (w_store w4) = db_orders (w_store w3) @ [new_order_row (w_db_now w3) o' energy price]"
      "map obx_payload (db_outbox (w_store w4)) = map obx_payload (db_outbox (w_store w3)) @ [OrderCreated p]"
    by (rule insert_appends)
  define row where "row = new_order_row (w_db_now w3) o' energy price"
  have row: "row_for user req terms meter expires row" "odb_id row = ord_id o'" "odb_user_id row = ord_user_id o'"
      "odb_signature row = None" "cf_per_user_escrow cfg \<longrightarrow> odb_order_pda row = None"
    using e pda by (simp_all add: row_def row_for_def new_order_row_def o' rest_order_def)
  have app: "appended w w4 row"
    using e p row u3 by (auto simp: appended_def unrecorded_def row_def)
  have wake4: "w_wake w4 = w_wake w" using w4 u3 by (simp add: unrecorded_def)
  have seg: "ord_market_segment o' = ot_segment terms" by (simp add: o' rest_order_def)
  have tail: "finishes cfg user req (terms, meter, auth, expires) w r w'"
    if done': "gate_bind (wake_for o') (\<lambda>_. pass \<lparr>so_id = ord_id o', so_status = ''open'', so_created_at = made_at\<rparr>) w5 = (r, w')"
      and a5: "appended w w5 row'" and w5: "w_wake w5 = w_wake w"
      and r5: "row_for user req terms meter expires row'" "odb_id row' = ord_id o'"
        "odb_signature row' = map_option (\<lambda>(_, signature, _). signature) auth" "cf_per_user_escrow cfg \<longrightarrow> odb_order_pda row' = None"
    for w5 row'
  proof -
    have "r = Inr (Inr \<lparr>so_id = ord_id o', so_status = ''open'', so_created_at = made_at\<rparr>)
        \<and> w' = (if ot_segment terms = Realtime then w5\<lparr>w_wake := True\<rparr> else w5)"
      using done' by (auto simp: gate_bind_def wake_for_def and_then_def request_cycle_def pass_def ok_def seg split: if_splits)
    moreover have "\<forall>j \<in> fst ` set_option auth. odb_id row' = j" using own r5(2) by (simp add: o' rest_order_def)
    ultimately show ?thesis
      using a5 w5 r5 by (auto simp: finishes_def appended_def intro!: exI[of _ row'])
  qed
  show ?thesis
  proof (cases auth)
    case None
    then have "gate_bind (wake_for o') (\<lambda>_. pass \<lparr>so_id = ord_id o', so_status = ''open'', so_created_at = made_at\<rparr>) w4 = (r, w')"
      using passed(2) by (simp add: store_signature_def gate_bind_def and_then_def pass_def ok_def)
    then show ?thesis using tail[OF _ app wake4 row(1,2)] row(4,5) None by simp
  next
    case (Some a)
    then obtain i' sig ex where a: "auth = Some (i', sig, ex)" by (cases a) auto
    have per: "cf_per_user_escrow cfg" using escrow Some by simp
    from passed(2) show ?thesis
    proof (cases rule: gate_bind_cases)
      case (panic f)
      from panic(1)[unfolded a store_signature_def option.case prod.case] show ?thesis by (rule or_refuse_call) simp_all
    next
      case (refused e)
      from refused(1)[unfolded a store_signature_def option.case prod.case] show ?thesis
      proof (rule or_refuse_call)
        fix x assume x: "Inr (Inl e) = Inr (Inl (SignatureNotStored x))" "unrecorded w4 w'"
        have "appended w w' row" "w_wake w' = w_wake w" using app wake4 x(2) by (simp_all add: appended_def unrecorded_def)
        then show ?thesis using refused(2) x(1) per row by (auto simp: finishes_def)
      qed simp_all
    next
      case (passed y w5)
      from passed(1)[unfolded a store_signature_def option.case prod.case] obtain z where
          sg: "set_wallet_signature (ord_id o') sig (w_db_now w4) (w_store w4) = Inr (z, w_store w5)" and k5: "w_wake w5 = w_wake w4"
        by (rule or_refuse_call) auto
      have s5: "db_orders (w_store w5) = db_orders (w_store w3) @ [row\<lparr>odb_signature := Some sig\<rparr>] \<and> db_outbox (w_store w5) = db_outbox (w_store w4)"
        by (rule signed_row_only[OF sg]) (use e(5,6) row(2) in \<open>simp_all add: row_def\<close>)
      have "appended w w5 (row\<lparr>odb_signature := Some sig\<rparr>)"
        using s5 app u3 by (auto simp: appended_def unrecorded_def)
      then show ?thesis
        using tail[OF passed(2)] k5 wake4 row a by simp
    qed
  qed
qed

lemma record_order_finishes:
  assumes run: "record_order cfg E user req (terms, meter, auth, expires) w = (r, w')"
    and escrow: "auth \<noteq> None \<longleftrightarrow> cf_per_user_escrow cfg"
  shows "finishes cfg user req (terms, meter, auth, expires) w r w'"
proof -
  obtain i w1 where u1: "unrecorded w w1" and own: "\<forall>j \<in> fst ` set_option auth. i = j" and r1: "and_then telemetry_now (\<lambda>now.
     gate_bind (place_gate cfg E req (rest_order user req terms meter i expires now)) (\<lambda>placed.
     gate_bind (or_refuse EpochFailed (db_call get_or_create_active_epoch)) (\<lambda>epoch.
     let o' = placed\<lparr>ord_epoch_id := Some epoch\<rparr> in
     gate_bind (or_refuse InsertFailed (db_call (insert_order_with_event o' (order_created_event o')))) (\<lambda>_.
     gate_bind (store_signature auth (ord_id o')) (\<lambda>_.
     gate_bind (wake_for o') (\<lambda>_.
     pass \<lparr>so_id = ord_id o', so_status = ''open'', so_created_at = unwrap_or (ord_created_at o') now\<rparr>)))))) w1 = (r, w')"
    using run unfolding record_order_def prod.case by (rule draw_order_id) blast
  define base where "base = rest_order user req terms meter i expires (w_now w1)"
  have r2: "gate_bind (place_gate cfg E req base) (\<lambda>placed.
     gate_bind (or_refuse EpochFailed (db_call get_or_create_active_epoch)) (\<lambda>epoch.
     let o' = placed\<lparr>ord_epoch_id := Some epoch\<rparr> in
     gate_bind (or_refuse InsertFailed (db_call (insert_order_with_event o' (order_created_event o')))) (\<lambda>_.
     gate_bind (store_signature auth (ord_id o')) (\<lambda>_.
     gate_bind (wake_for o') (\<lambda>_.
     pass \<lparr>so_id = ord_id o', so_status = ''open'', so_created_at = unwrap_or (ord_created_at o') (w_now w1)\<rparr>))))) w1 = (r, w')"
    using r1 by (simp add: and_then_def telemetry_now_def base_def)
  from r2 show ?thesis
  proof (cases rule: gate_bind_cases)
    case (panic f)
    then show ?thesis using place_gate_cases[OF panic(1)] u1 by (auto intro: finishes_refused)
  next
    case (refused e)
    then show ?thesis using place_gate_cases[OF refused(1)] u1 by (auto intro!: finishes_refused)
  next
    case (passed placed w2)
    then obtain pda idx st tx where w2: "w2 = w1" and placed: "placed = base\<lparr>ord_order_pda := pda, ord_order_index := idx,
        ord_blockchain_status := st, ord_blockchain_tx_hash := tx\<rparr>" and pda: "cf_per_user_escrow cfg \<longrightarrow> pda = None"
      using place_gate_cases[OF passed(1)] by (auto simp: base_def rest_order_def)
    from passed(2) show ?thesis unfolding w2
    proof (cases rule: gate_bind_cases)
      case (panic f)
      from panic(1) show ?thesis by (rule or_refuse_call) simp_all
    next
      case (refused e)
      from refused(1) show ?thesis
        by (rule or_refuse_call) (use refused(2) u1 in \<open>auto intro!: finishes_refused intro: unrecorded_trans\<close>)
    next
      case (passed epoch w3)
      have u3: "unrecorded w w3"
        using passed(1)
        by (rule or_refuse_call) (use u1 in \<open>auto simp: unrecorded_def dest!: epoch_keeps_books\<close>)
      define o' where "o' = placed\<lparr>ord_epoch_id := Some epoch\<rparr>"
      have r4: "gate_bind (or_refuse InsertFailed (db_call (insert_order_with_event o' (order_created_event o')))) (\<lambda>_.
         gate_bind (store_signature auth (ord_id o')) (\<lambda>_.
         gate_bind (wake_for o') (\<lambda>_.
         pass \<lparr>so_id = ord_id o', so_status = ''open'', so_created_at = unwrap_or (ord_created_at o') (w_now w1)\<rparr>))) w3 = (r, w')"
        using passed(2) by (simp add: o'_def Let_def)
      show ?thesis
        by (rule record_tail[OF r4 u3 _ pda escrow own]) (simp add: o'_def placed base_def)
    qed
  qed
qed

section \<open>The handler keeps its promise\<close>

lemma submit_unrecorded:
  assumes "unrecorded w w1" "finishes cfg user req adm w1 r w'"
  shows "finishes cfg user req adm w r w'"
  using assms by (auto simp: finishes_def unrecorded_def appended_def split: prod.splits sum.splits refusal.splits)

lemma submit_order_outcome:
  assumes run: "submit_order C D cfg rates E role user req w = (r, w')"
  shows "(\<exists>adm. admissible C D cfg rates E user req (w_now w) adm \<and> finishes cfg user req adm w r w')
    \<or> (unrecorded w w' \<and> (\<forall>resp. r \<noteq> Inr (Inr resp)))"
proof -
  have U: "unsent (w_store w) (w_wake w) (w_now w) (w_db_now w) w" by (simp add: unsent_def)
  have keep: "unrecorded w (snd (admit C D cfg rates E role user req w))"
    and adm: "fst (admit C D cfg rates E role user req w) = Inr (Inr adm) \<Longrightarrow> admissible C D cfg rates E user req (w_now w) adm" for adm
    using admit_gates[of "w_store w" "w_wake w" "w_now w" "w_db_now w" C D cfg rates E role user req, unfolded gates_def, rule_format, OF U]
    unfolding unsent_def unrecorded_def by simp_all
  from run[unfolded submit_order_def] show ?thesis
  proof (cases rule: gate_bind_cases)
    case (panic f)
    then show ?thesis using keep by simp
  next
    case (refused e)
    then show ?thesis using keep by simp
  next
    case (passed x w1)
    obtain terms meter auth expires where x: "x = (terms, meter, auth, expires)" by (cases x)
    have a: "admissible C D cfg rates E user req (w_now w) x" by (rule adm) (simp add: passed(1))
    have "auth \<noteq> None \<longleftrightarrow> cf_per_user_escrow cfg" using a by (auto simp: x admissible_def split: option.splits)
    then have "finishes cfg user req x w1 r w'" using record_order_finishes passed(2) unfolding x by blast
    moreover have "unrecorded w w1" using keep passed(1) by simp
    ultimately show ?thesis using a submit_unrecorded by blast
  qed
qed


section \<open>Runs\<close>

definition submit_world :: "bool list \<Rightarrow> world" where
  "submit_world faults = \<lparr>w_store = \<lparr>db_orders = [], db_settlements = [], db_matches = [], db_outbox = [],
     db_epochs = [], db_rules = [], db_alerts = [], db_ids = [41, 42, 43]\<rparr>,
     w_faults = faults, w_now = 1000, w_db_now = 1000, w_audit = [], w_sent = [], w_wake = False\<rparr>"

definition submit_edge :: edge where
  "submit_edge = \<lparr>ed_parse_decimal = (\<lambda>s. if s = ''2'' then Inr 2 else if s = ''4.5'' then Inr (9 / 2) else Inl ''invalid''),
     ed_meters = [\<lparr>me_serial_number = ''M1'', me_meter_id = 77, me_user_id = 7, me_zone_id = Some 1, me_status = Some ''active'',
       me_is_verified = True, me_updated_at = 0\<rparr>],
     ed_wallet = Inr (Some ''W''), ed_balance = (\<lambda>_. Inr 9000000), ed_signer_wallet = Inr (Some ''W''),
     ed_signatures = \<lparr>sg_base58 = (\<lambda>s. Inr (if s = ''W'' then replicate 32 1 else replicate 64 2)), sg_is_key = (\<lambda>_. True),
       sg_verify_strict = (\<lambda>_ _ _. True)\<rparr>,
     ed_place = (\<lambda>_ _ _ _ _ _ _. Inl (Blockchain ''connection refused''))\<rparr>"

definition escrow_config :: "bool \<Rightarrow> service_config" where
  "escrow_config per_user = \<lparr>cf_trade_settlement = True, cf_per_user_escrow = per_user, cf_min_price = 1,
     cf_default_ttl = 900, cf_max_ttl = 86400\<rparr>"

definition sell_request :: submit_order_request where
  "sell_request = \<lparr>sr_side = ''Sell'', sr_order_type = ''limit'', sr_energy_amount_kwh = ''2'', sr_price_per_kwh = Some ''4.5'',
     sr_zone_id = 1, sr_meter_id = None, sr_meter_serial = Some ''M1'', sr_custodial_sign = None, sr_time_in_force = None,
     sr_market_segment = None, sr_expires_at = None, sr_expires_in_secs = None, sr_order_id = Some 500,
     sr_wallet_signature = Some ''SIG'', sr_signed_expires_at = Some 60\<rparr>"

definition buy_request :: submit_order_request where
  "buy_request = sell_request\<lparr>sr_side := ''buy'', sr_meter_serial := None\<rparr>"

definition demo_submit :: "bool \<Rightarrow> bool list \<Rightarrow> submit_order_request \<Rightarrow> (failure + (refusal + submit_order_response)) \<times> world" where
  "demo_submit per_user faults req =
     submit_order chrono_utc exact_dec (escrow_config per_user) deployed_rates submit_edge (Inr ()) 7 req (submit_world faults)"

lemma demo_sell_run:
  "fst (demo_submit False [] sell_request) = Inr (Inr \<lparr>so_id = 41, so_status = ''open'', so_created_at = 1000\<rparr>)
   \<and> map odb_side (db_orders (w_store (snd (demo_submit False [] sell_request)))) = [Sell]"
  by code_simp


text \<open>A refused order can be matched.  Under per-user escrow the signature is written after the order;
  when that write fails the client is answered 500, but the row stays, live, without the signature it
  would need to settle, and the matcher's next cycle reads it.\<close>

theorem unsigned_order_rests:
  "\<exists>e. fst (demo_submit True [False, False, True] buy_request) = Inr (Inl e) \<and> rest_status e = 500
     \<and> map ord_id (get_active_buy_orders (w_store (snd (demo_submit True [False, False, True] buy_request)))) = [500]
     \<and> map odb_signature (db_orders (w_store (snd (demo_submit True [False, False, True] buy_request)))) = [None]"
proof -
  have "fst (demo_submit True [False, False, True] buy_request) = Inr (Inl (SignatureNotStored (Database ''connection lost'')))" by code_simp
  moreover have "map ord_id (get_active_buy_orders (w_store (snd (demo_submit True [False, False, True] buy_request)))) = [500]" by code_simp
  moreover have "map odb_signature (db_orders (w_store (snd (demo_submit True [False, False, True] buy_request)))) = [None]" by code_simp
  ultimately show ?thesis by simp
qed

text \<open>Cancelling always reports success: with a working database the handler answers that the order is
  cancelled for any identifier, and an order that is filled, or another user's, is as it was.\<close>

theorem cancel_reports_success:
  assumes "healthy w"
  shows "fst (rest_cancel_order (Inr ()) user i w) = Inr (Inr i)
    \<and> (\<forall>row\<in>set (db_orders (w_store w)). odb_id row \<noteq> i \<or> odb_user_id row \<noteq> user \<or> \<not> open_status (odb_status row)
         \<longrightarrow> row \<in> set (db_orders (w_store (snd (rest_cancel_order (Inr ()) user i w)))))"
proof -
  have "rest_cancel_order (Inr ()) user i w = (Inr (Inr i), w\<lparr>w_faults := tl (w_faults w), w_store := snd (projr (cancel_order i user (w_db_now w) (w_store w)))\<rparr>)"
    by (simp add: rest_cancel_order_def gate_bind_def of_result_def pass_def and_then_def or_refuse_def attempt_def ok_def
        db_call_healthy[OF assms] cancel_order_def Let_def)
  then show ?thesis
    by (auto simp: cancel_order_def Let_def set_update_where image_iff)
qed

definition filled_world :: world where
  "filled_world = (submit_world [])\<lparr>w_store := (w_store (submit_world []))\<lparr>db_orders :=
     map (\<lambda>r. r\<lparr>odb_status := Order_Filled, odb_filled_amount := Some 2\<rparr>)
       (db_orders (w_store (snd (demo_submit False [] sell_request))))\<rparr>\<rparr>"

theorem cancel_reports_success_witness:
  "fst (rest_cancel_order (Inr ()) 7 41 filled_world) = Inr (Inr 41)
   \<and> map odb_status (db_orders (w_store filled_world)) = [Order_Filled]"
proof (rule conjI)
  have "healthy filled_world" by (simp add: healthy_def filled_world_def submit_world_def)
  then show "fst (rest_cancel_order (Inr ()) 7 41 filled_world) = Inr (Inr 41)"
    by (rule conjunct1[OF cancel_reports_success])
qed code_simp

end
