(* ===== verification/Chain_Gateway.thy ===== *)
theory Chain_Gateway imports Order_Submission begin

text \<open>
  \<open>trading-infra/src/blockchain/rpc/service.rs\<close> and \<open>blockchain/mod.rs\<close>: what the service asks of the
  chain.  The Solana SDK, the instruction builders, the bridge that submits transactions and the
  environment are the fields of \<open>client\<close>, whose second type parameter is an instruction as the builder
  returns it; the chain's own state, which submitting changes, is a parameter.  An \<open>anyhow\<close> error is
  its text, as an internal error of the API.
\<close>

section \<open>The client\<close>

type_synonym pubkey = "byte list"

datatype signature_state = Sig_Confirmed | Sig_Failed string | Sig_Pending

text \<open>The arguments of \<open>execute_atomic_settlement\<close>.\<close>

record settle_args =
  sa_market :: pubkey
  sa_buy_order :: pubkey
  sa_sell_order :: pubkey
  sa_buyer_currency_escrow :: pubkey
  sa_seller_energy_escrow :: pubkey
  sa_seller_currency_account :: pubkey
  sa_buyer_energy_account :: pubkey
  sa_fee_collector :: pubkey
  sa_wheeling_collector :: pubkey
  sa_loss_collector :: pubkey
  sa_energy_mint :: pubkey
  sa_currency_mint :: pubkey
  sa_escrow_authority :: pubkey
  sa_market_authority :: pubkey
  sa_amount :: int
  sa_price :: int
  sa_wheeling_charge :: int
  sa_loss_cost :: int
  sa_trade_id :: "byte list"

record signed_order_side =
  ss_order_id :: "byte list"
  ss_user :: pubkey
  ss_energy_amount :: int
  ss_price_per_kwh :: int
  ss_side :: byte
  ss_zone_id :: "32 word"
  ss_expires_at :: int
  ss_signature :: string

text \<open>The arguments of \<open>settle_offchain_match\<close>.\<close>

record offchain_args =
  oa_market :: pubkey
  oa_buyer :: signed_order_side
  oa_seller :: signed_order_side
  oa_currency_mint :: pubkey
  oa_energy_mint :: pubkey
  oa_amount :: int
  oa_price :: int
  oa_wheeling_charge :: int
  oa_loss_cost :: int
  oa_trade_id :: "byte list"
  oa_market_shards :: int
  oa_zone_shards :: int

text \<open>The arguments of \<open>record_order_custodial\<close>.\<close>

record record_args =
  ra_market :: pubkey
  ra_order_pda :: pubkey
  ra_order_id :: int
  ra_user :: pubkey
  ra_is_buy :: bool
  ra_energy :: int
  ra_price :: int
  ra_funder :: pubkey
  ra_zone :: "32 word"
  ra_expires :: int

record ('c, 'ix) client =
  cl_env :: "string \<Rightarrow> string option"
  cl_from_str :: "string \<Rightarrow> string + pubkey"
  cl_to_string :: "pubkey \<Rightarrow> string"
  cl_find_pda :: "byte list list \<Rightarrow> pubkey \<Rightarrow> pubkey"
  cl_ata :: "pubkey \<Rightarrow> pubkey \<Rightarrow> pubkey \<Rightarrow> string + pubkey"  \<comment> \<open>owner, mint, token program\<close>
  cl_token_2022 :: pubkey
  cl_currency_program :: pubkey
  cl_trading_program :: string
  cl_energy_mint :: "string + pubkey"
  cl_authority :: "string + pubkey"
  cl_base58 :: "string \<Rightarrow> string + byte list"
  cl_submit :: "'ix list \<Rightarrow> 'c \<Rightarrow> (string + string) \<times> 'c"
  cl_signature_state :: "string \<Rightarrow> nat \<Rightarrow> 'c \<Rightarrow> string + signature_state"  \<comment> \<open>at each poll\<close>
  cl_latency :: "nat \<Rightarrow> nat"  \<comment> \<open>milliseconds a poll takes beyond the pause\<close>
  cl_slot :: "'c \<Rightarrow> string + int"
  cl_account :: "pubkey \<Rightarrow> 'c \<Rightarrow> string + byte list"
  cl_create_ata :: "pubkey \<Rightarrow> pubkey \<Rightarrow> pubkey \<Rightarrow> pubkey \<Rightarrow> 'ix"  \<comment> \<open>payer, owner, mint, token program\<close>
  cl_settle :: "settle_args \<Rightarrow> string + 'ix"
  cl_ed25519 :: "pubkey \<Rightarrow> byte list \<Rightarrow> byte list \<Rightarrow> string + 'ix"
  cl_settle_offchain :: "offchain_args \<Rightarrow> string + 'ix"
  cl_record_order :: "record_args \<Rightarrow> string + 'ix"
  cl_priority_fee :: "'ix list \<Rightarrow> string + 'ix list"
  cl_market_shards :: "byte list \<Rightarrow> string + int"
  cl_zone_shards :: "byte list \<Rightarrow> string + int"
  cl_market_fee_bps :: "byte list \<Rightarrow> string + 16 word"
  cl_tariff_wheeling_rate :: "byte list \<Rightarrow> string + 64 word"
  cl_tariff_loss_bps :: "byte list \<Rightarrow> string + 16 word"

text \<open>What a call to the gateway may change: the chain, the mirrored wallets, and the faults to come.\<close>

record 'c gateway =
  gw_chain :: 'c
  gw_model :: read_model
  gw_faults :: "bool list"

text \<open>The fields of \<open>BlockchainService\<close> and the tables it reads.\<close>

record gateway_config =
  gc_db :: bool
  gc_trade_settlement :: bool
  gc_per_user_escrow :: bool
  gc_wallet_repo :: "(wallet_record list option \<times> wallet_record list option) option"
  gc_orders :: "order_row list"
  gc_now :: datetime

type_synonym ('c, 'a) bridge = "('c gateway, 'a) call"

section \<open>Errors, text and bytes\<close>

definition bail :: "string \<Rightarrow> ('c, 'a) bridge" where
  "bail msg = throw (Internal msg)"

definition of_any :: "string + 'a \<Rightarrow> ('c, 'a) bridge" where
  "of_any r = (case r of Inl msg \<Rightarrow> bail msg | Inr x \<Rightarrow> ok x)"

text \<open>\<open>e.to_string()\<close>, and \<open>map_err(|e| Internal(format!(\<dots>)))\<close>.\<close>

definition error_text :: "api_error \<Rightarrow> string" where
  "error_text e = (case e of Internal msg \<Rightarrow> msg | _ \<Rightarrow> api_error_str e)"

definition context_error :: "(string \<Rightarrow> string) \<Rightarrow> ('c, 'a) bridge \<Rightarrow> ('c, 'a) bridge" where
  "context_error f m g = (case m g of (Inl (Error e), g') \<Rightarrow> (Inl (Error (Internal (f (error_text e)))), g') | r \<Rightarrow> r)"

definition on_chain :: "('c \<Rightarrow> string + 'a) \<Rightarrow> ('c, 'a) bridge" where
  "on_chain f g = of_any (f (gw_chain g)) g"

definition gw_read :: "('c gateway \<Rightarrow> 'a) \<Rightarrow> ('c, 'a) bridge" where
  "gw_read f g = (case gw_faults g of
       True # fs \<Rightarrow> (Inl (Error (Internal ''connection lost'')), g\<lparr>gw_faults := fs\<rparr>)
     | fs \<Rightarrow> (Inr (f g), g\<lparr>gw_faults := tl fs\<rparr>))"

text \<open>\<open>str::parse\<close> of an unsigned integer of \<open>w\<close> bits.\<close>

definition digit_of :: "char \<Rightarrow> int option" where
  "digit_of c = (let n = of_char c :: int in if 48 \<le> n \<and> n \<le> 57 then Some (n - 48) else None)"

definition parse_digits :: "string \<Rightarrow> int option" where
  "parse_digits s = (if s = [] then None
     else fold_opt (\<lambda>c acc. map_option (\<lambda>d. 10 * acc + d) (digit_of c)) s 0)"

definition parse_unsigned :: "nat \<Rightarrow> string \<Rightarrow> int option" where
  "parse_unsigned w s = Option.bind (parse_digits (case s of c # cs \<Rightarrow> if c = CHR ''+'' then cs else s | [] \<Rightarrow> s))
     (\<lambda>n. if n < 2 ^ w then Some n else None)"

definition env_unsigned :: "('c, 'ix) client \<Rightarrow> string \<Rightarrow> nat option" where
  "env_unsigned K var = Option.bind (cl_env K var) (\<lambda>v. map_option nat (parse_unsigned 64 v))"

text \<open>\<open>from_le_bytes\<close>.\<close>

definition of_le_bytes :: "byte list \<Rightarrow> 'a::len word" where
  "of_le_bytes bs = foldr (\<lambda>b acc. word_of_int (uint b) + 256 * acc) bs 0"

section \<open>Keys\<close>

definition parse_pubkey :: "('c, 'ix) client \<Rightarrow> string \<Rightarrow> string + pubkey" where
  "parse_pubkey K s = (case cl_from_str K s of Inl e \<Rightarrow> Inl (''Invalid pubkey: '' @ e) | Inr p \<Rightarrow> Inr p)"

definition env_pubkey :: "('c, 'ix) client \<Rightarrow> string \<Rightarrow> string + pubkey" where
  "env_pubkey K var = parse_pubkey K (unwrap_or (cl_env K var) [])"

definition trading_program_id :: "('c, 'ix) client \<Rightarrow> string + pubkey" where
  "trading_program_id K = cl_from_str K (cl_trading_program K)"

definition seed_bytes :: "string \<Rightarrow> byte list" where
  "seed_bytes = map of_char"

definition market_pda :: "('c, 'ix) client \<Rightarrow> pubkey \<Rightarrow> pubkey" where
  "market_pda K program = cl_find_pda K [seed_bytes ''market''] program"

definition derive_order_pda :: "('c, 'ix) client \<Rightarrow> pubkey \<Rightarrow> int \<Rightarrow> string + pubkey" where
  "derive_order_pda K authority index =
     (case cl_from_str K (cl_trading_program K) of
        Inl e \<Rightarrow> Inl e
      | Inr program \<Rightarrow> Inr (cl_find_pda K [seed_bytes ''order'', authority, to_le_bytes (word_of_int index :: 64 word)] program))"

text \<open>The fee, wheeling and loss collectors' accounts.\<close>

definition collector_ata :: "('c, 'ix) client \<Rightarrow> pubkey \<Rightarrow> string \<Rightarrow> string + pubkey" where
  "collector_ata K mint var =
     (case env_pubkey K var of
        Inl e \<Rightarrow> Inl (var @ '': '' @ e)
      | Inr owner \<Rightarrow> cl_ata K owner mint (cl_currency_program K))"

definition collector_atas :: "('c, 'ix) client \<Rightarrow> string + pubkey \<times> pubkey \<times> pubkey" where
  "collector_atas K =
     (case env_pubkey K ''CURRENCY_TOKEN_MINT'' of
        Inl e \<Rightarrow> Inl e
      | Inr mint \<Rightarrow>
          (case collector_ata K mint ''FEE_COLLECTOR_WALLET'' of
             Inl e \<Rightarrow> Inl e
           | Inr fee \<Rightarrow>
               (case collector_ata K mint ''WHEELING_COLLECTOR_WALLET'' of
                  Inl e \<Rightarrow> Inl e
                | Inr wheeling \<Rightarrow>
                    (case collector_ata K mint ''LOSS_COLLECTOR_WALLET'' of
                       Inl e \<Rightarrow> Inl e
                     | Inr loss \<Rightarrow> Inr (fee, wheeling, loss)))))"

section \<open>Wallets, orders and what they signed\<close>

text \<open>A wallet that was never projected is fetched from the source of the mirror.\<close>

definition reconcile_wallet ::
  "wallet_record list option \<Rightarrow> wallet_record list option \<Rightarrow> uuid \<Rightarrow> datetime \<Rightarrow> ('c, string option) bridge" where
  "reconcile_wallet pool local_table u now =
     and_then (gw_read (\<lambda>g. backfill_wallet_for pool local_table u now (gw_model g))) (\<lambda>(m, res) g.
       (case res of
          Inl e \<Rightarrow> (Inl (Error (Internal (api_error_str e))), g\<lparr>gw_model := m\<rparr>)
        | Inr addr \<Rightarrow> (Inr addr, g\<lparr>gw_model := m\<rparr>)))"

definition get_user_primary_wallet ::
  "('c, 'ix) client \<Rightarrow> gateway_config \<Rightarrow> uuid \<Rightarrow> ('c, pubkey option) bridge" where
  "get_user_primary_wallet K cfg u =
     (if \<not> gc_db cfg then bail ''Database pool not available in BlockchainService''
      else and_then (gw_read (\<lambda>g. primary_wallet u (gw_model g))) (\<lambda>row.
        case row of
          Some addr \<Rightarrow> and_then (of_any (parse_pubkey K addr)) (\<lambda>p. ok (Some p))
        | None \<Rightarrow>
            (case gc_wallet_repo cfg of
               None \<Rightarrow> ok None
             | Some (pool, local_table) \<Rightarrow>
                 and_then (context_error (\<lambda>e. ''lazy wallet read-model reconcile failed for '' @ uuid_str u @ '': '' @ e)
                     (reconcile_wallet pool local_table u (gc_now cfg))) (\<lambda>healed.
                 case healed of
                   None \<Rightarrow> ok None
                 | Some addr \<Rightarrow> and_then (of_any (parse_pubkey K addr)) (\<lambda>p. ok (Some p))))))"

definition get_user_wallet :: "('c, 'ix) client \<Rightarrow> gateway_config \<Rightarrow> uuid \<Rightarrow> ('c, string option) bridge" where
  "get_user_wallet K cfg u =
     and_then (context_error (\<lambda>e. ''Failed to resolve user wallet: '' @ e) (get_user_primary_wallet K cfg u))
       (\<lambda>p. ok (map_option (cl_to_string K) p))"

definition order_at :: "uuid \<Rightarrow> gateway_config \<Rightarrow> order_row option" where
  "order_at i cfg = find (\<lambda>r. odb_id r = i) (gc_orders cfg)"

definition get_order_pda :: "('c, 'ix) client \<Rightarrow> gateway_config \<Rightarrow> uuid \<Rightarrow> ('c, pubkey option) bridge" where
  "get_order_pda K cfg i =
     (if \<not> gc_db cfg then bail ''Database pool not available in BlockchainService''
      else and_then (gw_read (\<lambda>_. Option.bind (order_at i cfg) odb_order_pda)) (\<lambda>pda.
        case pda of
          None \<Rightarrow> ok None
        | Some p \<Rightarrow> and_then (of_any (parse_pubkey K p)) (\<lambda>k. ok (Some k))))"

definition get_signed_order_side ::
  "dec_ops \<Rightarrow> ('c, 'ix) client \<Rightarrow> gateway_config \<Rightarrow> uuid \<Rightarrow> ('c, signed_order_side option) bridge" where
  "get_signed_order_side D K cfg i =
     (if \<not> gc_db cfg then bail ''Database pool not available in BlockchainService''
      else and_then (gw_read (\<lambda>_. order_at i cfg)) (\<lambda>row.
        case row of
          None \<Rightarrow> ok None
        | Some r \<Rightarrow>
            (case odb_signature r of
               None \<Rightarrow> ok None
             | Some signature \<Rightarrow>
                 and_then (get_user_primary_wallet K cfg (odb_user_id r)) (\<lambda>w.
                 case w of
                   None \<Rightarrow> ok None
                 | Some wallet \<Rightarrow>
                     and_then (of_any (case energy_to_base_units D (odb_energy_amount r) of
                         None \<Rightarrow> Inl (''order '' @ uuid_str i @ '': energy out of range'') | Some v \<Rightarrow> Inr v)) (\<lambda>energy.
                     and_then (of_any (case currency_to_base_units D (odb_price_per_kwh r) of
                         None \<Rightarrow> Inl (''order '' @ uuid_str i @ '': price out of range'') | Some v \<Rightarrow> Inr v)) (\<lambda>price.
                     ok (Some \<lparr>ss_order_id = uuid_bytes i, ss_user = wallet, ss_energy_amount = energy,
                               ss_price_per_kwh = price,
                               ss_side = (if eq_ignore_ascii_case (order_side_str (odb_side r)) ''sell'' then side_sell else side_buy),
                               ss_zone_id = u32_of_zone (unwrap_or (odb_zone_id r) 0),
                               ss_expires_at = (case odb_expires_at r of None \<Rightarrow> 0 | Some t \<Rightarrow> t div nanos),
                               ss_signature = signature\<rparr>)))))))"

text \<open>The bytes the settlement builder replays into the program.\<close>

definition side_message :: "signed_order_side \<Rightarrow> byte list" where
  "side_message s = message_for (ss_order_id s) (ss_user s) (word_of_int (ss_energy_amount s))
     (word_of_int (ss_price_per_kwh s)) (ss_side s) (ss_zone_id s) (word_of_int (ss_expires_at s))"

section \<open>Confirmation\<close>

text \<open>Poll \<open>k\<close> at \<open>t\<close> milliseconds; between two polls at least half a second passes.\<close>

function wait_poll :: "('c, 'ix) client \<Rightarrow> string \<Rightarrow> nat \<Rightarrow> 'c \<Rightarrow> nat \<Rightarrow> nat \<Rightarrow> string + bool" where
  "wait_poll K sig limit c k t =
     (case cl_signature_state K sig k c of
        Inr Sig_Confirmed \<Rightarrow> Inr True
      | Inr (Sig_Failed err) \<Rightarrow> Inl (''transaction '' @ sig @ '' failed on-chain: '' @ err)
      | _ \<Rightarrow> if limit \<le> t then Inr False else wait_poll K sig limit c (Suc k) (t + 500 + cl_latency K (Suc k)))"
  by pat_completeness auto
termination by (relation "measure (\<lambda>(K, sig, limit, c, k, t). limit - t)") auto

declare wait_poll.simps [simp del]

definition wait_for_confirmation :: "('c, 'ix) client \<Rightarrow> string \<Rightarrow> nat \<Rightarrow> ('c, bool) bridge" where
  "wait_for_confirmation K sig timeout_secs =
     on_chain (\<lambda>c. wait_poll K sig (timeout_secs * 1000) c 0 (cl_latency K 0))"

definition submit_instructions :: "('c, 'ix) client \<Rightarrow> 'ix list \<Rightarrow> ('c, string) bridge" where
  "submit_instructions K ixs g = (case cl_submit K ixs (gw_chain g) of (r, c) \<Rightarrow> of_any r (g\<lparr>gw_chain := c\<rparr>))"

section \<open>Placing an order\<close>

definition record_order_on_chain ::
  "('c, 'ix) client \<Rightarrow> pubkey \<Rightarrow> int \<Rightarrow> bool \<Rightarrow> int \<Rightarrow> int \<Rightarrow> 32 word \<Rightarrow> int \<Rightarrow> ('c, string \<times> pubkey) bridge" where
  "record_order_on_chain K user_wallet order_id is_buy energy_atomic price_atomic zone expires =
     and_then (of_any (cl_authority K)) (\<lambda>funder.
     and_then (of_any (trading_program_id K)) (\<lambda>program.
     and_then (of_any (derive_order_pda K user_wallet order_id)) (\<lambda>order_pda.
     and_then (of_any (cl_record_order K \<lparr>ra_market = market_pda K program, ra_order_pda = order_pda, ra_order_id = order_id,
         ra_user = user_wallet, ra_is_buy = is_buy, ra_energy = energy_atomic, ra_price = price_atomic, ra_funder = funder,
         ra_zone = zone, ra_expires = expires\<rparr>)) (\<lambda>ix.
     and_then (submit_instructions K [ix]) (\<lambda>signature.
     let confirm_timeout = unwrap_or (env_unsigned K ''ORDER_CONFIRM_TIMEOUT_SECS'') 30 in
     and_then (attempt (wait_for_confirmation K signature confirm_timeout)) (\<lambda>answer.
     case answer of
       Inr True \<Rightarrow> ok (signature, order_pda)
     | Inr False \<Rightarrow> bail (''order placement '' @ signature @ '' not confirmed within '' @ nat_str confirm_timeout @ ''s'')
     | Inl e \<Rightarrow> bail (''order placement '' @ signature @ '' confirmation failed: '' @ error_text e)))))))"

definition atomic_or_error :: "dec_ops \<Rightarrow> decimal \<Rightarrow> int \<Rightarrow> string \<Rightarrow> ('c, int) bridge" where
  "atomic_or_error D v scale msg =
     and_then (or_panic (dmul D v (of_int scale))) (\<lambda>x.
     case to_u64 (dec_trunc x) of None \<Rightarrow> throw (Validation msg) | Some n \<Rightarrow> ok n)"

definition place_order_on_chain ::
  "dec_ops \<Rightarrow> ('c, 'ix) client \<Rightarrow> gateway_config \<Rightarrow> uuid \<Rightarrow> bool \<Rightarrow> decimal \<Rightarrow> decimal \<Rightarrow> int \<Rightarrow> int \<Rightarrow> int
     \<Rightarrow> ('c, string \<times> string) bridge" where
  "place_order_on_chain D K cfg user is_buy energy price zone seed expires =
     and_then (context_error (\<lambda>e. ''resolve wallet: '' @ e) (get_user_primary_wallet K cfg user)) (\<lambda>found.
     case found of
       None \<Rightarrow> throw (Validation (''no on-chain wallet for user '' @ uuid_str user))
     | Some wallet \<Rightarrow>
         and_then (atomic_or_error D energy 1000000000 ''energy amount out of range'') (\<lambda>energy_atomic.
         and_then (atomic_or_error D price 1000000 ''price out of range'') (\<lambda>price_atomic.
         and_then (context_error (\<lambda>e. ''place_order_on_chain: '' @ e)
             (record_order_on_chain K wallet seed is_buy energy_atomic price_atomic (u32_of_zone zone) expires)) (\<lambda>(sig, pda).
         ok (sig, cl_to_string K pda)))))"

section \<open>Reading accounts\<close>

definition currency_balance :: "dec_ops \<Rightarrow> ('c, 'ix) client \<Rightarrow> pubkey \<Rightarrow> ('c, decimal) bridge" where
  "currency_balance D K ata =
     and_then (on_chain (cl_account K ata)) (\<lambda>data.
     if length data < 72
     then bail (''account '' @ cl_to_string K ata @ '' is not an SPL token account ('' @ nat_str (length data) @ '' bytes)'')
     else or_panic (ddiv D (of_int (uint (of_le_bytes (take 8 (drop 64 data)) :: 64 word))) 1000000))"

definition collector_balance :: "dec_ops \<Rightarrow> ('c, 'ix) client \<Rightarrow> pubkey \<Rightarrow> ('c, decimal) bridge" where
  "collector_balance D K ata =
     context_error (\<lambda>e. ''collector balance read failed for '' @ cl_to_string K ata @ '': '' @ e) (currency_balance D K ata)"

definition collector_balances :: "dec_ops \<Rightarrow> ('c, 'ix) client \<Rightarrow> ('c, charge_totals) bridge" where
  "collector_balances D K =
     and_then (of_any (collector_atas K)) (\<lambda>(fee, wheeling, loss).
     and_then (collector_balance D K fee) (\<lambda>f.
     and_then (collector_balance D K wheeling) (\<lambda>w.
     and_then (collector_balance D K loss) (\<lambda>l.
     ok \<lparr>ct_fee = f, ct_wheeling = w, ct_loss = l\<rparr>))))"

definition read_charge_rates :: "('c, 'ix) client \<Rightarrow> ('c, static_charge_rates) bridge" where
  "read_charge_rates K =
     and_then (of_any (trading_program_id K)) (\<lambda>program.
     and_then (on_chain (cl_account K (market_pda K program))) (\<lambda>market.
     and_then (on_chain (cl_account K (cl_find_pda K [seed_bytes ''tariff_config''] program))) (\<lambda>tariff.
     and_then (of_any (cl_market_fee_bps K market)) (\<lambda>fee.
     and_then (of_any (cl_tariff_wheeling_rate K tariff)) (\<lambda>wheeling.
     and_then (of_any (cl_tariff_loss_bps K tariff)) (\<lambda>loss.
     ok \<lparr>scr_fee_bps = fee, scr_wheeling_rate_per_kwh = wheeling, scr_loss_bps = loss\<rparr>))))))"

text \<open>The zone's on-chain configuration; an account that cannot be read is the default.\<close>

record zone_config =
  zc_zone_id :: int
  zc_incentive_multiplier :: decimal
  zc_wheeling_charge :: decimal
  zc_maintenance_mode :: bool
  zc_last_updated :: datetime

definition u64_at :: "nat \<Rightarrow> byte list \<Rightarrow> 64 word" where
  "u64_at k data = of_le_bytes (take 8 (drop k data))"

definition get_zone_config ::
  "dec_ops \<Rightarrow> clock_range \<Rightarrow> ('c, 'ix) client \<Rightarrow> gateway_config \<Rightarrow> (int \<Rightarrow> string + pubkey) \<Rightarrow> int \<Rightarrow> ('c, zone_config) bridge" where
  "get_zone_config D C K cfg zone_config_pda zone =
     and_then (context_error (\<lambda>e. ''PDA derivation error: '' @ e) (of_any (zone_config_pda (uint (u32_of_zone zone))))) (\<lambda>pda.
     and_then (attempt (on_chain (cl_account K pda))) (\<lambda>account.
     case account of
       Inl _ \<Rightarrow> ok \<lparr>zc_zone_id = zone, zc_incentive_multiplier = 1, zc_wheeling_charge = 0, zc_maintenance_mode = False,
                     zc_last_updated = gc_now cfg\<rparr>
     | Inr data \<Rightarrow>
         if length data < 8 + 136 then throw (Internal ''Invalid ZoneConfig account data size'')
         else
           and_then (or_panic (ddiv D (of_int (uint (u64_at 16 data))) 10000)) (\<lambda>multiplier.
           and_then (or_panic (ddiv D (of_int (uint (u64_at 24 data))) 10000)) (\<lambda>wheeling.
           ok \<lparr>zc_zone_id = zone, zc_incentive_multiplier = multiplier, zc_wheeling_charge = wheeling,
               zc_maintenance_mode = data ! 32 \<noteq> 0,
               zc_last_updated = unwrap_or (from_timestamp C (sint (u64_at 72 data))) (gc_now cfg)\<rparr>))))"

section \<open>Runs\<close>

text \<open>A client for concrete runs: a key is the bytes of its text, except for the wallet \<open>W\<close>, and every account
  exists, and the first poll is the last; sending a transaction and its state are given.\<close>

definition base_client ::
  "(byte list list \<Rightarrow> 'c \<Rightarrow> (string + string) \<times> 'c) \<Rightarrow> ('c \<Rightarrow> signature_state) \<Rightarrow> ('c, byte list) client" where
  "base_client submit state = \<lparr>
     cl_env = (\<lambda>v. if v = ''SETTLEMENT_CONFIRM_TIMEOUT_SECS'' \<or> v = ''ORDER_CONFIRM_TIMEOUT_SECS'' then Some ''0'' else None), cl_from_str = (\<lambda>s. Inr (if s = ''W'' then replicate 32 1 else map of_char s)),
     cl_to_string = (\<lambda>p. if p = replicate 32 1 then ''W'' else map (\<lambda>b. char_of (unat b)) p), cl_find_pda = (\<lambda>seeds program. concat seeds),
     cl_ata = (\<lambda>owner mint program. Inr (owner @ mint)), cl_token_2022 = [22], cl_currency_program = [6],
     cl_trading_program = ''T'', cl_energy_mint = Inr [9], cl_authority = Inr [7], cl_base58 = (\<lambda>_. Inr (replicate 64 2)),
     cl_submit = submit, cl_signature_state = (\<lambda>_ _ c. Inr (state c)), cl_latency = (\<lambda>_. 1),
     cl_slot = (\<lambda>_. Inr 1), cl_account = (\<lambda>_ _. Inr (replicate 144 0)), cl_create_ata = (\<lambda>_ _ _ _. []),
     cl_settle = (\<lambda>a. Inr (sa_trade_id a)), cl_ed25519 = (\<lambda>_ _ _. Inr []), cl_settle_offchain = (\<lambda>a. Inr (oa_trade_id a)),
     cl_record_order = (\<lambda>_. Inr []), cl_priority_fee = Inr, cl_market_shards = (\<lambda>_. Inr 4), cl_zone_shards = (\<lambda>_. Inr 4),
     cl_market_fee_bps = (\<lambda>_. Inr 25), cl_tariff_wheeling_rate = (\<lambda>_. Inr 0), cl_tariff_loss_bps = (\<lambda>_. Inr 0)\<rparr>"

definition idle_client :: "(unit, byte list) client" where
  "idle_client = base_client (\<lambda>_ c. (Inl ''connection refused'', c)) (\<lambda>_. Sig_Pending)"

definition gateway_for :: "order_row list \<Rightarrow> gateway_config" where
  "gateway_for rs = \<lparr>gc_db = True, gc_trade_settlement = True, gc_per_user_escrow = False, gc_wallet_repo = None, gc_orders = rs,
     gc_now = 1000\<rparr>"

definition primary_row :: "uuid \<Rightarrow> string \<Rightarrow> wallet_row" where
  "primary_row u addr = \<lparr>wr_user_id = u, wr_wallet_address = addr, wr_is_primary = True, wr_blockchain_registered = True,
     wr_user_account_pda = None, wr_shard_id = None, wr_updated_at = 0\<rparr>"

definition gateway_of :: "'c \<Rightarrow> wallet_row list \<Rightarrow> 'c gateway" where
  "gateway_of c ws = \<lparr>gw_chain = c, gw_model = \<lparr>rm_wallets = ws, rm_meters = []\<rparr>, gw_faults = []\<rparr>"

end
