(* ===== verification/Signed_Terms.thy ===== *)
theory Signed_Terms imports Chain_Gateway begin

text \<open>
  From submission to settlement: the bytes a wallet signed over an order, checked by \<open>rest/orders.rs\<close>, and the
  bytes the settlement builder rebuilds from the stored row by \<open>get_signed_order_side\<close>.  They are the same
  when the columns keep the terms exactly; the energy column does not keep all that can be signed.
\<close>

section \<open>The row of an accepted order\<close>

lemma find_appended: "i \<notin> odb_id ` set rs \<Longrightarrow> odb_id row = i \<Longrightarrow> find (\<lambda>r. odb_id r = i) (rs @ [row]) = Some row"
  by (induction rs) auto

text \<open>What an accepted order under per-user escrow leaves behind.\<close>

lemma signed_order_row:
  assumes run: "submit_order C D cfg rates E role user req w = (Inr (Inr resp), w')" and per: "cf_per_user_escrow cfg"
  obtains terms signature expires_at row where
    "signed_by D E req terms (so_id resp, signature, expires_at)"
    "find (\<lambda>r. odb_id r = so_id resp) (db_orders (w_store w')) = Some row"
    "odb_signature row = Some signature" "odb_user_id row = user" "odb_side row = ot_side terms"
    "num8 (ot_amount terms) = Some (odb_energy_amount row)" "num8 (ot_price terms) = Some (odb_price_per_kwh row)"
    "odb_zone_id row = Some (sr_zone_id req)" "odb_expires_at row = Some (expires_at * nanos)"
    "ed_parse_decimal E (sr_energy_amount_kwh req) = Inr (ot_amount terms)" "parse_price_input E (sr_price_per_kwh req) = Inr (ot_price_input terms)"
    "resolve_order_price (ot_type terms) (ot_side terms) (ot_tif terms) (ot_price_input terms) = Inr (ot_price terms)"
proof -
  obtain adm where a: "admissible C D cfg rates E user req (w_now w) adm" and f: "finishes cfg user req adm w (Inr (Inr resp)) w'"
    using submit_order_outcome[OF run] by auto
  obtain terms meter auth expires where adm: "adm = (terms, meter, auth, expires)" by (cases adm)
  obtain i signature expires_at where auth: "auth = Some (i, signature, expires_at)"
    using a per by (cases auth) (auto simp: adm admissible_def)
  obtain row where row: "row_for user req terms meter expires row" "appended w w' row" "so_id resp = odb_id row"
      "odb_signature row = Some signature" "odb_id row = i"
    using f by (auto simp: adm auth finishes_def)
  have sg: "signed_by D E req terms (i, signature, expires_at)"
    and ex: "resolve_expires_at C (w_now w) (sr_expires_at req) (sr_expires_in_secs req) (Some expires_at)
       (cf_default_ttl cfg) (cf_max_ttl cfg) = Inr expires"
    and am: "ed_parse_decimal E (sr_energy_amount_kwh req) = Inr (ot_amount terms)" "parse_price_input E (sr_price_per_kwh req) = Inr (ot_price_input terms)"
      "resolve_order_price (ot_type terms) (ot_side terms) (ot_tif terms) (ot_price_input terms) = Inr (ot_price terms)"
    using a by (simp_all add: adm auth admissible_def good_terms_def)
  have e: "expires = expires_at * nanos"
    using ex by (auto simp: resolve_expires_at_def Let_def from_timestamp_def check_window_def split: if_splits option.splits)
  have i: "i = so_id resp" using row(3,5) by simp
  have fd: "find (\<lambda>r. odb_id r = so_id resp) (db_orders (w_store w')) = Some row"
    using row(2,3) by (simp add: appended_def find_appended)
  note r = row(1)[unfolded row_for_def e]
  show thesis
    by (rule that[OF sg[unfolded i] fd row(4)]) (use r am in simp_all)
qed

section \<open>The bytes of the settlement builder\<close>

lemma gw_read_calm: "True \<notin> set (gw_faults g) \<Longrightarrow> gw_read f g = (Inr (f g), g\<lparr>gw_faults := tl (gw_faults g)\<rparr>)"
  by (cases "gw_faults g") (auto simp: gw_read_def split: bool.split)

lemma calm_tl: "True \<notin> set fs \<Longrightarrow> True \<notin> set (tl fs)"
  by (cases fs) auto

lemma primary_wallet_calm:
  assumes "gc_db cfg" "True \<notin> set (gw_faults g)" "primary_wallet u (gw_model g) = Some addr" "cl_from_str K addr = Inr p"
  shows "get_user_primary_wallet K cfg u g = (Inr (Some p), g\<lparr>gw_faults := tl (gw_faults g)\<rparr>)"
  using assms
  by (simp add: get_user_primary_wallet_def and_then_def gw_read_calm of_any_def parse_pubkey_def ok_def)

text \<open>What the builder makes of a row.\<close>

definition side_of_row :: "uuid \<Rightarrow> order_row \<Rightarrow> pubkey \<Rightarrow> int \<Rightarrow> int \<Rightarrow> string \<Rightarrow> signed_order_side" where
  "side_of_row i r wallet energy price signature =
     \<lparr>ss_order_id = uuid_bytes i, ss_user = wallet, ss_energy_amount = energy, ss_price_per_kwh = price,
      ss_side = (if odb_side r = Sell then side_sell else side_buy), ss_zone_id = u32_of_zone (unwrap_or (odb_zone_id r) 0),
      ss_expires_at = (case odb_expires_at r of None \<Rightarrow> 0 | Some t \<Rightarrow> t div nanos), ss_signature = signature\<rparr>"

lemma side_is_sell [simp]: "eq_ignore_ascii_case (order_side_str s) ''sell'' \<longleftrightarrow> s = Sell"
  by (cases s) (simp_all add: eq_ignore_ascii_case_def ascii_lower_def)

lemma signed_side_calm:
  assumes "gc_db cfg" "True \<notin> set (gw_faults g)" "find (\<lambda>r. odb_id r = i) (gc_orders cfg) = Some r"
    and "odb_signature r = Some signature" "primary_wallet (odb_user_id r) (gw_model g) = Some addr" "cl_from_str K addr = Inr p"
    and "energy_to_base_units D (odb_energy_amount r) = Some energy" "currency_to_base_units D (odb_price_per_kwh r) = Some price"
  shows "fst (get_signed_order_side D K cfg i g) = Inr (Some (side_of_row i r p energy price signature))"
  using assms
  by (simp add: get_signed_order_side_def order_at_def and_then_def gw_read_calm calm_tl of_any_def ok_def side_of_row_def
      primary_wallet_calm[where p = p and addr = addr])

lemma grid8_of_int: "grid8 (of_int k)"
  unfolding grid8_def by (rule exI[of _ "k * 10 ^ 8"]) simp

lemma resolved_grid8:
  assumes "resolve_order_price ty side tif input = Inr price" "parse_price_input E raw = Inr input"
    and "\<And>s p. raw = Some s \<Longrightarrow> ed_parse_decimal E s = Inr p \<Longrightarrow> grid8 p"
  shows "grid8 price"
  using assms grid8_of_int[of 1000000]
  by (auto simp: resolve_order_price_def parse_price_input_def market_buy_ceiling_bid_def
      split: if_splits order_type.splits option.splits sum.splits)

text \<open>C23: The signature checked at submission holds at settlement.  Let an order be accepted under per-user
  escrow, its energy and price within the eight decimals of the columns, and let the mirror still name the
  wallet it was signed with.  Then the settlement builder finds the order, and the bytes it rebuilds from the
  row pass the check of the very signature the client sent: order id, wallet, energy, price, side, zone and
  expiry have come through the request, the policy and the database unchanged.\<close>

theorem signed_terms_survive:
  assumes run: "submit_order C D cfg rates E role user req w = (Inr (Inr resp), w')" and "cf_per_user_escrow cfg"
    and "ed_parse_decimal E (sr_energy_amount_kwh req) = Inr amount" "grid8 amount"
    and price: "\<And>s price. sr_price_per_kwh req = Some s \<Longrightarrow> ed_parse_decimal E s = Inr price \<Longrightarrow> grid8 price"
    and gw: "gc_db gcfg" "gc_orders gcfg = db_orders (w_store w')" "True \<notin> set (gw_faults g)"
    and wallet: "ed_signer_wallet E = Inr (Some addr)" "primary_wallet user (gw_model g) = Some addr"
    and keys: "cl_from_str K addr = Inr p" "sg_base58 (ed_signatures E) addr = Inr p"
  shows "\<exists>side. fst (get_signed_order_side D K gcfg (so_id resp) g) = Inr (Some side)
    \<and> sr_wallet_signature req = Some (ss_signature side)
    \<and> verify_order_signature (ed_signatures E) addr (ss_signature side) (side_message side) = Inr ()"
proof -
  obtain terms signature expires_at row where
      sg: "signed_by D E req terms (so_id resp, signature, expires_at)"
    and row: "find (\<lambda>r. odb_id r = so_id resp) (gc_orders gcfg) = Some row" "odb_signature row = Some signature"
      "odb_user_id row = user" "odb_side row = ot_side terms" "odb_zone_id row = Some (sr_zone_id req)"
      "odb_expires_at row = Some (expires_at * nanos)"
    and num: "num8 (ot_amount terms) = Some (odb_energy_amount row)" "num8 (ot_price terms) = Some (odb_price_per_kwh row)"
    and am: "ed_parse_decimal E (sr_energy_amount_kwh req) = Inr (ot_amount terms)"
      "parse_price_input E (sr_price_per_kwh req) = Inr (ot_price_input terms)"
      "resolve_order_price (ot_type terms) (ot_side terms) (ot_tif terms) (ot_price_input terms) = Inr (ot_price terms)"
    unfolding gw(2) by (rule signed_order_row[OF run assms(2)])
  have "ot_amount terms = amount" using am(1) assms(3) by simp
  then have energy: "odb_energy_amount row = ot_amount terms" using num8_grid8[OF _ num(1)] assms(4) by simp
  have cost: "odb_price_per_kwh row = ot_price terms" using num8_grid8[OF resolved_grid8[OF am(3,2) price] num(2)] .
  obtain eb pb where v: "energy_to_base_units D (ot_amount terms) = Some eb" "currency_to_base_units D (ot_price terms) = Some pb"
      "verify_order_signature (ed_signatures E) addr signature
        (signed_message (so_id resp) p eb pb (ot_side terms) (sr_zone_id req) expires_at) = Inr ()"
      "sr_wallet_signature req = Some signature"
    using sg wallet(1) keys(2) by (auto simp: signed_by_def wallet_key_bytes_def split: if_splits)
  let ?side = "side_of_row (so_id resp) row p eb pb signature"
  have "fst (get_signed_order_side D K gcfg (so_id resp) g) = Inr (Some ?side)"
    by (rule signed_side_calm[OF gw(1,3) row(1,2) _ keys(1)]) (use wallet(2) row(3) energy cost v in simp_all)
  moreover have "side_message ?side = signed_message (so_id resp) p eb pb (ot_side terms) (sr_zone_id req) expires_at"
    using row by (cases "ot_side terms") (simp_all add: side_message_def signed_message_def side_of_row_def nanos_def unwrap_or_def)
  ultimately show ?thesis using v by (intro exI[of _ ?side]) (simp add: side_of_row_def)
qed

section \<open>Runs\<close>

lemma demo_signed_run:
  "fst (demo_submit True [] buy_request) = Inr (Inr \<lparr>so_id = 500, so_status = ''open'', so_created_at = 1000\<rparr>)"
  by code_simp

abbreviation wallet_gateway :: "unit gateway" where
  "wallet_gateway \<equiv> gateway_of () [primary_row 7 ''W'']"

theorem signed_terms_survive_witness:
  "\<exists>side. fst (get_signed_order_side exact_dec idle_client (gateway_for (db_orders (w_store (snd (demo_submit True [] buy_request)))))
       500 wallet_gateway) = Inr (Some side)
    \<and> Some ''SIG'' = Some (ss_signature side)
    \<and> verify_order_signature (ed_signatures submit_edge) ''W'' (ss_signature side) (side_message side) = Inr ()"
proof -
  let ?w = "snd (demo_submit True [] buy_request)"
  have run: "submit_order chrono_utc exact_dec (escrow_config True) deployed_rates submit_edge (Inr ()) 7 buy_request (submit_world [])
      = (Inr (Inr \<lparr>so_id = 500, so_status = ''open'', so_created_at = 1000\<rparr>), ?w)"
    using demo_signed_run by (simp add: demo_submit_def prod_eq_iff)
  have g: "grid8 (9 / 2)" "grid8 2" using grid8_of_int[of 2] unfolding grid8_def by (intro exI[of _ 450000000], simp) simp
  have sig: "sr_wallet_signature buy_request = Some ''SIG''" by (simp add: buy_request_def sell_request_def)
  show ?thesis
    unfolding sig[symmetric]
  proof (rule signed_terms_survive[OF run, where amount = 2, simplified submit_order_response.simps])
    show "grid8 price" if "sr_price_per_kwh buy_request = Some s" "ed_parse_decimal submit_edge s = Inr price" for s price
    proof -
      have "price = 9 / 2" using that by (auto simp: buy_request_def sell_request_def submit_edge_def)
      then show ?thesis by (rule ssubst) (rule g(1))
    qed
  qed (use g in \<open>simp_all add: submit_edge_def buy_request_def sell_request_def escrow_config_def gateway_for_def gateway_of_def
        primary_wallet_def primary_row_def idle_client_def base_client_def\<close>)
qed

text \<open>A valid signature that the chain will refuse.\<close>

definition nine_decimals_message :: "byte list" where
  "nine_decimals_message = signed_message 500 (replicate 32 1) 1000000001 4500000 Buy 1 60"

definition nine_decimals_edge :: edge where
  "nine_decimals_edge = submit_edge\<lparr>
     ed_parse_decimal := (\<lambda>s. if s = ''4.5'' then Inr (9 / 2) else Inr (1000000001 / 1000000000)),
     ed_signatures := (ed_signatures submit_edge)\<lparr>sg_verify_strict := (\<lambda>_ message _. message = nine_decimals_message)\<rparr>\<rparr>"

definition nine_decimals_run :: "(failure + (refusal + submit_order_response)) \<times> world" where
  "nine_decimals_run = submit_order chrono_utc exact_dec (escrow_config True) deployed_rates nine_decimals_edge (Inr ()) 7
     (buy_request\<lparr>sr_energy_amount_kwh := ''1.000000001''\<rparr>) (submit_world [])"


end
