(* ===== verification/Settlement_Contract.thy ===== *)
theory Settlement_Contract imports Settlement_Runs begin

text \<open>
  The interface between the settlement service and the chain.  The service of \<open>trading-logic/src/settlement.rs\<close>
  calls \<open>BlockchainGateway::execute_batched_settlements\<close> and relies on one law: the answer to a batch names
  settlements of the batch, each once.  What the service guarantees over such a gateway is proved here once;
  \<open>Chain_Settlement\<close> interprets the contract by the gateway of the code.  Before that: what the service sends
  are the rows of the ledger, as they stand.
\<close>

section \<open>What is sent\<close>

text \<open>What a settlement asks the chain for, and what its row says.\<close>

definition sent_terms :: "settlement \<Rightarrow> uuid \<times> uuid \<times> uuid \<times> decimal \<times> decimal \<times> decimal option \<times> decimal option" where
  "sent_terms st = (st_id st, st_buy_order_id st, st_sell_order_id st, st_energy_amount st, st_price st,
     st_wheeling_charge st, st_loss_cost st)"

definition row_terms :: "settlement_row \<Rightarrow> uuid \<times> uuid \<times> uuid \<times> decimal \<times> decimal \<times> decimal option \<times> decimal option" where
  "row_terms r = (sdb_id r, sdb_buy_order_id r, sdb_sell_order_id r, sdb_energy_amount r, sdb_price_per_kwh r,
     sdb_wheeling_charge r, sdb_loss_cost r)"

lemma sent_terms_row [simp]: "sent_terms (settlement_of_row r) = row_terms r"
  by (simp add: sent_terms_def row_terms_def settlement_of_row_def)

lemma life_terms: "life r r' \<Longrightarrow> row_terms r' = row_terms r"
  by (auto elim!: life_from simp: row_terms_def bump_retry_def set_status_def)

lemma life_star_terms: "life\<^sup>*\<^sup>* r r' \<Longrightarrow> row_terms r' = row_terms r"
  by (induction rule: rtranclp_induct) (simp_all add: life_terms)

lemma lives_terms: "list_all2 life\<^sup>*\<^sup>* rs rs' \<Longrightarrow> row_terms ` set rs' = row_terms ` set rs"
  by (induction rule: list_all2_induct) (auto simp: life_star_terms)

text \<open>The batches beyond the first ones hold settlements with the given terms.\<close>

definition sent_since ::
  "(uuid \<times> uuid \<times> uuid \<times> decimal \<times> decimal \<times> decimal option \<times> decimal option) set \<Rightarrow> settlement list list
     \<Rightarrow> settlement list list \<Rightarrow> bool" where
  "sent_since T sent0 sent \<longleftrightarrow> (\<exists>bs. sent = sent0 @ bs \<and> (\<forall>b\<in>set bs. sent_terms ` set b \<subseteq> T))"

lemma sent_since_refl [simp]: "sent_since T sent sent"
  by (simp add: sent_since_def)

lemma sent_since_snoc: "sent_since T sent0 sent \<Longrightarrow> sent_terms ` set b \<subseteq> T \<Longrightarrow> sent_since T sent0 (sent @ [b])"
  by (clarsimp simp: sent_since_def)

abbreviation sends :: "(uuid \<times> uuid \<times> uuid \<times> decimal \<times> decimal \<times> decimal option \<times> decimal option) set \<Rightarrow> settlement list list \<Rightarrow> world \<Rightarrow> bool" where
  "sends T sent0 \<equiv> (\<lambda>w. sent_since T sent0 (w_sent w))"

lemma keeps_send: "sent_terms ` set b \<subseteq> T \<Longrightarrow> keeps (sends T sent0) (send_batch chain b)"
  by (auto simp: keeps_def send_batch_def intro: sent_since_snoc split: sum.split)

text \<open>A step whose continuation may rely on its result.\<close>

lemma keeps_results:
  assumes "keeps P m" "\<And>w x w'. m w = (Inr x, w') \<Longrightarrow> keeps P (k x)"
  shows "keeps P (and_then m k)"
  unfolding keeps_def
proof (intro allI impI)
  fix w assume p: "P w"
  obtain r w1 where m: "m w = (r, w1)" by (cases "m w")
  have p1: "P w1" using assms(1) p m unfolding keeps_def by (metis snd_conv)
  show "P (snd (and_then m k w))"
  proof (cases r)
    case (Inr x)
    then show ?thesis using assms(2)[of w x w1] m p1 by (simp add: and_then_def keeps_def)
  qed (simp add: and_then_def m p1)
qed

lemma preflight_subset:
  "and_then (attempt (db_read q)) (\<lambda>res. case res of
          Inl _ \<Rightarrow> ok cl
        | Inr X \<Rightarrow> if X = [] then ok cl
            else and_then (for_each f (filter (\<lambda>st. st_id st \<in> set X) cl))
                   (\<lambda>_. ok (filter (\<lambda>st. st_id st \<notin> set X) cl))) w = (Inr cl', w') \<Longrightarrow> set cl' \<subseteq> set cl"
  by (auto simp: and_then_def ok_def split: prod.splits sum.splits if_splits)

lemma park_subsets:
  shows park_unplaceable_subset: "park_unplaceable_settlements cl w = (Inr cl', w') \<Longrightarrow> set cl' \<subseteq> set cl"
    and park_lapsed_subset: "park_lapsed_settlements cl w = (Inr cl', w') \<Longrightarrow> set cl' \<subseteq> set cl"
  unfolding park_unplaceable_settlements_def park_lapsed_settlements_def by (erule preflight_subset)+

lemma keeps_sent_read [keeps_intros]: "keeps (\<lambda>w. P (w_sent w)) (db_read f)"
  unfolding db_read_def by (rule keeps_sent_db_call)

lemma keeps_sent_park [keeps_intros]: "keeps (\<lambda>w. P (w_sent w)) (park reason action st)"
  unfolding park_def by (auto intro!: keeps_intros split: sum.split)

lemma keeps_sent_preflight:
  "keeps (\<lambda>w. P (w_sent w)) (park_unplaceable_settlements cl)" "keeps (\<lambda>w. P (w_sent w)) (park_lapsed_settlements cl)"
  unfolding park_unplaceable_settlements_def park_lapsed_settlements_def
  by (auto intro!: keeps_intros split: sum.split)

lemma keeps_isolate: "(\<And>st. st \<in> set cl \<Longrightarrow> keeps P (resettle st)) \<Longrightarrow> keeps P (isolate resettle cl acc)"
  by (induction cl arbitrary: acc) (auto simp: isolate_step_def intro!: keeps_intros split: sum.split)

lemma keeps_sent_answer:
  assumes "\<And>st. st \<in> set cl \<Longrightarrow> keeps (sends T sent0) (resettle st)"
  shows "keeps (sends T sent0) (settle_answer resettle cl res)"
  unfolding settle_answer_def finish_batch_def release_batch_def park_rejected_def Let_def
  by (auto intro!: keeps_intros complete_minted_sent[where P = "sent_since T sent0"] keeps_isolate assms split: sum.split list.split
    simp del: isolate.simps)

lemma keeps_sent_batch:
  assumes "sent_terms ` set cl \<subseteq> T" "\<And>st. st \<in> set cl \<Longrightarrow> keeps (sends T sent0) (resettle st)"
  shows "keeps (sends T sent0) (settle_batch chain resettle cl)"
proof -
  have send: "keeps (sends T sent0) (and_then (attempt (send_batch chain c)) (settle_answer resettle c))" if "set c \<subseteq> set cl" for c
    using that assms by (intro keeps_and_then keeps_attempt keeps_send keeps_sent_answer) blast+
  have lapsed: "keeps (sends T sent0) (and_then (park_lapsed_settlements c) (\<lambda>claimed. if claimed = [] then ok []
      else and_then (attempt (send_batch chain claimed)) (settle_answer resettle claimed)))" if "set c \<subseteq> set cl" for c
  proof (rule keeps_results[OF keeps_sent_preflight(2)])
    fix w x w' assume "park_lapsed_settlements c w = (Inr x, w')"
    then have "set x \<subseteq> set cl" using park_lapsed_subset that by blast
    then show "keeps (sends T sent0) (if x = [] then ok [] else and_then (attempt (send_batch chain x)) (settle_answer resettle x))"
      using send by (auto intro: keeps_intros)
  qed
  show ?thesis unfolding settle_batch_def
    by (rule keeps_results[OF keeps_sent_preflight(1)]) (auto dest!: park_unplaceable_subset intro: keeps_intros lapsed)
qed

lemma keeps_sent_claimed:
  assumes "sent_terms ` set cl \<subseteq> T"
  shows "keeps (sends T sent0) (settle_claimed chain cl)"
proof -
  have "keeps (sends T sent0) (settle_single chain st)" if "st \<in> set cl" for st
    unfolding settle_single_def using assms that by (intro keeps_sent_batch) (auto intro: keeps_intros)
  then show ?thesis unfolding settle_claimed_def using assms by (rule keeps_sent_batch[rotated])
qed

text \<open>What is claimed are rows of the ledger.\<close>

lemma triple_claim_terms:
  "triple (\<lambda>w. row_terms ` set (rows w) \<subseteq> T \<and> sends T sent0 w) (db_call (claim_settlements_for_processing ids))
     (\<lambda>r w. sends T sent0 w \<and> (\<forall>cl. r = Inr cl \<longrightarrow> sent_terms ` set cl \<subseteq> T))"
  unfolding triple_def
proof (intro allI impI)
  fix w assume a: "row_terms ` set (rows w) \<subseteq> T \<and> sends T sent0 w"
  have "sent_terms ` set cl \<subseteq> T" if "fst (db_call (claim_settlements_for_processing ids) w) = Inr cl" for cl
  proof -
    have "cl = map (\<lambda>r. settlement_of_row (r\<lparr>sdb_status := ''processing'', sdb_updated_at := w_db_now w\<rparr>)) (filter (claimable ids) (rows w))"
      using that by (auto simp: db_call_def claim_eq split: list.splits bool.splits)
    then show ?thesis using a by (auto simp: row_terms_def)
  qed
  moreover have "sends T sent0 (snd (db_call (claim_settlements_for_processing ids) w))"
    using a keeps_sent_db_call[of "sent_since T sent0" "claim_settlements_for_processing ids"] by (simp add: keeps_def)
  ultimately show "sends T sent0 (snd (db_call (claim_settlements_for_processing ids) w)) \<and>
      (\<forall>cl. fst (db_call (claim_settlements_for_processing ids) w) = Inr cl \<longrightarrow> sent_terms ` set cl \<subseteq> T)" by blast
qed

lemma triple_claim_sends:
  assumes "\<And>cl. keeps (sends T sent0) (k cl)"
  shows "triple (\<lambda>w. row_terms ` set (rows w) \<subseteq> T \<and> sends T sent0 w)
     (and_then (db_call (claim_settlements_for_processing ids)) (\<lambda>claimed.
        if claimed = [] then ok z else and_then (settle_claimed chain claimed) k))
     (\<lambda>r w. sends T sent0 w)"
proof (rule triple_and_then[where R = "\<lambda>cl w. sends T sent0 w \<and> sent_terms ` set cl \<subseteq> T"])
  show "triple (\<lambda>w. row_terms ` set (rows w) \<subseteq> T \<and> sends T sent0 w) (db_call (claim_settlements_for_processing ids))
     (\<lambda>r w. case r of Inl e \<Rightarrow> sends T sent0 w | Inr cl \<Rightarrow> sends T sent0 w \<and> sent_terms ` set cl \<subseteq> T)"
    by (rule triple_weaken[OF triple_claim_terms]) (auto split: sum.split)
  fix cl
  have "keeps (sends T sent0) (if cl = [] then ok z else and_then (settle_claimed chain cl) k)" if "sent_terms ` set cl \<subseteq> T"
    using keeps_sent_claimed[OF that] assms by (auto intro: keeps_intros)
  then show "triple (\<lambda>w. sends T sent0 w \<and> sent_terms ` set cl \<subseteq> T)
      (if cl = [] then ok z else and_then (settle_claimed chain cl) k) (\<lambda>r w. sends T sent0 w)"
    by (auto simp: triple_def keeps_def)
qed

lemma keeps_terms_read [keeps_intros]: "keeps (\<lambda>w. P (rows w) \<and> Q (w_sent w)) (db_read f)"
  by (auto simp: keeps_def db_read_def db_call_def split: list.split bool.split)

lemma keeps_terms_reclaim: "keeps (\<lambda>w. row_terms ` set (rows w) \<subseteq> T \<and> sends T sent0 w) reclaim_stale_settlements"
  by (auto simp: keeps_def reclaim_stale_settlements_def reclaim_stale_processing_def db_call_def update_where_def Let_def
      row_terms_def bump_retry_def split: list.split bool.split)

lemma triple_after_keeps:
  assumes "keeps P m" "\<And>x. triple P (k x) (\<lambda>r w. Q w)" "\<And>w. P w \<Longrightarrow> Q w"
  shows "triple P (and_then m k) (\<lambda>r w. Q w)"
  by (rule triple_and_then[where R = "\<lambda>_. P", OF _ assms(2)])
    (use assms(1,3) in \<open>auto simp: triple_def keeps_def split: sum.split\<close>)

lemma triple_process_sends:
  "triple (\<lambda>w. row_terms ` set (rows w) \<subseteq> T \<and> sends T sent0 w) (process_pending_settlements chain limit) (\<lambda>r w. sends T sent0 w)"
  unfolding process_pending_settlements_def
proof (rule triple_after_keeps)
  fix pending :: "settlement list"
  show "triple (\<lambda>w. row_terms ` set (rows w) \<subseteq> T \<and> sends T sent0 w)
      (if pending = [] then ok 0 else and_then (db_call (claim_settlements_for_processing (map st_id pending))) (\<lambda>claimed.
         if claimed = [] then ok 0 else and_then (settle_claimed chain claimed) (\<lambda>results. ok (length results))))
      (\<lambda>r w. sends T sent0 w)"
    using triple_claim_sends[where k = "\<lambda>results. ok (length results)" and z = 0 and T = T and ?sent0.0 = sent0, OF keeps_ok]
    by (auto intro: triple_ok)
qed (auto intro: keeps_intros)

lemma triple_tick_sends:
  "triple (\<lambda>w. row_terms ` set (rows w) \<subseteq> T \<and> sends T sent0 w) (settlement_tick chain limit) (\<lambda>r w. sends T sent0 w)"
proof -
  have "triple (\<lambda>w. row_terms ` set (rows w) \<subseteq> T \<and> sends T sent0 w) (ignore (process_pending_settlements chain limit)) (\<lambda>r w. sends T sent0 w)"
    unfolding ignore_def
    by (rule triple_and_then[where R = "\<lambda>_. sends T sent0"], rule triple_attempt, rule triple_weaken[OF triple_process_sends])
      (auto split: sum.split failure.split intro: triple_ok)
  then show ?thesis unfolding settlement_tick_def
    by (intro triple_after_keeps keeps_ignore keeps_terms_reclaim) auto
qed

lemma triple_execute_sends:
  "triple (\<lambda>w. row_terms ` set (rows w) \<subseteq> T \<and> sends T sent0 w) (execute_batched_settlements chain sts) (\<lambda>r w. sends T sent0 w)"
  unfolding execute_batched_settlements_def
  using triple_claim_sends[where k = ok and T = T and ?sent0.0 = sent0, OF keeps_ok, unfolded and_then_ok_right]
  by (auto intro: triple_ok)

section \<open>A ledger that the chain bears out\<close>

text \<open>Every settlement that was sent is a row, with the same terms; every completed row carries the signature of a
  transaction in an answer of the chain that names it.\<close>

definition ledger_proven :: "chain \<Rightarrow> world \<Rightarrow> bool" where
  "ledger_proven chain w \<longleftrightarrow> distinct (map sdb_id (rows w)) \<and>
     (\<forall>b\<in>set (w_sent w). sent_terms ` set b \<subseteq> row_terms ` set (rows w)) \<and>
     (\<forall>r\<in>set (rows w). sdb_status r = ''completed'' \<longrightarrow> proven chain (w_sent w) r)"

text \<open>The service at work: its worker, batches by hand, trades the matcher books, and time.  Any of the calls may fail.\<close>

inductive ledger_run :: "chain \<Rightarrow> world \<Rightarrow> world \<Rightarrow> bool" for chain :: chain and w0 :: world where
  start: "ledger_run chain w0 w0"
| tick: "ledger_run chain w0 w \<Longrightarrow> ledger_run chain w0 (snd (settlement_tick chain limit w))"
| request: "ledger_run chain w0 w \<Longrightarrow> ledger_run chain w0 (snd (execute_batched_settlements chain sts w))"
| booked: "ledger_run chain w0 w \<Longrightarrow> st_status st = Settle_Pending \<Longrightarrow>
    ledger_run chain w0 (snd (db_call (insert_settlement st) w))"
| elapsed: "ledger_run chain w0 w \<Longrightarrow> ledger_run chain w0 (w\<lparr>w_now := t, w_db_now := t'\<rparr>)"

lemma minted_by_more: "minted_by chain sent tx \<Longrightarrow> minted_by chain (sent @ bs) tx"
proof (induction bs rule: rev_induct)
  case (snoc b bs)
  then show ?case using minted_by_append[of chain "sent @ bs" b tx] by simp
qed simp

lemma minted_by_since: "sent_since T sent0 sent \<Longrightarrow> minted_by chain sent0 tx \<Longrightarrow> minted_by chain sent tx"
  unfolding sent_since_def using minted_by_more by blast

lemma proven_since: "sent_since T sent0 sent \<Longrightarrow> proven chain sent0 r \<Longrightarrow> proven chain sent r"
  unfolding proven_def using minted_by_since by blast

text \<open>A step of the service keeps the ledger borne out.\<close>

lemma proven_step:
  assumes ok: "ledger_proven chain w"
    and moves: "triple (calm False chain (rows w)) m (\<lambda>r w'. calm False chain (rows w) w')"
    and sent: "triple (\<lambda>w'. row_terms ` set (rows w') \<subseteq> row_terms ` set (rows w) \<and> sends (row_terms ` set (rows w)) (w_sent w) w') m
      (\<lambda>r w'. sends (row_terms ` set (rows w)) (w_sent w) w')"
  shows "ledger_proven chain (snd (m w))"
proof -
  let ?w = "snd (m w)"
  have d: "distinct (map sdb_id (rows w))" using ok by (simp add: ledger_proven_def)
  have "calm False chain (rows w) w" by (rule calm_start) (use d in auto)
  then have post: "calm False chain (rows w) ?w" using moves by (simp add: triple_def)
  have since: "sent_since (row_terms ` set (rows w)) (w_sent w) (w_sent ?w)" using sent by (simp add: triple_def)
  note lives = sinv_lives[OF post]
  have borne: "proven chain (w_sent ?w) r'" if r': "r' \<in> set (rows ?w)" "sdb_status r' = ''completed''" for r'
    using sinv_completed[OF post r']
  proof
    assume "\<exists>r0\<in>set (rows w). sdb_id r0 = sdb_id r' \<and> sdb_status r0 = ''completed''"
    then obtain r0 where r0: "r0 \<in> set (rows w)" "sdb_id r0 = sdb_id r'" "sdb_status r0 = ''completed''" by blast
    obtain r where r: "r \<in> set (rows w)" "life\<^sup>*\<^sup>* r r'"
      using lives r'(1) by (metis list_all2_conv_all_nth in_set_conv_nth)
    have "r = r0" using d r(1) r0(1,2) life_star_id[OF r(2)] unfolding distinct_map by (metis inj_onD)
    then have "r' = r0" using life_star[OF r(2)] r0(3) by (simp add: live_status_def)
    then show ?thesis using ok r0 proven_since[OF since] by (auto simp: ledger_proven_def)
  qed
  have "sent_terms ` set b \<subseteq> row_terms ` set (rows ?w)" if "b \<in> set (w_sent ?w)" for b
  proof -
    obtain bs where "w_sent ?w = w_sent w @ bs" "\<forall>b\<in>set bs. sent_terms ` set b \<subseteq> row_terms ` set (rows w)"
      using since unfolding sent_since_def by blast
    then have "b \<in> set (w_sent w) \<or> sent_terms ` set b \<subseteq> row_terms ` set (rows w)" using that by auto
    then show ?thesis using ok unfolding lives_terms[OF lives] ledger_proven_def by blast
  qed
  then show ?thesis using borne sinv_distinct[OF post] by (simp add: ledger_proven_def)
qed

lemma proven_booked:
  assumes "ledger_proven chain w" "st_status st = Settle_Pending"
  shows "ledger_proven chain (snd (db_call (insert_settlement st) w))"
proof -
  obtain res w' where c: "db_call (insert_settlement st) w = (res, w')" by (cases "db_call (insert_settlement st) w")
  have sent: "w_sent w' = w_sent w"
    using c by (auto simp: db_call_def split: list.splits bool.splits sum.splits)
  consider "rows w' = rows w" | r where "rows w' = rows w @ [r]" "sdb_id r \<notin> sdb_id ` set (rows w)" "sdb_status r \<noteq> ''completed''"
  proof (cases "\<exists>u s'. insert_settlement st (w_db_now w) (w_store w) = Inr (u, s') \<and> w_store w' = s'")
    case True
    then obtain u s' where "insert_settlement st (w_db_now w) (w_store w) = Inr (u, s')" "w_store w' = s'" by blast
    then obtain r where "rows w' = rows w @ [r]" "sdb_id r = st_id st" "st_id st \<notin> sdb_id ` set (rows w)"
        "sdb_status r = settlement_status_str (st_status st)" using insert_settlement_rows by metis
    then show thesis using that(2) assms(2) by simp
  next
    case False
    then have "w_store w' = w_store w"
      using c by (auto simp: db_call_def split: list.splits bool.splits sum.splits)
    then show thesis using that(1) by simp
  qed
  then show ?thesis
  proof cases
    case 1
    then show ?thesis using assms(1) by (simp add: c ledger_proven_def sent)
  next
    case 2
    have "row_terms ` set (rows w) \<subseteq> row_terms ` set (rows w')" using 2(1) by auto
    then have "\<forall>b\<in>set (w_sent w). sent_terms ` set b \<subseteq> row_terms ` set (rows w')"
      using assms(1) unfolding ledger_proven_def by blast
    then show ?thesis using assms(1) 2 by (simp add: c ledger_proven_def sent)
  qed
qed

section \<open>The contract\<close>

locale settlement_chain =
  fixes chain :: chain
  assumes names_batch: "distinct (map st_id b) \<Longrightarrow> chain sent b = Inr rs \<Longrightarrow> tx_settlement_id ` set rs \<subseteq> st_id ` set b"
    and names_once: "distinct (map st_id b) \<Longrightarrow> chain sent b = Inr rs \<Longrightarrow> distinct (map tx_settlement_id rs)"
begin

lemma contract: "chain_ok chain"
  unfolding chain_ok_def using names_batch names_once by blast

lemma fresh_ledger: "distinct (map sdb_id (rows w)) \<Longrightarrow> w_sent w = [] \<Longrightarrow> ledger_shows chain w"
  by (simp add: ledger_shows_def minted_ids_def)

lemma run_from_fresh:
  assumes "distinct (map sdb_id (rows w))" "w_sent w = []" "healthy w" "service_run chain w w'"
  shows "healthy w' \<and> ledger_shows chain w'"
  using service_run_shows[OF assms(4) contract assms(3) fresh_ledger[OF assms(1,2)]] .

lemma run_proven: "ledger_run chain w0 w \<Longrightarrow> ledger_proven chain w0 \<Longrightarrow> ledger_proven chain w"
proof (induction rule: ledger_run.induct)
  case (tick w limit)
  then show ?case
    by (intro proven_step triple_tick_sends triple_weaken[OF triple_tick[OF contract]]) auto
next
  case (request w sts)
  then show ?case
    by (intro proven_step triple_execute_sends triple_weaken[OF triple_execute[OF contract]]) auto
next
  case (booked w st)
  then show ?case by (intro proven_booked)
next
  case (elapsed w t t')
  then show ?case by (simp add: ledger_proven_def)
qed

text \<open>A completed row, and the answer that bears it out.\<close>

lemma completed_answer:
  assumes "ledger_proven chain w" "r \<in> set (rows w)" "sdb_status r = ''completed''"
  obtains k rs tx where "k < length (w_sent w)" "chain (take k (w_sent w)) (w_sent w ! k) = Inr rs" "tx \<in> set rs"
    "tx_settlement_id tx = sdb_id r" "sdb_transaction_hash r = Some (tx_signature tx)"
    "sent_terms ` set (w_sent w ! k) \<subseteq> row_terms ` set (rows w)"
  using assms unfolding ledger_proven_def proven_def minted_by_def by (meson nth_mem)

end

text \<open>The gateway of the runs above, which mints the first settlement of a batch.\<close>

interpretation first_minter: settlement_chain mint_first
  by unfold_locales (auto simp: mint_first_def split: list.splits)

end
