(* ===== verification/Chain_Settlement.thy ===== *)
theory Chain_Settlement imports Chain_Gateway Settlement_Contract "HOL-Library.Multiset" begin

text \<open>
  \<open>trading-infra/src/blockchain/settlement.rs\<close> and the gateway's \<open>execute_batched_settlements\<close> of
  \<open>blockchain/mod.rs\<close>: how a batch of settlements becomes transactions.  The trades are cut into chunks,
  each a transaction that is submitted and polled until it is final; a chunk that does not land makes the
  whole call an error.  The last section puts the gateway under the settlement service.
\<close>

section \<open>Amounts and accounts\<close>

text \<open>The checked conversion of the escrow path and the saturating one of the pooled path, which settles
  zero where the amount does not fit.\<close>

definition decimal_to_atomic :: "dec_ops \<Rightarrow> decimal option \<Rightarrow> int \<Rightarrow> ('c, int) bridge" where
  "decimal_to_atomic D v scale =
     (case Option.bind (dmul D (unwrap_or v 0) (of_int scale)) (\<lambda>x. to_u64 (dec_trunc x)) of
        None \<Rightarrow> throw (Validation ''amount out of range for settlement'')
      | Some n \<Rightarrow> ok n)"

definition settlement_amount_atomic :: "dec_ops \<Rightarrow> settlement \<Rightarrow> ('c, int) bridge" where
  "settlement_amount_atomic D st = decimal_to_atomic D (Some (st_energy_amount st)) 1000000000"

definition settlement_price_atomic :: "dec_ops \<Rightarrow> settlement \<Rightarrow> ('c, int) bridge" where
  "settlement_price_atomic D st = decimal_to_atomic D (Some (st_price st)) 1000000"

definition atomic_or_zero :: "dec_ops \<Rightarrow> decimal \<Rightarrow> int \<Rightarrow> ('c, int) bridge" where
  "atomic_or_zero D v scale = and_then (or_panic (dmul D v (of_int scale))) (\<lambda>x. ok (unwrap_or (to_u64 (dec_trunc x)) 0))"

record trade_atas =
  at_buyer_currency :: pubkey
  at_seller_energy :: pubkey
  at_seller_currency :: pubkey
  at_buyer_energy :: pubkey

definition derive_trade_atas :: "('c, 'ix) client \<Rightarrow> pubkey \<Rightarrow> pubkey \<Rightarrow> pubkey \<Rightarrow> pubkey \<Rightarrow> ('c, trade_atas) bridge" where
  "derive_trade_atas K energy_mint currency_mint buyer seller =
     (let energy_tp = cl_token_2022 K; currency_tp = cl_currency_program K in
      and_then (of_any (cl_ata K buyer currency_mint currency_tp)) (\<lambda>buyer_currency.
      and_then (of_any (cl_ata K seller energy_mint energy_tp)) (\<lambda>seller_energy.
      and_then (of_any (cl_ata K seller currency_mint currency_tp)) (\<lambda>seller_currency.
      and_then (of_any (cl_ata K buyer energy_mint energy_tp)) (\<lambda>buyer_energy.
      ok \<lparr>at_buyer_currency = buyer_currency, at_seller_energy = seller_energy, at_seller_currency = seller_currency,
          at_buyer_energy = buyer_energy\<rparr>)))))"

definition confirmed_tx :: "uuid \<Rightarrow> string \<Rightarrow> int \<Rightarrow> settlement_transaction" where
  "confirmed_tx i signature slot =
     \<lparr>tx_settlement_id = i, tx_signature = signature, tx_slot = slot, tx_confirmation_status = ''confirmed''\<rparr>"

section \<open>The parties' own escrows\<close>

definition ed25519_ix :: "('c, 'ix) client \<Rightarrow> signed_order_side \<Rightarrow> ('c, 'ix) bridge" where
  "ed25519_ix K s =
     (case cl_base58 K (ss_signature s) of
        Inr sig_bytes \<Rightarrow>
          if length sig_bytes = 64
          then context_error (\<lambda>e. ''build ed25519 ix: '' @ e) (of_any (cl_ed25519 K (ss_user s) (side_message s) sig_bytes))
          else throw (Validation ''order has no valid Base58 Ed25519 signature'')
      | Inl _ \<Rightarrow> throw (Validation ''order has no valid Base58 Ed25519 signature''))"

text \<open>Submitted, and reported as confirmed without a poll.\<close>

definition execute_offchain_settlement ::
  "dec_ops \<Rightarrow> ('c, 'ix) client \<Rightarrow> settlement \<Rightarrow> signed_order_side \<Rightarrow> signed_order_side \<Rightarrow> ('c, settlement_transaction) bridge" where
  "execute_offchain_settlement D K st buyer seller =
     and_then (context_error (\<lambda>e. ''Trading program ID error: '' @ e) (of_any (trading_program_id K))) (\<lambda>program.
     let market = market_pda K program in
     and_then (context_error (\<lambda>e. ''Failed to get authority: '' @ e) (of_any (cl_authority K))) (\<lambda>_.
     and_then (context_error (\<lambda>e. ''Failed to derive energy mint PDA: '' @ e) (of_any (cl_energy_mint K))) (\<lambda>energy_mint.
     and_then (of_any (env_pubkey K ''CURRENCY_TOKEN_MINT'')) (\<lambda>currency_mint.
     and_then (context_error (\<lambda>e. ''read market account: '' @ e) (on_chain (cl_account K market))) (\<lambda>market_data.
     and_then (context_error (\<lambda>e. ''market num_shards: '' @ e) (of_any (cl_market_shards K market_data))) (\<lambda>market_shards.
     let zone_market = cl_find_pda K [seed_bytes ''zone_market'', market, to_le_bytes (ss_zone_id buyer)] program in
     and_then (context_error (\<lambda>e. ''read zone_market account: '' @ e) (on_chain (cl_account K zone_market))) (\<lambda>zone_data.
     and_then (context_error (\<lambda>e. ''zone num_shards: '' @ e) (of_any (cl_zone_shards K zone_data))) (\<lambda>zone_shards.
     and_then (settlement_amount_atomic D st) (\<lambda>amount.
     and_then (settlement_price_atomic D st) (\<lambda>price.
     and_then (decimal_to_atomic D (st_wheeling_charge st) 1000000) (\<lambda>wheeling.
     and_then (decimal_to_atomic D (st_loss_cost st) 1000000) (\<lambda>loss.
     and_then (context_error (\<lambda>e. ''build settle_offchain ix: '' @ e) (of_any (cl_settle_offchain K
         \<lparr>oa_market = market, oa_buyer = buyer, oa_seller = seller, oa_currency_mint = currency_mint,
          oa_energy_mint = energy_mint, oa_amount = amount, oa_price = price, oa_wheeling_charge = wheeling,
          oa_loss_cost = loss, oa_trade_id = uuid_bytes (st_id st), oa_market_shards = market_shards,
          oa_zone_shards = zone_shards\<rparr>))) (\<lambda>settle_ix.
     and_then (ed25519_ix K buyer) (\<lambda>buyer_ix.
     and_then (ed25519_ix K seller) (\<lambda>seller_ix.
     and_then (submit_instructions K [buyer_ix, seller_ix, settle_ix]) (\<lambda>signature.
     and_then (on_chain (cl_slot K)) (\<lambda>slot.
     ok (confirmed_tx (st_id st) signature slot))))))))))))))))))"

section \<open>The pooled path\<close>

record trade_input =
  ti_settlement :: settlement
  ti_buy_pda :: pubkey
  ti_sell_pda :: pubkey
  ti_buyer :: pubkey
  ti_seller :: pubkey

text \<open>The accounts every trade of a batch shares.\<close>

record batch_accounts =
  ba_market :: pubkey
  ba_platform :: pubkey
  ba_energy_mint :: pubkey
  ba_currency_mint :: pubkey
  ba_fee_ata :: pubkey
  ba_wheeling_ata :: pubkey
  ba_loss_ata :: pubkey
  ba_currency_escrow :: pubkey
  ba_energy_escrow :: pubkey

definition read_batch_accounts :: "('c, 'ix) client \<Rightarrow> ('c, batch_accounts) bridge" where
  "read_batch_accounts K =
     and_then (context_error (\<lambda>e. ''Trading program ID error: '' @ e) (of_any (trading_program_id K))) (\<lambda>program.
     and_then (context_error (\<lambda>e. ''Failed to get authority: '' @ e) (of_any (cl_authority K))) (\<lambda>platform.
     and_then (context_error (\<lambda>e. ''Failed to derive energy mint PDA: '' @ e) (of_any (cl_energy_mint K))) (\<lambda>energy_mint.
     and_then (of_any (env_pubkey K ''CURRENCY_TOKEN_MINT'')) (\<lambda>currency_mint.
     and_then (of_any (env_pubkey K ''FEE_COLLECTOR_WALLET'')) (\<lambda>fee.
     and_then (of_any (env_pubkey K ''WHEELING_COLLECTOR_WALLET'')) (\<lambda>wheeling.
     and_then (of_any (env_pubkey K ''LOSS_COLLECTOR_WALLET'')) (\<lambda>loss.
     and_then (of_any (cl_ata K fee currency_mint (cl_currency_program K))) (\<lambda>fee_ata.
     and_then (of_any (cl_ata K wheeling currency_mint (cl_currency_program K))) (\<lambda>wheeling_ata.
     and_then (of_any (cl_ata K loss currency_mint (cl_currency_program K))) (\<lambda>loss_ata.
     and_then (of_any (cl_ata K platform currency_mint (cl_currency_program K))) (\<lambda>currency_escrow.
     and_then (of_any (cl_ata K platform energy_mint (cl_token_2022 K))) (\<lambda>energy_escrow.
     ok \<lparr>ba_market = market_pda K program, ba_platform = platform, ba_energy_mint = energy_mint,
         ba_currency_mint = currency_mint, ba_fee_ata = fee_ata, ba_wheeling_ata = wheeling_ata, ba_loss_ata = loss_ata,
         ba_currency_escrow = currency_escrow, ba_energy_escrow = energy_escrow\<rparr>))))))))))))"

text \<open>The three instructions of one trade.\<close>

definition trade_group ::
  "dec_ops \<Rightarrow> ('c, 'ix) client \<Rightarrow> batch_accounts \<Rightarrow> trade_input \<Rightarrow> ('c, 'ix list \<times> uuid) bridge" where
  "trade_group D K acc inp =
     (let st = ti_settlement inp in
      and_then (derive_trade_atas K (ba_energy_mint acc) (ba_currency_mint acc) (ti_buyer inp) (ti_seller inp)) (\<lambda>atas.
      and_then (atomic_or_zero D (st_energy_amount st) 1000000000) (\<lambda>amount.
      and_then (atomic_or_zero D (st_price st) 1000000) (\<lambda>price.
      and_then (atomic_or_zero D (unwrap_or (st_wheeling_charge st) 0) 1000000) (\<lambda>wheeling.
      and_then (atomic_or_zero D (unwrap_or (st_loss_cost st) 0) 1000000) (\<lambda>loss.
      and_then (context_error (\<lambda>e. ''Failed to build instruction: '' @ e) (of_any (cl_settle K
          \<lparr>sa_market = ba_market acc, sa_buy_order = ti_buy_pda inp, sa_sell_order = ti_sell_pda inp,
           sa_buyer_currency_escrow = ba_currency_escrow acc, sa_seller_energy_escrow = ba_energy_escrow acc,
           sa_seller_currency_account = at_seller_currency atas, sa_buyer_energy_account = at_buyer_energy atas,
           sa_fee_collector = ba_fee_ata acc, sa_wheeling_collector = ba_wheeling_ata acc, sa_loss_collector = ba_loss_ata acc,
           sa_energy_mint = ba_energy_mint acc, sa_currency_mint = ba_currency_mint acc,
           sa_escrow_authority = ba_platform acc, sa_market_authority = ba_platform acc,
           sa_amount = amount, sa_price = price, sa_wheeling_charge = wheeling, sa_loss_cost = loss,
           sa_trade_id = uuid_bytes (st_id st)\<rparr>))) (\<lambda>settle_ix.
      ok ([cl_create_ata K (ba_platform acc) (ti_seller inp) (ba_currency_mint acc) (cl_currency_program K),
           cl_create_ata K (ba_platform acc) (ti_buyer inp) (ba_energy_mint acc) (cl_token_2022 K), settle_ix], st_id st))))))))"

fun map_calls :: "('x \<Rightarrow> ('s, 'a) call) \<Rightarrow> 'x list \<Rightarrow> ('s, 'a list) call" where
  "map_calls f [] = ok []"
| "map_calls f (x # xs) = and_then (f x) (\<lambda>y. and_then (map_calls f xs) (\<lambda>ys. ok (y # ys)))"

text \<open>\<open>slice::chunks\<close>.\<close>

function chunks :: "nat \<Rightarrow> 'a list \<Rightarrow> 'a list list" where
  "chunks n [] = []"
| "chunks n (x # xs) = (x # take (n - 1) xs) # chunks n (drop (n - 1) xs)"
  by pat_completeness auto
termination by (relation "measure (\<lambda>(n, xs). length xs)") auto

definition tx_chunk :: "('c, 'ix) client \<Rightarrow> nat" where
  "tx_chunk K = unwrap_or (Option.bind (env_unsigned K ''SETTLEMENT_TX_CHUNK'') (\<lambda>n. if 1 \<le> n then Some n else None)) 2"

text \<open>The verdict on a submitted chunk: only a confirmed one is reported.\<close>

definition chunk_verdict ::
  "('c, 'ix) client \<Rightarrow> nat \<Rightarrow> ('ix list \<times> uuid) list \<Rightarrow> string \<Rightarrow> api_error + bool \<Rightarrow> ('c, settlement_transaction list) bridge" where
  "chunk_verdict K confirm_timeout groups signature answer =
     (case answer of
        Inr True \<Rightarrow>
          and_then (attempt (on_chain (cl_slot K))) (\<lambda>slot.
          ok (map (\<lambda>(_, i). confirmed_tx i signature (case slot of Inl _ \<Rightarrow> 0 | Inr n \<Rightarrow> n)) groups))
      | Inr False \<Rightarrow> throw (Internal (''settlement batch '' @ signature @ '' not confirmed within ''
            @ nat_str confirm_timeout @ ''s; releasing for retry''))
      | Inl e \<Rightarrow> throw (Internal (''settlement batch '' @ signature @ '' confirmation check failed: ''
            @ error_text e @ ''; releasing for retry'')))"

definition send_chunk ::
  "('c, 'ix) client \<Rightarrow> int \<Rightarrow> nat \<Rightarrow> ('ix list \<times> uuid) list \<Rightarrow> ('c, settlement_transaction list) bridge" where
  "send_chunk K priority_fee confirm_timeout groups =
     (let ixs = concat (map fst groups) in
      and_then (if 0 < priority_fee then of_any (cl_priority_fee K ixs) else ok ixs) (\<lambda>instructions.
      and_then (context_error (\<lambda>e. ''Batch settlement execution failed: '' @ e) (submit_instructions K instructions)) (\<lambda>signature.
      and_then (attempt (wait_for_confirmation K signature confirm_timeout)) (chunk_verdict K confirm_timeout groups signature))))"

definition provider_execute ::
  "dec_ops \<Rightarrow> ('c, 'ix) client \<Rightarrow> trade_input list \<Rightarrow> int \<Rightarrow> ('c, settlement_transaction list) bridge" where
  "provider_execute D K inputs priority_fee =
     (if inputs = [] then ok []
      else
        and_then (read_batch_accounts K) (\<lambda>acc.
        and_then (map_calls (trade_group D K acc) inputs) (\<lambda>groups.
        let confirm_timeout = unwrap_or (env_unsigned K ''SETTLEMENT_CONFIRM_TIMEOUT_SECS'') 30 in
        and_then (map_calls (send_chunk K priority_fee confirm_timeout) (chunks (tx_chunk K) groups)) (\<lambda>rs.
        ok (concat rs)))))"

section \<open>The gateway\<close>

text \<open>What becomes of one settlement of the batch: it is left out, it was settled from the escrows, or it
  goes into the pooled batch.\<close>

datatype prepared = Left_Out | Settled settlement_transaction | Pooled trade_input

definition found_only :: "('c, 'a option) bridge \<Rightarrow> ('a \<Rightarrow> ('c, prepared) bridge) \<Rightarrow> ('c, prepared) bridge" where
  "found_only m k = and_then (attempt m) (\<lambda>r. case r of Inr (Some x) \<Rightarrow> k x | _ \<Rightarrow> ok Left_Out)"

definition prepare :: "dec_ops \<Rightarrow> ('c, 'ix) client \<Rightarrow> gateway_config \<Rightarrow> settlement \<Rightarrow> ('c, prepared) bridge" where
  "prepare D K cfg st =
     found_only (get_order_pda K cfg (st_buy_order_id st)) (\<lambda>buy_pda.
     found_only (get_order_pda K cfg (st_sell_order_id st)) (\<lambda>sell_pda.
     found_only (get_user_primary_wallet K cfg (st_buyer_id st)) (\<lambda>buyer.
     found_only (get_user_primary_wallet K cfg (st_seller_id st)) (\<lambda>seller.
     let pooled = Pooled \<lparr>ti_settlement = st, ti_buy_pda = buy_pda, ti_sell_pda = sell_pda, ti_buyer = buyer, ti_seller = seller\<rparr> in
     if gc_per_user_escrow cfg then
       and_then (attempt (get_signed_order_side D K cfg (st_buy_order_id st))) (\<lambda>buyer_side.
       and_then (attempt (get_signed_order_side D K cfg (st_sell_order_id st))) (\<lambda>seller_side.
       case (buyer_side, seller_side) of
         (Inr (Some b), Inr (Some s)) \<Rightarrow>
           and_then (attempt (execute_offchain_settlement D K st b s)) (\<lambda>r.
           ok (case r of Inr tx \<Rightarrow> Settled tx | Inl _ \<Rightarrow> Left_Out))
       | _ \<Rightarrow> ok pooled))
     else ok pooled))))"

definition settled_txs :: "prepared list \<Rightarrow> settlement_transaction list" where
  "settled_txs ps = concat (map (\<lambda>p. case p of Settled tx \<Rightarrow> [tx] | _ \<Rightarrow> []) ps)"

definition pooled_inputs :: "prepared list \<Rightarrow> trade_input list" where
  "pooled_inputs ps = concat (map (\<lambda>p. case p of Pooled i \<Rightarrow> [i] | _ \<Rightarrow> []) ps)"

definition gateway_execute ::
  "dec_ops \<Rightarrow> ('c, 'ix) client \<Rightarrow> gateway_config \<Rightarrow> settlement list \<Rightarrow> ('c, settlement_transaction list) bridge" where
  "gateway_execute D K cfg settlements =
     (if settlements = [] \<or> \<not> gc_trade_settlement cfg then ok []
      else
        and_then (map_calls (prepare D K cfg) settlements) (\<lambda>ps.
        and_then (provider_execute D K (pooled_inputs ps) 0) (\<lambda>trade_results.
        ok (settled_txs ps @ trade_results))))"

section \<open>Sequences of calls\<close>

lemma and_then_Inr:
  assumes "and_then m k s = (Inr y, s')"
  obtains x s1 where "m s = (Inr x, s1)" "k x s1 = (Inr y, s')"
  using assms by (auto simp: and_then_def split: prod.splits sum.splits)

lemma map_calls_Inr:
  assumes "map_calls f xs s = (Inr ys, s')"
  shows "list_all2 (\<lambda>x y. \<exists>s s'. f x s = (Inr y, s')) xs ys"
  using assms
proof (induction xs arbitrary: s ys)
  case Nil
  then show ?case by (simp add: ok_def)
next
  case (Cons x xs)
  from Cons.prems obtain y s1 where y: "f x s = (Inr y, s1)"
      and r: "and_then (map_calls f xs) (\<lambda>ys. ok (y # ys)) s1 = (Inr ys, s')"
    by (auto elim: and_then_Inr)
  from r obtain ys' where "map_calls f xs s1 = (Inr ys', s')" "ys = y # ys'"
    by (auto elim!: and_then_Inr simp: ok_def)
  then show ?case using Cons.IH y by auto
qed

lemma ok_Inr [simp]: "ok x s = (Inr y, s') \<longleftrightarrow> y = x \<and> s' = s"
  by (auto simp: ok_def)

lemma of_any_Inr [simp]: "of_any r s = (Inr y, s') \<longleftrightarrow> r = Inr y \<and> s' = s"
  by (auto simp: of_any_def bail_def throw_def ok_def split: sum.splits)

lemma context_error_Inr [simp]: "context_error f m s = (Inr y, s') \<longleftrightarrow> m s = (Inr y, s')"
  by (auto simp: context_error_def split: prod.splits sum.splits failure.splits)

lemma attempt_Inr: "attempt m s = (Inr r, s') \<Longrightarrow>
    (case r of Inr x \<Rightarrow> m s = (Inr x, s') | Inl e \<Rightarrow> m s = (Inl (Error e), s'))"
  by (auto simp: attempt_def split: prod.splits sum.splits failure.splits)

section \<open>Chunks\<close>

lemma concat_chunks [simp]: "concat (chunks n xs) = xs"
  by (induction n xs rule: chunks.induct) simp_all

lemma chunks_length: "1 \<le> n \<Longrightarrow> c \<in> set (chunks n xs) \<Longrightarrow> length c \<le> n"
  by (induction n xs rule: chunks.induct) auto

lemma tx_chunk_pos: "1 \<le> tx_chunk K"
  by (auto simp: tx_chunk_def unwrap_or_def split: option.split bind_split if_splits)

section \<open>What a successful answer means\<close>

lemma wait_poll_confirmed: "wait_poll K sig limit c k t = Inr True \<Longrightarrow> \<exists>k. cl_signature_state K sig k c = Inr Sig_Confirmed"
proof (induction K sig limit c k t rule: wait_poll.induct)
  case (1 K sig limit c k t)
  then show ?case
    by (subst (asm) (2) wait_poll.simps) (auto split: sum.splits signature_state.splits if_splits)
qed

definition pooled_atomic :: "dec_ops \<Rightarrow> decimal \<Rightarrow> int \<Rightarrow> int option" where
  "pooled_atomic D v scale = map_option (\<lambda>x. unwrap_or (to_u64 (dec_trunc x)) 0) (dmul D v (of_int scale))"

lemma atomic_or_zero_Inr [simp]:
  "atomic_or_zero D v scale s = (Inr n, s') \<longleftrightarrow> pooled_atomic D v scale = Some n \<and> s' = s"
  by (auto simp: atomic_or_zero_def and_then_def or_panic_def pooled_atomic_def ok_def split: option.splits)

text \<open>The arguments of the settle instruction of a settlement.\<close>

definition settle_terms :: "dec_ops \<Rightarrow> settlement \<Rightarrow> settle_args \<Rightarrow> bool" where
  "settle_terms D st a \<longleftrightarrow> sa_trade_id a = uuid_bytes (st_id st) \<and>
     pooled_atomic D (st_energy_amount st) 1000000000 = Some (sa_amount a) \<and>
     pooled_atomic D (st_price st) 1000000 = Some (sa_price a) \<and>
     pooled_atomic D (unwrap_or (st_wheeling_charge st) 0) 1000000 = Some (sa_wheeling_charge a) \<and>
     pooled_atomic D (unwrap_or (st_loss_cost st) 0) 1000000 = Some (sa_loss_cost a)"

definition trade_ix :: "dec_ops \<Rightarrow> ('c, 'ix) client \<Rightarrow> settlement \<Rightarrow> 'ix \<Rightarrow> bool" where
  "trade_ix D K st ix \<longleftrightarrow> (\<exists>a. settle_terms D st a \<and> cl_settle K a = Inr ix)"

lemma trade_group_Inr:
  assumes "trade_group D K acc inp g = (Inr grp, g')"
  shows "snd grp = st_id (ti_settlement inp) \<and> (\<exists>ix \<in> set (fst grp). trade_ix D K (ti_settlement inp) ix)"
  using assms
  by (auto simp: trade_group_def Let_def trade_ix_def settle_terms_def elim!: and_then_Inr)

lemma submit_Inr:
  assumes "submit_instructions K ixs g = (Inr sig, g')"
  obtains c where "cl_submit K ixs (gw_chain g) = (Inr sig, c)" "gw_chain g' = c"
  using assms by (auto simp: submit_instructions_def split: prod.splits)

lemma wait_Inr:
  assumes "wait_for_confirmation K sig limit g = (Inr True, g')"
  shows "g' = g \<and> (\<exists>k. cl_signature_state K sig k (gw_chain g) = Inr Sig_Confirmed)"
  using assms by (auto simp: wait_for_confirmation_def on_chain_def dest: wait_poll_confirmed)

text \<open>A transaction that was sent with the given instructions, and that the chain confirmed.\<close>

definition confirmed_with :: "('c, 'ix) client \<Rightarrow> 'ix list \<Rightarrow> string \<Rightarrow> bool" where
  "confirmed_with K ixs sig \<longleftrightarrow> (\<exists>c c' k. cl_submit K ixs c = (Inr sig, c') \<and> cl_signature_state K sig k c' = Inr Sig_Confirmed)"

lemma chunk_verdict_Inr:
  assumes "chunk_verdict K limit groups sig answer g = (Inr rs, g')"
  shows "answer = Inr True \<and> (\<exists>slot. rs = map (\<lambda>(_, i). confirmed_tx i sig slot) groups)"
proof -
  have yes: "answer = Inr True"
    using assms by (auto simp: chunk_verdict_def throw_def split: sum.splits bool.splits)
  show ?thesis using assms by (auto simp: chunk_verdict_def yes elim!: and_then_Inr)
qed

lemma send_chunk_Inr:
  assumes "send_chunk K 0 limit groups g = (Inr rs, g')"
  shows "\<exists>sig slot. rs = map (\<lambda>(_, i). confirmed_tx i sig slot) groups \<and> confirmed_with K (concat (map fst groups)) sig"
proof -
  obtain sig g1 where s: "submit_instructions K (concat (map fst groups)) g = (Inr sig, g1)"
      and rest: "and_then (attempt (wait_for_confirmation K sig limit)) (chunk_verdict K limit groups sig) g1 = (Inr rs, g')"
    by (rule and_then_Inr[OF assms[unfolded send_chunk_def Let_def, simplified]]) simp
  from rest obtain answer g2 where a: "attempt (wait_for_confirmation K sig limit) g1 = (Inr answer, g2)"
      and r: "chunk_verdict K limit groups sig answer g2 = (Inr rs, g')"
    by (rule and_then_Inr)
  note v = chunk_verdict_Inr[OF r]
  obtain k where "cl_signature_state K sig k (gw_chain g1) = Inr Sig_Confirmed"
    using attempt_Inr[OF a] wait_Inr[of K sig limit g1 g2] v by auto
  moreover obtain c where "cl_submit K (concat (map fst groups)) (gw_chain g) = (Inr sig, c)" "gw_chain g1 = c"
    using s by (rule submit_Inr)
  ultimately show ?thesis using v unfolding confirmed_with_def by blast
qed

lemma list_all2_concat: "list_all2 (list_all2 P) xss yss \<Longrightarrow> list_all2 P (concat xss) (concat yss)"
  by (induction rule: list_all2_induct) (auto intro: list_all2_appendI)

definition settled_by :: "dec_ops \<Rightarrow> ('c, 'ix) client \<Rightarrow> settlement \<Rightarrow> settlement_transaction \<Rightarrow> bool" where
  "settled_by D K st tx \<longleftrightarrow> tx_settlement_id tx = st_id st \<and>
     (\<exists>ixs. confirmed_with K ixs (tx_signature tx) \<and> (\<exists>ix \<in> set ixs. trade_ix D K st ix))"

lemma chunk_settled:
  assumes "send_chunk K 0 limit groups g = (Inr rs, g')"
    and "list_all2 (\<lambda>inp grp. snd grp = st_id (ti_settlement inp) \<and> (\<exists>ix \<in> set (fst grp). trade_ix D K (ti_settlement inp) ix)) inps groups"
  shows "list_all2 (\<lambda>inp tx. settled_by D K (ti_settlement inp) tx) inps rs"
proof -
  obtain sig slot where rs: "rs = map (\<lambda>(_, i). confirmed_tx i sig slot) groups" and c: "confirmed_with K (concat (map fst groups)) sig"
    using send_chunk_Inr[OF assms(1)] by blast
  show ?thesis unfolding rs list_all2_map2
  proof (rule list.rel_mono_strong[OF assms(2)])
    fix inp grp assume "grp \<in> set groups" "snd grp = st_id (ti_settlement inp) \<and> (\<exists>ix \<in> set (fst grp). trade_ix D K (ti_settlement inp) ix)"
    then obtain ix where "ix \<in> set (concat (map fst groups))" "trade_ix D K (ti_settlement inp) ix"
        "snd grp = st_id (ti_settlement inp)" by auto
    then show "settled_by D K (ti_settlement inp) (case grp of (_, i) \<Rightarrow> confirmed_tx i sig slot)"
      using c unfolding settled_by_def
      by (intro conjI exI[of _ "concat (map fst groups)"]) (auto simp: confirmed_tx_def split: prod.split)
  qed
qed

text \<open>A list that corresponds to the concatenation of chunks falls into the same chunks.\<close>

lemma list_all2_chunked:
  assumes "list_all2 P xs (concat yss)"
  obtains xss where "xs = concat xss" "list_all2 (list_all2 P) xss yss"
  using assms
proof (induction yss arbitrary: xs thesis)
  case Nil
  from Nil.prems(1)[of "[]"] Nil.prems(2) show ?case by simp
next
  case (Cons ys yss)
  obtain us vs where "xs = us @ vs" "list_all2 P us ys" "list_all2 P vs (concat yss)"
    using Cons.prems(2) by (auto simp: list_all2_append2)
  moreover obtain vss where "vs = concat vss" "list_all2 (list_all2 P) vss yss" using Cons.IH calculation(3) by blast
  ultimately show ?case using Cons.prems(1)[of "us # vss"] by simp
qed

lemma provider_settled:
  assumes "provider_execute D K inputs 0 g = (Inr rs, g')"
  shows "list_all2 (\<lambda>inp tx. settled_by D K (ti_settlement inp) tx) inputs rs"
proof (cases "inputs = []")
  case True
  then show ?thesis using assms by (simp add: provider_execute_def)
next
  case False
  obtain acc g1 where "and_then (map_calls (trade_group D K acc) inputs) (\<lambda>groups.
        and_then (map_calls (send_chunk K 0 (unwrap_or (env_unsigned K ''SETTLEMENT_CONFIRM_TIMEOUT_SECS'') 30)) (chunks (tx_chunk K) groups))
          (\<lambda>rs. ok (concat rs))) g1 = (Inr rs, g')"
    by (rule and_then_Inr[OF assms[unfolded provider_execute_def if_not_P[OF False] Let_def]])
  then obtain groups g2 where gr: "map_calls (trade_group D K acc) inputs g1 = (Inr groups, g2)"
      and r: "and_then (map_calls (send_chunk K 0 (unwrap_or (env_unsigned K ''SETTLEMENT_CONFIRM_TIMEOUT_SECS'') 30)) (chunks (tx_chunk K) groups))
          (\<lambda>rs. ok (concat rs)) g2 = (Inr rs, g')"
    by (rule and_then_Inr)
  obtain rss where sent: "list_all2 (\<lambda>c rs. \<exists>s s'. send_chunk K 0 (unwrap_or (env_unsigned K ''SETTLEMENT_CONFIRM_TIMEOUT_SECS'') 30) c s = (Inr rs, s'))
       (chunks (tx_chunk K) groups) rss" and rs: "rs = concat rss"
    using r by (auto elim!: and_then_Inr dest!: map_calls_Inr)
  have "list_all2 (\<lambda>inp grp. snd grp = st_id (ti_settlement inp) \<and> (\<exists>ix \<in> set (fst grp). trade_ix D K (ti_settlement inp) ix))
      inputs (concat (chunks (tx_chunk K) groups))"
    unfolding concat_chunks by (rule list_all2_mono[OF map_calls_Inr[OF gr]]) (use trade_group_Inr in blast)
  then obtain inss where ins: "inputs = concat inss" "list_all2 (list_all2 (\<lambda>inp grp. snd grp = st_id (ti_settlement inp) \<and>
      (\<exists>ix \<in> set (fst grp). trade_ix D K (ti_settlement inp) ix))) inss (chunks (tx_chunk K) groups)"
    by (rule list_all2_chunked)
  have "list_all2 (list_all2 (\<lambda>inp tx. settled_by D K (ti_settlement inp) tx)) inss rss"
    by (rule list_all2_trans[OF _ ins(2) sent]) (use chunk_settled in blast)
  then show ?thesis unfolding ins(1) rs by (rule list_all2_concat)
qed

section \<open>What the gateway answers\<close>

text \<open>Whatever a call answers when it succeeds.\<close>

definition yields :: "('s, 'a) call \<Rightarrow> ('a \<Rightarrow> bool) \<Rightarrow> bool" where
  "yields m P \<longleftrightarrow> (\<forall>s x s'. m s = (Inr x, s') \<longrightarrow> P x)"

named_theorems yields_intros

lemma yieldsI: "(\<And>s x s'. m s = (Inr x, s') \<Longrightarrow> P x) \<Longrightarrow> yields m P"
  by (simp add: yields_def)

lemma yieldsD: "yields m P \<Longrightarrow> m s = (Inr x, s') \<Longrightarrow> P x"
  by (simp add: yields_def) blast

lemma yields_bind:
  assumes "yields m Q" "\<And>x. Q x \<Longrightarrow> yields (k x) P"
  shows "yields (and_then m k) P"
proof (rule yieldsI)
  fix s x s' assume "and_then m k s = (Inr x, s')"
  then obtain y s1 where y: "m s = (Inr y, s1)" and x: "k y s1 = (Inr x, s')" by (rule and_then_Inr)
  show "P x" by (rule yieldsD[OF assms(2)[OF yieldsD[OF assms(1) y]] x])
qed

lemma yields_ok [yields_intros]: "P x \<Longrightarrow> yields (ok x) P"
  by (simp add: yields_def)

lemma yields_and_then [yields_intros]: "(\<And>x. yields (k x) P) \<Longrightarrow> yields (and_then m k) P"
  by (rule yields_bind[where Q = "\<lambda>_. True"]) (simp_all add: yields_def)

lemma yields_attempt: "yields m P \<Longrightarrow> yields (attempt m) (\<lambda>r. case r of Inr x \<Rightarrow> P x | Inl _ \<Rightarrow> True)"
  by (rule yieldsI, drule attempt_Inr) (auto split: sum.splits intro: yieldsD)

lemma yields_found_only [yields_intros]:
  assumes "\<And>x. yields (k x) P" "P Left_Out"
  shows "yields (found_only m k) P"
  unfolding found_only_def
proof (rule yields_and_then)
  fix r show "yields (case r of Inr (Some x) \<Rightarrow> k x | _ \<Rightarrow> ok Left_Out) P"
    using assms by (cases r) (auto split: option.split intro: yields_ok)
qed

lemma offchain_yields: "yields (execute_offchain_settlement D K st b s) (\<lambda>tx. tx_settlement_id tx = st_id st)"
  unfolding execute_offchain_settlement_def Let_def confirmed_tx_def by (intro yields_intros) simp

definition prepared_for :: "bool \<Rightarrow> settlement \<Rightarrow> prepared \<Rightarrow> bool" where
  "prepared_for escrow st p = (case p of
       Left_Out \<Rightarrow> True
     | Settled tx \<Rightarrow> escrow \<and> tx_settlement_id tx = st_id st
     | Pooled inp \<Rightarrow> ti_settlement inp = st)"

lemma prepare_yields: "yields (prepare D K cfg st) (prepared_for (gc_per_user_escrow cfg) st)"
proof -
  have "yields (and_then (attempt (execute_offchain_settlement D K st b s))
      (\<lambda>r. ok (case r of Inr tx \<Rightarrow> Settled tx | Inl _ \<Rightarrow> Left_Out))) (prepared_for True st)" for b s
    by (rule yields_bind[OF yields_attempt[OF offchain_yields]])
       (auto intro!: yields_ok simp: prepared_for_def split: sum.splits)
  then show ?thesis
    unfolding prepare_def Let_def
    apply (intro yields_found_only; (simp add: prepared_for_def; fail)?)
    subgoal for buy_pda sell_pda buyer seller
      by (cases "gc_per_user_escrow cfg")
        (auto simp: prepared_for_def intro!: yields_and_then yields_ok split: sum.split option.split)
    done
qed

lemma gateway_prepared:
  assumes "gateway_execute D K cfg batch g = (Inr rs, g')" "batch \<noteq> []" "gc_trade_settlement cfg"
  obtains ps txs where "list_all2 (prepared_for (gc_per_user_escrow cfg)) batch ps" "rs = settled_txs ps @ txs"
    "list_all2 (\<lambda>inp tx. settled_by D K (ti_settlement inp) tx) (pooled_inputs ps) txs"
proof -
  have "and_then (map_calls (prepare D K cfg) batch) (\<lambda>ps. and_then (provider_execute D K (pooled_inputs ps) 0)
      (\<lambda>trade_results. ok (settled_txs ps @ trade_results))) g = (Inr rs, g')"
    using assms by (simp add: gateway_execute_def)
  then obtain ps g1 where ps: "map_calls (prepare D K cfg) batch g = (Inr ps, g1)"
      and r: "and_then (provider_execute D K (pooled_inputs ps) 0) (\<lambda>trade_results. ok (settled_txs ps @ trade_results)) g1 = (Inr rs, g')"
    by (rule and_then_Inr)
  from r obtain txs where "provider_execute D K (pooled_inputs ps) 0 g1 = (Inr txs, g')" "rs = settled_txs ps @ txs"
    by (auto elim: and_then_Inr)
  moreover have "list_all2 (prepared_for (gc_per_user_escrow cfg)) batch ps"
    by (rule list_all2_mono[OF map_calls_Inr[OF ps]]) (use prepare_yields in \<open>unfold yields_def, blast\<close>)
  ultimately show thesis using that provider_settled by blast
qed

text \<open>Each settlement is named at most as often as the batch holds it.\<close>

lemma prepared_ids:
  assumes "list_all2 (prepared_for escrow) batch ps"
  shows "mset (map tx_settlement_id (settled_txs ps)) + mset (map (\<lambda>i. st_id (ti_settlement i)) (pooled_inputs ps)) \<subseteq># mset (map st_id batch)"
  using assms
proof (induction rule: list_all2_induct)
  case (Cons st batch p ps)
  let ?P = "mset (map tx_settlement_id (settled_txs ps)) + mset (map (\<lambda>i. st_id (ti_settlement i)) (pooled_inputs ps))"
  have "?P \<subseteq># add_mset (st_id st) (mset (map st_id batch))"
    by (rule subset_mset.order_trans[OF Cons.IH]) (simp add: subseteq_mset_def)
  then show ?case
    using Cons.hyps(1) Cons.IH by (cases p) (auto simp: settled_txs_def pooled_inputs_def prepared_for_def)
qed (simp add: settled_txs_def pooled_inputs_def)

lemma gateway_ids:
  assumes "gateway_execute D K cfg batch g = (Inr rs, g')"
  shows "mset (map tx_settlement_id rs) \<subseteq># mset (map st_id batch)"
proof (cases "batch = [] \<or> \<not> gc_trade_settlement cfg")
  case True
  then show ?thesis using assms by (auto simp: gateway_execute_def)
next
  case False
  then obtain ps txs where p: "list_all2 (prepared_for (gc_per_user_escrow cfg)) batch ps" "rs = settled_txs ps @ txs"
      and s: "list_all2 (\<lambda>inp tx. settled_by D K (ti_settlement inp) tx) (pooled_inputs ps) txs"
    using gateway_prepared[OF assms] by blast
  have "map tx_settlement_id txs = map (\<lambda>i. st_id (ti_settlement i)) (pooled_inputs ps)"
    using s by (induction rule: list_all2_induct) (simp_all add: settled_by_def)
  then show ?thesis using prepared_ids[OF p(1)] by (simp add: p(2))
qed

section \<open>The gateway under the settlement service\<close>

text \<open>One call, from what it can see of the database at the time.\<close>

type_synonym gateway_env = "gateway_config \<times> read_model \<times> bool list"

definition gateway_call ::
  "dec_ops \<Rightarrow> ('c, 'ix) client \<Rightarrow> gateway_env \<Rightarrow> settlement list \<Rightarrow> 'c \<Rightarrow> (failure + settlement_transaction list) \<times> 'c" where
  "gateway_call D K env batch c =
     (case env of (cfg, m, faults) \<Rightarrow>
        (case gateway_execute D K cfg batch \<lparr>gw_chain = c, gw_model = m, gw_faults = faults\<rparr> of (r, g) \<Rightarrow> (r, gw_chain g)))"

fun chain_after :: "dec_ops \<Rightarrow> ('c, 'ix) client \<Rightarrow> (nat \<Rightarrow> gateway_env) \<Rightarrow> nat \<Rightarrow> 'c \<Rightarrow> settlement list list \<Rightarrow> 'c" where
  "chain_after D K envs k c [] = c"
| "chain_after D K envs k c (b # bs) = chain_after D K envs (Suc k) (snd (gateway_call D K (envs k) b c)) bs"

text \<open>The chain as the service sees it.  A panic would end the worker's task; it is shown not to happen.\<close>

definition gateway_chain :: "dec_ops \<Rightarrow> ('c, 'ix) client \<Rightarrow> (nat \<Rightarrow> gateway_env) \<Rightarrow> 'c \<Rightarrow> chain" where
  "gateway_chain D K envs c sent batch =
     (case fst (gateway_call D K (envs (length sent)) batch (chain_after D K envs 0 c sent)) of
        Inr rs \<Rightarrow> Inr rs
      | Inl (Error e) \<Rightarrow> Inl e
      | Inl Panicked \<Rightarrow> Inl (Internal ''panicked''))"

lemma gateway_chain_ok: "chain_ok (gateway_chain D K envs c)"
  unfolding chain_ok_def
proof (intro allI impI)
  fix sent b rs assume d: "distinct (map st_id b)" and r: "gateway_chain D K envs c sent b = Inr rs"
  obtain cfg m fs where e: "envs (length sent) = (cfg, m, fs)" by (cases "envs (length sent)")
  obtain g' where "gateway_execute D K cfg b \<lparr>gw_chain = chain_after D K envs 0 c sent, gw_model = m, gw_faults = fs\<rparr> = (Inr rs, g')"
    using r by (auto simp: gateway_chain_def gateway_call_def e split: prod.splits sum.splits failure.splits)
  then have m: "mset (map tx_settlement_id rs) \<subseteq># mset (map st_id b)" by (rule gateway_ids)
  have "distinct (map tx_settlement_id rs)"
    using m d unfolding distinct_count_atmost_1 subseteq_mset_def
    by (metis count_mset_0_iff le_antisym le_zero_eq less_one linorder_not_less nat_le_linear set_mset_mset)
  then show "tx_settlement_id ` set rs \<subseteq> st_id ` set b \<and> distinct (map tx_settlement_id rs)"
    using set_mset_mono[OF m] by simp
qed

interpretation deployed: settlement_chain "gateway_chain D K envs c" for D K envs c
  by unfold_locales (use gateway_chain_ok[of D K envs c] in \<open>unfold chain_ok_def, blast\<close>)+

lemma gateway_chain_answer:
  assumes "gateway_chain D K envs c sent batch = Inr rs"
  obtains g g' where "gateway_execute D K (fst (envs (length sent))) batch g = (Inr rs, g')"
proof -
  obtain cfg m fs where e: "envs (length sent) = (cfg, m, fs)" by (cases "envs (length sent)")
  have "fst (gateway_execute D K cfg batch \<lparr>gw_chain = chain_after D K envs 0 c sent, gw_model = m, gw_faults = fs\<rparr>) = Inr rs"
    using assms by (auto simp: gateway_chain_def gateway_call_def e split: prod.splits sum.splits failure.splits)
  then show thesis using that by (metis e fst_conv prod.collapse)
qed

subsection \<open>No panic\<close>

definition calm_call :: "('s, 'a) call \<Rightarrow> bool" where
  "calm_call m \<longleftrightarrow> (\<forall>s. fst (m s) \<noteq> Inl Panicked)"

named_theorems calm_intros

lemma calm_and_then [calm_intros]: "calm_call m \<Longrightarrow> (\<And>x. calm_call (k x)) \<Longrightarrow> calm_call (and_then m k)"
  unfolding calm_call_def and_then_def by (auto split: prod.splits sum.splits) (metis fst_conv)+

lemma calm_bind: "calm_call m \<Longrightarrow> yields m Q \<Longrightarrow> (\<And>x. Q x \<Longrightarrow> calm_call (k x)) \<Longrightarrow> calm_call (and_then m k)"
  unfolding calm_call_def and_then_def yields_def by (auto split: prod.splits sum.splits) (metis fst_conv)+

lemma calm_attempt [calm_intros]: "calm_call m \<Longrightarrow> calm_call (attempt m)"
  unfolding calm_call_def attempt_def by (auto split: prod.splits sum.splits failure.splits) (metis fst_conv)

lemma calm_ok [calm_intros]: "calm_call (ok x)" and calm_throw [calm_intros]: "calm_call (throw e)"
  and calm_of_any [calm_intros]: "calm_call (of_any r)" and calm_on_chain [calm_intros]: "calm_call (on_chain f)"
  and calm_gw_read [calm_intros]: "calm_call (gw_read h)" and calm_submit [calm_intros]: "calm_call (submit_instructions K ixs)"
  by (auto simp: calm_call_def ok_def throw_def of_any_def on_chain_def gw_read_def bail_def submit_instructions_def
      split: sum.split list.split bool.split prod.split)

lemma calm_context [calm_intros]: "calm_call m \<Longrightarrow> calm_call (context_error f m)"
  unfolding calm_call_def context_error_def by (auto split: prod.splits sum.splits failure.splits) (metis fst_conv)

lemma calm_found_only [calm_intros]: "calm_call m \<Longrightarrow> (\<And>x. calm_call (k x)) \<Longrightarrow> calm_call (found_only m k)"
  unfolding found_only_def by (rule calm_and_then) (auto intro!: calm_intros split: sum.split option.split)

lemma calm_map_calls: "(\<And>x. x \<in> set xs \<Longrightarrow> calm_call (f x)) \<Longrightarrow> calm_call (map_calls f xs)"
  by (induction xs) (auto intro!: calm_intros)

text \<open>Amounts as the ledger's columns hold them, small enough for the chain's 64 bits.\<close>

definition column_amount :: "decimal \<Rightarrow> bool" where
  "column_amount v \<longleftrightarrow> grid8 v \<and> 0 \<le> v \<and> v \<le> 18000000000"

definition ledger_amounts :: "settlement \<Rightarrow> bool" where
  "ledger_amounts st \<longleftrightarrow> column_amount (st_energy_amount st) \<and> column_amount (st_price st) \<and>
     column_amount (unwrap_or (st_wheeling_charge st) 0) \<and> column_amount (unwrap_or (st_loss_cost st) 0)"

lemma column_product:
  assumes "dec_laws D" "column_amount v" "scale = 1000000000 \<or> scale = 1000000"
  shows "dmul D v (of_int scale) = Some (v * of_int scale)" and "to_u64 (dec_trunc (v * of_int scale)) = Some \<lfloor>v * of_int scale\<rfloor>"
proof -
  obtain k :: int where k: "v = of_int k / 10 ^ 8" using assms(2) by (auto simp: column_amount_def grid8_def)
  have b: "0 \<le> v" "v \<le> 18000000000" using assms(2) by (simp_all add: column_amount_def)
  have "0 \<le> (of_int k :: decimal)" "(of_int k :: decimal) \<le> 1800000000000000000"
    using b unfolding k by (simp_all add: zero_le_divide_iff divide_le_eq)
  then have "0 \<le> k" "k \<le> 1800000000000000000" by simp_all
  then have "\<bar>k * scale\<bar> < 2 ^ 96" using assms(3) by auto
  then have "dec_repr (v * of_int scale)" by (rule dec_reprI[of _ 8]) (simp_all add: k)
  then show "dmul D v (of_int scale) = Some (v * of_int scale)" using assms(1) by (rule dmul_exact[rotated])
  have "v * of_int scale \<le> 18000000000 * 1000000000"
    using b assms(3) by (intro mult_mono) auto
  moreover have "0 \<le> v * of_int scale" using b assms(3) by auto
  ultimately have "0 \<le> v * of_int scale" "\<lfloor>v * of_int scale\<rfloor> \<le> u64_max" "0 \<le> \<lfloor>v * of_int scale\<rfloor>"
    unfolding u64_max_def by (simp_all add: floor_le_iff)
  then show "to_u64 (dec_trunc (v * of_int scale)) = Some \<lfloor>v * of_int scale\<rfloor>" by (simp add: to_u64_def dec_trunc_def)
qed

lemma calm_atomic: "dec_laws D \<Longrightarrow> column_amount v \<Longrightarrow> scale = 1000000000 \<or> scale = 1000000 \<Longrightarrow> calm_call (atomic_or_zero D v scale)"
  unfolding atomic_or_zero_def by (rule calm_and_then) (auto simp: column_product or_panic_def calm_call_def ok_def)

lemma calm_to_atomic [calm_intros]: "calm_call (decimal_to_atomic D v scale)"
  unfolding decimal_to_atomic_def by (auto intro!: calm_intros split: option.split)

lemma calm_wallet [calm_intros]: "calm_call (get_user_primary_wallet K cfg u)"
proof -
  have "calm_call (reconcile_wallet p l u now)" for p l now
    unfolding reconcile_wallet_def by (rule calm_and_then[OF calm_gw_read]) (auto simp: calm_call_def split: prod.split sum.split)
  then show ?thesis
    unfolding get_user_primary_wallet_def bail_def by (auto intro!: calm_intros split: option.split prod.split)
qed

lemma calm_pda [calm_intros]: "calm_call (get_order_pda K cfg i)"
  unfolding get_order_pda_def bail_def by (auto intro!: calm_intros split: option.split)

lemma calm_side [calm_intros]: "calm_call (get_signed_order_side D K cfg i)"
  unfolding get_signed_order_side_def bail_def by (auto intro!: calm_intros split: option.split)

lemma calm_ed25519 [calm_intros]: "calm_call (ed25519_ix K s)"
  unfolding ed25519_ix_def by (auto intro!: calm_intros split: sum.split)

lemma calm_offchain [calm_intros]: "calm_call (execute_offchain_settlement D K st b s)"
  unfolding execute_offchain_settlement_def Let_def settlement_amount_atomic_def settlement_price_atomic_def
  by (intro calm_intros)

lemma calm_prepare: "calm_call (prepare D K cfg st)"
  unfolding prepare_def Let_def by (auto intro!: calm_intros split: sum.split option.split)

lemma calm_trade_group:
  assumes "dec_laws D" "ledger_amounts (ti_settlement inp)"
  shows "calm_call (trade_group D K acc inp)"
  using assms unfolding trade_group_def Let_def derive_trade_atas_def ledger_amounts_def
  by (auto intro!: calm_intros calm_atomic)

lemma calm_send_chunk: "calm_call (send_chunk K fee limit groups)"
proof -
  have "calm_call (chunk_verdict K limit groups sig answer)" for sig answer
  proof (cases answer)
    case (Inr b)
    have "calm_call (chunk_verdict K limit groups sig (Inr True))" "calm_call (chunk_verdict K limit groups sig (Inr False))"
      unfolding chunk_verdict_def sum.case bool.case by (intro calm_intros)+
    then show ?thesis unfolding Inr by (cases b) simp_all
  qed (simp add: chunk_verdict_def calm_throw)
  then show ?thesis
    unfolding send_chunk_def Let_def wait_for_confirmation_def
    by (intro calm_and_then calm_context calm_submit calm_attempt calm_on_chain) (simp add: calm_of_any calm_ok)
qed

lemma calm_provider:
  assumes "dec_laws D" "\<And>inp. inp \<in> set inputs \<Longrightarrow> ledger_amounts (ti_settlement inp)"
  shows "calm_call (provider_execute D K inputs fee)"
  using assms unfolding provider_execute_def read_batch_accounts_def Let_def
  by (auto intro!: calm_intros calm_map_calls calm_trade_group calm_send_chunk)

lemma pooled_of_batch: "list_all2 (prepared_for e) batch ps \<Longrightarrow> inp \<in> set (pooled_inputs ps) \<Longrightarrow> ti_settlement inp \<in> set batch"
  by (induction rule: list_all2_induct) (auto simp: pooled_inputs_def prepared_for_def split: prepared.splits)

lemma calm_gateway:
  assumes "dec_laws D" "\<forall>st\<in>set batch. ledger_amounts st"
  shows "calm_call (gateway_execute D K cfg batch)"
proof -
  have "yields (map_calls (prepare D K cfg) batch) (list_all2 (prepared_for (gc_per_user_escrow cfg)) batch)"
    by (rule yieldsI) (rule list_all2_mono[OF map_calls_Inr], assumption, use prepare_yields in \<open>blast dest: yieldsD\<close>)
  moreover have "calm_call (and_then (provider_execute D K (pooled_inputs ps) 0) (\<lambda>txs. ok (settled_txs ps @ txs)))"
    if "list_all2 (prepared_for (gc_per_user_escrow cfg)) batch ps" for ps
    using pooled_of_batch[OF that] assms by (intro calm_and_then calm_provider calm_ok) auto
  ultimately show ?thesis
    unfolding gateway_execute_def
    by (auto intro!: calm_ok calm_bind[OF calm_map_calls] calm_prepare)
qed

section \<open>Properties\<close>

lemma settle_terms_exact:
  assumes "dec_laws D" "ledger_amounts st" "settle_terms D st a"
  shows "of_int (sa_amount a) = st_energy_amount st * 1000000000 \<and> sa_price a = \<lfloor>st_price st * 1000000\<rfloor> \<and>
    sa_wheeling_charge a = \<lfloor>unwrap_or (st_wheeling_charge st) 0 * 1000000\<rfloor> \<and>
    sa_loss_cost a = \<lfloor>unwrap_or (st_loss_cost st) 0 * 1000000\<rfloor>"
proof -
  have p: "pooled_atomic D v s = Some n \<longleftrightarrow> n = \<lfloor>v * of_int s\<rfloor>" if "column_amount v" "s = 1000000000 \<or> s = 1000000" for v s n
    using column_product[OF assms(1) that] by (auto simp: pooled_atomic_def)
  obtain k :: int where "st_energy_amount st = of_int k / 10 ^ 8"
    using assms(2) by (auto simp: ledger_amounts_def column_amount_def grid8_def)
  then have e: "st_energy_amount st * 1000000000 = of_int (k * 10)" by simp
  have "sa_amount a = \<lfloor>st_energy_amount st * 1000000000\<rfloor>"
    using assms(2,3) p[of "st_energy_amount st" 1000000000] by (simp add: ledger_amounts_def settle_terms_def)
  then have "of_int (sa_amount a) = st_energy_amount st * 1000000000" unfolding e floor_of_int by (rule arg_cong)
  then show ?thesis
    using assms(2,3) p[of _ 1000000] by (simp add: ledger_amounts_def settle_terms_def)
qed

text \<open>C22: The contract the settlement service relies on holds of the gateway.  Whatever the chain, the keys, the
  environment, the tables and the faults of each call, the answers to a history of batches name settlements of
  the batch, each once, which is \<open>chain_ok\<close>; and a call never panics for a batch of ledger rows.\<close>

theorem gateway_meets_contract:
  fixes K :: "('c, 'ix) client"
  assumes "dec_laws D"
  shows "chain_ok (gateway_chain D K envs c) \<and>
    (\<forall>env batch (c' :: 'c). (\<forall>st\<in>set batch. ledger_amounts st) \<longrightarrow> fst (gateway_call D K env batch c') \<noteq> Inl Panicked)"
proof (intro conjI allI impI gateway_chain_ok)
  fix env :: gateway_env and batch and c' :: 'c assume b: "\<forall>st\<in>set batch. ledger_amounts st"
  obtain cfg m faults where e: "env = (cfg, m, faults)" by (cases env)
  let ?g = "\<lparr>gw_chain = c', gw_model = m, gw_faults = faults\<rparr>"
  have "fst (gateway_execute D K cfg batch ?g) \<noteq> Inl Panicked"
    using calm_gateway[OF assms b, of K cfg] unfolding calm_call_def by blast
  then show "fst (gateway_call D K env batch c') \<noteq> Inl Panicked"
    by (auto simp: gateway_call_def e split: prod.split)
qed

text \<open>In custodial mode every transaction of an answer settles a trade of the batch.\<close>

lemma gateway_settled:
  assumes "gateway_execute D K cfg batch g = (Inr rs, g')" "\<not> gc_per_user_escrow cfg" "tx \<in> set rs"
  shows "\<exists>st\<in>set batch. settled_by D K st tx"
proof (cases "batch = [] \<or> \<not> gc_trade_settlement cfg")
  case True
  then show ?thesis using assms(1,3) by (auto simp: gateway_execute_def)
next
  case False
  then obtain ps txs where ps: "list_all2 (prepared_for False) batch ps" and rs: "rs = settled_txs ps @ txs"
      and s: "list_all2 (\<lambda>inp tx. settled_by D K (ti_settlement inp) tx) (pooled_inputs ps) txs"
    using gateway_prepared[OF assms(1)] assms(2) by (metis (full_types))
  have "settled_txs ps = []"
    using ps by (induction rule: list_all2_induct) (auto simp: settled_txs_def prepared_for_def split: prepared.splits)
  then have "\<exists>inp\<in>set (pooled_inputs ps). settled_by D K (ti_settlement inp) tx"
    using list_all2_origin[OF s] assms(3) rs by simp
  then show ?thesis using pooled_of_batch[OF ps] by blast
qed

lemma settled_exactly:
  assumes "dec_laws D" "ledger_amounts st" "settled_by D K st tx"
  shows "tx_settlement_id tx = st_id st \<and>
     (\<exists>a ix ixs. confirmed_with K ixs (tx_signature tx) \<and> ix \<in> set ixs \<and> cl_settle K a = Inr ix \<and>
        sa_trade_id a = uuid_bytes (st_id st) \<and> of_int (sa_amount a) = st_energy_amount st * 1000000000 \<and>
        sa_price a = \<lfloor>st_price st * 1000000\<rfloor> \<and> sa_wheeling_charge a = \<lfloor>unwrap_or (st_wheeling_charge st) 0 * 1000000\<rfloor> \<and>
        sa_loss_cost a = \<lfloor>unwrap_or (st_loss_cost st) 0 * 1000000\<rfloor>)"
proof -
  obtain ixs ix a where s: "tx_settlement_id tx = st_id st" "confirmed_with K ixs (tx_signature tx)"
      "ix \<in> set ixs" "cl_settle K a = Inr ix" and a: "settle_terms D st a"
    using assms(3) unfolding settled_by_def trade_ix_def by blast
  have "of_int (sa_amount a) = st_energy_amount st * 1000000000 \<and> sa_price a = \<lfloor>st_price st * 1000000\<rfloor> \<and>
      sa_wheeling_charge a = \<lfloor>unwrap_or (st_wheeling_charge st) 0 * 1000000\<rfloor> \<and>
      sa_loss_cost a = \<lfloor>unwrap_or (st_loss_cost st) 0 * 1000000\<rfloor>"
    using settle_terms_exact[OF assms(1) _ a] assms(2) by blast
  moreover have "sa_trade_id a = uuid_bytes (st_id st)" using a by (simp add: settle_terms_def)
  ultimately show ?thesis using s by blast
qed


section \<open>Runs\<close>

text \<open>A chain that keeps the identifiers of the trades it has settled and refuses a transaction that names one of
  them, as the replay guard of the settle instruction is documented to do.  The first transaction may be lost, or land
  without being seen to before the time to wait for it is over.\<close>

datatype fate = Lands | Lost | Unseen

record nullifier_chain =
  nc_landed :: "byte list list"
  nc_sent :: nat
  nc_last :: signature_state

definition nullifier_submit :: "fate \<Rightarrow> byte list list \<Rightarrow> nullifier_chain \<Rightarrow> (string + string) \<times> nullifier_chain" where
  "nullifier_submit first ixs c =
     (let ids = filter (\<lambda>i. i \<noteq> []) ixs; c' = c\<lparr>nc_sent := Suc (nc_sent c)\<rparr>;
          fate = (if nc_sent c = 0 then first else Lands) in
      (Inr (nat_str (nc_sent c)),
       if fate = Lost then c'\<lparr>nc_last := Sig_Pending\<rparr>
       else if list_ex (\<lambda>i. i \<in> set (nc_landed c)) ids
         then c'\<lparr>nc_last := Sig_Failed ''InstructionError: trade already settled''\<rparr>
       else c'\<lparr>nc_landed := nc_landed c @ ids, nc_last := (if fate = Lands then Sig_Confirmed else Sig_Pending)\<rparr>))"

definition nullifier_client :: "fate \<Rightarrow> (nullifier_chain, byte list) client" where
  "nullifier_client first = base_client (nullifier_submit first) nc_last"

definition fresh_chain :: nullifier_chain where
  "fresh_chain = \<lparr>nc_landed = [], nc_sent = 0, nc_last = Sig_Pending\<rparr>"

definition placed_order :: "uuid \<Rightarrow> uuid \<Rightarrow> order_side \<Rightarrow> order_row" where
  "placed_order i u side = (example_order i u side Order_Filled None)\<lparr>odb_order_pda := Some ''P'', odb_signature := Some ''S''\<rparr>"

definition placed_orders :: "order_row list" where
  "placed_orders = [placed_order 21 11 Buy, placed_order 22 12 Sell]"

definition settling_world :: world where
  "settling_world = (let w = example_world [example_settlement 1 ''pending'' 0] in
     w\<lparr>w_store := (w_store w)\<lparr>db_orders := placed_orders\<rparr>\<rparr>)"

definition settling_env :: "bool \<Rightarrow> gateway_env" where
  "settling_env per_user = ((gateway_for placed_orders)\<lparr>gc_per_user_escrow := per_user\<rparr>,
     \<lparr>rm_wallets = [primary_row 11 ''B'', primary_row 12 ''S''], rm_meters = []\<rparr>, [])"

definition settling_chain :: "fate \<Rightarrow> bool \<Rightarrow> chain" where
  "settling_chain first per_user = gateway_chain exact_dec (nullifier_client first) (\<lambda>_. settling_env per_user) fresh_chain"

text \<open>What the chain holds after the batches the service has sent.\<close>

definition landed_after :: "fate \<Rightarrow> bool \<Rightarrow> world \<Rightarrow> byte list list" where
  "landed_after first per_user w =
     nc_landed (chain_after exact_dec (nullifier_client first) (\<lambda>_. settling_env per_user) 0 fresh_chain (w_sent w))"

definition settling_tick :: "fate \<Rightarrow> bool \<Rightarrow> world \<Rightarrow> world" where
  "settling_tick first per_user w = snd (settlement_tick (settling_chain first per_user) 10 w)"

text \<open>The trade as the worker claims it, after the given number of retries.\<close>

definition claimed_trade :: "nat \<Rightarrow> string option \<Rightarrow> settlement" where
  "claimed_trade n err = settlement_of_row ((example_settlement 1 ''processing'' 0)\<lparr>sdb_retry_count := n, sdb_error_message := err\<rparr>)"

definition unseen_error :: api_error where
  "unseen_error = Internal ''settlement batch 0 not confirmed within 0s; releasing for retry''"

definition replay_error :: api_error where
  "replay_error = Internal ''settlement batch 1 confirmation check failed: transaction 1 failed on-chain: InstructionError: trade already settled; releasing for retry''"

definition retried_trade :: settlement where
  "retried_trade = claimed_trade 1 (Some (api_error_str unseen_error))"

lemma unseen_answer: "settling_chain Unseen False [] [claimed_trade 0 None] = Inl unseen_error"
  by code_simp

lemma replay_answer: "settling_chain Unseen False [[claimed_trade 0 None]] [retried_trade] = Inl replay_error"
  by code_simp

lemma verdicts:
  "\<not> is_deterministic_chain_rejection (api_error_str unseen_error)"
  "is_deterministic_chain_rejection (api_error_str replay_error)"
  by code_simp+

lemmas settling_defs = service_steps example_defs settling_tick_def settling_world_def placed_orders_def placed_order_def
  example_order_def retried_trade_def claimed_trade_def settlement_of_row_def example_settlement_def lapsed_def Let_def

lemmas settling_answers =
  unseen_answer[unfolded claimed_trade_def settlement_of_row_def example_settlement_def, simplified]
  replay_answer[unfolded retried_trade_def claimed_trade_def settlement_of_row_def example_settlement_def, simplified]

lemma unseen_ticks:
  "map sdb_status (rows (settling_tick Unseen False (settling_tick Unseen False settling_world))) = [''permanently_failed'']"
  "w_sent (settling_tick Unseen False (settling_tick Unseen False settling_world)) = [[claimed_trade 0 None], [retried_trade]]"
  by (simp_all add: settling_defs settling_answers verdicts)

section \<open>Witnesses and losses\<close>

theorem gateway_meets_contract_witness:
  "chain_ok (settling_chain Unseen False) \<and> settling_chain Unseen False [] [claimed_trade 0 None] = Inl unseen_error"
  using gateway_meets_contract[OF dec_laws_exact, of "nullifier_client Unseen" "\<lambda>_. settling_env False" fresh_chain] unseen_answer
  by (simp add: settling_chain_def)

definition calm_gateway_call :: "(failure + settlement_transaction list) \<times> nullifier_chain gateway" where
  "calm_gateway_call = gateway_execute exact_dec (nullifier_client Lands) (fst (settling_env False)) [claimed_trade 0 None]
     \<lparr>gw_chain = fresh_chain, gw_model = fst (snd (settling_env False)), gw_faults = []\<rparr>"

lemma calm_answer: "fst calm_gateway_call = Inr [confirmed_tx 1 ''0'' 1]"
  by code_simp



text \<open>Under per-user escrow the transaction of a trade is not waited for.  One that is accepted by the node and then
  lost is reported confirmed, and the settlement is completed although the chain has settled nothing.\<close>

theorem escrow_settlement_unconfirmed:
  "let w = settling_tick Lost True settling_world in
   landed_after Lost True w = [] \<and> map sdb_status (rows w) = [''completed'']"
proof -
  have "landed_after Lost True (settling_tick Lost True settling_world) = []" by code_simp
  moreover have "map sdb_status (rows (settling_tick Lost True settling_world)) = [''completed'']" by code_simp
  ultimately show ?thesis by (simp add: Let_def)
qed

end
