(* ===== verification/Grpc_Orders.thy ===== *)
theory Grpc_Orders imports Order_Submission Settlement_Runs begin

text \<open>
  \<open>trading-api/src/handlers.rs\<close>: the orders of the gRPC service.  The gates are those of
  \<open>Order_Gates\<close>; what differs from the HTTP edge is the order of the steps: the row is inserted
  first, and the custodial placement on the chain, which others can overtake, settles its fate.
\<close>

section \<open>The request\<close>

text \<open>Strings of the wire; amounts are \<open>f64\<close>, whose conversion to a decimal is a parameter, and so is
  the parsing of an identifier and of an RFC 3339 instant.\<close>

record 'f grpc_order_request =
  gr_user_id :: string
  gr_side :: string
  gr_order_type :: string
  gr_energy_amount :: 'f
  gr_price_per_kwh :: 'f
  gr_zone_id :: zone
  gr_meter_id :: string
  gr_session_token :: string
  gr_time_in_force :: "string option"
  gr_market_segment :: "string option"
  gr_expires_at :: "string option"
  gr_expires_in_secs :: "int option"

record 'f wire =
  wi_uuid :: "string \<Rightarrow> string + uuid"
  wi_decimal :: "'f \<Rightarrow> decimal option"   \<comment> \<open>\<open>from_f64_retain\<close>\<close>
  wi_is_zero :: "'f \<Rightarrow> bool"
  wi_rfc3339 :: "string \<Rightarrow> string + datetime"

section \<open>Submitting\<close>

text \<open>The price field cannot be absent: zero stands for it.\<close>

definition grpc_price_input :: "'f wire \<Rightarrow> 'f \<Rightarrow> decimal option gate" where
  "grpc_price_input W price =
     (if wi_is_zero W price then pass None
      else gate_bind (of_option (BadPrice ''Invalid price_per_kwh'') (wi_decimal W price)) (\<lambda>d. pass (Some d)))"

definition grpc_terms :: "'f wire \<Rightarrow> 'f grpc_order_request \<Rightarrow> (uuid \<times> order_terms) gate" where
  "grpc_terms W req =
     gate_bind (of_result BadUserId (wi_uuid W (gr_user_id req))) (\<lambda>user.
     gate_bind (of_result id (parse_side (gr_side req))) (\<lambda>side.
     let ty = parse_order_type (gr_order_type req) in
     gate_bind (of_result id (parse_time_in_force ty (gr_time_in_force req))) (\<lambda>tif.
     gate_bind (of_result id (parse_segment (gr_market_segment req))) (\<lambda>seg.
     gate_bind (interval_gate seg tif) (\<lambda>_.
     gate_bind (of_option (BadAmount ''Invalid energy_amount'') (wi_decimal W (gr_energy_amount req))) (\<lambda>amount.
     gate_bind (grpc_price_input W (gr_price_per_kwh req)) (\<lambda>price_input.
     gate_bind (of_result PriceRefused (resolve_order_price ty side tif price_input)) (\<lambda>price.
     pass (user, \<lparr>ot_amount = amount, ot_side = side, ot_type = ty, ot_tif = tif, ot_price_input = price_input,
                  ot_price = price, ot_segment = seg\<rparr>)))))))))"

text \<open>An empty meter identifier is an absent one.\<close>

definition grpc_meter :: "'f wire \<Rightarrow> edge \<Rightarrow> string \<Rightarrow> meter_identity option gate" where
  "grpc_meter W E meter_id =
     (if meter_id = [] then pass None
      else
        gate_bind (of_result BadMeterId (wi_uuid W meter_id)) (\<lambda>i.
        gate_bind (or_refuse MeterDatabase (db_read (\<lambda>_ _. lookup_by_id i (ed_meters E)))) (\<lambda>found.
        gate_bind (of_option (UnknownMeter i) found) (\<lambda>m. pass (Some m)))))"

definition grpc_expiry :: "clock_range \<Rightarrow> service_config \<Rightarrow> 'f wire \<Rightarrow> 'f grpc_order_request \<Rightarrow> datetime gate" where
  "grpc_expiry C cfg W req =
     gate_bind (case gr_expires_at req of
         None \<Rightarrow> pass None
       | Some raw \<Rightarrow> gate_bind (of_result BadExpiry (wi_rfc3339 W raw)) (\<lambda>t. pass (Some t))) (\<lambda>requested.
     and_then telemetry_now (\<lambda>now.
     of_result ExpiryRefused (resolve_expires_at C now requested (gr_expires_in_secs req) None
       (cf_default_ttl cfg) (cf_max_ttl cfg))))"

definition grpc_order ::
  "uuid \<Rightarrow> 'f grpc_order_request \<Rightarrow> order_terms \<Rightarrow> meter_identity option \<Rightarrow> uuid \<Rightarrow> uuid \<Rightarrow> datetime \<Rightarrow> datetime \<Rightarrow> trading_order" where
  "grpc_order user req terms meter i epoch expires now =
     \<lparr>ord_id = i, ord_user_id = user, ord_order_type = ot_type terms, ord_side = ot_side terms,
      ord_energy_amount = ot_amount terms, ord_price_per_kwh = ot_price terms, ord_filled_amount = 0,
      ord_status = Order_Pending, ord_expires_at = Some expires, ord_created_at = Some now, ord_filled_at = None,
      ord_epoch_id = Some epoch, ord_zone_id = gr_zone_id req, ord_meter_id = map_option mi_meter_id meter,
      ord_refund_tx_signature = None, ord_order_pda = None, ord_order_index = None,
      ord_session_token = (if gr_session_token req = [] then None else Some (gr_session_token req)),
      ord_blockchain_status = None, ord_blockchain_tx_hash = None, ord_blockchain_error = None,
      ord_retry_count = 0, ord_time_in_force = ot_tif terms, ord_market_segment = ot_segment terms\<rparr>"

text \<open>The custodial placement.  It takes until the transaction is final: \<open>meanwhile\<close> is what the matcher,
  the settlement worker and the user do to the tables before it answers.\<close>

definition await_chain :: "(store \<Rightarrow> store) \<Rightarrow> unit io" where
  "await_chain meanwhile w = (Inr (), w\<lparr>w_store := meanwhile (w_store w)\<rparr>)"

definition placement :: "edge \<Rightarrow> trading_order \<Rightarrow> api_error + (string \<times> string)" where
  "placement E o' =
     ed_place E (ord_user_id o') (ord_side o' = Buy) (ord_energy_amount o') (ord_price_per_kwh o')
       (unwrap_or (ord_zone_id o') 0) (order_seed (ord_id o')) (case ord_expires_at o' of None \<Rightarrow> 0 | Some t \<Rightarrow> t div nanos)"

definition grpc_place :: "service_config \<Rightarrow> edge \<Rightarrow> (store \<Rightarrow> store) \<Rightarrow> trading_order \<Rightarrow> unit io" where
  "grpc_place cfg E meanwhile o' =
     (if cf_trade_settlement cfg then
        and_then (await_chain meanwhile) (\<lambda>_.
        case placement E o' of
          Inr (_, pda) \<Rightarrow>
            ignore (db_call (update_order_pda (ord_id o') pda (unwrap_or (i64_try_from (order_seed (ord_id o'))) i64_max)))
        | Inl e \<Rightarrow>
            if is_deterministic_chain_rejection (api_error_str e)
            then ignore (db_call (update_order_status (ord_id o') Order_Cancelled))
            else ok ())
      else ok ())"

record trading_response =
  tr_success :: bool
  tr_message :: string
  tr_id :: "uuid option"

definition grpc_admit ::
  "dec_ops \<Rightarrow> service_config \<Rightarrow> static_charge_rates \<Rightarrow> edge \<Rightarrow> 'f wire \<Rightarrow> 'f grpc_order_request
     \<Rightarrow> (uuid \<times> order_terms \<times> meter_identity option) gate" where
  "grpc_admit D cfg rates E W req =
     gate_bind (grpc_terms W req) (\<lambda>(user, terms).
     gate_bind (grpc_meter W E (gr_meter_id req)) (\<lambda>meter.
     gate_bind (sell_gate E user (ot_side terms) meter) (\<lambda>_.
     gate_bind (floor_gate D cfg rates (ot_side terms) (ot_price terms)) (\<lambda>_.
     gate_bind (funding_gate D E (ot_side terms) (ot_type terms) (ot_price_input terms) (ot_price terms) (ot_amount terms)) (\<lambda>_.
     pass (user, terms, meter))))))"

definition grpc_record ::
  "clock_range \<Rightarrow> service_config \<Rightarrow> edge \<Rightarrow> 'f wire \<Rightarrow> (store \<Rightarrow> store) \<Rightarrow> 'f grpc_order_request
     \<Rightarrow> uuid \<times> order_terms \<times> meter_identity option \<Rightarrow> trading_response gate" where
  "grpc_record C cfg E W meanwhile req = (\<lambda>(user, terms, meter).
     gate_bind (or_refuse EpochFailed (db_call get_or_create_active_epoch)) (\<lambda>epoch.
     gate_bind (grpc_expiry C cfg W req) (\<lambda>expires.
     and_then new_v4 (\<lambda>i.
     and_then telemetry_now (\<lambda>now.
     let o' = grpc_order user req terms meter i epoch expires now in
     gate_bind (or_refuse InsertFailed (db_call (insert_order_with_event o' (order_created_event o')))) (\<lambda>_.
     and_then (grpc_place cfg E meanwhile o') (\<lambda>_.
     gate_bind (wake_for o') (\<lambda>_.
     pass \<lparr>tr_success = True, tr_message = ''Order submitted successfully'', tr_id = Some i\<rparr>))))))))"

definition grpc_submit_order ::
  "clock_range \<Rightarrow> dec_ops \<Rightarrow> service_config \<Rightarrow> static_charge_rates \<Rightarrow> edge \<Rightarrow> 'f wire \<Rightarrow> (store \<Rightarrow> store)
     \<Rightarrow> 'f grpc_order_request \<Rightarrow> trading_response gate" where
  "grpc_submit_order C D cfg rates E W meanwhile req =
     gate_bind (grpc_admit D cfg rates E W req) (grpc_record C cfg E W meanwhile req)"

section \<open>The other calls\<close>

definition grpc_cancel_order :: "'f wire \<Rightarrow> string \<Rightarrow> string \<Rightarrow> trading_response gate" where
  "grpc_cancel_order W order_id user_id =
     gate_bind (of_result BadOrderId (wi_uuid W order_id)) (\<lambda>i.
     gate_bind (of_result BadUserId (wi_uuid W user_id)) (\<lambda>user.
     gate_bind (or_refuse DatabaseFailed (db_call (cancel_order i user))) (\<lambda>success.
     pass \<lparr>tr_success = success, tr_message = (if success then ''Order cancelled'' else ''Order not found or already closed''),
           tr_id = Some i\<rparr>)))"

record 'f order_response =
  or_id :: uuid
  or_user_id :: uuid
  or_energy_amount :: 'f
  or_price_per_kwh :: 'f
  or_filled_amount :: 'f
  or_side :: string
  or_status :: string
  or_created_at :: string
  or_zone_id :: zone

text \<open>\<open>to_f64().unwrap_or_default()\<close> and \<open>to_rfc3339\<close>.\<close>

record 'f display =
  dp_f64 :: "decimal \<Rightarrow> 'f"
  dp_rfc3339 :: "datetime \<Rightarrow> string"

definition order_response_of :: "'f display \<Rightarrow> trading_order \<Rightarrow> 'f order_response" where
  "order_response_of P o' =
     \<lparr>or_id = ord_id o', or_user_id = ord_user_id o', or_energy_amount = dp_f64 P (ord_energy_amount o'),
      or_price_per_kwh = dp_f64 P (ord_price_per_kwh o'), or_filled_amount = dp_f64 P (ord_filled_amount o'),
      or_side = to_lowercase (order_side_str (ord_side o')), or_status = to_lowercase (order_status_str (ord_status o')),
      or_created_at = (case ord_created_at o' of None \<Rightarrow> [] | Some t \<Rightarrow> dp_rfc3339 P t), or_zone_id = ord_zone_id o'\<rparr>"

definition grpc_get_order :: "'f wire \<Rightarrow> 'f display \<Rightarrow> string \<Rightarrow> 'f order_response gate" where
  "grpc_get_order W P order_id =
     gate_bind (of_result BadOrderId (wi_uuid W order_id)) (\<lambda>i.
     gate_bind (or_refuse DatabaseFailed (db_read (\<lambda>_. get_order i))) (\<lambda>found.
     gate_bind (of_option UnknownOrder found) (\<lambda>o'. pass (order_response_of P o'))))"

definition grpc_list_orders :: "'f wire \<Rightarrow> 'f display \<Rightarrow> string \<Rightarrow> 'f order_response list gate" where
  "grpc_list_orders W P user_id =
     gate_bind (of_result BadUserId (wi_uuid W user_id)) (\<lambda>user.
     gate_bind (or_refuse DatabaseFailed (db_read (\<lambda>_. get_orders_by_user user 50 0))) (\<lambda>orders.
     pass (map (order_response_of P) orders)))"

definition entry_response :: "'f display \<Rightarrow> order_book_entry \<Rightarrow> 'f order_response" where
  "entry_response P e =
     \<lparr>or_id = obe_order_id e, or_user_id = obe_user_id e, or_energy_amount = dp_f64 P (obe_energy_amount e),
      or_price_per_kwh = dp_f64 P (obe_price_per_kwh e),
      or_filled_amount = dp_f64 P (obe_original_amount e - obe_energy_amount e),
      or_side = to_lowercase (order_side_str (obe_side e)), or_status = ''open'',
      or_created_at = dp_rfc3339 P (obe_created_at e), or_zone_id = obe_zone_id e\<rparr>"

definition side_filter :: "string option \<Rightarrow> refusal + string option" where
  "side_filter raw =
     (case map_option to_lowercase raw of
        None \<Rightarrow> Inr None
      | Some s \<Rightarrow> if s = ''buy'' \<or> s = ''sell'' then Inr (Some s) else Inl BadSide)"

definition grpc_get_order_book :: "'f display \<Rightarrow> int option \<Rightarrow> string option \<Rightarrow> 'f order_response list gate" where
  "grpc_get_order_book P zone_id side =
     gate_bind (of_option MissingZone zone_id) (\<lambda>zone.
     gate_bind (of_result id (side_filter side)) (\<lambda>wanted.
     gate_bind (or_refuse DatabaseFailed (db_read (get_active_orders_by_zone zone))) (\<lambda>entries.
     pass (map (entry_response P)
       (filter (\<lambda>e. case wanted of Some s \<Rightarrow> to_lowercase (order_side_str (obe_side e)) = s | None \<Rightarrow> True) entries)))))"

text \<open>A list of settlements by hand: those that exist are handed to the settlement service.\<close>

record batch_response =
  br_success :: bool
  br_signature :: string
  br_settlement_ids :: "uuid list"
  br_message :: string

definition empty_batch :: batch_response where
  "empty_batch = \<lparr>br_success = False, br_signature = [], br_settlement_ids = [], br_message = []\<rparr>"

definition fetch_settlement :: "'f wire \<Rightarrow> string \<Rightarrow> settlement list gate" where
  "fetch_settlement W raw =
     gate_bind (of_result BadSettlementId (wi_uuid W raw)) (\<lambda>i.
     and_then (attempt (db_read (\<lambda>_. get_settlement i))) (\<lambda>r.
     pass (case r of Inr (Some st) \<Rightarrow> [st] | _ \<Rightarrow> [])))"

fun fetch_settlements :: "'f wire \<Rightarrow> string list \<Rightarrow> settlement list gate" where
  "fetch_settlements W [] = pass []"
| "fetch_settlements W (r # rs) = gate_bind (fetch_settlement W r) (\<lambda>a. gate_bind (fetch_settlements W rs) (\<lambda>b. pass (a @ b)))"

definition batch_execute_settlements :: "chain \<Rightarrow> 'f wire \<Rightarrow> string list \<Rightarrow> batch_response gate" where
  "batch_execute_settlements chain W raw =
     gate_bind (fetch_settlements W raw) (\<lambda>settlements.
     if settlements = [] then pass empty_batch
     else
       gate_bind (or_refuse BatchFailed (execute_batched_settlements chain settlements)) (\<lambda>tx_results.
       pass \<lparr>br_success = True, br_signature = (case tx_results of [] \<Rightarrow> [] | t # _ \<Rightarrow> tx_signature t),
             br_settlement_ids = map tx_settlement_id tx_results, br_message = ''Batch processed successfully''\<rparr>))"

section \<open>What is admitted\<close>

definition grpc_good_terms :: "'f wire \<Rightarrow> 'f grpc_order_request \<Rightarrow> uuid \<Rightarrow> order_terms \<Rightarrow> bool" where
  "grpc_good_terms W req user terms \<longleftrightarrow>
     wi_uuid W (gr_user_id req) = Inr user \<and> wi_decimal W (gr_energy_amount req) = Some (ot_amount terms) \<and>
     ot_price_input terms = (if wi_is_zero W (gr_price_per_kwh req) then None else wi_decimal W (gr_price_per_kwh req)) \<and>
     resolve_order_price (ot_type terms) (ot_side terms) (ot_tif terms) (ot_price_input terms) = Inr (ot_price terms) \<and>
     (ot_segment terms = Interval \<longrightarrow> ot_tif terms = Gtc)"

definition grpc_admissible ::
  "dec_ops \<Rightarrow> service_config \<Rightarrow> static_charge_rates \<Rightarrow> edge \<Rightarrow> 'f wire \<Rightarrow> 'f grpc_order_request
     \<Rightarrow> uuid \<times> order_terms \<times> meter_identity option \<Rightarrow> bool" where
  "grpc_admissible D cfg rates E W req = (\<lambda>(user, terms, meter).
     grpc_good_terms W req user terms \<and>
     (ot_side terms = Sell \<longrightarrow> may_sell E user meter \<and> settleable D cfg rates (ot_price terms)) \<and>
     (ot_side terms = Buy \<longrightarrow> funded D E (ot_type terms) (ot_price_input terms) (ot_price terms) (ot_amount terms)))"

lemma grpc_price_gates:
  "gates S (grpc_price_input W price) (\<lambda>x. x = (if wi_is_zero W price then None else wi_decimal W price))"
  by (auto simp: grpc_price_input_def intro!: gates_intros gates_bind[where Q = "\<lambda>d. wi_decimal W price = Some d"])

lemma grpc_terms_gates: "gates S (grpc_terms W req) (\<lambda>(user, terms). grpc_good_terms W req user terms)"
  unfolding grpc_terms_def Let_def
  apply (rule gates_bind[where Q = "\<lambda>x. wi_uuid W (gr_user_id req) = Inr x"], rule gates_of_result, assumption)
  apply (rule gates_bind[where Q = "\<lambda>_. True"], simp add: gates_of_result)
  apply (rule gates_bind[where Q = "\<lambda>_. True"], simp add: gates_of_result)
  apply (rule gates_bind[where Q = "\<lambda>_. True"], simp add: gates_of_result)
  subgoal for user side tif seg
    apply (rule gates_bind[where Q = "\<lambda>_. seg = Interval \<longrightarrow> tif = Gtc"])
     apply (auto simp: interval_gate_def intro!: gates_intros)[1]
    apply (rule gates_bind[where Q = "\<lambda>x. wi_decimal W (gr_energy_amount req) = Some x"], rule gates_of_option, assumption)
    apply (rule gates_bind[OF grpc_price_gates])
    subgoal for _ amount price_input
      by (rule gates_bind[where Q = "\<lambda>x. resolve_order_price (parse_order_type (gr_order_type req)) side tif price_input = Inr x"])
         (auto simp: grpc_good_terms_def intro!: gates_intros)
    done
  done

lemma grpc_meter_gates: "gates (unsent s wk t db) (grpc_meter W E meter_id) (\<lambda>_. True)"
  by (auto simp: grpc_meter_def intro!: gates_bind[where Q = "\<lambda>_. True"] gates_read gates_intros keeps_unsent_read)

lemma grpc_admit_gates: "gates (unsent s wk t db) (grpc_admit D cfg rates E W req) (grpc_admissible D cfg rates E W req)"
  unfolding grpc_admit_def
  apply (rule gates_bind[OF grpc_terms_gates])
  subgoal for x
    apply (cases x, simp)
    apply (rule gates_bind[OF grpc_meter_gates])
    apply (rule gates_bind[OF sell_gate_gates])
    apply (rule gates_bind[OF floor_gate_gates])
    apply (rule gates_bind[OF funding_gate_gates])
    apply (rule gates_pass)
    apply (simp add: grpc_admissible_def)
    done
  done

section \<open>What is recorded\<close>

definition grpc_row_for ::
  "'f grpc_order_request \<Rightarrow> uuid \<times> order_terms \<times> meter_identity option \<Rightarrow> datetime \<Rightarrow> order_row \<Rightarrow> bool" where
  "grpc_row_for req = (\<lambda>(user, terms, meter) expires row.
     odb_user_id row = user \<and> odb_side row = ot_side terms \<and> odb_order_type row = ot_type terms \<and>
     odb_time_in_force row = ot_tif terms \<and> odb_market_segment row = ot_segment terms \<and>
     odb_status row = Order_Pending \<and> odb_filled_amount row = Some 0 \<and>
     num8 (ot_amount terms) = Some (odb_energy_amount row) \<and> 0 < odb_energy_amount row \<and>
     num8 (ot_price terms) = Some (odb_price_per_kwh row) \<and> 0 < odb_price_per_kwh row \<and>
     odb_expires_at row = Some expires \<and> odb_zone_id row = gr_zone_id req \<and>
     odb_meter_id row = map_option mi_meter_id meter \<and> odb_signature row = None \<and> odb_order_pda row = None)"

definition grpc_expires ::
  "clock_range \<Rightarrow> service_config \<Rightarrow> 'f wire \<Rightarrow> 'f grpc_order_request \<Rightarrow> datetime \<Rightarrow> datetime \<Rightarrow> bool" where
  "grpc_expires C cfg W req now expires \<longleftrightarrow>
     (\<exists>requested. (case gr_expires_at req of None \<Rightarrow> requested = None | Some raw \<Rightarrow> \<exists>t. wi_rfc3339 W raw = Inr t \<and> requested = Some t) \<and>
        resolve_expires_at C now requested (gr_expires_in_secs req) None (cf_default_ttl cfg) (cf_max_ttl cfg) = Inr expires)"

text \<open>What the placement leaves of the tables the insert has written: what happened meanwhile, and then nothing, or the
  account of the order, or, when the program refused it, its cancellation.\<close>

definition placed_from ::
  "service_config \<Rightarrow> edge \<Rightarrow> (store \<Rightarrow> store) \<Rightarrow> order_row \<Rightarrow> store \<Rightarrow> store \<Rightarrow> bool" where
  "placed_from cfg E meanwhile row s s' \<longleftrightarrow>
     (if \<not> cf_trade_settlement cfg then s' = s
      else s' = meanwhile s \<or>
        (\<exists>now pda idx. update_order_pda (odb_id row) pda idx now (meanwhile s) = Inr ((), s')) \<or>
        (\<exists>now o' e. placement E o' = Inl e \<and> ord_id o' = odb_id row \<and> is_deterministic_chain_rejection (api_error_str e) \<and>
           update_order_status (odb_id row) Order_Cancelled now (meanwhile s) = Inr ((), s')))"

lemma grpc_expiry_gates: "gates (\<lambda>x. x = w) (grpc_expiry C cfg W req) (grpc_expires C cfg W req (w_now w))"
  unfolding grpc_expiry_def
  apply (rule gates_bind[where Q = "\<lambda>requested. case gr_expires_at req of None \<Rightarrow> requested = None
      | Some raw \<Rightarrow> \<exists>t. wi_rfc3339 W raw = Inr t \<and> requested = Some t"])
   apply (auto split: option.split intro!: gates_intros gates_bind[where Q = "\<lambda>t. wi_rfc3339 W _ = Inr t"])[1]
  apply (auto simp: gates_def and_then_def telemetry_now_def of_result_def refuse_def pass_def ok_def grpc_expires_def
      split: sum.splits option.splits)
  done

lemma ignore_call:
  "\<exists>w'. ignore (db_call f) w = (Inr (), w') \<and> w_wake w' = w_wake w \<and>
     (w_store w' = w_store w \<or> (\<exists>x. f (w_db_now w) (w_store w) = Inr (x, w_store w')))"
  by (auto simp: ignore_def and_then_def attempt_def ok_def db_call_def split: list.split bool.split sum.split prod.split)

lemma grpc_place_outcome:
  assumes "ord_id o' = odb_id row"
  obtains w' where "grpc_place cfg E meanwhile o' w = (Inr (), w')" "w_wake w' = w_wake w"
    "placed_from cfg E meanwhile row (w_store w) (w_store w')"
proof (cases "cf_trade_settlement cfg")
  case False
  then show ?thesis using that[of w] by (simp add: grpc_place_def ok_def placed_from_def)
next
  case True
  let ?w = "w\<lparr>w_store := meanwhile (w_store w)\<rparr>"
  have go: "grpc_place cfg E meanwhile o' w = (case placement E o' of
      Inr (_, pda) \<Rightarrow> ignore (db_call (update_order_pda (ord_id o') pda (unwrap_or (i64_try_from (order_seed (ord_id o'))) i64_max)))
    | Inl e \<Rightarrow> if is_deterministic_chain_rejection (api_error_str e)
        then ignore (db_call (update_order_status (ord_id o') Order_Cancelled)) else ok ()) ?w"
    using True by (simp add: grpc_place_def and_then_def await_chain_def)
  show ?thesis
  proof (cases "placement E o'")
    case (Inr a)
    obtain x pda where a: "a = (x, pda)" by (cases a)
    obtain w' where "grpc_place cfg E meanwhile o' w = (Inr (), w')" "w_wake w' = w_wake ?w" "w_store w' = w_store ?w
        \<or> (\<exists>x idx now. update_order_pda (ord_id o') pda idx now (w_store ?w) = Inr (x, w_store w'))"
      using ignore_call[of "update_order_pda (ord_id o') pda (unwrap_or (i64_try_from (order_seed (ord_id o'))) i64_max)" ?w] go Inr a
      by auto
    moreover from this have "placed_from cfg E meanwhile row (w_store w) (w_store w')"
      using True assms unfolding placed_from_def by fastforce
    ultimately show ?thesis using that[of w'] by simp
  next
    case (Inl e)
    show ?thesis
    proof (cases "is_deterministic_chain_rejection (api_error_str e)")
      case False
      then show ?thesis using that[of ?w] go True Inl by (simp add: ok_def placed_from_def)
    next
      case det: True
      obtain w' where "grpc_place cfg E meanwhile o' w = (Inr (), w')" "w_wake w' = w_wake ?w" "w_store w' = w_store ?w
          \<or> (\<exists>x now. update_order_status (ord_id o') Order_Cancelled now (w_store ?w) = Inr (x, w_store w'))"
        using ignore_call[of "update_order_status (ord_id o') Order_Cancelled" ?w] go Inl det by auto
      moreover from this have "placed_from cfg E meanwhile row (w_store w) (w_store w')"
        using True assms Inl det unfolding placed_from_def by fastforce
      ultimately show ?thesis using that[of w'] by simp
    qed
  qed
qed

definition grpc_finishes ::
  "clock_range \<Rightarrow> service_config \<Rightarrow> edge \<Rightarrow> 'f wire \<Rightarrow> (store \<Rightarrow> store) \<Rightarrow> 'f grpc_order_request
     \<Rightarrow> uuid \<times> order_terms \<times> meter_identity option \<Rightarrow> world \<Rightarrow> trading_response \<Rightarrow> world \<Rightarrow> bool" where
  "grpc_finishes C cfg E W meanwhile req adm w resp w' \<longleftrightarrow>
     (\<exists>expires row w1. grpc_expires C cfg W req (w_now w) expires \<and> grpc_row_for req adm expires row \<and> appended w w1 row \<and>
        tr_success resp \<and> tr_id resp = Some (odb_id row) \<and> placed_from cfg E meanwhile row (w_store w1) (w_store w') \<and>
        w_wake w' = (w_wake w \<or> odb_market_segment row = Realtime))"

lemma grpc_record_finishes:
  assumes run: "grpc_record C cfg E W meanwhile req (user, terms, meter) w = (r, w')"
  shows "(\<exists>resp. r = Inr (Inr resp) \<and> grpc_finishes C cfg E W meanwhile req (user, terms, meter) w resp w')
    \<or> unrecorded w w' \<and> (\<forall>resp. r \<noteq> Inr (Inr resp))"
  using run unfolding grpc_record_def prod.case
proof (cases rule: gate_bind_cases)
  case (panic f)
  from panic(1) show ?thesis by (rule or_refuse_call) simp_all
next
  case (refused e)
  from refused(1) show ?thesis by (rule or_refuse_call) (use refused(2) in auto)
next
  case (passed epoch w1)
  have u1: "unrecorded w w1"
    using passed(1) by (rule or_refuse_call) (auto simp: unrecorded_def dest!: epoch_keeps_books)
  have E: "gates (\<lambda>x. x = w1) (grpc_expiry C cfg W req) (grpc_expires C cfg W req (w_now w))"
    using grpc_expiry_gates[of w1 C cfg W req] u1 by (simp add: unrecorded_def)
  from passed(2) show ?thesis
  proof (cases rule: gate_bind_cases)
    case (panic f)
    then show ?thesis using E u1 by (auto simp: gates_def)
  next
    case (refused e)
    then show ?thesis using E u1 by (auto simp: gates_def)
  next
    case (passed expires w2)
    then have w2: "w2 = w1" and ex: "grpc_expires C cfg W req (w_now w) expires" using E by (auto simp: gates_def)
    obtain i w3 where i: "new_v4 w1 = (Inr i, w3)" and u3': "unrecorded w1 w3"
      by (cases "db_ids (w_store w1)") (auto simp: new_v4_def draw_id_def unrecorded_def)
    have u3: "unrecorded w w3" using unrecorded_trans[OF u1 u3'] .
    define o' where "o' = grpc_order user req terms meter i epoch expires (w_now w3)"
    have r3: "gate_bind (or_refuse InsertFailed (db_call (insert_order_with_event o' (order_created_event o')))) (\<lambda>_.
       and_then (grpc_place cfg E meanwhile o') (\<lambda>_.
       gate_bind (wake_for o') (\<lambda>_.
       pass \<lparr>tr_success = True, tr_message = ''Order submitted successfully'', tr_id = Some i\<rparr>))) w3 = (r, w')"
      using passed(2) by (simp add: w2 and_then_def i telemetry_now_def o'_def Let_def)
    from r3 show ?thesis
    proof (cases rule: gate_bind_cases)
      case (panic f)
      from panic(1) show ?thesis by (rule or_refuse_call) simp_all
    next
      case (refused e)
      from refused(1) show ?thesis by (rule or_refuse_call) (use refused(2) u3 in \<open>auto intro: unrecorded_trans\<close>)
    next
      case (passed x w4)
      obtain p where p: "order_created_event o' = OrderCreated p" "ocp_id p = ord_id o'" "ocp_user_id p = ord_user_id o'"
        by (simp add: order_created_event_def)
      from passed(1) obtain y where ins: "insert_order_with_event o' (OrderCreated p) (w_db_now w3) (w_store w3) = Inr (y, w_store w4)"
          and w4: "w_wake w4 = w_wake w3"
        by (rule or_refuse_call) (auto simp: p)
      from ins obtain energy price where e: "num8 (ord_energy_amount o') = Some energy" "num8 (ord_price_per_kwh o') = Some price"
          "0 < energy" "0 < price" "ord_id o' \<notin> odb_id ` set (db_orders (w_store w3))"
          "db_orders (w_store w4) = db_orders (w_store w3) @ [new_order_row (w_db_now w3) o' energy price]"
          "map obx_payload (db_outbox (w_store w4)) = map obx_payload (db_outbox (w_store w3)) @ [OrderCreated p]"
        by (rule insert_appends)
      define row where "row = new_order_row (w_db_now w3) o' energy price"
      have row: "grpc_row_for req (user, terms, meter) expires row" "odb_id row = ord_id o'" "odb_user_id row = ord_user_id o'"
          "odb_market_segment row = ord_market_segment o'" "ord_id o' = i"
        using e by (simp_all add: row_def grpc_row_for_def new_order_row_def o'_def grpc_order_def)
      have app: "appended w w4 row" using e p row u3 by (auto simp: appended_def unrecorded_def row_def)
      obtain w5 where w5: "grpc_place cfg E meanwhile o' w4 = (Inr (), w5)" "w_wake w5 = w_wake w4"
          "placed_from cfg E meanwhile row (w_store w4) (w_store w5)"
        using grpc_place_outcome row(2) by metis
      have "r = Inr (Inr \<lparr>tr_success = True, tr_message = ''Order submitted successfully'', tr_id = Some i\<rparr>)
          \<and> w' = (if ord_market_segment o' = Realtime then w5\<lparr>w_wake := True\<rparr> else w5)"
        using passed(2) w5(1)
        by (auto simp: gate_bind_def wake_for_def and_then_def request_cycle_def pass_def ok_def split: if_splits)
      moreover have "w_wake w5 = w_wake w" using w5(2) w4 u3 by (simp add: unrecorded_def)
      ultimately show ?thesis
        using ex row app w5(3) unfolding grpc_finishes_def
        by (intro disjI1 exI conjI[rotated]) (auto intro!: exI[of _ expires] exI[of _ row] exI[of _ w4])
    qed
  qed
qed


section \<open>Batches by hand\<close>

text \<open>Reading does not change what the ledger shows.\<close>

definition settled_in :: "chain \<Rightarrow> settlement list list \<Rightarrow> world \<Rightarrow> bool" where
  "settled_in chain sent w \<longleftrightarrow> healthy w \<and> ledger_shows chain w \<and> w_sent w = sent"

lemma keeps_settled_read: "keeps (settled_in chain sent) (db_read f)"
  using healthy_tl by (auto simp: keeps_def settled_in_def ledger_shows_def db_read_def db_call_def healthy_def split: list.split)

lemma fetch_settlement_gates: "gates (settled_in chain sent) (fetch_settlement W raw) (\<lambda>_. True)"
  unfolding fetch_settlement_def
proof (rule gates_bind[where Q = "\<lambda>_. True"])
  fix i
  show "gates (settled_in chain sent) (and_then (attempt (db_read (\<lambda>_. get_settlement i)))
      (\<lambda>r. pass (case r of Inr (Some st) \<Rightarrow> [st] | _ \<Rightarrow> []))) (\<lambda>_. True)"
    using keeps_settled_read[of chain sent "\<lambda>_. get_settlement i"]
    by (auto simp: gates_def keeps_def and_then_def attempt_def pass_def ok_def split: prod.split sum.split failure.split) 
qed (simp add: gates_of_result)

lemma fetch_settlements_gates: "gates (settled_in chain sent) (fetch_settlements W raw) (\<lambda>_. True)"
  by (induction raw) (auto intro!: gates_intros gates_bind[where Q = "\<lambda>_. True"] fetch_settlement_gates)

lemma batch_execute_cases:
  assumes "batch_execute_settlements chain W raw w = (r, w')" "settled_in chain sent w"
  obtains (untouched) "settled_in chain sent w'"
    | (executed) w1 sts where "settled_in chain sent w1" "w' = snd (execute_batched_settlements chain sts w1)"
proof -
  note G = fetch_settlements_gates[unfolded gates_def, rule_format, OF assms(2)]
  from assms(1)[unfolded batch_execute_settlements_def] show thesis
  proof (cases rule: gate_bind_cases)
    case (panic f)
    then show ?thesis using G untouched by (metis snd_conv)
  next
    case (refused e)
    then show ?thesis using G untouched by (metis snd_conv)
  next
    case (passed sts w1)
    have w1: "settled_in chain sent w1" using G passed(1) by (metis snd_conv)
    show ?thesis
    proof (cases "sts = []")
      case True
      then show ?thesis using passed(2) w1 untouched by (simp add: pass_def ok_def)
    next
      case False
      have "w' = snd (execute_batched_settlements chain sts w1)"
        using passed(2) False
        by (auto simp: gate_bind_def or_refuse_def and_then_def attempt_def refuse_def pass_def ok_def
            split: prod.splits sum.splits failure.splits)
      then show ?thesis using w1 executed by blast
    qed
  qed
qed


section \<open>Runs\<close>

definition demo_wire :: "rat wire" where
  "demo_wire = \<lparr>wi_uuid = (\<lambda>s. if s = ''u7'' then Inr 7 else if s = ''s1'' then Inr 1 else if s = ''s9'' then Inr 9 else Inl ''invalid''),
     wi_decimal = Some, wi_is_zero = (\<lambda>x. x = 0), wi_rfc3339 = (\<lambda>_. Inl ''invalid'')\<rparr>"

definition demo_request :: "rat grpc_order_request" where
  "demo_request = \<lparr>gr_user_id = ''u7'', gr_side = ''Sell'', gr_order_type = ''limit'', gr_energy_amount = 2,
     gr_price_per_kwh = 9 / 2, gr_zone_id = Some 1, gr_meter_id = [], gr_session_token = [], gr_time_in_force = None,
     gr_market_segment = None, gr_expires_at = None, gr_expires_in_secs = None\<rparr>"

text \<open>The matcher fills the order while its placement is under way; the program then refuses the placement.\<close>

definition filled_meanwhile :: "store \<Rightarrow> store" where
  "filled_meanwhile s = (case update_filled_amount 41 2 Order_Filled 1000 s of Inr (_, s') \<Rightarrow> s' | Inl _ \<Rightarrow> s)"

definition refusing_edge :: edge where
  "refusing_edge = submit_edge\<lparr>ed_place := (\<lambda>_ _ _ _ _ _ _. Inl (Blockchain ''InstructionError: custom program error''))\<rparr>"

text \<open>The first identifier drawn is the epoch's, the second the order's.\<close>

definition grpc_world :: world where
  "grpc_world = (submit_world [])\<lparr>w_store := (w_store (submit_world []))\<lparr>db_ids := [40, 41, 42, 43]\<rparr>\<rparr>"

definition demo_grpc :: "edge \<Rightarrow> (store \<Rightarrow> store) \<Rightarrow> (failure + (refusal + trading_response)) \<times> world" where
  "demo_grpc E meanwhile =
     grpc_submit_order chrono_utc exact_dec (escrow_config False) deployed_rates E demo_wire meanwhile demo_request grpc_world"

lemma demo_grpc_run:
  "fst (demo_grpc submit_edge id) = Inr (Inr \<lparr>tr_success = True, tr_message = ''Order submitted successfully'', tr_id = Some 41\<rparr>)"
  by code_simp



definition demo_batch :: "(failure + (refusal + batch_response)) \<times> world" where
  "demo_batch = batch_execute_settlements mint_first demo_wire [''s1'', ''s1'', ''s9''] two_pending"


end
