(* ===== verification/Zone_Hub.thy ===== *)
theory Zone_Hub imports Domain_Types begin

text \<open>
  \<open>trading-api/src/websocket.rs\<close>: the market data feed.  One task, the pump, stamps each event of a zone with the
  zone's next sequence number and hands the frame to two broadcast channels, the zone's and the one of all zones;
  a socket reads one channel and tells its client when it has been overrun.  The channels are tokio's: the
  history of a channel is what its sender was given, and what a receiver at a position of it gets is a parameter.
\<close>

section \<open>Frames and the hub\<close>

record 'j market_frame =
  mf_kind :: string
  mf_seq :: "64 word"
  mf_zone :: int
  mf_data :: 'j
  mf_timestamp :: string

record 'j zone_channel =
  zc_tx :: "'j market_frame list"   \<comment> \<open>what the sender was given, oldest first\<close>
  zc_seq :: "64 word"

record 'j zone_hub =
  zh_zones :: "int \<rightharpoonup> 'j zone_channel"
  zh_firehose :: "'j market_frame list"

definition hub_new :: "'j zone_hub" where
  "hub_new = \<lparr>zh_zones = Map.empty, zh_firehose = []\<rparr>"

definition zone_channel_of :: "'j zone_hub \<Rightarrow> int \<Rightarrow> 'j zone_channel" where
  "zone_channel_of h z = (case zh_zones h z of Some c \<Rightarrow> c | None \<Rightarrow> \<lparr>zc_tx = [], zc_seq = 0\<rparr>)"

text \<open>The channel of a zone is made when it is first asked for.\<close>

definition with_zone :: "int \<Rightarrow> 'j zone_hub \<Rightarrow> 'j zone_hub" where
  "with_zone z h = h\<lparr>zh_zones := (zh_zones h)(z \<mapsto> zone_channel_of h z)\<rparr>"

definition current_seq :: "'j zone_hub \<Rightarrow> int \<Rightarrow> 64 word" where
  "current_seq h z = (case zh_zones h z of None \<Rightarrow> 0 | Some c \<Rightarrow> zc_seq c)"

fun routable :: "event \<Rightarrow> (int \<times> string) option" where
  "routable (OrderCreated p) = map_option (\<lambda>z. (z, ''order_created'')) (ocp_zone_id p)"
| "routable (OrderMatched p) = map_option (\<lambda>z. (z, ''order_matched'')) (omp_zone_id p)"
| "routable (OrderUpdate _ _ _ _ zone) = map_option (\<lambda>z. (z, ''order_update'')) zone"
| "routable (PeakPriceUpdate _ _ zone) = map_option (\<lambda>z. (z, ''peak_price_update'')) zone"
| "routable (SettlementRequested s) = map_option (\<lambda>z. (z, ''settlement_requested'')) (st_buyer_zone_id s)"
| "routable _ = None"

section \<open>Publishing\<close>

text \<open>The encoders are serde's: the payload of an event, and whether a frame can be written.\<close>

record 'j encoder =
  en_data :: "event \<Rightarrow> string + 'j"
  en_frame :: "'j market_frame \<Rightarrow> string + unit"

text \<open>The pump takes an event, stamps it, and then sends the frame; a socket may join in between.\<close>

definition stamp :: "'j encoder \<Rightarrow> string \<Rightarrow> event \<Rightarrow> 'j zone_hub \<Rightarrow> 'j zone_hub \<times> 'j market_frame option" where
  "stamp N clock ev h =
     (case routable ev of
        None \<Rightarrow> (h, None)
      | Some (z, kind) \<Rightarrow>
          (let h = with_zone z h in
           case en_data N ev of
             Inl _ \<Rightarrow> (h, None)
           | Inr d \<Rightarrow>
               (let c = zone_channel_of h z; seq = zc_seq c + 1 in
                (h\<lparr>zh_zones := (zh_zones h)(z \<mapsto> c\<lparr>zc_seq := seq\<rparr>)\<rparr>,
                 Some \<lparr>mf_kind = kind, mf_seq = seq, mf_zone = z, mf_data = d, mf_timestamp = clock\<rparr>))))"

definition broadcast :: "'j encoder \<Rightarrow> 'j market_frame \<Rightarrow> 'j zone_hub \<Rightarrow> 'j zone_hub" where
  "broadcast N f h =
     (case en_frame N f of
        Inl _ \<Rightarrow> h
      | Inr _ \<Rightarrow>
          (let c = zone_channel_of h (mf_zone f) in
           h\<lparr>zh_zones := (zh_zones h)(mf_zone f \<mapsto> c\<lparr>zc_tx := zc_tx c @ [f]\<rparr>), zh_firehose := zh_firehose h @ [f]\<rparr>))"

definition publish :: "'j encoder \<Rightarrow> string \<Rightarrow> event \<Rightarrow> 'j zone_hub \<Rightarrow> 'j zone_hub" where
  "publish N clock ev h = (case stamp N clock ev h of (h', None) \<Rightarrow> h' | (h', Some f) \<Rightarrow> broadcast N f h')"

section \<open>Upgrading\<close>

text \<open>\<open>ws_handler\<close>: the token is verified against the configured secret; the verifier is a parameter.  \<^const>\<open>Inl\<close> is
  the status answered.\<close>

definition ws_handler ::
  "(string \<Rightarrow> string \<Rightarrow> string + string) \<Rightarrow> (string \<Rightarrow> string + uuid) \<Rightarrow> string \<Rightarrow> string \<Rightarrow> nat + uuid" where
  "ws_handler decode parse secret token =
     (if secret = [] then Inl 503
      else (case decode secret token of
          Inr sub \<Rightarrow> (case parse sub of Inr user \<Rightarrow> Inr user | Inl _ \<Rightarrow> Inl 401)
        | Inl _ \<Rightarrow> Inl 401))"

section \<open>A socket\<close>

text \<open>What a receiver gets: the next frame, how many it has missed, or nothing yet.  The sender lives as long as the hub,
  so a channel never closes.\<close>

datatype 'a received = Delivered 'a | Lagged nat | Waiting

type_synonym 'j receiver = "nat \<Rightarrow> 'j market_frame list \<Rightarrow> 'j market_frame received"

datatype 'j outbound = Market "'j market_frame" | Resync "int option" "64 word option"

record 'j socket =
  so_zone :: "int option"
  so_cursor :: nat
  so_joined :: "64 word option"
  so_out :: "'j outbound list"

definition channel_of :: "'j zone_hub \<Rightarrow> int option \<Rightarrow> 'j market_frame list" where
  "channel_of h zone = (case zone of None \<Rightarrow> zh_firehose h | Some z \<Rightarrow> zc_tx (zone_channel_of h z))"

text \<open>\<open>subscribe\<close>: first the receiver, then the sequence number, which an event can reach in between.\<close>

definition subscribe :: "int option \<Rightarrow> 'j zone_hub \<Rightarrow> 'j zone_hub \<times> 'j socket" where
  "subscribe zone h =
     (let h' = (case zone of None \<Rightarrow> h | Some z \<Rightarrow> with_zone z h) in
      (h', \<lparr>so_zone = zone, so_cursor = length (channel_of h' zone), so_joined = None, so_out = []\<rparr>))"

definition read_joined :: "'j zone_hub \<Rightarrow> 'j socket \<Rightarrow> 'j socket" where
  "read_joined h s = s\<lparr>so_joined := map_option (current_seq h) (so_zone s)\<rparr>"

text \<open>One turn of \<open>handle_socket\<close>'s loop on its receiver; \<^const>\<open>None\<close> leaves the loop.  The flag is whether the
  socket takes the message.\<close>

definition socket_turn :: "'j receiver \<Rightarrow> 'j zone_hub \<Rightarrow> bool \<Rightarrow> 'j socket \<Rightarrow> 'j socket option" where
  "socket_turn rx h takes s =
     (case rx (so_cursor s) (channel_of h (so_zone s)) of
        Waiting \<Rightarrow> Some s
      | Delivered f \<Rightarrow>
          if takes then Some (s\<lparr>so_cursor := Suc (so_cursor s), so_out := so_out s @ [Market f]\<rparr>) else None
      | Lagged n \<Rightarrow>
          if takes then Some (s\<lparr>so_cursor := so_cursor s + n,
              so_out := so_out s @ [Resync (so_zone s) (map_option (current_seq h) (so_zone s))]\<rparr>)
          else None)"

text \<open>The documented behaviour of a receiver: it delivers what was sent in order, from its position, and when it has fallen
  behind it skips some messages and says so.\<close>

definition broadcast_receiver :: "'j receiver \<Rightarrow> bool" where
  "broadcast_receiver rx \<longleftrightarrow> (\<forall>pos log. pos \<le> length log \<longrightarrow>
     (case rx pos log of
        Delivered f \<Rightarrow> pos < length log \<and> f = log ! pos
      | Lagged n \<Rightarrow> 0 < n \<and> pos + n \<le> length log
      | Waiting \<Rightarrow> pos = length log))"

text \<open>The pump takes an event when it has sent the last frame; other sockets only make zones.\<close>

inductive pump_step :: "'j encoder \<Rightarrow> 'j zone_hub \<Rightarrow> 'j market_frame option \<Rightarrow> 'j zone_hub \<Rightarrow> 'j market_frame option \<Rightarrow> bool"
  for N :: "'j encoder" where
  takes: "stamp N clock ev h = (h', p) \<Longrightarrow> pump_step N h None h' p"
| sends: "pump_step N h (Some f) (broadcast N f h) None"
| other_joins: "pump_step N h p (with_zone z h) p"

inductive hub_reached :: "'j encoder \<Rightarrow> 'j zone_hub \<Rightarrow> 'j market_frame option \<Rightarrow> bool" for N :: "'j encoder" where
  start: "hub_reached N hub_new None"
| move: "hub_reached N h p \<Longrightarrow> pump_step N h p h' p' \<Longrightarrow> hub_reached N h' p'"

text \<open>The hub, the pump and one socket, from the time the socket joins.\<close>

record 'j feed =
  fe_hub :: "'j zone_hub"
  fe_stamped :: "'j market_frame option"
  fe_socket :: "'j socket"

inductive hub_run :: "'j encoder \<Rightarrow> 'j receiver \<Rightarrow> int option \<Rightarrow> 'j feed \<Rightarrow> bool"
  for N :: "'j encoder" and rx :: "'j receiver" and zone :: "int option" where
  joins: "hub_reached N h p \<Longrightarrow> subscribe zone h = (h', s) \<Longrightarrow>
    hub_run N rx zone \<lparr>fe_hub = h', fe_stamped = p, fe_socket = s\<rparr>"
| reads_seq: "hub_run N rx zone x \<Longrightarrow> so_joined (fe_socket x) = None \<Longrightarrow> so_out (fe_socket x) = [] \<Longrightarrow>
    hub_run N rx zone (x\<lparr>fe_socket := read_joined (fe_hub x) (fe_socket x)\<rparr>)"
| pumps: "hub_run N rx zone x \<Longrightarrow> pump_step N (fe_hub x) (fe_stamped x) h p \<Longrightarrow>
    hub_run N rx zone (x\<lparr>fe_hub := h, fe_stamped := p\<rparr>)"
| turns: "hub_run N rx zone x \<Longrightarrow> socket_turn rx (fe_hub x) ok (fe_socket x) = Some s \<Longrightarrow>
    hub_run N rx zone (x\<lparr>fe_socket := s\<rparr>)"

section \<open>The sequence of a zone\<close>

definition numbered :: "'j market_frame list \<Rightarrow> bool" where
  "numbered L \<longleftrightarrow> (\<forall>z i. i < length (filter (\<lambda>f. mf_zone f = z) L) \<longrightarrow>
     mf_seq (filter (\<lambda>f. mf_zone f = z) L ! i) = of_nat (Suc i))"

definition hub_ok :: "'j zone_hub \<Rightarrow> 'j market_frame option \<Rightarrow> bool" where
  "hub_ok h p \<longleftrightarrow> (\<forall>z.
     filter (\<lambda>f. mf_zone f = z) (zh_firehose h) = zc_tx (zone_channel_of h z) \<and>
     (\<forall>i<length (zc_tx (zone_channel_of h z)). mf_zone (zc_tx (zone_channel_of h z) ! i) = z \<and>
        mf_seq (zc_tx (zone_channel_of h z) ! i) = of_nat (Suc i)) \<and>
     (if \<exists>f. p = Some f \<and> mf_zone f = z
      then zc_seq (zone_channel_of h z) = of_nat (Suc (length (zc_tx (zone_channel_of h z))))
      else zc_seq (zone_channel_of h z) = of_nat (length (zc_tx (zone_channel_of h z)))) \<and>
     (\<forall>f. p = Some f \<and> mf_zone f = z \<longrightarrow> mf_seq f = zc_seq (zone_channel_of h z)))"

lemma zone_channel_upd [simp]:
  "zone_channel_of (h\<lparr>zh_zones := (zh_zones h')(z \<mapsto> c)\<rparr>) z' = (if z' = z then c else zone_channel_of h' z')"
  "zone_channel_of (h\<lparr>zh_firehose := L\<rparr>) z' = zone_channel_of h z'"
  by (simp_all add: zone_channel_of_def)

lemma zone_channel_with [simp]: "zone_channel_of (with_zone z h) z' = zone_channel_of h z'"
  by (simp add: with_zone_def)

lemma firehose_with [simp]: "zh_firehose (with_zone z h) = zh_firehose h"
  by (simp add: with_zone_def)

lemma channel_with [simp]: "channel_of (with_zone z h) zone = channel_of h zone"
  by (simp add: channel_of_def split: option.split)

lemma current_seq_channel: "current_seq h z = zc_seq (zone_channel_of h z)"
  by (simp add: current_seq_def zone_channel_of_def split: option.split)

lemma hub_ok_new: "hub_ok hub_new None"
  by (simp add: hub_ok_def hub_new_def zone_channel_of_def)

lemma hub_ok_stamp:
  assumes "hub_ok h None" "stamp N clock ev h = (h', p)"
  shows "hub_ok h' p"
proof (cases "routable ev")
  case None
  then show ?thesis using assms by (simp add: stamp_def)
next
  case (Some a)
  obtain z kind where a: "a = (z, kind)" by (cases a)
  show ?thesis
  proof (cases "en_data N ev")
    case (Inl e)
    then show ?thesis using assms Some a by (auto simp: stamp_def hub_ok_def)
  next
    case (Inr d)
    then show ?thesis using assms Some a by (auto simp: stamp_def hub_ok_def Let_def)
  qed
qed

lemma hub_ok_broadcast:
  assumes "hub_ok h (Some f)" "en_frame N f = Inr ()"
  shows "hub_ok (broadcast N f h) None"
proof -
  let ?c = "zone_channel_of h (mf_zone f)"
  have b: "zone_channel_of (broadcast N f h) z = (if z = mf_zone f then ?c\<lparr>zc_tx := zc_tx ?c @ [f]\<rparr> else zone_channel_of h z)"
      "zh_firehose (broadcast N f h) = zh_firehose h @ [f]" for z
    using assms(2) by (simp_all add: broadcast_def Let_def)
  show ?thesis
    unfolding hub_ok_def b using assms(1) by (auto simp: hub_ok_def nth_append less_Suc_eq)
qed

lemma pump_keeps_ok:
  assumes "pump_step N h p h' p'" "hub_ok h p" "\<forall>f. en_frame N f = Inr ()"
  shows "hub_ok h' p'"
  using assms
proof (induction rule: pump_step.induct)
  case (other_joins h p z)
  then show ?case by (simp add: hub_ok_def)
qed (use hub_ok_stamp hub_ok_broadcast in blast)+

lemma pump_extends:
  assumes "pump_step N h p h' p'"
  shows "\<exists>K. channel_of h' zone = channel_of h zone @ K"
  using assms
proof (induction rule: pump_step.induct)
  case (takes clock ev h h' p)
  then have "channel_of h' zone = channel_of h zone"
    by (auto simp: stamp_def channel_of_def Let_def split: option.splits sum.splits prod.splits)
  then show ?case by simp
next
  case (sends h f)
  then show ?case
    by (auto simp: broadcast_def channel_of_def Let_def split: option.splits sum.splits)
next
  case (other_joins h p z)
  then show ?case by simp
qed

lemma channel_numbered:
  assumes "hub_ok h p"
  shows "numbered (channel_of h zone)"
proof (cases zone)
  case None
  then show ?thesis using assms by (simp add: numbered_def channel_of_def hub_ok_def)
next
  case (Some z)
  let ?L = "zc_tx (zone_channel_of h z)"
  have "filter (\<lambda>f. mf_zone f = z') ?L = (if z' = z then ?L else [])" for z'
    using assms by (auto simp: hub_ok_def filter_empty_conv filter_id_conv in_set_conv_nth)
  then show ?thesis using assms Some by (simp add: numbered_def channel_of_def hub_ok_def)
qed

section \<open>What a client receives\<close>

text \<open>The reference: the client follows the channel from a position, and every place where it does not is announced, with a
  sequence number the channel had reached.\<close>

fun follows :: "int option \<Rightarrow> 'j market_frame list \<Rightarrow> nat \<Rightarrow> 'j outbound list \<Rightarrow> nat \<Rightarrow> bool" where
  "follows zone L p [] q \<longleftrightarrow> p = q \<and> q \<le> length L"
| "follows zone L p (Market f # out) q \<longleftrightarrow> p < length L \<and> f = L ! p \<and> follows zone L (Suc p) out q"
| "follows zone L p (Resync z s # out) q \<longleftrightarrow>
     z = zone \<and> (s = None \<longleftrightarrow> zone = None) \<and>
     (\<exists>n>0. p + n \<le> length L \<and> (\<forall>k. s = Some k \<longrightarrow> (\<exists>m. k = of_nat m \<and> p + n \<le> m)) \<and> follows zone L (p + n) out q)"

lemma follows_end: "follows zone L p out q \<Longrightarrow> q \<le> length L"
  by (induction out arbitrary: p) (auto elim: follows.elims)

lemma follows_more: "follows zone L p out q \<Longrightarrow> follows zone (L @ K) p out q"
proof (induction zone L p out q rule: follows.induct)
  case (3 zone L p z s out q)
  then obtain n where n: "0 < n" "p + n \<le> length L" "\<forall>k. s = Some k \<longrightarrow> (\<exists>m. k = of_nat m \<and> p + n \<le> m)" "follows zone L (p + n) out q"
    by auto
  then have "follows zone (L @ K) (p + n) out q" using 3 by blast
  then show ?case using 3(2) n by (auto intro!: exI[of _ n])
qed (auto simp: nth_append)

lemma follows_append: "follows zone L p (xs @ ys) q \<longleftrightarrow> (\<exists>r. follows zone L p xs r \<and> follows zone L r ys q)"
proof (induction zone L p xs q rule: follows.induct)
  case (1 zone L p q)
  then show ?case by (cases ys) (auto elim: follows.elims)
next
  case (3 zone L p z s out q)
  then show ?case by (auto 0 4)
qed auto

lemma follows_frames:
  "follows zone L p (map Market hs) q \<longleftrightarrow> q = p + length hs \<and> q \<le> length L \<and> hs = take (length hs) (drop p L)"
proof (induction hs arbitrary: p)
  case (Cons h hs)
  show ?case
  proof (cases "p < length L")
    case True
    then have "drop p L = L ! p # drop (Suc p) L" by (simp add: Cons_nth_drop_Suc)
    then show ?thesis using True by (auto simp: Cons)
  qed simp
qed auto

lemma numbered_step:
  assumes "numbered L" "i \<le> j" "j < length L" "mf_zone (L ! j) = mf_zone (L ! i)" "i \<noteq> j"
    and "\<forall>g\<in>set (take (j - Suc i) (drop (Suc i) L)). mf_zone g \<noteq> mf_zone (L ! i)"
  shows "mf_seq (L ! j) = mf_seq (L ! i) + 1"
proof -
  let ?z = "mf_zone (L ! i)" and ?P = "\<lambda>f. mf_zone f = mf_zone (L ! i)"
  have ij: "i < j" "i < length L" using assms(2,3,5) by auto
  have at_pos: "filter ?P L ! length (filter ?P (take k L)) = L ! k \<and> length (filter ?P (take k L)) < length (filter ?P L)"
    if "k < length L" "mf_zone (L ! k) = ?z" for k
  proof -
    have "L = take k L @ L ! k # drop (Suc k) L" using that(1) by (simp add: id_take_nth_drop)
    then have "filter ?P L = filter ?P (take k L) @ L ! k # filter ?P (drop (Suc k) L)"
      using that(2) by (metis (mono_tags, lifting) filter.simps(2) filter_append)
    then show ?thesis by (simp add: nth_append)
  qed
  have seq: "mf_seq (L ! k) = of_nat (Suc (length (filter ?P (take k L))))" if "k < length L" "mf_zone (L ! k) = ?z" for k
    using assms(1)[unfolded numbered_def, rule_format, of "length (filter ?P (take k L))" ?z] at_pos[OF that] by simp
  have "take j L = take (Suc i) L @ take (j - Suc i) (drop (Suc i) L)"
    using ij(1) by (metis Suc_leI le_add_diff_inverse take_add)
  then have "length (filter ?P (take j L)) = Suc (length (filter ?P (take i L)))"
    using assms(6) ij(2) by (simp add: take_Suc_conv_app_nth filter_empty_conv)
  then show ?thesis using seq[OF assms(3,4)] seq[OF ij(2) refl] by simp
qed

lemma follows_contiguous:
  assumes "follows zone L p (xs @ Market f # map Market hs @ Market g # ys) q" "numbered L"
    and "mf_zone g = mf_zone f" "\<forall>h\<in>set hs. mf_zone h \<noteq> mf_zone f"
  shows "mf_seq g = mf_seq f + 1"
proof -
  obtain i r where i: "i < length L" "f = L ! i" "follows zone L (Suc i) (map Market hs) r" "follows zone L r (Market g # ys) q"
    using assms(1) by (auto simp: follows_append)
  then have r: "r = Suc i + length hs" "hs = take (length hs) (drop (Suc i) L)" "r < length L" "g = L ! r"
    by (auto simp: follows_frames)
  have "\<forall>g\<in>set (take (r - Suc i) (drop (Suc i) L)). mf_zone g \<noteq> mf_zone (L ! i)"
    using assms(4) r(1,2) i(2) by simp
  then show ?thesis using numbered_step[OF assms(2), of i r] r i assms(3) by simp
qed

section \<open>A socket follows its channel\<close>

definition feed_ok :: "int option \<Rightarrow> nat \<Rightarrow> 'j feed \<Rightarrow> bool" where
  "feed_ok zone p x \<longleftrightarrow> hub_ok (fe_hub x) (fe_stamped x) \<and> so_zone (fe_socket x) = zone \<and>
     follows zone (channel_of (fe_hub x) zone) p (so_out (fe_socket x)) (so_cursor (fe_socket x)) \<and>
     (\<forall>k. so_joined (fe_socket x) = Some k \<longrightarrow> (\<exists>m. k = of_nat m \<and> p \<le> m))"

lemma channel_reached:
  assumes "hub_ok h p" "q \<le> length (channel_of h (Some z))"
  shows "\<exists>m. current_seq h z = of_nat m \<and> q \<le> m"
proof (cases "\<exists>f. p = Some f \<and> mf_zone f = z")
  case True
  then have "current_seq h z = of_nat (Suc (length (channel_of h (Some z))))"
    using assms(1) by (simp add: hub_ok_def current_seq_channel channel_of_def)
  then show ?thesis using assms(2) le_SucI by blast
next
  case False
  then have "current_seq h z = of_nat (length (channel_of h (Some z)))"
    using assms(1) by (simp add: hub_ok_def current_seq_channel channel_of_def)
  then show ?thesis using assms(2) by blast
qed

lemma feed_ok_turn:
  assumes "feed_ok zone p x" "broadcast_receiver rx" "socket_turn rx (fe_hub x) ok (fe_socket x) = Some s"
  shows "feed_ok zone p (x\<lparr>fe_socket := s\<rparr>)"
proof -
  let ?L = "channel_of (fe_hub x) zone" and ?s = "fe_socket x"
  have inv: "hub_ok (fe_hub x) (fe_stamped x)" "so_zone ?s = zone" "follows zone ?L p (so_out ?s) (so_cursor ?s)"
    using assms(1) by (auto simp: feed_ok_def)
  have le: "so_cursor ?s \<le> length ?L" using follows_end[OF inv(3)] .
  note law = assms(2)[unfolded broadcast_receiver_def, rule_format, OF le]
  show ?thesis
  proof (cases "rx (so_cursor ?s) ?L")
    case (Delivered f)
    then have "follows zone ?L p (so_out ?s @ [Market f]) (Suc (so_cursor ?s))"
      using law inv(3) by (auto simp: follows_append)
    then show ?thesis using assms(1,3) Delivered inv(2) by (auto simp: socket_turn_def feed_ok_def split: if_splits)
  next
    case (Lagged n)
    have "\<forall>k. map_option (current_seq (fe_hub x)) zone = Some k \<longrightarrow> (\<exists>m. k = of_nat m \<and> so_cursor ?s + n \<le> m)"
      using channel_reached[OF inv(1)] law Lagged by (cases zone) auto
    then have "follows zone ?L (so_cursor ?s) [Resync zone (map_option (current_seq (fe_hub x)) zone)] (so_cursor ?s + n)"
      using law Lagged by (auto intro!: exI[of _ n])
    then have "follows zone ?L p (so_out ?s @ [Resync zone (map_option (current_seq (fe_hub x)) zone)]) (so_cursor ?s + n)"
      using inv(3) unfolding follows_append by blast
    then show ?thesis using assms(1,3) Lagged inv(2) by (auto simp: socket_turn_def feed_ok_def split: if_splits)
  next
    case Waiting
    then show ?thesis using assms(1,3) inv(2) by (auto simp: socket_turn_def)
  qed
qed

lemma hub_reached_ok:
  assumes "hub_reached N h p" "\<forall>f. en_frame N f = Inr ()"
  shows "hub_ok h p"
  using assms by (induction rule: hub_reached.induct) (auto intro: hub_ok_new pump_keeps_ok)

lemma feed_run_ok:
  assumes "hub_run N rx zone x" "broadcast_receiver rx" "\<forall>f. en_frame N f = Inr ()"
  shows "\<exists>p. feed_ok zone p x"
  using assms
proof (induction rule: hub_run.induct)
  case (joins h p h' s)
  have "hub_ok h' p" using hub_reached_ok[OF joins(1,4)] joins(2) by (auto simp: subscribe_def Let_def hub_ok_def split: option.splits)
  then show ?case using joins(2) by (auto simp: subscribe_def feed_ok_def Let_def intro!: exI[of _ "so_cursor s"])
next
  case (reads_seq x)
  then obtain p where p: "feed_ok zone p x" by blast
  have "p \<le> length (channel_of (fe_hub x) zone)"
    using p reads_seq(3) by (auto simp: feed_ok_def)
  then have "feed_ok zone p (x\<lparr>fe_socket := read_joined (fe_hub x) (fe_socket x)\<rparr>)"
    using p channel_reached[of "fe_hub x" "fe_stamped x" p] by (cases zone) (auto simp: feed_ok_def read_joined_def)
  then show ?case by blast
next
  case (pumps x h p)
  then obtain p0 where p0: "feed_ok zone p0 x" by blast
  obtain K where "channel_of h zone = channel_of (fe_hub x) zone @ K" using pump_extends[OF pumps(2)] by blast
  then have "feed_ok zone p0 (x\<lparr>fe_hub := h, fe_stamped := p\<rparr>)"
    using p0 pump_keeps_ok[OF pumps(2) _ pumps(5)] follows_more by (auto simp: feed_ok_def)
  then show ?case by blast
next
  case (turns x ok s)
  then show ?case using feed_ok_turn by blast
qed

lemma follows_zone:
  assumes "follows (Some z) L p out q" "\<forall>g\<in>set L. mf_zone g = z" "Market f \<in> set out"
  shows "mf_zone f = z"
  using assms by (induction "Some z" L p out q rule: follows.induct) auto

text \<open>The frame at a position of a zone's channel.\<close>

lemma next_after:
  assumes "hub_ok h p" "i < length (channel_of h (Some z))" "f = channel_of h (Some z) ! i"
  shows "mf_zone f = z \<and> mf_seq f = of_nat (Suc i)"
  using assms by (simp add: hub_ok_def channel_of_def)

definition caught_by :: "64 word \<Rightarrow> 'j market_frame \<Rightarrow> bool" where
  "caught_by s f \<longleftrightarrow> (\<exists>i n. mf_seq f = of_nat (Suc i) \<and> s = of_nat n \<and> i \<le> n)"


section \<open>A run\<close>

lemma publish_run:
  assumes "hub_run N rx zone x" "fe_stamped x = None"
  shows "hub_run N rx zone (x\<lparr>fe_hub := publish N clock ev (fe_hub x)\<rparr>)"
proof -
  obtain h p where st: "stamp N clock ev (fe_hub x) = (h, p)" by fastforce
  have one: "hub_run N rx zone (x\<lparr>fe_hub := h, fe_stamped := p\<rparr>)"
    using hub_run.pumps[OF assms(1)] pump_step.takes[OF st] assms(2) by simp
  show ?thesis
  proof (cases p)
    case None
    then show ?thesis using one assms(2) st by (cases x) (simp add: publish_def)
  next
    case (Some f)
    then have "hub_run N rx zone (x\<lparr>fe_hub := broadcast N f h, fe_stamped := None\<rparr>)"
      using hub_run.pumps[OF one, of "broadcast N f h" None] pump_step.sends[of N h f] by simp
    then show ?thesis using assms(2) st Some by (cases x) (simp add: publish_def)
  qed
qed

text \<open>A ring that keeps the last two messages.\<close>

definition small_ring :: "unit receiver" where
  "small_ring pos sent =
     (if pos + 2 < length sent then Lagged (length sent - 2 - pos)
      else if pos < length sent then Delivered (sent ! pos) else Waiting)"

definition plain_encoder :: "unit encoder" where
  "plain_encoder = \<lparr>en_data = (\<lambda>_. Inr ()), en_frame = (\<lambda>_. Inr ())\<rparr>"

definition zone_event :: event where
  "zone_event = PeakPriceUpdate 1 5 (Some 7)"

definition three_published :: "unit zone_hub \<Rightarrow> unit zone_hub" where
  "three_published h = publish plain_encoder ''t'' zone_event (publish plain_encoder ''t'' zone_event (publish plain_encoder ''t'' zone_event h))"

definition zone_frame :: "64 word \<Rightarrow> unit market_frame" where
  "zone_frame n = \<lparr>mf_kind = ''peak_price_update'', mf_seq = n, mf_zone = 7, mf_data = (), mf_timestamp = ''t''\<rparr>"

definition joined_feed :: "unit feed" where
  "joined_feed = (case subscribe (Some 7) hub_new of (h, s) \<Rightarrow>
     \<lparr>fe_hub = three_published h, fe_stamped = None, fe_socket = s\<rparr>)"

definition turn_feed :: "unit feed \<Rightarrow> unit feed" where
  "turn_feed x = x\<lparr>fe_socket := the (socket_turn small_ring (fe_hub x) True (fe_socket x))\<rparr>"

lemma joined_run: "hub_run plain_encoder small_ring (Some 7) joined_feed"
proof -
  obtain h :: "unit zone_hub" and s where sub: "subscribe (Some 7) hub_new = (h, s)" by fastforce
  have "hub_run plain_encoder small_ring (Some 7) \<lparr>fe_hub = h, fe_stamped = None, fe_socket = s\<rparr>"
    by (rule hub_run.joins[OF hub_reached.start sub])
  from publish_run[OF publish_run[OF publish_run[OF this, of "''t''" zone_event], of "''t''" zone_event], of "''t''" zone_event]
  show ?thesis by (simp add: joined_feed_def sub three_published_def)
qed

lemma turn_run: "hub_run N small_ring zone x \<Longrightarrow> hub_run N small_ring zone (turn_feed x)"
  unfolding turn_feed_def
  by (rule hub_run.turns[where ok = True]) (auto simp: socket_turn_def split: received.split)

lemma demo_out:
  "so_out (fe_socket (turn_feed (turn_feed (turn_feed joined_feed))))
     = [Resync (Some 7) (Some 3), Market (zone_frame 2), Market (zone_frame 3)]"
  by code_simp


end
