(* ===== verification/Trade_Export.thy ===== *)
theory Trade_Export imports Order_Gates begin

text \<open>
  \<open>trading-api/src/rest/trades.rs\<close>: the trade history of a user, as a page and as a CSV document.  A trade
  is a settlement seen from one of its sides.  Decimals and instants are printed by \<open>rust_decimal\<close> and \<open>chrono\<close>,
  whose printing is a parameter.
\<close>

section \<open>Trade rows\<close>

record printer =
  pr_decimal :: "decimal \<Rightarrow> string"
  pr_rfc3339 :: "datetime \<Rightarrow> string"

record trade_record =
  tc_id :: uuid
  tc_buyer_id :: uuid
  tc_seller_id :: uuid
  tc_counterparty_id :: uuid
  tc_role :: string
  tc_quantity :: string
  tc_energy_amount :: string
  tc_price :: string
  tc_price_per_kwh :: string
  tc_total_value :: string
  tc_fee_amount :: string
  tc_wheeling_charge :: string
  tc_loss_cost :: string
  tc_effective_energy :: string
  tc_status :: string
  tc_transaction_hash :: "string option"
  tc_buy_order_id :: uuid
  tc_sell_order_id :: uuid
  tc_buyer_zone_id :: zone
  tc_seller_zone_id :: zone
  tc_executed_at :: datetime
  tc_created_at :: datetime
  tc_retry_count :: int
  tc_error_message :: "string option"

definition dec_opt_str :: "printer \<Rightarrow> decimal option \<Rightarrow> string" where
  "dec_opt_str P d = pr_decimal P (unwrap_or d 0)"

definition build_trade_record :: "printer \<Rightarrow> settlement \<Rightarrow> uuid \<Rightarrow> trade_record" where
  "build_trade_record P s user =
     (let is_buyer = st_buyer_id s = user in
      \<lparr>tc_id = st_id s, tc_buyer_id = st_buyer_id s, tc_seller_id = st_seller_id s,
       tc_counterparty_id = (if is_buyer then st_seller_id s else st_buyer_id s),
       tc_role = (if is_buyer then ''buyer'' else ''seller''),
       tc_quantity = pr_decimal P (st_energy_amount s), tc_energy_amount = pr_decimal P (st_energy_amount s),
       tc_price = pr_decimal P (st_price s), tc_price_per_kwh = pr_decimal P (st_price s),
       tc_total_value = pr_decimal P (st_total_amount s), tc_fee_amount = pr_decimal P (st_fee_amount s),
       tc_wheeling_charge = dec_opt_str P (st_wheeling_charge s), tc_loss_cost = dec_opt_str P (st_loss_cost s),
       tc_effective_energy = dec_opt_str P (st_effective_energy s), tc_status = settlement_status_str (st_status s),
       tc_transaction_hash = st_blockchain_tx s, tc_buy_order_id = st_buy_order_id s, tc_sell_order_id = st_sell_order_id s,
       tc_buyer_zone_id = st_buyer_zone_id s, tc_seller_zone_id = st_seller_zone_id s,
       tc_executed_at = st_created_at s, tc_created_at = st_created_at s, tc_retry_count = st_retry_count s,
       tc_error_message = st_error_message s\<rparr>)"

section \<open>The CSV document\<close>

definition ch_comma :: char where "ch_comma = CHR '',''"
definition ch_quote :: char where "ch_quote = CHR 0x22"
definition ch_lf :: char where "ch_lf = CHR 0x0A"
definition ch_cr :: char where "ch_cr = CHR 0x0D"

definition csv_field :: "string \<Rightarrow> string" where
  "csv_field v =
     (if list_ex (\<lambda>c. c \<in> {ch_comma, ch_quote, ch_lf, ch_cr}) v
      then ch_quote # concat (map (\<lambda>c. if c = ch_quote then [ch_quote, ch_quote] else [c]) v) @ [ch_quote]
      else v)"

definition csv_header :: "string list" where
  "csv_header = [''id'', ''executed_at'', ''role'', ''counterparty_id'', ''quantity'', ''price'', ''total_value'',
     ''fee_amount'', ''wheeling_charge'', ''loss_cost'', ''effective_energy'', ''status'', ''transaction_hash'',
     ''buyer_zone_id'', ''seller_zone_id'']"

definition trade_columns :: "printer \<Rightarrow> trade_record \<Rightarrow> string list" where
  "trade_columns P r =
     [uuid_str (tc_id r), pr_rfc3339 P (tc_executed_at r), tc_role r, uuid_str (tc_counterparty_id r), tc_quantity r,
      tc_price r, tc_total_value r, tc_fee_amount r, tc_wheeling_charge r, tc_loss_cost r, tc_effective_energy r,
      tc_status r, unwrap_or (tc_transaction_hash r) [],
      (case tc_buyer_zone_id r of None \<Rightarrow> [] | Some z \<Rightarrow> int_str z),
      (case tc_seller_zone_id r of None \<Rightarrow> [] | Some z \<Rightarrow> int_str z)]"

fun join_commas :: "string list \<Rightarrow> string" where
  "join_commas [] = []"
| "join_commas [v] = v"
| "join_commas (v # vs) = v @ ch_comma # join_commas vs"

definition trades_to_csv :: "printer \<Rightarrow> trade_record list \<Rightarrow> string" where
  "trades_to_csv P records =
     join_commas csv_header @ ch_lf #
     concat (map (\<lambda>r. join_commas (map csv_field (trade_columns P r)) @ [ch_lf]) records)"

section \<open>The handlers\<close>

definition clamp :: "int \<Rightarrow> int \<Rightarrow> int \<Rightarrow> int" where
  "clamp lo hi x = (if x < lo then lo else if hi < x then hi else x)"

definition get_trades ::
  "printer \<Rightarrow> string + unit \<Rightarrow> uuid \<Rightarrow> int option \<Rightarrow> int option \<Rightarrow> (trade_record list \<times> nat) gate" where
  "get_trades P role user limit offset =
     gate_bind (of_result RoleRefused role) (\<lambda>_.
     gate_bind (or_refuse DatabaseFailed (db_read (\<lambda>_. list_settlements_for_user user
         (nat (clamp 1 500 (unwrap_or limit 50))) (nat (max (unwrap_or offset 0) 0))))) (\<lambda>(settlements, total').
     pass (map (\<lambda>s. build_trade_record P s user) settlements, total')))"

datatype export = Export_Json "trade_record list" | Export_Csv string

definition export_trades ::
  "printer \<Rightarrow> string + unit \<Rightarrow> uuid \<Rightarrow> int option \<Rightarrow> string option \<Rightarrow> export gate" where
  "export_trades P role user limit format =
     gate_bind (of_result RoleRefused role) (\<lambda>_.
     gate_bind (or_refuse DatabaseFailed (db_read (\<lambda>_. list_settlements_for_user user
         (nat (clamp 1 50000 (unwrap_or limit 10000))) 0))) (\<lambda>(settlements, _).
     let records = map (\<lambda>s. build_trade_record P s user) settlements in
     pass (if format = Some ''json'' then Export_Json records else Export_Csv (trades_to_csv P records))))"

section \<open>Reading a document back\<close>

text \<open>A reader of RFC 4180, with a line feed as the end of a record: fields separated by commas, a field that starts with a
  quote ends with one, and a quote within it is doubled.\<close>

datatype csv_state = Field_Start | Bare | Quoted | Quote_Seen

definition end_field :: "char \<Rightarrow> string \<Rightarrow> string list \<Rightarrow> string list list \<Rightarrow> string list \<times> string list list" where
  "end_field c f row rs = (if c = ch_comma then (row @ [f], rs) else ([], rs @ [row @ [f]]))"

fun csv_read :: "csv_state \<Rightarrow> string \<Rightarrow> string list \<Rightarrow> string list list \<Rightarrow> string \<Rightarrow> string list list option" where
  "csv_read st f row rs [] = (if st = Field_Start \<and> row = [] then Some rs else None)"
| "csv_read st f row rs (c # cs) =
     (if st = Quoted then (if c = ch_quote then csv_read Quote_Seen f row rs cs else csv_read Quoted (f @ [c]) row rs cs)
      else if c = ch_comma \<or> c = ch_lf then
        (case end_field c f row rs of (row', rs') \<Rightarrow> csv_read Field_Start [] row' rs' cs)
      else if st = Quote_Seen then (if c = ch_quote then csv_read Quoted (f @ [c]) row rs cs else None)
      else if st = Field_Start \<and> c = ch_quote then csv_read Quoted [] row rs cs
      else csv_read Bare (f @ [c]) row rs cs)"

lemmas csv_chars = ch_comma_def ch_quote_def ch_lf_def ch_cr_def

lemma read_quoted:
  "csv_read Quoted f row rs (concat (map (\<lambda>c. if c = ch_quote then [ch_quote, ch_quote] else [c]) v) @ ch_quote # cs)
     = csv_read Quote_Seen (f @ v) row rs cs"
  by (induction v arbitrary: f) (auto simp: csv_chars)

lemma read_bare:
  assumes "\<forall>c\<in>set v. c \<noteq> ch_comma \<and> c \<noteq> ch_lf \<and> c \<noteq> ch_quote"
  shows "csv_read Bare f row rs (v @ cs) = csv_read Bare (f @ v) row rs cs"
  using assms by (induction v arbitrary: f) auto

lemma read_field:
  assumes "sep = ch_comma \<or> sep = ch_lf"
  shows "csv_read Field_Start [] row rs (csv_field v @ sep # cs) =
    (case end_field sep v row rs of (row', rs') \<Rightarrow> csv_read Field_Start [] row' rs' cs)"
proof (cases "list_ex (\<lambda>c. c \<in> {ch_comma, ch_quote, ch_lf, ch_cr}) v")
  case True
  then show ?thesis using assms read_quoted[of "[]" row rs v "sep # cs"]
    by (simp add: csv_field_def) (auto simp: csv_chars)
next
  case False
  then have plain: "\<forall>c\<in>set v. c \<noteq> ch_comma \<and> c \<noteq> ch_lf \<and> c \<noteq> ch_quote"
    by (auto simp: list_ex_iff)
  show ?thesis
  proof (cases v)
    case Nil
    then show ?thesis using assms by (auto simp: csv_field_def)
  next
    case (Cons c v')
    then have "csv_read Field_Start [] row rs (v @ sep # cs) = csv_read Bare [c] row rs (v' @ sep # cs)"
      using plain by auto
    also have "\<dots> = csv_read Bare v row rs (sep # cs)" using read_bare[of v' "[c]" row rs "sep # cs"] plain Cons by simp
    also have "\<dots> = (case end_field sep v row rs of (row', rs') \<Rightarrow> csv_read Field_Start [] row' rs' cs)" using assms by auto
    finally show ?thesis using False by (simp add: csv_field_def)
  qed
qed

lemma read_line:
  "vs \<noteq> [] \<Longrightarrow> csv_read Field_Start [] row rs (join_commas (map csv_field vs) @ ch_lf # cs) = csv_read Field_Start [] [] (rs @ [row @ vs]) cs"
proof (induction vs arbitrary: row rule: join_commas.induct)
  case (2 v)
  then show ?case by (simp add: read_field end_field_def csv_chars)
next
  case (3 v w vs)
  then show ?case using read_field[of ch_comma row rs v "join_commas (map csv_field (w # vs)) @ ch_lf # cs"]
    by (simp add: end_field_def)
qed simp

lemma header_plain: "map csv_field csv_header = csv_header"
  by code_simp

lemma trade_columns_some: "trade_columns P r \<noteq> []"
  by (simp add: trade_columns_def)

text \<open>C28: The exported history reads back: whatever the columns hold, commas, quotes and line breaks included, a reader of
  the CSV standard gets the header and then, for each trade, its fifteen columns, unchanged and in order.\<close>

theorem trades_csv_reads_back:
  "csv_read Field_Start [] [] [] (trades_to_csv P records) = Some (csv_header # map (trade_columns P) records)"
proof -
  have rest: "csv_read Field_Start [] [] rs (concat (map (\<lambda>r. join_commas (map csv_field (trade_columns P r)) @ [ch_lf]) records))
      = Some (rs @ map (trade_columns P) records)" for rs
    by (induction records arbitrary: rs) (simp_all add: read_line trade_columns_some)
  have ne: "csv_header \<noteq> []" by (simp add: csv_header_def)
  have "csv_read Field_Start [] [] [] (trades_to_csv P records)
      = csv_read Field_Start [] [] [csv_header] (concat (map (\<lambda>r. join_commas (map csv_field (trade_columns P r)) @ [ch_lf]) records))"
    using read_line[OF ne, of "[]" "[]"] unfolding trades_to_csv_def header_plain by simp
  then show ?thesis using rest by simp
qed

end
