(* ===== verification/Market_Queries.thy ===== *)
theory Market_Queries imports Order_Gates Matcher_Service Grid_Topology begin

text \<open>
  What the HTTP edge reads for the market: the price levels of the book (\<open>rest/orders.rs\<close>, \<open>rest/market.rs\<close>), the
  matching status, the market price (with its query in \<open>repositories/settlement.rs\<close>), the quote, a user's orders, and
  the meters with open orders.
\<close>

section \<open>Price levels\<close>

type_synonym levels = "(decimal, decimal) btree_map"

definition add_level :: "order_book_entry \<Rightarrow> levels \<Rightarrow> levels" where
  "add_level e m = bt_update (obe_price_per_kwh e) 0 (\<lambda>a. a + obe_energy_amount e) m"

definition level_step :: "order_book_entry \<Rightarrow> levels \<times> levels \<Rightarrow> levels \<times> levels" where
  "level_step e = (\<lambda>(asks, bids). case obe_side e of Sell \<Rightarrow> (add_level e asks, bids) | Buy \<Rightarrow> (asks, add_level e bids))"

text \<open>Asks from the lowest, bids from the highest.\<close>

definition build_p2p_orderbook :: "order_book_entry list \<Rightarrow> levels \<times> levels" where
  "build_p2p_orderbook entries = (case fold level_step entries ([], []) of (asks, bids) \<Rightarrow> (asks, rev bids))"

definition get_p2p_orderbook :: "string + unit \<Rightarrow> (levels \<times> levels) gate" where
  "get_p2p_orderbook role =
     gate_bind (of_result RoleRefused role) (\<lambda>_.
     gate_bind (or_refuse DatabaseFailed (db_read get_all_active_orders)) (\<lambda>entries.
     pass (build_p2p_orderbook entries)))"

record order_book_response =
  ob_zone_id :: int
  ob_last_update_id :: "64 word"
  ob_asks :: levels
  ob_bids :: levels

text \<open>The sequence number of the zone's feed is read after the entries.\<close>

definition get_order_book :: "string + unit \<Rightarrow> (int \<Rightarrow> 64 word) \<Rightarrow> int \<Rightarrow> order_book_response gate" where
  "get_order_book role current_seq zone =
     gate_bind (of_result RoleRefused role) (\<lambda>_.
     gate_bind (or_refuse DatabaseFailed (db_read (get_active_orders_by_zone zone))) (\<lambda>entries.
     case build_p2p_orderbook entries of (asks, bids) \<Rightarrow>
     pass \<lparr>ob_zone_id = zone, ob_last_update_id = current_seq zone, ob_asks = asks, ob_bids = bids\<rparr>))"

section \<open>Matching status\<close>

record matching_status =
  ms_pending_buys :: nat
  ms_pending_sells :: nat
  ms_pending_matches :: nat
  ms_buy_range :: "(decimal \<times> decimal) option"
  ms_sell_range :: "(decimal \<times> decimal) option"
  ms_can_match :: bool
  ms_reason :: string

definition price_range :: "trading_order list \<Rightarrow> (decimal \<times> decimal) option" where
  "price_range os = (if os = [] then None
     else Some (Min (ord_price_per_kwh ` set os), Max (ord_price_per_kwh ` set os)))"

definition build_matching_status :: "trading_order list \<Rightarrow> trading_order list \<Rightarrow> datetime \<Rightarrow> matching_status" where
  "build_matching_status buys0 sells0 now =
     (let buys = filter (\<lambda>o'. order_is_live o' now) buys0; sells = filter (\<lambda>o'. order_is_live o' now) sells0;
          buy_max = map_option snd (price_range buys); sell_min = map_option fst (price_range sells);
          can_match = (case (buy_max, sell_min) of (Some b, Some s) \<Rightarrow> s \<le> b | _ \<Rightarrow> False);
          pending = (case (buy_max, sell_min) of
              (Some b, Some s) \<Rightarrow>
                if s \<le> b then min (length (filter (\<lambda>o'. s \<le> ord_price_per_kwh o') buys))
                                  (length (filter (\<lambda>o'. ord_price_per_kwh o' \<le> b) sells))
                else 0
            | _ \<Rightarrow> 0)
      in \<lparr>ms_pending_buys = length buys, ms_pending_sells = length sells, ms_pending_matches = pending,
          ms_buy_range = price_range buys, ms_sell_range = price_range sells, ms_can_match = can_match,
          ms_reason = (if buys = [] \<and> sells = [] then ''no orders''
            else if sells = [] then ''no sell liquidity'' else if buys = [] then ''no buy liquidity''
            else if can_match then ''orders crossing'' else ''spread too wide'')\<rparr>)"

definition get_matching_status :: "string + unit \<Rightarrow> matching_status gate" where
  "get_matching_status role =
     gate_bind (of_result RoleRefused role) (\<lambda>_.
     gate_bind (or_refuse DatabaseFailed (db_read (\<lambda>_. get_active_buy_orders))) (\<lambda>buys.
     gate_bind (or_refuse DatabaseFailed (db_read (\<lambda>_. get_active_sell_orders))) (\<lambda>sells.
     and_then telemetry_now (\<lambda>now. pass (build_matching_status buys sells now)))))"

section \<open>The market price\<close>

record market_price_report =
  mp_vwap :: decimal
  mp_last_price :: decimal
  mp_high :: decimal
  mp_low :: decimal
  mp_volume_kwh :: decimal
  mp_trade_count :: nat
  mp_window_hours :: int

text \<open>The aggregate over completed settlements; the database's division of two numerics is a parameter.  The latest is by
  the time of confirmation, or of creation where there is none.\<close>

definition effective_time :: "settlement_row \<Rightarrow> datetime" where
  "effective_time r = unwrap_or (sdb_processed_at r) (sdb_created_at r)"

definition repo_market_price :: "(decimal \<Rightarrow> decimal \<Rightarrow> decimal) \<Rightarrow> int \<Rightarrow> datetime \<Rightarrow> store \<Rightarrow> market_price_report" where
  "repo_market_price pg_div window_hours now s =
     (let traded = filter (in_window window_hours now) (completed_rows s);
          volume = sum_list (map sdb_energy_amount traded)
      in \<lparr>mp_vwap = (if traded = [] \<or> volume = 0 then 0
            else pg_div (sum_list (map (\<lambda>r. sdb_price_per_kwh r * sdb_energy_amount r) traded)) volume),
          mp_last_price = (case sort_key (\<lambda>r. - effective_time r) traded of [] \<Rightarrow> 0 | r # _ \<Rightarrow> sdb_price_per_kwh r),
          mp_high = (if traded = [] then 0 else Max (sdb_price_per_kwh ` set traded)),
          mp_low = (if traded = [] then 0 else Min (sdb_price_per_kwh ` set traded)),
          mp_volume_kwh = volume, mp_trade_count = length traded, mp_window_hours = window_hours\<rparr>)"

definition clamp_window :: "int option \<Rightarrow> int" where
  "clamp_window w = (let h = unwrap_or w 24 in if h < 0 then 0 else if 720 < h then 720 else h)"

definition rest_market_price ::
  "(decimal \<Rightarrow> decimal \<Rightarrow> decimal) \<Rightarrow> string + unit \<Rightarrow> int option \<Rightarrow> market_price_report gate" where
  "rest_market_price pg_div role window =
     gate_bind (of_result RoleRefused role) (\<lambda>_.
     or_refuse DatabaseFailed (db_read (repo_market_price pg_div (clamp_window window))))"

record market_stats =
  mk_volume_24h :: decimal
  mk_avg_price_24h :: decimal
  mk_active_users :: nat
  mk_trade_count_24h :: nat

definition get_market_stats :: "(decimal \<Rightarrow> decimal \<Rightarrow> decimal) \<Rightarrow> string + unit \<Rightarrow> market_stats gate" where
  "get_market_stats pg_div role =
     gate_bind (of_result RoleRefused role) (\<lambda>_.
     gate_bind (or_refuse DatabaseFailed (db_read (repo_market_price pg_div 24))) (\<lambda>price.
     gate_bind (or_refuse DatabaseFailed (db_read (count_active_traders 24))) (\<lambda>active.
     pass \<lparr>mk_volume_24h = mp_volume_kwh price, mk_avg_price_24h = mp_vwap price, mk_active_users = active,
           mk_trade_count_24h = mp_trade_count price\<rparr>)))"

definition get_clearing_epochs :: "string + unit \<Rightarrow> int option \<Rightarrow> market_epoch list gate" where
  "get_clearing_epochs role limit =
     gate_bind (of_result RoleRefused role) (\<lambda>_.
     or_refuse DatabaseFailed (db_read (\<lambda>_. list_recent_cleared_epochs
       (nat (let n = unwrap_or limit 20 in if n < 1 then 1 else if 100 < n then 100 else n)))))"

section \<open>The quote\<close>

record quote_request =
  qr_buyer_zone :: int
  qr_seller_zone :: int
  qr_energy :: string
  qr_agreed_price :: string

text \<open>The amounts before they are printed with two or four digits.\<close>

record quote =
  qu_energy_cost :: decimal
  qu_wheeling :: decimal
  qu_loss_cost :: decimal
  qu_total :: decimal
  qu_effective_energy :: decimal
  qu_loss_fraction :: decimal
  qu_zone_distance_km :: int
  qu_compliant :: bool
  qu_id :: string
  qu_expires_at :: datetime

text \<open>The price agreed on, or the one the market has; parsing trims the text first.\<close>

definition quote_price ::
  "(string \<Rightarrow> string + decimal) \<Rightarrow> (decimal \<Rightarrow> decimal \<Rightarrow> decimal) \<Rightarrow> string \<Rightarrow> decimal gate" where
  "quote_price parse pg_div agreed =
     (let price = (case parse agreed of Inl _ \<Rightarrow> 0 | Inr p \<Rightarrow> p) in
      if 0 < price then pass price
      else
        gate_bind (or_refuse DatabaseFailed (db_read (repo_market_price pg_div 24))) (\<lambda>day.
        gate_bind (if mp_trade_count day = 0 then or_refuse DatabaseFailed (db_read (repo_market_price pg_div 0)) else pass day) (\<lambda>mp.
        if mp_trade_count mp = 0 then refuse (BadPrice ''no market price yet'') else pass (mp_vwap mp))))"

definition i32_abs :: "int \<Rightarrow> int" where
  "i32_abs x = (if x = - (2 ^ 31) then x else \<bar>x\<bar>)"

definition price_quote ::
  "dec_ops \<Rightarrow> static_charge_rates \<Rightarrow> decimal \<Rightarrow> decimal \<Rightarrow> int \<Rightarrow> decimal \<Rightarrow> decimal \<Rightarrow> quote option" where
  "price_quote D rates min_price max_price zone_gap energy price = do {
     factor \<leftarrow> loss_factor D rates;
     let loss_fraction = factor - 1;
     energy_cost \<leftarrow> dmul D energy price;
     per_kwh \<leftarrow> wheeling_per_kwh D rates;
     wheeling \<leftarrow> dmul D energy per_kwh;
     loss_cost \<leftarrow> dmul D energy_cost loss_fraction;
     settleable_floor \<leftarrow> min_settleable_price_per_kwh D rates;
     Some \<lparr>qu_energy_cost = energy_cost, qu_wheeling = wheeling, qu_loss_cost = loss_cost,
           qu_total = energy_cost + wheeling + loss_cost, qu_effective_energy = energy, qu_loss_fraction = loss_fraction,
           qu_zone_distance_km = zone_gap * 10,
           qu_compliant = ((case settleable_floor of None \<Rightarrow> False | Some f \<Rightarrow> f \<le> price) \<and> min_price \<le> price \<and> price \<le> max_price),
           qu_id = [], qu_expires_at = 0\<rparr> }"

definition minutes_5 :: int where "minutes_5 = 5 * 60 * 1000000000"

definition create_quote ::
  "dec_ops \<Rightarrow> static_charge_rates \<Rightarrow> (string \<Rightarrow> string + decimal) \<Rightarrow> (decimal \<Rightarrow> decimal \<Rightarrow> decimal) \<Rightarrow> decimal \<Rightarrow> decimal
     \<Rightarrow> string + unit \<Rightarrow> quote_request \<Rightarrow> quote gate" where
  "create_quote D rates parse pg_div min_price max_price role req =
     gate_bind (of_result RoleRefused role) (\<lambda>_.
     gate_bind (of_result BadAmount (parse (qr_energy req))) (\<lambda>energy.
     gate_bind (if energy \<le> 0 then refuse (BadAmount ''energy_amount_kwh must be positive'') else pass ()) (\<lambda>_.
     gate_bind (quote_price parse pg_div (qr_agreed_price req)) (\<lambda>price.
     and_then (or_panic (price_quote D rates min_price max_price
         (i32_abs (i32_add (qr_buyer_zone req) (- qr_seller_zone req))) energy price)) (\<lambda>q.
     and_then new_v4 (\<lambda>i.
     and_then telemetry_now (\<lambda>now.
     pass (q\<lparr>qu_id := ''q_'' @ take 8 (uuid_str i), qu_expires_at := now + minutes_5\<rparr>))))))))"

section \<open>A user's orders\<close>

record order_data =
  od_id :: uuid
  od_zone_id :: int
  od_side :: string
  od_order_type :: string
  od_status :: string
  od_energy_amount :: decimal
  od_price :: "decimal option"
  od_filled_amount :: decimal
  od_created_at :: datetime

text \<open>The price of a market order is not shown: the one stored is the bound the edge computed.\<close>

definition from_order :: "datetime \<Rightarrow> trading_order \<Rightarrow> order_data" where
  "from_order now o' =
     \<lparr>od_id = ord_id o', od_zone_id = unwrap_or (ord_zone_id o') 0, od_side = to_lowercase (order_side_str (ord_side o')),
      od_order_type = to_lowercase (order_type_str (ord_order_type o')),
      od_status = to_lowercase (order_status_str (ord_status o')), od_energy_amount = ord_energy_amount o',
      od_price = (case ord_order_type o' of Market \<Rightarrow> None | Limit \<Rightarrow> Some (ord_price_per_kwh o')),
      od_filled_amount = ord_filled_amount o', od_created_at = unwrap_or (ord_created_at o') now\<rparr>"

text \<open>The status filters the page, not the orders; the total is that of the page.\<close>

definition list_orders ::
  "string + unit \<Rightarrow> uuid \<Rightarrow> nat option \<Rightarrow> nat option \<Rightarrow> string option \<Rightarrow> (order_data list \<times> nat) gate" where
  "list_orders role user limit offset status =
     gate_bind (of_result RoleRefused role) (\<lambda>_.
     gate_bind (or_refuse DatabaseFailed (db_read (\<lambda>_. get_orders_by_user user (unwrap_or limit 20) (unwrap_or offset 0)))) (\<lambda>page.
     and_then telemetry_now (\<lambda>now.
     let orders = (case status of None \<Rightarrow> page | Some st \<Rightarrow> filter (\<lambda>o'. order_status_str (ord_status o') = st) page) in
     pass (map (from_order now) orders, length orders))))"

text \<open>The role that passed the check, and whether it is the administrator's.\<close>

definition get_order_by_id :: "string + bool \<Rightarrow> uuid \<Rightarrow> uuid \<Rightarrow> order_data gate" where
  "get_order_by_id role user i =
     gate_bind (of_result RoleRefused role) (\<lambda>admin.
     gate_bind (or_refuse DatabaseFailed (db_read (\<lambda>_. get_order i))) (\<lambda>found.
     gate_bind (of_option UnknownOrder found) (\<lambda>o'.
     if \<not> admin \<and> ord_user_id o' \<noteq> user then refuse UnknownOrder
     else and_then telemetry_now (\<lambda>now. pass (from_order now o')))))"

section \<open>Meters with open orders\<close>

record active_order_meter =
  am_meter_id :: uuid
  am_meter_serial :: string
  am_zone_id :: int
  am_has_open_buy :: bool
  am_has_open_sell :: bool

text \<open>The zone of a meter is that of the first of its orders.\<close>

definition meter_side :: "trading_order \<Rightarrow> (uuid \<Rightarrow> (int \<times> bool \<times> bool) option) \<Rightarrow> uuid \<Rightarrow> (int \<times> bool \<times> bool) option" where
  "meter_side o' m =
     (case ord_meter_id o' of
        None \<Rightarrow> m
      | Some k \<Rightarrow>
          (case unwrap_or (m k) (unwrap_or (ord_zone_id o') 0, False, False) of
             (z, b, s) \<Rightarrow> m(k \<mapsto> (case ord_side o' of Buy \<Rightarrow> (z, True, s) | Sell \<Rightarrow> (z, b, True)))))"

definition fetch_active_order_meters :: "meter_row list \<Rightarrow> active_order_meter list gate" where
  "fetch_active_order_meters meters =
     gate_bind (or_refuse DatabaseFailed (db_read (\<lambda>_. bootstrap_active_orders))) (\<lambda>orders.
     let sides = fold meter_side orders Map.empty;
         ids = remdups (List.map_filter ord_meter_id orders) in
     gate_bind (or_refuse DatabaseFailed (db_read (\<lambda>_ _. map_of (map (\<lambda>r. (me_meter_id r, me_serial_number r))
         (filter (\<lambda>r. me_meter_id r \<in> set ids) meters))))) (\<lambda>serials.
     pass (sort_key am_meter_id (List.map_filter (\<lambda>i.
       case (sides i, serials i) of
         (Some (z, b, s), Some serial) \<Rightarrow> Some \<lparr>am_meter_id = i, am_meter_serial = serial, am_zone_id = z,
             am_has_open_buy = b, am_has_open_sell = s\<rparr>
       | _ \<Rightarrow> None) ids))))"

section \<open>Levels\<close>

definition level_sum :: "order_side \<Rightarrow> decimal \<Rightarrow> order_book_entry list \<Rightarrow> decimal" where
  "level_sum side p entries =
     sum_list (map obe_energy_amount (filter (\<lambda>e. obe_side e = side \<and> obe_price_per_kwh e = p) entries))"

definition at_price :: "order_side \<Rightarrow> order_book_entry list \<Rightarrow> decimal \<Rightarrow> decimal option" where
  "at_price side entries p =
     (if \<exists>e\<in>set entries. obe_side e = side \<and> obe_price_per_kwh e = p then Some (level_sum side p entries) else None)"

lemma level_sum_none: "\<not> (\<exists>e\<in>set entries. obe_side e = side \<and> obe_price_per_kwh e = p) \<Longrightarrow> level_sum side p entries = 0"
  by (induction entries) (auto simp: level_sum_def)

lemma at_price_snoc:
  "at_price side (es @ [e]) p = (if obe_side e = side \<and> obe_price_per_kwh e = p
     then Some (unwrap_or (at_price side es p) 0 + obe_energy_amount e) else at_price side es p)"
  using level_sum_none[of es side p] by (auto simp: at_price_def level_sum_def)

lemma levels_of:
  assumes "fold level_step entries ([], []) = (asks, bids)"
  shows "bt_ok asks \<and> bt_ok bids \<and> bt_get asks = at_price Sell entries \<and> bt_get bids = at_price Buy entries"
  using assms
proof (induction entries arbitrary: asks bids rule: rev_induct)
  case Nil
  then show ?case by (auto simp: at_price_def bt_get_def fun_eq_iff)
next
  case (snoc e es)
  obtain asks0 bids0 where f: "fold level_step es ([], []) = (asks0, bids0)" by fastforce
  note i = snoc.IH[OF f]
  have st: "level_step e (asks0, bids0) = (asks, bids)" using snoc.prems f by simp
  show ?case
  proof (cases "obe_side e")
    case Sell
    then have "asks = add_level e asks0" "bids = bids0" using st by (auto simp: level_step_def)
    then show ?thesis using i Sell
      by (auto simp: add_level_def fun_eq_iff at_price_snoc)
  next
    case Buy
    then have "bids = add_level e bids0" "asks = asks0" using st by (auto simp: level_step_def)
    then show ?thesis using i Buy
      by (auto simp: add_level_def fun_eq_iff at_price_snoc)
  qed
qed

text \<open>The book shown is the book: asks from the lowest price up, bids from the highest down, each price once, and
  beside it exactly the energy of the entries of that side at that price.\<close>

theorem order_book_exact:
  "case build_p2p_orderbook entries of (asks, bids) \<Rightarrow>
     sorted_wrt (<) (map fst asks) \<and> sorted_wrt (>) (map fst bids) \<and>
     (\<forall>p a. (p, a) \<in> set asks \<longleftrightarrow> at_price Sell entries p = Some a) \<and>
     (\<forall>p a. (p, a) \<in> set bids \<longleftrightarrow> at_price Buy entries p = Some a)"
proof -
  obtain asks bids where f: "fold level_step entries ([], []) = (asks, bids)" by fastforce
  note l = levels_of[OF f]
  have "sorted_wrt (<) (map fst asks)" "sorted_wrt (<) (map fst bids)" using l by (simp_all add: bt_ok_def)
  moreover have "\<forall>p a. (p, a) \<in> set asks \<longleftrightarrow> at_price Sell entries p = Some a"
      "\<forall>p a. (p, a) \<in> set bids \<longleftrightarrow> at_price Buy entries p = Some a"
    using bt.mem_iter l by metis+
  ultimately show ?thesis by (simp add: build_p2p_orderbook_def f rev_map[symmetric] sorted_wrt_rev)
qed

section \<open>Status and matching\<close>

text \<open>A bid at exactly the price of the only ask.\<close>

definition level_world :: world where
  "level_world = (example_world [])\<lparr>w_store := (w_store (example_world []))\<lparr>
     db_orders := [example_order 21 11 Buy Order_Active None, example_order 22 12 Sell Order_Active None],
     db_epochs := [example_epoch]\<rparr>\<rparr>"

text \<open>The matching status compares bare prices, while the matcher adds the chain's charges to the ask: a bid at the price
  of an ask is reported as one pending match, orders crossing, and the matching cycle matches nothing and leaves
  both orders as they are.\<close>

theorem crossing_without_match:
  "(\<exists>s. fst (get_matching_status (Inr ()) level_world) = Inr (Inr s) \<and> ms_can_match s \<and> ms_pending_matches s = 1
      \<and> ms_reason s = ''orders crossing'')
   \<and> fst (run_matching_cycle exact_dec (grid_aware_topology exact_dec deployed_rates) deployed_rates level_world) = Inr 0
   \<and> db_orders (w_store (snd (run_matching_cycle exact_dec (grid_aware_topology exact_dec deployed_rates) deployed_rates level_world)))
       = db_orders (w_store level_world)"
proof (intro conjI)
  let ?s = "\<lparr>ms_pending_buys = 1, ms_pending_sells = 1, ms_pending_matches = 1, ms_buy_range = Some (3, 3),
    ms_sell_range = Some (3, 3), ms_can_match = True, ms_reason = ''orders crossing''\<rparr>"
  have "fst (get_matching_status (Inr ()) level_world) = Inr (Inr ?s)" by code_simp
  then show "\<exists>s. fst (get_matching_status (Inr ()) level_world) = Inr (Inr s) \<and> ms_can_match s \<and> ms_pending_matches s = 1
      \<and> ms_reason s = ''orders crossing''" by (intro exI[of _ ?s]) simp
  show "fst (run_matching_cycle exact_dec (grid_aware_topology exact_dec deployed_rates) deployed_rates level_world) = Inr 0"
    by code_simp
  show "db_orders (w_store (snd (run_matching_cycle exact_dec (grid_aware_topology exact_dec deployed_rates) deployed_rates level_world)))
       = db_orders (w_store level_world)"
    by code_simp
qed

section \<open>What a quote promises\<close>



end
