(* ===== verification/Spec2Isabelle.thy ===== *)
theory Spec2Isabelle
  imports
    Order_Policy Charges Numeric Offchain_Payload Recurring_Schedule
    Matching_Engine Grid_Topology Auction_Clearing Settlement_Claims Matcher_Service Clearing_Service
    Outbox Recurring_Orders Price_Alerts Reconciliation Read_Model Matcher_Worker Background_Workers
    Order_Submission Signed_Terms Chain_Settlement Grpc_Orders Zone_Hub Trade_Export Market_Queries
begin

text \<open>
  The GridTokenX trading service: a peer-to-peer energy market (\<open>src/crates\<close>; paths below are relative to
  it).  Orders enter over HTTP or gRPC, are admitted by the order policy and rest in Postgres; a
  continuous double auction matches the realtime market, a uniform price auction clears the
  interval market epoch by epoch; each match is booked as a trade with its settlement; a worker
  settles the trades on Solana in batches; other workers relay events, expire orders, place
  recurring orders, fire price alerts, follow the tariff and audit the ledger; a hub streams the
  market to web sockets.

  \<^bold>\<open>The parts\<close>

  \<^item> Vocabulary.  \<open>Prelude\<close>: 64-bit integers with their saturating, clamping and checked operations,
    \<open>rust_decimal\<close> as rationals with the operations of the record \<open>dec_ops\<close>, the collections
    \<open>i64_simps\<close>, \<open>dec_simps\<close> and \<open>eval_simps\<close>.  \<open>BTree_Map\<close>: the ordered map (locale \<open>ordered_map\<close>).
    \<open>Fast_Price\<close>, \<open>Numeric\<close>, \<open>Domain_Types\<close>, \<open>Offchain_Payload\<close>, \<open>Charges\<close>, \<open>Order_Policy\<close>,
    \<open>Recurring_Schedule\<close>: the files of \<open>trading-core/src\<close> with those names (\<open>Domain_Types\<close> holds
    \<open>types.rs\<close>, \<open>models.rs\<close>, \<open>events.rs\<close>, \<open>error.rs\<close>).  \<open>Charges\<close> states the trait \<open>ChargeRates\<close> as the locale
    \<open>charge_rates\<close> and interprets it by both implementations.
  \<^item> The matching engine, \<open>trading-engine/src/engine.rs\<close>.  \<open>Engine_Types\<close> (orders, results, the grid as the locale
    \<open>grid_topology\<close>), \<open>Engine_Pricing\<close> (\<open>priced_candidate\<close>), \<open>Engine_Gather\<close> (\<open>gather_candidates\<close>), \<open>Engine_Cycle\<close>
    (\<open>match_cycle\<close>: books, fill-or-kill simulation, drain, rebuild, sweep of immediate orders).  Proofs:
    \<open>Engine_Merge\<close> (a full scan finds every crossing sell in landed order, an early stop a prefix that is enough),
    \<open>Engine_Trace\<close> (a cycle as a sequence of guarded fills), \<open>Engine_Clearing\<close> (how a drain ends), \<open>Engine_Runs\<close>
    (what the sequence adds up to), \<open>Matching_Engine\<close> (the properties).  \<open>Grid_Topology\<close>: \<open>trading-logic/src/energy.rs\<close>,
    an interpretation of \<open>grid_topology\<close>.
  \<^item> The interval auction, \<open>uniform_auction.rs\<close>.  \<open>Uniform_Auction\<close> (partition, sweep, settling at the zone's price)
    and \<open>Auction_Clearing\<close> (one rational price per zone, conservation).
  \<^item> The database.  \<open>Store\<close>: the tables as lists of rows, calls and their faults, the world, and the
    predicates \<open>keeps\<close> and \<open>triple\<close> all proofs about calls use.  \<open>Order_Store\<close> and \<open>Settlement_Store\<close>:
    \<open>trading-persistence/src/repositories/order.rs\<close>, \<open>epoch.rs\<close>, \<open>settlement.rs\<close>, statement by statement.
    \<open>Order_Ledger\<close>: the locale \<open>book_statement\<close> (a statement leaves terminal orders alone and keeps identities),
    with an interpretation for every statement on orders, and the atomic booking of a trade.
  \<^item> Matching over the database.  \<open>Match_Booking\<close> (\<open>trading-logic/src/clearing_support.rs\<close>), \<open>Book_Soundness\<close> (what both
    services share), \<open>Matcher_Service\<close> (\<open>matcher_service.rs\<close>), \<open>Clearing_Service\<close> (\<open>clearing.rs\<close>), \<open>Matcher_Worker\<close>
    (\<open>workers/matcher.rs\<close>, a step relation with wake-ups, debounce and ticker).
  \<^item> Settlement.  \<open>Settlement_Service\<close> (\<open>trading-logic/src/settlement.rs\<close>, \<open>workers/settlement.rs\<close>),
    \<open>Settlement_Lifecycle\<close> (rows move along a transition system; the invariant \<open>sinv\<close> of a run), \<open>Settlement_Runs\<close>
    (ticks, requests, sequences of them), \<open>Settlement_Claims\<close> (workers of several replicas interleaving at statements;
    locale \<open>claim_ledger\<close>), \<open>Settlement_Contract\<close> (the interface to the chain, locale \<open>settlement_chain\<close>).
  \<^item> The chain.  \<open>Chain_Gateway\<close> (\<open>trading-infra/src/blockchain/rpc/service.rs\<close>, \<open>blockchain/mod.rs\<close>) and
    \<open>Chain_Settlement\<close> (\<open>blockchain/settlement.rs\<close>: both ways to settle, instruction by instruction), which interprets
    \<open>settlement_chain\<close> by the gateway of the code.  \<open>Signed_Terms\<close>: the bytes a wallet signed, from the request through
    the row to the settlement.
  \<^item> The edges, \<open>trading-api/src\<close>.  \<open>Order_Gates\<close> (the gates both edges share, with the meter repository and
    \<open>order_signature.rs\<close>), \<open>Order_Submission\<close> (\<open>rest/orders.rs\<close>: submit and cancel), \<open>Grpc_Orders\<close> (\<open>handlers.rs\<close>),
    \<open>Market_Queries\<close> (\<open>rest/orders.rs\<close>, \<open>rest/market.rs\<close>: books, prices, quotes), \<open>Trade_Export\<close> (\<open>rest/trades.rs\<close>),
    \<open>Zone_Hub\<close> (\<open>websocket.rs\<close>: hub, pump and sockets as interleaved steps).
  \<^item> The other workers.  \<open>Outbox\<close>, \<open>Recurring_Orders\<close>, \<open>Price_Alerts\<close>, \<open>Reconciliation\<close>, \<open>Read_Model\<close> (the mirrors
    of wallets and meters and the feed that fills them), \<open>Background_Workers\<close> (reaper, tariff poll, supply poll).

  \<^bold>\<open>How code becomes definitions\<close>

  A struct is a record whose fields have a prefix for their type, an enum a datatype with the source's
  constructors.  A \<open>Decimal\<close> is a rational.  Where \<open>rust_decimal\<close> may round or overflow the operation is a field of
  \<open>dec_ops\<close>; \<open>dec_laws\<close> states what its documentation promises (a result that is representable is exact, one in range is
  given, and the rounding of any other is bounded), and \<open>exact_dec\<close> is the instance the runs use.  Prices of the engine are \<open>i64\<close> mantissas with the range
  written out, wire integers are words.  An instant is an integer of nanoseconds.  A call on the database is a
  state-passing function \<open>world \<Rightarrow> (failure + 'a) \<times> world\<close>: \<open>Error e\<close> is the \<open>Err\<close> of the source,
  \<open>Panicked\<close> a panic.  The world carries the tables, the clocks, the identifiers to be drawn, the batches sent to the
  chain, the matcher's permit, and a list of faults: one boolean per call, true when the database does not answer, so a
  theorem without the hypothesis \<open>healthy\<close> holds for any pattern of failing calls.  A statement, and a transaction,
  takes effect as a whole or not at all; concurrency between replicas is interleaving of statements
  (\<open>Settlement_Claims\<close>), between a task and the rest of the process interleaving of steps
  (\<open>Matcher_Worker\<close>, \<open>Zone_Hub\<close>), and across an awaited chain call an arbitrary change of the tables (\<open>Grpc_Orders\<close>).

  Every loop of the source is a structural recursion over what it iterates or a recursion with a measure
  (the merge: entries left in the cursors; the drain: candidates left; the poll for confirmation: milliseconds left), so
  there is no fuel; tasks that never return are step relations.

  \<^bold>\<open>Parameters\<close>, for code that is not in the repository: decimal rounding (\<open>dec_ops\<close>), calendar months, JSON, JWT,
  Base58, Ed25519 and decimal parsing, printing of decimals and instants, the division of numerics in Postgres,
  the event bus, the Solana library (record \<open>client\<close>) and the state of the chain behind it, and \<open>tokio\<close>'s
  broadcast receiver (its law is \<open>broadcast_receiver\<close>).

  \<^bold>\<open>What the theorems show\<close>

  \<^item> Matching: every fill is between two live orders of different users, crosses at the landed cost, respects the
    links of the grid, conserves energy and never overfills; a fill-or-kill order is filled completely or not at all;
    nothing crossing is left on a grid that refuses nothing; stopping a scan early changes nothing there.
  \<^item> The auction: one price per zone that is rational for every fill, and conservation.
  \<^item> Booking: a trade is written as a whole; fills are backed by settlements; terminal orders are final; a cycle
    and a clearing keep the book sound; no wake-up of the matcher is lost.
  \<^item> Settlement: rows only move along their lifecycle; a claim is exclusive; nothing is left in processing without
    faults; nothing is minted twice; over the gateway of the code a completed row stands for a confirmed transaction with
    exactly its terms (below, the two theorems that span the service, the database and the chain).
  \<^item> The edges: an accepted order satisfies every gate, and its row carries its terms; a refusal leaves no trace;
    the signature checked at submission verifies at settlement; a quote is the bill; the export reads back; a
    subscriber learns of every gap.
  \<^item> Workers: the outbox resolves every event; the mirrors converge however the events of different users interleave,
    redelivery included; recurring orders, alerts and the audit do what their rules say.

  Where the code does something its comments exclude, an example run of the model shows it (for instance a
  settlement that landed and is parked as failed, and a filled order that is cancelled).

  \<^bold>\<open>Not modelled\<close>: start-up, configuration and routing; Kafka and Redis clients; JSON; metrics and logs (except the
  audit entries the settlement service writes); futures, carbon, analytics, VPP and forecasting, which touch neither orders nor settlements;
  handlers that only pass a request to one repository method; the static answers of the HTTP edge.
\<close>

section \<open>The settlement service over the gateway of the code\<close>

lemma sent_row:
  assumes "distinct (map sdb_id (rows w))" "r \<in> set (rows w)" "sent_terms st \<in> row_terms ` set (rows w)" "st_id st = sdb_id r"
  shows "sent_terms st = row_terms r"
proof -
  obtain r' where r': "r' \<in> set (rows w)" "sent_terms st = row_terms r'" using assms(3) by blast
  then have "sdb_id r' = sdb_id r" using assms(4) by (simp add: sent_terms_def row_terms_def)
  then show ?thesis using assms(1,2) r' unfolding distinct_map by (metis inj_onD)
qed

text \<open>C10: The service over the gateway of the code.  Start with any ledger whose identifiers are distinct and nothing sent;
  then, whatever the chain, the keys and the tables the gateway reads, over any sequence of worker ticks, batches by
  hand, new settlements and passing time, and with a working database, no settlement is reported settled twice, and
  every one that was is completed in the ledger.\<close>

theorem gateway_mints_once:
  assumes "distinct (map sdb_id (rows w))" "w_sent w = []" "healthy w" "service_run (gateway_chain D K envs c) w w'"
  shows "distinct (minted_ids (gateway_chain D K envs c) (w_sent w')) \<and>
    set (minted_ids (gateway_chain D K envs c) (w_sent w')) \<subseteq> sdb_id ` {r \<in> set (rows w'). sdb_status r = ''completed''}"
  using deployed.run_from_fresh[OF assms] by (auto simp: ledger_shows_def image_iff)


section \<open>A run\<close>

definition settled_world :: world where
  "settled_world = settling_tick Lands False settling_world"

lemma lands_answer: "settling_chain Lands False [] [claimed_trade 0 None] = Inr [confirmed_tx 1 ''0'' 1]"
  using calm_answer
  by (simp add: settling_chain_def gateway_chain_def gateway_call_def calm_gateway_call_def settling_env_def case_prod_beta)

lemma settled_rows:
  "map (\<lambda>r. (sdb_id r, sdb_status r, row_terms r)) (rows settled_world)
     = [(1, ''completed'', row_terms (example_settlement 1 ''pending'' 0))]"
  "w_sent settled_world = [[claimed_trade 0 None]]"
  by (simp_all add: settled_world_def row_terms_def settling_defs confirmed_tx_def
      lands_answer[unfolded claimed_trade_def settlement_of_row_def example_settlement_def, simplified])

lemma settled_run:
  "map (\<lambda>r. (sdb_id r, sdb_status r)) (rows settled_world) = [(1, ''completed'')]"
  "minted_ids (settling_chain Lands False) (w_sent settled_world) = [1]"
  using settled_rows(1) by (auto simp: map_eq_Cons_conv settled_rows(2) minted_ids_def answer_ids_def lands_answer confirmed_tx_def)

lemma settled_row:
  assumes "r \<in> set (rows settled_world)"
  shows "sdb_energy_amount r = 2 \<and> ledger_amounts (settlement_of_row r)"
proof -
  have "row_terms r = row_terms (example_settlement 1 ''pending'' 0)"
    using settled_rows(1) assms by (auto simp: map_eq_Cons_conv)
  moreover have "grid8 (numeral n)" for n unfolding grid8_def by (rule exI[of _ "numeral n * 10 ^ 8"]) simp
  moreover have "grid8 0" unfolding grid8_def by (rule exI[of _ 0]) simp
  ultimately show ?thesis
    by (simp add: row_terms_def example_settlement_def settlement_of_row_def ledger_amounts_def column_amount_def)
qed

lemma settling_start:
  "distinct (map sdb_id (rows settling_world))" "w_sent settling_world = []" "healthy settling_world" "map sdb_status (rows settling_world) = [''pending'']"
  by (simp_all add: settling_defs healthy_def)

theorem gateway_mints_once_witness:
  "minted_ids (settling_chain Lands False) (w_sent settled_world) = [1] \<and>
   set (minted_ids (settling_chain Lands False) (w_sent settled_world)) \<subseteq> sdb_id ` {r \<in> set (rows settled_world). sdb_status r = ''completed''}"
proof -
  have "service_run (settling_chain Lands False) settling_world settled_world"
    unfolding settled_world_def settling_tick_def by (intro service_run.intros)
  from gateway_mints_once[OF settling_start(1-3) this[unfolded settling_chain_def]] settled_run(2)
  show ?thesis by (simp add: settling_chain_def)
qed


end
